(* ===== verification/EB_Prelude.thy ===== *)
theory EB_Prelude
  imports Main "HOL-Library.Word" "HOL-Library.Monad_Syntax"
begin

unbundle bit_operations_syntax

text \<open>
  The prelude: the machine integer types of the program, the formatted output the code
  builds its trace lines with (the conversions of \<open>printf\<close> the source uses), and the
  generic lemmas on lists and words that the components share.
\<close>

section \<open>Machine integers\<close>

type_synonym u8 = "8 word"
type_synonym u16 = "16 word"
type_synonym u32 = "32 word"
type_synonym u64 = "64 word"

text \<open>A byte buffer with its length: the pointer and the \<open>size_t\<close> of the C++ code.\<close>
type_synonym bytes = "u8 list"

named_theorems host_defs "definitions of the host environment that proofs unfold"
named_theorems frame_simps "fields an operation leaves alone"

section \<open>Formatted output\<close>

text \<open>The digit characters of \<open>%u\<close> and \<open>%X\<close>.\<close>

definition digit_char :: "nat \<Rightarrow> char" where
  "digit_char d = (if d < 10 then char_of (48 + d) else char_of (55 + d))"

text \<open>\<open>%u\<close> (and \<open>%llu\<close>): decimal without padding.\<close>

fun dec :: "nat \<Rightarrow> string" where
  "dec n = (if n < 10 then [digit_char n] else dec (n div 10) @ [digit_char (n mod 10)])"

declare dec.simps [simp del]

definition decw :: "'a::len word \<Rightarrow> string" where
  "decw w = dec (unat w)"

text \<open>\<open>%u\<close> of a \<open>size_t\<close> cast to \<open>unsigned\<close>.\<close>

definition decu :: "nat \<Rightarrow> string" where
  "decu n = dec (n mod 2 ^ 32)"

text \<open>\<open>%0<w>u\<close>: decimal, zero padded to \<open>w\<close> characters.\<close>

definition pad0 :: "nat \<Rightarrow> string \<Rightarrow> string" where
  "pad0 w s = replicate (w - length s) (CHR ''0'') @ s"

text \<open>\<open>%02X\<close> of a byte and \<open>%04X\<close> of a half word.\<close>

definition hex2 :: "u8 \<Rightarrow> string" where
  "hex2 b = [digit_char (unat b div 16), digit_char (unat b mod 16)]"

definition hex4 :: "u16 \<Rightarrow> string" where
  "hex4 w = [digit_char (unat w div 4096), digit_char (unat w div 256 mod 16),
             digit_char (unat w div 16 mod 16), digit_char (unat w mod 16)]"

text \<open>\<open>%0<w>X\<close>: hexadecimal, zero padded to at least \<open>w\<close> characters.\<close>

fun hex :: "nat \<Rightarrow> string" where
  "hex n = (if n < 16 then [digit_char n] else hex (n div 16) @ [digit_char (n mod 16)])"

declare hex.simps [simp del]

definition hexpad :: "nat \<Rightarrow> 'a::len word \<Rightarrow> string" where
  "hexpad w v = pad0 w (hex (unat v))"

text \<open>A byte as the character it is, and a character as its byte.\<close>

definition byte_char :: "u8 \<Rightarrow> char" where
  "byte_char b = char_of (unat b)"

definition char_byte :: "char \<Rightarrow> u8" where
  "char_byte c = of_nat (of_char c :: nat)"

text \<open>The number a string of decimal digits stands for.\<close>

definition dec_digit :: "char \<Rightarrow> bool" where
  "dec_digit c \<longleftrightarrow> 48 \<le> (of_char c :: nat) \<and> (of_char c :: nat) \<le> 57"

definition read_dec :: "string \<Rightarrow> nat" where
  "read_dec s = fold (\<lambda>c v. 10 * v + (of_char c - 48)) s 0"

lemma dec_digit_char [simp]: "d < 10 \<Longrightarrow> dec_digit (digit_char d)" "d < 10 \<Longrightarrow> of_char (digit_char d) = 48 + d"
  by (simp_all add: dec_digit_def digit_char_def)

lemma dec_digits: "c \<in> set (dec n) \<Longrightarrow> dec_digit c"
proof (induction n rule: dec.induct)
  case (1 n)
  then show ?case by (subst (asm) (2) dec.simps) (auto split: if_splits)
qed

lemma read_dec_dec: "read_dec (dec n) = n"
proof (induction n rule: dec.induct)
  case (1 n)
  then show ?case by (subst dec.simps) (auto simp: read_dec_def)
qed

lemma length_dec: "0 < k \<Longrightarrow> n < 10 ^ k \<Longrightarrow> length (dec n) \<le> k"
proof (induction n arbitrary: k rule: dec.induct)
  case (1 n)
  show ?case
  proof (cases "n < 10")
    case False
    obtain j where k: "k = Suc j" using 1(2) by (cases k) auto
    have "j \<noteq> 0" using 1(3) False k by (intro notI) simp
    then have j: "k = Suc j" "0 < j" using k by simp_all
    then have "n div 10 < 10 ^ j" using 1(3) by (simp add: less_mult_imp_div_less mult.commute)
    then show ?thesis using 1(1) [OF False j(2)] False j by (subst dec.simps) simp
  qed (use 1(2) in \<open>subst dec.simps, simp\<close>)
qed

text \<open>\<open>snprintf (out, cap, ...)\<close> keeps at most \<open>cap - 1\<close> characters.\<close>

definition clip :: "nat \<Rightarrow> string \<Rightarrow> string" where
  "clip cap s = take (cap - 1) s"

definition bool_dec :: "bool \<Rightarrow> string" where
  "bool_dec b = (if b then ''1'' else ''0'')"

lemma length_clip [simp]: "length (clip cap s) \<le> cap - Suc 0"
  by (simp add: clip_def)

lemma length_hex2 [simp]: "length (hex2 b) = 2"
  by (simp add: hex2_def)

lemma length_hex4 [simp]: "length (hex4 w) = 4"
  by (simp add: hex4_def)

lemma byte_char_char_byte [simp]: "byte_char (char_byte c) = c"
proof -
  have "unat (of_nat (of_char c :: nat) :: u8) = of_char c"
    by (simp add: unat_of_nat)
  then show ?thesis
    by (simp add: byte_char_def char_byte_def)
qed

lemma char_byte_byte_char [simp]: "char_byte (byte_char b) = b"
proof -
  have "unat b < 256" using unsigned_less [of b, where 'a = nat] by simp
  then show ?thesis
    by (simp add: byte_char_def char_byte_def)
qed

text \<open>The digits of \<open>%X\<close> are distinct, so two bytes print alike only when they are equal.\<close>

lemma digit_char_inject:
  assumes "d < 16" and "e < 16" and "digit_char d = digit_char e"
  shows "d = e"
proof -
  have "(of_char (digit_char d) :: nat) = of_char (digit_char e)"
    using assms(3) by simp
  then show ?thesis
    using assms(1,2)
    by (simp add: digit_char_def split: if_splits)
qed

lemma hex2_inject [simp]: "hex2 a = hex2 b \<longleftrightarrow> a = b"
proof
  assume eq: "hex2 a = hex2 b"
  have a: "unat a < 256" and b: "unat b < 256"
    using unsigned_less [of a, where 'a = nat] unsigned_less [of b, where 'a = nat] by simp_all
  have "unat a div 16 = unat b div 16" "unat a mod 16 = unat b mod 16"
    using eq a b by (auto simp: hex2_def intro!: digit_char_inject)
  then have "unat a = unat b" by (metis div_mult_mod_eq)
  then show "a = b" by (simp add: word_unat_eq_iff)
qed simp

section \<open>Lists\<close>

lemma list_update_append_last [simp]:
  "(xs @ [x])[length xs := y] = xs @ [y]"
  by (simp add: list_update_append)

lemma sum_list_replicate_word:
  "sum_list (replicate n (x :: 'a::len word)) = of_nat n * x"
  by (induction n) (simp_all add: algebra_simps)

text \<open>A run of \<open>c\<close> blocks of width \<open>w\<close>, summed block by block or position by position.\<close>

lemma sum_blocks:
  fixes f :: "nat \<Rightarrow> 'a::comm_monoid_add"
  shows "(\<Sum>i<w * c. f i) = (\<Sum>k<w. \<Sum>j<c. f (w * j + k))"
proof (induction c)
  case 0
  then show ?case by simp
next
  case (Suc c)
  have shift: "(\<Sum>i=w * c..<w * c + w. f i) = (\<Sum>k<w. f (w * c + k))"
    using sum.shift_bounds_nat_ivl [of f 0 "w * c" w] by (simp add: add.commute lessThan_atLeast0)
  have "(\<Sum>i<w * Suc c. f i) = (\<Sum>i=0..<w * c + w. f i)"
    by (simp add: lessThan_atLeast0 add.commute)
  also have "\<dots> = (\<Sum>i<w * c. f i) + (\<Sum>k<w. f (w * c + k))"
    using sum.atLeastLessThan_concat [of 0 "w * c" "w * c + w" f] shift
    by (simp add: lessThan_atLeast0)
  also have "\<dots> = (\<Sum>k<w. \<Sum>j<Suc c. f (w * j + k))"
    by (simp add: Suc.IH sum.distrib add.commute)
  finally show ?case .
qed

lemma sum_list_take_drop_index:
  assumes "s + n \<le> length xs"
  shows "sum_list (map f (take n (drop s xs))) = (\<Sum>i<n. f (xs ! (s + i)))"
proof -
  have "map f (take n (drop s xs)) = map (\<lambda>i. f (xs ! (s + i))) [0..<n]"
    using assms by (intro nth_equalityI) auto
  then show ?thesis by (simp add: interv_sum_list_conv_sum_set_nat lessThan_atLeast0)
qed

text \<open>A loop over an index range that stops at the first hit.\<close>

lemma find_upt_Some:
  "List.find P [0..<n] = Some i \<longleftrightarrow> i < n \<and> P i \<and> (\<forall>j<i. \<not> P j)"
  by (auto simp: find_Some_iff)

lemma find_upt_None: "List.find P [0..<n] = None \<longleftrightarrow> (\<forall>j<n. \<not> P j)"
  by (auto simp: find_None_iff)

section \<open>Words\<close>

lemma unat_add_no_overflow:
  fixes a b :: "'a::len word"
  assumes "unat a + unat b < 2 ^ LENGTH('a)"
  shows "unat (a + b) = unat a + unat b"
  using assms by (simp add: unat_word_ariths)

lemma u64_less_add:
  fixes a b :: u64
  assumes "unat a + unat b < 2 ^ 64"
  shows "unat (a + b) = unat a + unat b"
  using unat_add_no_overflow [of a b] assms by simp

lemma unat_ucast_32_64 [simp]: "unat (ucast (x :: u32) :: u64) = unat x"
proof -
  have "unat x < 2 ^ 32" using unsigned_less [of x, where 'a = nat] by simp
  then show ?thesis by (simp add: unsigned_ucast_eq take_bit_eq_mod)
qed

lemma xor_cancel:
  fixes a b c :: "'a::len word"
  shows "a XOR c = b XOR c \<longleftrightarrow> a = b"
proof
  assume "a XOR c = b XOR c"
  then have "(a XOR c) XOR c = (b XOR c) XOR c" by (rule arg_cong)
  then show "a = b" by (simp add: xor.assoc)
qed simp

end
