(* ===== verification/Payload_Labels.thy ===== *)
theory Payload_Labels
  imports EB_Prelude
begin

text \<open>
  How the host environment writes payloads into the one-line records of its trace
  (\<open>src/src/embedbench_host.cpp\<close>): hex dumps, the CRC-8 of a summarised payload, the label
  of a byte string and the shape of a line. Output buffers are the returned strings; the
  capacity arguments are those of the C++ functions.
\<close>

section \<open>CRC-8/ATM\<close>

text \<open>One turn of the bit loop.\<close>

definition crc8_bit :: "u8 \<Rightarrow> u8" where
  "crc8_bit crc = (if crc AND 0x80 \<noteq> 0 then push_bit 1 crc XOR 0x07 else push_bit 1 crc)"

definition crc8Step :: "u8 \<Rightarrow> u8 \<Rightarrow> u8" where
  "crc8Step crc v = (crc8_bit ^^ 8) (crc XOR v)"

text \<open>The loop over a buffer, with its own copy of the bit loop.\<close>

fun crc8_loop :: "u8 \<Rightarrow> bytes \<Rightarrow> u8" where
  "crc8_loop crc [] = crc"
| "crc8_loop crc (b # bs) = crc8_loop ((crc8_bit ^^ 8) (crc XOR b)) bs"

definition crc8 :: "bytes \<Rightarrow> u8" where
  "crc8 data = crc8_loop 0 data"

section \<open>Labels\<close>

text \<open>
  \<open>hexOf\<close>: two digits per byte while three more characters fit the capacity.
  \<open>pos\<close> is the number of characters written so far.
\<close>

fun hexOf_loop :: "nat \<Rightarrow> nat \<Rightarrow> bytes \<Rightarrow> string" where
  "hexOf_loop cap pos [] = []"
| "hexOf_loop cap pos (b # bs) =
     (if pos + 3 \<le> cap then hex2 b @ hexOf_loop cap (pos + 2) bs else [])"

definition hexOf :: "bytes \<Rightarrow> nat \<Rightarrow> string" where
  "hexOf data cap = hexOf_loop cap 0 data"

definition payloadLabel :: "bytes \<Rightarrow> nat \<Rightarrow> string" where
  "payloadLabel data cap =
     (if length data = 0 then clip cap ''empty''
      else if length data \<le> 4 then clip cap (''data='' @ hexOf data 12)
      else clip cap (''len='' @ decu (length data) @ '' crc='' @ hex2 (crc8 data)))"

definition printable :: "u8 \<Rightarrow> bool" where
  "printable b \<longleftrightarrow> 0x20 \<le> b \<and> b \<le> 0x7E"

definition line_ending :: "u8 \<Rightarrow> bool" where
  "line_ending b \<longleftrightarrow> b = 13 \<or> b = 10 \<or> b = 9"

text \<open>The characters a renderable byte is written as.\<close>

definition render_byte :: "u8 \<Rightarrow> string" where
  "render_byte b =
     (if printable b then [byte_char b]
      else [CHR 0x5C, if b = 13 then CHR ''r'' else if b = 10 then CHR ''n'' else CHR ''t''])"

definition bytesLabel :: "bytes \<Rightarrow> nat \<Rightarrow> string" where
  "bytesLabel data cap =
     (let renderable = (data \<noteq> [] \<and> list_all (\<lambda>b. printable b \<or> line_ending b) data);
          needed = sum_list (map (\<lambda>b. if printable b then 1 else 2) data)
      in if \<not> renderable \<or> needed + 1 > cap then payloadLabel data cap
         else concat (map render_byte data))"

section \<open>The shape of a line\<close>

definition hex_digit :: "char \<Rightarrow> bool" where
  "hex_digit c \<longleftrightarrow> (let n = (of_char c :: nat) in (48 \<le> n \<and> n \<le> 57) \<or> (65 \<le> n \<and> n \<le> 70))"

fun shape_chars :: "bool \<Rightarrow> string \<Rightarrow> string" where
  "shape_chars inDigits [] = []"
| "shape_chars inDigits (c # cs) =
     (if hex_digit c then (if inDigits then shape_chars True cs else CHR ''*'' # shape_chars True cs)
      else c # shape_chars False cs)"

text \<open>The output buffer of \<open>cap\<close> characters ends the scan when it is full.\<close>

definition shapeOf :: "nat \<Rightarrow> string \<Rightarrow> string" where
  "shapeOf cap text = take (cap - 1) (shape_chars False text)"

section \<open>Properties of the CRC\<close>

lemma crc8_loop_foldl: "crc8_loop crc data = foldl crc8Step crc data"
  by (induction data arbitrary: crc) (simp_all add: crc8Step_def)

lemma crc8_foldl: "crc8 data = foldl crc8Step 0 data"
  by (simp add: crc8_def crc8_loop_foldl)

lemma and_0x80_bit: "(x :: u8) AND 0x80 \<noteq> 0 \<longleftrightarrow> bit x 7"
proof -
  have "(0x80 :: u8) = 2 ^ 7" by simp
  then show ?thesis by (simp only: and_exp_eq_0_iff_not_bit) simp
qed

lemma crc8_bit_alt: "crc8_bit x = push_bit 1 x XOR (if bit x 7 then 7 else 0)"
  using and_0x80_bit [of x] by (simp add: crc8_bit_def)

lemma crc8_bit_xor: "crc8_bit (a XOR b) = crc8_bit a XOR crc8_bit b"
  by (simp only: crc8_bit_alt push_bit_xor bit_xor_iff)
     (auto simp: xor.assoc xor.left_commute xor.commute)

lemma crc8_bit_0 [simp]: "crc8_bit 0 = 0"
  by (simp add: crc8_bit_def)

lemma xor_eq_0_iff: "a XOR b = 0 \<longleftrightarrow> a = (b :: u8)"
proof
  assume "a XOR b = 0"
  then have "(a XOR b) XOR b = 0 XOR b" by (rule arg_cong)
  then show "a = b" by (simp add: xor.assoc)
qed simp

lemma crc8_bit_zeroD:
  assumes "crc8_bit x = 0"
  shows "x = 0"
proof -
  have no7: "\<not> bit x 7"
  proof
    assume "bit x 7"
    then have "push_bit 1 x XOR 7 = 0" using assms by (simp add: crc8_bit_alt)
    then have "push_bit 1 x = 7" by (simp only: xor_eq_0_iff)
    then have "bit (push_bit 1 x) 0 = bit (7 :: u8) 0" by (rule arg_cong)
    moreover have "\<not> bit (push_bit 1 x) 0" by (simp only: bit_push_bit_iff) simp
    ultimately show False by simp
  qed
  then have z: "push_bit 1 x = 0" using assms by (simp add: crc8_bit_alt)
  show ?thesis
  proof (rule bit_eqI)
    fix n
    assume "possible_bit TYPE(u8) n"
    then have n: "n < 8" by simp
    show "bit x n = bit 0 n"
    proof (cases "n = 7")
      case True
      then show ?thesis using no7 by simp
    next
      case False
      then have "bit x n = bit (push_bit 1 x) (Suc n)"
        using n by (simp only: bit_push_bit_iff) simp
      then show ?thesis using z by simp
    qed
  qed
qed

lemma crc8_iter_xor: "(crc8_bit ^^ n) (a XOR b) = (crc8_bit ^^ n) a XOR (crc8_bit ^^ n) b"
  by (induction n) (simp_all add: crc8_bit_xor)

lemma crc8_iter_zeroD: "(crc8_bit ^^ n) x = 0 \<Longrightarrow> x = 0"
  by (induction n) (auto dest: crc8_bit_zeroD)

lemma crc8_iter_inject: "(crc8_bit ^^ n) a = (crc8_bit ^^ n) b \<longleftrightarrow> a = b"
proof
  assume "(crc8_bit ^^ n) a = (crc8_bit ^^ n) b"
  then have "(crc8_bit ^^ n) (a XOR b) = 0" by (simp add: crc8_iter_xor)
  then have "a XOR b = 0" by (rule crc8_iter_zeroD)
  then show "a = b" by (simp only: xor_eq_0_iff)
qed simp

lemma crc8Step_inject_crc: "crc8Step c v = crc8Step d v \<longleftrightarrow> c = d"
  by (simp only: crc8Step_def crc8_iter_inject xor_cancel)

lemma crc8Step_inject_value: "crc8Step c v = crc8Step c w \<longleftrightarrow> v = w"
  by (simp only: crc8Step_def crc8_iter_inject xor.commute [of c] xor_cancel)

lemma foldl_crc8Step_inject: "foldl crc8Step c ys = foldl crc8Step d ys \<longleftrightarrow> c = d"
  by (induction ys arbitrary: c d) (auto simp: crc8Step_inject_crc)

text \<open>
  The bits of one turn of the loop, and the fixed points of a whole byte step: the eight
  bits of such a byte satisfy eight linear equations with two solutions.
\<close>

lemma bit_crc8_bit:
  "bit (crc8_bit x) 0 \<longleftrightarrow> bit x 7"
  "bit (crc8_bit x) 1 \<longleftrightarrow> bit x 0 \<noteq> bit x 7"
  "bit (crc8_bit x) 2 \<longleftrightarrow> bit x 1 \<noteq> bit x 7"
  "bit (crc8_bit x) 3 \<longleftrightarrow> bit x 2"
  "bit (crc8_bit x) 4 \<longleftrightarrow> bit x 3"
  "bit (crc8_bit x) 5 \<longleftrightarrow> bit x 4"
  "bit (crc8_bit x) 6 \<longleftrightarrow> bit x 5"
  "bit (crc8_bit x) 7 \<longleftrightarrow> bit x 6"
  by (simp_all only: crc8_bit_alt bit_xor_iff bit_push_bit_iff) auto

lemma u8_eq_bitsI:
  assumes "bit a 0 = bit b 0" "bit a 1 = bit b 1" "bit a 2 = bit b 2" "bit a 3 = bit b 3"
    and "bit a 4 = bit b 4" "bit a 5 = bit b 5" "bit a 6 = bit b 6" "bit a 7 = bit b 7"
  shows "a = (b :: u8)"
proof (rule bit_eqI)
  fix n
  assume "possible_bit TYPE(u8) n"
  then have "n \<in> {0,1,2,3,4,5,6,7}" by auto
  then show "bit a n = bit b n" using assms by auto
qed

lemma funpow_8: "(f ^^ 8) x = f (f (f (f (f (f (f (f x)))))))"
  by (simp add: numeral_eq_Suc)

text \<open>
  The difference \<open>D x = crc8_bit x XOR x\<close> is linear, and eight turns differ from none by
  eight applications of it; its kernel has one byte other than 0, which it never yields.
\<close>

definition crc8_diff :: "u8 \<Rightarrow> u8" where
  "crc8_diff x = crc8_bit x XOR x"

lemma diff_square:
  fixes g :: "u8 \<Rightarrow> u8"
  assumes "\<And>a b. g (a XOR b) = g a XOR g b"
  shows "g (g x XOR x) XOR (g x XOR x) = g (g x) XOR x"
  by (simp add: assms xor.assoc)

lemma crc8_diff_kernel: "crc8_diff x = 0 \<longleftrightarrow> x = 0 \<or> x = 0xFD"
proof
  assume "crc8_diff x = 0"
  then have "bit (crc8_bit x) n = bit x n" for n by (simp add: crc8_diff_def xor_eq_0_iff)
  note eqs = this [of 0, unfolded bit_crc8_bit] this [of 1, unfolded bit_crc8_bit]
    this [of 2, unfolded bit_crc8_bit] this [of 3, unfolded bit_crc8_bit]
    this [of 4, unfolded bit_crc8_bit] this [of 5, unfolded bit_crc8_bit]
    this [of 6, unfolded bit_crc8_bit] this [of 7, unfolded bit_crc8_bit]
  show "x = 0 \<or> x = 0xFD"
  proof (cases "bit x 7")
    case True
    then have "x = 0xFD" using eqs by (intro u8_eq_bitsI) simp_all
    then show ?thesis ..
  next
    case False
    then have "x = 0" using eqs by (intro u8_eq_bitsI) simp_all
    then show ?thesis ..
  qed
qed (auto simp: crc8_diff_def crc8_bit_def)

lemma crc8_diff_not_0xFD: "crc8_diff x \<noteq> 0xFD"
proof
  assume "crc8_diff x = 0xFD"
  then have b: "bit (crc8_bit x XOR x) n = bit (0xFD :: u8) n" for n
    by (simp only: crc8_diff_def)
  note eqs = b [of 0, unfolded bit_xor_iff bit_crc8_bit] b [of 1, unfolded bit_xor_iff bit_crc8_bit]
    b [of 2, unfolded bit_xor_iff bit_crc8_bit] b [of 3, unfolded bit_xor_iff bit_crc8_bit]
    b [of 4, unfolded bit_xor_iff bit_crc8_bit] b [of 5, unfolded bit_xor_iff bit_crc8_bit]
    b [of 6, unfolded bit_xor_iff bit_crc8_bit] b [of 7, unfolded bit_xor_iff bit_crc8_bit]
  show False using eqs by (cases "bit x 7") simp_all
qed

lemma crc8_diff_zeroD: "crc8_diff (crc8_diff x) = 0 \<Longrightarrow> crc8_diff x = 0"
  using crc8_diff_kernel [of "crc8_diff x"] crc8_diff_not_0xFD [of x] by simp

lemma crc8_diff_8: "(crc8_diff ^^ 8) x = (crc8_bit ^^ 8) x XOR x"
proof -
  define D2 where "D2 y = crc8_bit (crc8_bit y) XOR y" for y
  define D4 where "D4 y = crc8_bit (crc8_bit (crc8_bit (crc8_bit y))) XOR y" for y
  have d2: "crc8_diff (crc8_diff y) = D2 y" for y
    unfolding crc8_diff_def D2_def by (rule diff_square) (rule crc8_bit_xor)
  have d4: "D2 (D2 y) = D4 y" for y
    unfolding D2_def D4_def by (rule diff_square) (simp only: crc8_bit_xor)
  have d8: "D4 (D4 y) = (crc8_bit ^^ 8) y XOR y" for y
    unfolding D4_def funpow_8 by (rule diff_square) (simp only: crc8_bit_xor)
  show ?thesis by (simp only: funpow_8 [of crc8_diff] d2 d4 d8)
qed

lemma crc8_fixed_iff: "(crc8_bit ^^ 8) d = d \<longleftrightarrow> d = 0 \<or> d = 0xFD"
proof
  assume "(crc8_bit ^^ 8) d = d"
  then have "(crc8_diff ^^ 8) d = 0" by (simp add: crc8_diff_8)
  then have "crc8_diff d = 0"
    unfolding funpow_8 by (auto dest!: crc8_diff_zeroD)
  then show "d = 0 \<or> d = 0xFD" by (simp only: crc8_diff_kernel)
next
  assume "d = 0 \<or> d = 0xFD"
  then have "crc8_diff d = 0" by (simp only: crc8_diff_kernel)
  then have "crc8_bit d = d" by (simp add: crc8_diff_def xor_eq_0_iff)
  then show "(crc8_bit ^^ 8) d = d" by (simp only: funpow_8)
qed

section \<open>Properties of the labels\<close>

lemma length_hexOf_loop: "pos + 1 \<le> cap \<Longrightarrow> pos + length (hexOf_loop cap pos data) + 1 \<le> cap"
proof (induction data arbitrary: pos)
  case (Cons b bs)
  then show ?case using Cons.IH [of "pos + 2"] by auto
qed simp

lemma length_hexOf: "0 < cap \<Longrightarrow> length (hexOf data cap) < cap"
  using length_hexOf_loop [of 0 cap data] by (simp add: hexOf_def)

lemma hexOf_loop_all: "pos + 2 * length data + 1 \<le> cap \<Longrightarrow> hexOf_loop cap pos data = concat (map hex2 data)"
  by (induction data arbitrary: pos) auto

lemma hexOf_12: "length data \<le> 5 \<Longrightarrow> hexOf data 12 = concat (map hex2 data)"
  by (simp add: hexOf_def hexOf_loop_all)

lemma concat_hex2_inject:
  "length xs = length ys \<Longrightarrow> concat (map hex2 xs) = concat (map hex2 ys) \<longleftrightarrow> xs = ys"
proof (induction xs ys rule: list_induct2)
  case Nil
  then show ?case by simp
next
  case (Cons x xs y ys)
  have "hex2 x @ concat (map hex2 xs) = hex2 y @ concat (map hex2 ys) \<longleftrightarrow>
        hex2 x = hex2 y \<and> concat (map hex2 xs) = concat (map hex2 ys)"
    by (rule append_eq_append_conv) simp
  then show ?case using Cons.IH by simp
qed

lemma length_concat_hex2 [simp]: "length (concat (map hex2 xs)) = 2 * length xs"
  by (induction xs) auto

lemma length_payloadLabel: "length (payloadLabel data cap) \<le> cap - Suc 0"
  by (simp add: payloadLabel_def)

lemma length_render_byte: "length (render_byte b) = (if printable b then 1 else 2)"
  by (simp add: render_byte_def)

lemma length_bytesLabel: "length (bytesLabel data cap) \<le> cap - Suc 0"
proof -
  have "length (concat (map render_byte data)) =
        sum_list (map (\<lambda>b. if printable b then 1 else 2) data)"
    by (simp add: length_concat length_render_byte comp_def cong: map_cong)
  then show ?thesis
    by (auto simp: bytesLabel_def Let_def length_payloadLabel)
qed

lemma length_shape_chars: "length (shape_chars d s) \<le> length s"
  by (induction d s rule: shape_chars.induct) auto

lemma shape_chars_no_hex: "c \<in> set (shape_chars d s) \<Longrightarrow> \<not> hex_digit c"
  by (induction d s rule: shape_chars.induct) (auto simp: hex_digit_def split: if_splits)

lemma shape_chars_id: "\<forall>c\<in>set s. \<not> hex_digit c \<Longrightarrow> shape_chars d s = s"
  by (induction d s rule: shape_chars.induct) auto

lemma shapeOf_no_hex: "c \<in> set (shapeOf cap s) \<Longrightarrow> \<not> hex_digit c"
  by (auto simp: shapeOf_def dest!: in_set_takeD shape_chars_no_hex)

lemma hexOf_loop_room:
  "n = (cap - 1 - pos) div 2 \<Longrightarrow> pos + 1 \<le> cap \<Longrightarrow> hexOf_loop cap pos data = concat (map hex2 (take n data))"
proof (induction data arbitrary: pos n)
  case (Cons b bs)
  show ?case
  proof (cases "pos + 3 \<le> cap")
    case True
    then have "(cap - 1 - pos) div 2 = Suc ((cap - 1 - (pos + 2)) div 2)" by simp
    then show ?thesis using Cons True by simp
  next
    case False
    then have "n = 0" using Cons.prems by simp
    then show ?thesis using False by simp
  qed
qed simp

section \<open>What a summary tells apart\<close>

text \<open>The two implementations of the checksum agree: the one over a whole buffer
  (\<open>crc8\<close>, with its own bit loop) is the running one (\<open>crc8Step\<close>) folded over its bytes, so a
  summary built incrementally in an SPI transaction carries the checksum of its payload.\<close>

theorem crc8_incremental: "crc8 data = foldl crc8Step 0 data"
  by (rule crc8_foldl)

text \<open>A payload in which one byte changed has a different checksum, wherever it is.\<close>

theorem crc8_one_byte_changed: "crc8 (pre @ a # suf) = crc8 (pre @ b # suf) \<longleftrightarrow> a = b"
  by (simp add: crc8_foldl foldl_crc8Step_inject crc8Step_inject_value)

text \<open>Exactly which transpositions of neighbouring bytes the checksum misses: those of two
  bytes that differ by \<open>0xFD\<close>. Every other swap of neighbours changes it.\<close>

theorem crc8_swapped_neighbours:
  "crc8 (pre @ a # b # suf) = crc8 (pre @ b # a # suf) \<longleftrightarrow> a = b \<or> a XOR b = 0xFD"
proof -
  let ?F = "crc8_bit ^^ 8" and ?c = "foldl crc8Step 0 pre"
  have "crc8 (pre @ a # b # suf) = crc8 (pre @ b # a # suf) \<longleftrightarrow>
      ?F (?F (?c XOR a) XOR b) = ?F (?F (?c XOR b) XOR a)"
    by (simp add: crc8_foldl foldl_crc8Step_inject crc8Step_def)
  also have "\<dots> \<longleftrightarrow> ?F (?c XOR a) XOR b = ?F (?c XOR b) XOR a" by (rule crc8_iter_inject)
  also have "\<dots> \<longleftrightarrow> (?F (?c XOR a) XOR b) XOR (?F (?c XOR b) XOR a) = 0" by (simp only: xor_eq_0_iff)
  also have "(?F (?c XOR a) XOR b) XOR (?F (?c XOR b) XOR a) = ?F (a XOR b) XOR (a XOR b)"
    by (simp add: crc8_iter_xor xor.assoc xor.left_commute xor.commute)
  also have "?F (a XOR b) XOR (a XOR b) = 0 \<longleftrightarrow> ?F (a XOR b) = a XOR b" by (simp only: xor_eq_0_iff)
  also have "\<dots> \<longleftrightarrow> a XOR b = 0 \<or> a XOR b = 0xFD" by (rule crc8_fixed_iff)
  finally show ?thesis by (simp only: xor_eq_0_iff)
qed

text \<open>A payload of up to four bytes is printed in full: no other payload, of any length,
  has the same label in a frame line.\<close>

theorem payload_label_exact:
  "length xs \<le> 4 \<Longrightarrow> payloadLabel xs 20 = payloadLabel ys 20 \<longleftrightarrow> xs = ys"
proof -
  assume xs: "length xs \<le> 4"
  have small: "payloadLabel zs 20 = (if zs = [] then ''empty'' else ''data='' @ concat (map hex2 zs))"
    if "length zs \<le> 4" for zs
    using that by (auto simp: payloadLabel_def clip_def hexOf_12)
  have big: "\<exists>s. payloadLabel zs 20 = ''len='' @ s" if "\<not> length zs \<le> 4" for zs
    using that by (auto simp: payloadLabel_def clip_def)
  have same: "length xs = length ys" if "length ys \<le> 4" "concat (map hex2 xs) = concat (map hex2 ys)"
    using arg_cong [OF that(2), of length] by simp
  show ?thesis
    using small [OF xs] small [of ys] big [of ys] same concat_hex2_inject [of xs ys]
    by (cases "length ys \<le> 4") auto
qed

theorem payload_label_exact_witness:
  "payloadLabel [0xA0] 20 \<noteq> payloadLabel [0xA1] 20"
  using payload_label_exact [of "[0xA0]" "[0xA1]"] by simp

end
