(* ===== verification/Event_Record.thy ===== *)
theory Event_Record
  imports Payload_Labels
begin

text \<open>
  The recorded events of a run and the two folding tiers of the trace buffer
  (\<open>foldCycle\<close> and \<open>foldShapeCycle\<close> of \<open>src/src/embedbench_host.cpp\<close>), as functions on the
  list of the events held: the first \<open>count\<close> entries of the array \<open>buf\<close>.
\<close>

section \<open>Events\<close>

text \<open>\<open>enum class Origin\<close>\<close>
datatype origin = kApp | kDir | kDev | kCore | kDiag

text \<open>\<open>struct Event\<close>\<close>
record event =
  ev_seq :: u32
  ev_time :: u64
  ev_ctx :: u8
  ev_origin :: origin
  ev_link :: u32
  ev_repeats :: u32
  ev_last_time :: u64
  ev_text :: string

text \<open>\<open>sizeof (Event::text)\<close>\<close>
definition text_cap :: nat where "text_cap = 56"

definition kCapacity :: nat where "kCapacity = 64"

section \<open>Searching for a cycle\<close>

text \<open>
  Both tiers compare blocks of keys, the texts of the events or their shapes: the block of
  \<open>width\<close> keys at \<open>a\<close> and the one at \<open>b\<close>, entry by entry.
\<close>

definition same_block :: "'k list \<Rightarrow> nat \<Rightarrow> nat \<Rightarrow> nat \<Rightarrow> bool" where
  "same_block ks width a b = list_all (\<lambda>k. ks ! (a + k) = ks ! (b + k)) [0..<width]"

text \<open>
  The inner loop that extends a cycle found at \<open>start\<close> copy by copy. A width is at least
  one in both tiers; the guard makes the function total.
\<close>

function more_copies :: "'k list \<Rightarrow> nat \<Rightarrow> nat \<Rightarrow> nat \<Rightarrow> nat" where
  "more_copies ks width start copies =
     (if width = 0 \<or> start + width * copies + width > length ks then copies
      else if same_block ks width start (start + width * copies)
           then more_copies ks width start (Suc copies) else copies)"
  by pat_completeness auto
termination
  by (relation "measure (\<lambda>(ks, width, start, copies). length ks - (start + width * copies))")
     (auto simp: diff_less_mono2)

declare more_copies.simps [simp del]

text \<open>The pairs of width and start, in the order the two outer loops visit them.\<close>

definition cycle_candidates :: "nat \<Rightarrow> (nat \<times> nat) list" where
  "cycle_candidates n = [(width, start). width \<leftarrow> [1..<9], start \<leftarrow> [0..<n + 1 - width * 2]]"

definition is_cycle :: "'k list \<Rightarrow> nat \<times> nat \<Rightarrow> bool" where
  "is_cycle ks = (\<lambda>(width, start). same_block ks width start (start + width))"

section \<open>The lossless tier\<close>

text \<open>The copies of position \<open>k\<close> of a cycle.\<close>

definition copies_at :: "event list \<Rightarrow> nat \<Rightarrow> nat \<Rightarrow> nat \<Rightarrow> nat \<Rightarrow> event list" where
  "copies_at es start width copies k = map (\<lambda>c. es ! (start + width * c + k)) [0..<copies]"

text \<open>
  The events after a cycle of \<open>copies\<close> copies has been folded into its first one: each
  position of the first copy is rewritten by \<open>f\<close>, the other copies are closed up.
\<close>

definition fold_into_first ::
    "(nat \<Rightarrow> event \<Rightarrow> event) \<Rightarrow> event list \<Rightarrow> nat \<Rightarrow> nat \<Rightarrow> nat \<Rightarrow> event list" where
  "fold_into_first f es start width copies =
     take start es @ map (\<lambda>k. f k (es ! (start + k))) [0..<width] @ drop (start + width * copies) es"

definition merge_repeats :: "event list \<Rightarrow> nat \<Rightarrow> nat \<Rightarrow> nat \<Rightarrow> nat \<Rightarrow> event \<Rightarrow> event" where
  "merge_repeats es start width copies k e =
     e\<lparr>ev_repeats := sum_list (map ev_repeats (copies_at es start width copies k)),
       ev_last_time := ev_time (es ! (start + width * copies - 1))\<rparr>"

text \<open>
  \<open>foldCycle\<close>: the first candidate that repeats is folded; the answer is the new list and
  the number of events removed.
\<close>

definition foldCycle :: "event list \<Rightarrow> (event list \<times> nat) option" where
  "foldCycle es =
     (let ks = map ev_text es in
      case List.find (is_cycle ks) (cycle_candidates (length es)) of
        None \<Rightarrow> None
      | Some (width, start) \<Rightarrow>
          let copies = more_copies ks width start 2
          in Some (fold_into_first (merge_repeats es start width copies) es start width copies,
                   width * (copies - 1)))"

section \<open>The shape tier\<close>

text \<open>
  The best candidate so far as \<open>(removed, start, width, copies)\<close>: a later one replaces it
  only when it removes strictly more.
\<close>

definition better :: "'k list \<Rightarrow> nat \<times> nat \<times> nat \<times> nat \<Rightarrow> nat \<times> nat \<Rightarrow> nat \<times> nat \<times> nat \<times> nat" where
  "better ks best cand =
     (case cand of (width, start) \<Rightarrow>
        if is_cycle ks (width, start) then
          let copies = more_copies ks width start 2;
              removed = width * (copies - 1)
          in if removed > fst best then (removed, start, width, copies) else best
        else best)"

definition best_shape_cycle :: "'k list \<Rightarrow> nat \<times> nat \<times> nat \<times> nat" where
  "best_shape_cycle ks = foldl (better ks) (0, 0, 0, 0) (cycle_candidates (length ks))"

text \<open>A line that is already a summary ends in its checksum, normalised; that tail is dropped.\<close>

definition drop_crc_tail :: "string \<Rightarrow> string" where
  "drop_crc_tail shape =
     (let tail = '' crc=*''
      in if length shape > 6 \<and> drop (length shape - 6) shape = tail
         then take (length shape - 6) shape else shape)"

definition texts_crc :: "event list \<Rightarrow> u8" where
  "texts_crc es = foldl crc8Step 0 (map char_byte (concat (map ev_text es)))"

definition summarise :: "event list \<Rightarrow> nat \<Rightarrow> nat \<Rightarrow> nat \<Rightarrow> nat \<Rightarrow> event \<Rightarrow> event" where
  "summarise es start width copies k e =
     (let line = clip (text_cap * 2)
                   (drop_crc_tail (shapeOf text_cap (ev_text e)) @ '' crc='' @
                    hex2 (texts_crc (copies_at es start width copies k)))
      in e\<lparr>ev_text := take (text_cap - 1) line,
           ev_repeats := sum_list (map ev_repeats (copies_at es start width copies k)),
           ev_last_time := ev_time (es ! (start + width * copies - 1))\<rparr>)"

definition foldShapeCycle :: "event list \<Rightarrow> (event list \<times> nat) option" where
  "foldShapeCycle es =
     (case best_shape_cycle (map (shapeOf text_cap \<circ> ev_text) es) of
        (removed, start, width, copies) \<Rightarrow>
          if removed = 0 then None
          else Some (fold_into_first (summarise es start width copies) es start width copies, removed))"

section \<open>A cycle in the buffer\<close>

lemma same_block_take_drop:
  assumes "a + w \<le> length ks" and "b + w \<le> length ks"
  shows "same_block ks w a b \<longleftrightarrow> take w (drop a ks) = take w (drop b ks)"
  using assms by (auto simp: same_block_def list_all_iff list_eq_iff_nth_eq)

lemma more_copies_ge: "copies \<le> more_copies ks w s copies"
proof (induction ks w s copies rule: more_copies.induct)
  case (1 ks w s copies)
  then show ?case by (subst more_copies.simps) force
qed

lemma more_copies_fit:
  "s + w * copies \<le> length ks \<Longrightarrow> s + w * more_copies ks w s copies \<le> length ks"
proof (induction ks w s copies rule: more_copies.induct)
  case (1 ks w s copies)
  then show ?case
    by (subst more_copies.simps) (auto simp: algebra_simps not_less)
qed

lemma more_copies_same:
  assumes "\<forall>c<copies. same_block ks w s (s + w * c)"
  shows "\<forall>c<more_copies ks w s copies. same_block ks w s (s + w * c)"
  using assms
proof (induction ks w s copies rule: more_copies.induct)
  case (1 ks w s copies)
  show ?case
  proof (cases "(w = 0 \<or> s + w * copies + w > length ks) \<or> \<not> same_block ks w s (s + w * copies)")
    case True
    then have "more_copies ks w s copies = copies" by (subst more_copies.simps) auto
    then show ?thesis using "1.prems" by simp
  next
    case False
    then have "more_copies ks w s copies = more_copies ks w s (Suc copies)"
      by (subst more_copies.simps) auto
    moreover have "\<forall>c<Suc copies. same_block ks w s (s + w * c)"
      using "1.prems" False by (auto simp: less_Suc_eq)
    ultimately show ?thesis using "1.IH" False by simp
  qed
qed

lemma same_block_refl [simp]: "same_block ks w s s"
  by (simp add: same_block_def list_all_iff)

text \<open>What both tiers fold: \<open>copies\<close> copies, at least two, of a block of \<open>width\<close> keys.\<close>

definition cycle_at :: "'k list \<Rightarrow> nat \<Rightarrow> nat \<Rightarrow> nat \<Rightarrow> bool" where
  "cycle_at ks start width copies \<longleftrightarrow>
     1 \<le> width \<and> width \<le> 8 \<and> 2 \<le> copies \<and> start + width * copies \<le> length ks \<and>
     (\<forall>c<copies. same_block ks width start (start + width * c))"

lemma set_cycle_candidates:
  "(w, s) \<in> set (cycle_candidates n) \<longleftrightarrow> 1 \<le> w \<and> w \<le> 8 \<and> s + w * 2 \<le> n"
proof
  assume "(w, s) \<in> set (cycle_candidates n)"
  then show "1 \<le> w \<and> w \<le> 8 \<and> s + w * 2 \<le> n" by (auto simp: cycle_candidates_def)
next
  assume w: "1 \<le> w \<and> w \<le> 8 \<and> s + w * 2 \<le> n"
  then have "w \<in> {1..<9}" and "s \<in> {0..<n + 1 - w * 2}" by auto
  then show "(w, s) \<in> set (cycle_candidates n)" by (force simp: cycle_candidates_def)
qed

lemma cycle_at_more_copies:
  assumes "(w, s) \<in> set (cycle_candidates (length ks))" and "is_cycle ks (w, s)"
  shows "cycle_at ks s w (more_copies ks w s 2)"
proof -
  have w: "1 \<le> w" "w \<le> 8" "s + w * 2 \<le> length ks"
    using assms(1) by (auto simp: set_cycle_candidates)
  have "\<forall>c<2. same_block ks w s (s + w * c)"
    using assms(2) by (auto simp: is_cycle_def less_2_cases_iff)
  then have "\<forall>c<more_copies ks w s 2. same_block ks w s (s + w * c)"
    by (rule more_copies_same)
  then show ?thesis
    using w more_copies_ge [of 2 ks w s] more_copies_fit [of s w 2 ks] by (simp add: cycle_at_def)
qed

lemma foldCycle_SomeE:
  assumes "foldCycle es = Some (es', removed)"
  obtains start width copies where
    "cycle_at (map ev_text es) start width copies"
    "es' = fold_into_first (merge_repeats es start width copies) es start width copies"
    "removed = width * (copies - 1)"
proof -
  let ?ks = "map ev_text es"
  obtain w s where f: "List.find (is_cycle ?ks) (cycle_candidates (length es)) = Some (w, s)"
    using assms by (cases "List.find (is_cycle ?ks) (cycle_candidates (length es))")
      (auto simp: foldCycle_def)
  then have "(w, s) \<in> set (cycle_candidates (length ?ks))" "is_cycle ?ks (w, s)"
    by (auto simp: find_Some_iff in_set_conv_nth)
  then have "cycle_at ?ks s w (more_copies ?ks w s 2)" by (rule cycle_at_more_copies)
  then show thesis using that assms f by (auto simp: foldCycle_def Let_def)
qed

text \<open>The best shape candidate is a cycle, or nothing was found.\<close>

lemma foldl_better_inv:
  assumes "\<forall>c\<in>set cs. c \<in> set (cycle_candidates (length ks))"
    and "fst best = 0 \<or> (\<exists>s w c. best = (w * (c - 1), s, w, c) \<and> cycle_at ks s w c)"
  shows "fst (foldl (better ks) best cs) = 0 \<or>
     (\<exists>s w c. foldl (better ks) best cs = (w * (c - 1), s, w, c) \<and> cycle_at ks s w c)"
  using assms
proof (induction cs arbitrary: best)
  case (Cons x cs)
  obtain w s where x: "x = (w, s)" by (cases x)
  have "fst (better ks best x) = 0 \<or>
     (\<exists>s w c. better ks best x = (w * (c - 1), s, w, c) \<and> cycle_at ks s w c)"
    using Cons.prems cycle_at_more_copies [of w s ks]
    by (auto simp: better_def x Let_def)
  then show ?case using Cons.IH [of "better ks best x"] Cons.prems(1) by simp
qed simp

lemma foldShapeCycle_SomeE:
  assumes "foldShapeCycle es = Some (es', removed)"
  obtains start width copies where
    "cycle_at (map (shapeOf text_cap \<circ> ev_text) es) start width copies"
    "es' = fold_into_first (summarise es start width copies) es start width copies"
    "removed = width * (copies - 1)"
proof -
  let ?ks = "map (shapeOf text_cap \<circ> ev_text) es"
  obtain r s w c where b: "best_shape_cycle ?ks = (r, s, w, c)"
    by (cases "best_shape_cycle ?ks")
  have "fst (best_shape_cycle ?ks) = 0 \<or>
     (\<exists>s w c. best_shape_cycle ?ks = (w * (c - 1), s, w, c) \<and> cycle_at ?ks s w c)"
    unfolding best_shape_cycle_def by (rule foldl_better_inv) simp_all
  then show thesis using that assms b by (auto simp: foldShapeCycle_def split: if_splits)
qed

section \<open>What folding keeps\<close>

lemma cycle_at_bound:
  "cycle_at ks s w c \<Longrightarrow> s + w * c \<le> length ks \<and> 0 < w * (c - 1) \<and> w * (c - 1) + w = w * c"
  by (cases c) (auto simp: cycle_at_def)

lemma length_fold_into_first:
  assumes "cycle_at ks s w c" and "length ks = length es"
  shows "length (fold_into_first f es s w c) + w * (c - 1) = length es"
proof -
  have "s + w * c \<le> length es" and "w * (c - 1) + w = w * c"
    using cycle_at_bound [OF assms(1)] assms(2) by simp_all
  then show ?thesis unfolding fold_into_first_def by simp
qed

lemma map_fold_into_first:
  "map g (fold_into_first f es s w c) =
     take s (map g es) @ map (\<lambda>k. g (f k (es ! (s + k)))) [0..<w] @ drop (s + w * c) (map g es)"
  by (simp add: fold_into_first_def take_map drop_map)

text \<open>The repeat counts of the copies are added up, so their total does not change.\<close>

lemma sum_repeats_fold_into_first:
  assumes cyc: "cycle_at ks s w c" and len: "length ks = length es"
    and f: "\<And>k e. ev_repeats (f k e) = sum_list (map ev_repeats (copies_at es s w c k))"
  shows "sum_list (map ev_repeats (fold_into_first f es s w c)) = sum_list (map ev_repeats es)"
proof -
  have b: "s + w * c \<le> length es" using cycle_at_bound [OF cyc] len by simp
  let ?r = "\<lambda>i. ev_repeats (es ! (s + i))"
  have "sum_list (map (\<lambda>k. ev_repeats (f k (es ! (s + k)))) [0..<w]) = (\<Sum>k<w. \<Sum>j<c. ?r (w * j + k))"
    by (simp add: f copies_at_def interv_sum_list_conv_sum_set_nat lessThan_atLeast0 comp_def add.assoc)
  also have "\<dots> = (\<Sum>i<w * c. ?r i)" by (rule sum_blocks [symmetric])
  also have "\<dots> = sum_list (map ev_repeats (take (w * c) (drop s es)))"
    using b by (simp add: sum_list_take_drop_index)
  finally have mid: "sum_list (map (\<lambda>k. ev_repeats (f k (es ! (s + k)))) [0..<w]) =
    sum_list (map ev_repeats (take (w * c) (drop s es)))" .
  have "es = take s es @ take (w * c) (drop s es) @ drop (s + w * c) es"
    by (metis append_take_drop_id drop_drop add.commute)
  then have "sum_list (map ev_repeats es) = sum_list (map ev_repeats (take s es)) +
     (sum_list (map ev_repeats (take (w * c) (drop s es))) + sum_list (map ev_repeats (drop (s + w * c) es)))"
    by (metis map_append sum_list_append)
  then show ?thesis by (simp add: map_fold_into_first mid take_map drop_map)
qed

text \<open>A cycle is the block repeated.\<close>

lemma concat_replicate_Suc: "concat (replicate (Suc n) xs) = concat (replicate n xs) @ xs"
  by (induction n) auto

lemma cycle_at_replicate:
  assumes "cycle_at ks s w c"
  shows "take (w * c) (drop s ks) = concat (replicate c (take w (drop s ks)))"
proof -
  have "take (w * n) (drop s ks) = concat (replicate n (take w (drop s ks)))" if "n \<le> c" for n
    using that
  proof (induction n)
    case (Suc n)
    have le: "w * Suc n \<le> w * c" using Suc.prems by (intro mult_le_mono2)
    then have fit: "s + w * n + w \<le> length ks" using cycle_at_bound [OF assms] by simp
    have "same_block ks w s (s + w * n)" using assms Suc.prems by (simp add: cycle_at_def)
    then have "take w (drop (s + w * n) ks) = take w (drop s ks)"
      using fit by (simp add: same_block_take_drop)
    then have "take (w * Suc n) (drop s ks) = take (w * n) (drop s ks) @ take w (drop s ks)"
      by (simp add: take_add add.commute [of w] add.commute [of s])
    also have "\<dots> = concat (replicate n (take w (drop s ks))) @ take w (drop s ks)"
      using Suc by simp
    also have "\<dots> = concat (replicate (Suc n) (take w (drop s ks)))"
      by (rule concat_replicate_Suc [symmetric])
    finally show ?case .
  qed simp
  then show ?thesis by simp
qed

lemma take_drop_split3: "ks = take s ks @ take n (drop s ks) @ drop (s + n) ks"
  by (metis append_take_drop_id drop_drop add.commute)

lemma fold_cycle_texts:
  assumes "foldCycle es = Some (es', removed)"
  shows "\<exists>pre cyc suf c. 2 \<le> c \<and> cyc \<noteq> [] \<and> length cyc \<le> 8 \<and> removed = length cyc * (c - 1) \<and>
     map ev_text es = pre @ concat (replicate c cyc) @ suf \<and> map ev_text es' = pre @ cyc @ suf"
proof -
  let ?ks = "map ev_text es"
  obtain s w c where cyc: "cycle_at ?ks s w c"
    and es': "es' = fold_into_first (merge_repeats es s w c) es s w c"
    and removed: "removed = w * (c - 1)"
    using assms by (rule foldCycle_SomeE)
  let ?cyc = "take w (drop s ?ks)"
  have b: "s + w * c \<le> length ?ks" "s + w \<le> length ?ks" "1 \<le> w" "w \<le> 8" "2 \<le> c"
    using cyc cycle_at_bound [OF cyc] by (auto simp: cycle_at_def)
  have mid: "map (\<lambda>k. ev_text (merge_repeats es s w c k (es ! (s + k)))) [0..<w] = ?cyc"
    using b(2) by (intro nth_equalityI) (auto simp: merge_repeats_def)
  have "?ks = take s ?ks @ concat (replicate c ?cyc) @ drop (s + w * c) ?ks"
    using take_drop_split3 [of ?ks s "w * c"] cycle_at_replicate [OF cyc] by simp
  moreover have "map ev_text es' = take s ?ks @ ?cyc @ drop (s + w * c) ?ks"
    by (simp only: es' map_fold_into_first mid)
  moreover have "length ?cyc = w" using b by simp
  ultimately show ?thesis using b removed
    by (intro exI [of _ "take s ?ks"] exI [of _ ?cyc] exI [of _ "drop (s + w * c) ?ks"] exI [of _ c])
       auto
qed

section \<open>Which cycle is folded\<close>

lemma more_copies_max:
  assumes "1 \<le> w" and "copies \<le> c" and "s + w * c \<le> length ks"
    and "\<forall>i<c. same_block ks w s (s + w * i)"
  shows "c \<le> more_copies ks w s copies"
  using assms
proof (induction ks w s copies rule: more_copies.induct)
  case (1 ks w s copies)
  show ?case
  proof (cases "copies = c")
    case True
    then show ?thesis using more_copies_ge [of copies ks w s] by simp
  next
    case False
    then have lt: "copies < c" using "1.prems"(2) by simp
    then have "w * Suc copies \<le> w * c" by (intro mult_le_mono2) simp
    then have fits: "\<not> (w = 0 \<or> s + w * copies + w > length ks)" using "1.prems"(1,3) by simp
    have same: "same_block ks w s (s + w * copies)" using "1.prems"(4) lt by blast
    have "c \<le> more_copies ks w s (Suc copies)"
      using "1.IH" [OF fits same] "1.prems" lt by simp
    moreover have "more_copies ks w s copies = more_copies ks w s (Suc copies)"
      using fits same by (subst more_copies.simps) simp
    ultimately show ?thesis by simp
  qed
qed

lemma cycle_at_candidate:
  assumes "cycle_at ks s w c"
  shows "(w, s) \<in> set (cycle_candidates (length ks))" and "is_cycle ks (w, s)"
    and "c \<le> more_copies ks w s 2"
proof -
  have c: "1 \<le> w" "w \<le> 8" "2 \<le> c" "s + w * c \<le> length ks" "\<forall>i<c. same_block ks w s (s + w * i)"
    using assms by (auto simp: cycle_at_def)
  have "w * 2 \<le> w * c" using c(3) by (rule mult_le_mono2)
  then have "s + w * 2 \<le> length ks" using c(4) by linarith
  then show "(w, s) \<in> set (cycle_candidates (length ks))" using c(1,2) by (simp add: set_cycle_candidates)
  have "same_block ks w s (s + w * 1)" using c(3) by (intro c(5) [rule_format]) simp
  then show "is_cycle ks (w, s)" by (simp add: is_cycle_def)
  show "c \<le> more_copies ks w s 2" using c by (intro more_copies_max) auto
qed

lemma foldl_better_ge:
  "fst best \<le> fst (foldl (better ks) best cs) \<and>
   (\<forall>(w, s)\<in>set cs. is_cycle ks (w, s) \<longrightarrow> w * (more_copies ks w s 2 - 1) \<le> fst (foldl (better ks) best cs))"
proof (induction cs arbitrary: best)
  case (Cons x cs)
  obtain w s where x: "x = (w, s)" by (cases x)
  have "fst best \<le> fst (better ks best x)" by (auto simp: better_def x Let_def)
  moreover have "is_cycle ks (w, s) \<Longrightarrow> w * (more_copies ks w s 2 - 1) \<le> fst (better ks best x)"
    by (auto simp: better_def x Let_def)
  ultimately show ?case using Cons.IH [of "better ks best x"] x by fastforce
qed simp

lemma best_shape_cycle_max:
  assumes "cycle_at ks s w c"
  shows "w * (c - 1) \<le> fst (best_shape_cycle ks)"
proof -
  note cand = cycle_at_candidate [OF assms]
  have "w * (c - 1) \<le> w * (more_copies ks w s 2 - 1)" using cand(3) by (intro mult_le_mono2) simp
  also have "\<dots> \<le> fst (best_shape_cycle ks)"
    using foldl_better_ge [of "(0, 0, 0, 0)" ks "cycle_candidates (length ks)"] cand(1,2)
    unfolding best_shape_cycle_def by blast
  finally show ?thesis .
qed

text \<open>C8: the first tier is lossless and complete. It folds exactly when some block of up to
  eight lines repeats; then the new lines are the old ones with the copies of one block
  reduced to the first, the repeat counts still add up to the same total, and the lines
  removed are counted.\<close>

theorem foldCycle_lossless:
  "case foldCycle es of
     None \<Rightarrow> (\<nexists>s w c. cycle_at (map ev_text es) s w c)
   | Some (es', removed) \<Rightarrow>
       (\<exists>pre cyc suf c. 2 \<le> c \<and> cyc \<noteq> [] \<and> length cyc \<le> 8 \<and> removed = length cyc * (c - 1) \<and>
          map ev_text es = pre @ concat (replicate c cyc) @ suf \<and> map ev_text es' = pre @ cyc @ suf) \<and>
       sum_list (map ev_repeats es') = sum_list (map ev_repeats es) \<and>
       length es' + removed = length es"
proof (cases "foldCycle es")
  case None
  have "\<not> cycle_at (map ev_text es) s w c" for s w c
  proof
    assume "cycle_at (map ev_text es) s w c"
    from cycle_at_candidate(1,2) [OF this] None show False
      by (auto simp: foldCycle_def Let_def find_None_iff split: option.splits)
  qed
  then show ?thesis using None by simp
next
  case (Some p)
  obtain es' removed where p: "p = (es', removed)" by (cases p)
  obtain s w c where cyc: "cycle_at (map ev_text es) s w c"
    and es': "es' = fold_into_first (merge_repeats es s w c) es s w c" and r: "removed = w * (c - 1)"
    using Some [unfolded p] by (rule foldCycle_SomeE)
  have len: "length (map ev_text es) = length es" by simp
  have "sum_list (map ev_repeats es') = sum_list (map ev_repeats es)"
    unfolding es' by (rule sum_repeats_fold_into_first [OF cyc len]) (simp add: merge_repeats_def)
  moreover have "length es' + removed = length es"
    unfolding es' r by (rule length_fold_into_first [OF cyc len])
  ultimately show ?thesis using fold_cycle_texts [OF Some [unfolded p]] Some p by simp
qed

text \<open>C9: the shape tier takes the best trade. It folds exactly when some block of shapes
  repeats, and no repeating block of up to eight lines would have freed more slots.\<close>

theorem foldShapeCycle_frees_most:
  "case foldShapeCycle es of
     None \<Rightarrow> (\<nexists>s w c. cycle_at (map (shapeOf text_cap \<circ> ev_text) es) s w c)
   | Some (es', removed) \<Rightarrow>
       (\<exists>s w c. cycle_at (map (shapeOf text_cap \<circ> ev_text) es) s w c \<and> removed = w * (c - 1)) \<and>
       (\<nexists>s w c. cycle_at (map (shapeOf text_cap \<circ> ev_text) es) s w c \<and> removed < w * (c - 1)) \<and>
       sum_list (map ev_repeats es') = sum_list (map ev_repeats es) \<and>
       length es' + removed = length es"
proof (cases "foldShapeCycle es")
  case None
  let ?ks = "map (shapeOf text_cap \<circ> ev_text) es"
  have zero: "fst (best_shape_cycle ?ks) = 0"
    using None by (auto simp: foldShapeCycle_def split: prod.splits if_splits)
  have "\<not> cycle_at ?ks s w c" for s w c
  proof
    assume cyc: "cycle_at ?ks s w c"
    show False using best_shape_cycle_max [OF cyc] cycle_at_bound [OF cyc] zero by linarith
  qed
  then show ?thesis using None by simp
next
  case (Some p)
  let ?ks = "map (shapeOf text_cap \<circ> ev_text) es"
  obtain es' removed where p: "p = (es', removed)" by (cases p)
  obtain s w c where cyc: "cycle_at ?ks s w c"
    and es': "es' = fold_into_first (summarise es s w c) es s w c" and r: "removed = w * (c - 1)"
    using Some [unfolded p] by (rule foldShapeCycle_SomeE)
  have len: "length ?ks = length es" by simp
  have "sum_list (map ev_repeats es') = sum_list (map ev_repeats es)"
    unfolding es' by (rule sum_repeats_fold_into_first [OF cyc len]) (simp add: summarise_def Let_def)
  moreover have "length es' + removed = length es"
    unfolding es' r by (rule length_fold_into_first [OF cyc len])
  moreover have "removed = fst (best_shape_cycle ?ks)"
    using Some p by (auto simp: foldShapeCycle_def split: prod.splits if_splits)
  then have "\<nexists>s w c. cycle_at ?ks s w c \<and> removed < w * (c - 1)"
    using best_shape_cycle_max [of ?ks] by (meson not_le)
  ultimately show ?thesis using Some p cyc r by auto
qed

end
