(* ===== verification/Device_Interface.thy ===== *)
theory Device_Interface
  imports EB_Prelude
begin

text \<open>
  The portable boundary of the program, \<open>src/src/embedbench_device.h\<close>: the status codes,
  the frame packing helpers, the schema fingerprint, the services an environment offers a
  device (\<open>HostPort\<close>) and the methods of a device with their defaults (\<open>Device\<close>).

  Device code is modelled as a \<^emph>\<open>device program\<close>: a tree of calls to the port, each with the
  continuation that receives its answer. The interface says that a device never touches
  the world directly and that every outward effect goes through its port; a device program
  has no other way to act. A record of functions (\<open>host_port\<close>) gives the calls a meaning.
\<close>

section \<open>Constants\<close>

text \<open>\<open>enum I2cStatus\<close>\<close>

definition kI2cAck :: u8 where "kI2cAck = 0"
definition kI2cDataTooLong :: u8 where "kI2cDataTooLong = 1"
definition kI2cAddressNack :: u8 where "kI2cAddressNack = 2"
definition kI2cDataNack :: u8 where "kI2cDataNack = 3"
definition kI2cOther :: u8 where "kI2cOther = 4"

lemmas i2c_status_defs =
  kI2cAck_def kI2cDataTooLong_def kI2cAddressNack_def kI2cDataNack_def kI2cOther_def

definition kFormatNameMaxLength :: nat where "kFormatNameMaxLength = 19"

text \<open>
  \<open>struct I2cTransfer\<close>: a STOP follows; this transfer continues one to the same device.
\<close>
record i2c_transfer =
  xstop :: bool
  xcontinued :: bool

text \<open>
  What \<open>channelRead\<close> answers: \<open>kChannelUnsupported\<close> is \<open>None\<close>, otherwise the length the
  channel needs with the bytes written to the output buffer.
\<close>
type_synonym channel_answer = "(nat \<times> bytes) option"

section \<open>Frame packing\<close>

definition frameBytes :: "nat \<Rightarrow> nat" where
  "frameBytes bits = bits div 8 + (if bits mod 8 \<noteq> 0 then 1 else 0)"

text \<open>
  The buffer is \<open>None\<close> for a null pointer; the interface says a frame of \<open>bits\<close> bits comes
  with at least \<open>frameBytes bits\<close> bytes.
\<close>

definition framePaddingClean :: "bytes option \<Rightarrow> nat \<Rightarrow> bool" where
  "framePaddingClean data bits =
     (if bits = 0 then True
      else case data of
        None \<Rightarrow> False
      | Some bs \<Rightarrow>
          if bits mod 8 = 0 then True
          else let mask = push_bit (8 - bits mod 8) 1 - 1
               in bs ! (frameBytes bits - 1) AND mask = 0)"

text \<open>FNV-1a over the characters of the layout text; a null pointer hashes as the empty text.\<close>

fun fnv_loop :: "u32 \<Rightarrow> string \<Rightarrow> u32" where
  "fnv_loop hash [] = hash"
| "fnv_loop hash (c # cs) = fnv_loop ((hash XOR ucast (char_byte c)) * 16777619) cs"

definition schemaFingerprint :: "string option \<Rightarrow> u32" where
  "schemaFingerprint layout = fnv_loop 2166136261 (case layout of None \<Rightarrow> [] | Some s \<Rightarrow> s)"

section \<open>Device programs\<close>

text \<open>
  One constructor per call a device can make. \<open>Attached\<close> is the test
  \<open>port() != nullptr\<close>. \<open>Get\<close> and \<open>Upd\<close> are the device's own memory, which the code
  behind a binding reaches through its \<open>user\<close> pointer.
\<close>

datatype ('m, 'r) prog =
    Ret 'r
  | Attached "bool \<Rightarrow> ('m, 'r) prog"
  | Now "u64 \<Rightarrow> ('m, 'r) prog"
  | LineOut u8 u8 "('m, 'r) prog"
  | AnalogOut u8 u16 "bool \<Rightarrow> ('m, 'r) prog"
  | AnalogOutMv u8 u32 "bool \<Rightarrow> ('m, 'r) prog"
  | RequestWake u64 "bool \<Rightarrow> ('m, 'r) prog"
  | Diagnose string "bool \<Rightarrow> ('m, 'r) prog"
  | SerialOut bytes "bool \<Rightarrow> ('m, 'r) prog"
  | FrameOut u8 u16 "bytes option" nat "bool \<Rightarrow> ('m, 'r) prog"
  | FormatId string u32 "u16 \<Rightarrow> ('m, 'r) prog"
  | MaxFrameBits u8 "u32 \<Rightarrow> ('m, 'r) prog"
  | Get "'m \<Rightarrow> ('m, 'r) prog"
  | Upd "'m \<Rightarrow> 'm" "('m, 'r) prog"

text \<open>Sequencing: what a method does after a helper method has returned.\<close>

primrec andThen :: "('m, 'a) prog \<Rightarrow> ('a \<Rightarrow> ('m, 'b) prog) \<Rightarrow> ('m, 'b) prog" where
  "andThen (Ret a) f = f a"
| "andThen (Attached k) f = Attached (\<lambda>x. andThen (k x) f)"
| "andThen (Now k) f = Now (\<lambda>x. andThen (k x) f)"
| "andThen (LineOut l v k) f = LineOut l v (andThen k f)"
| "andThen (AnalogOut l v k) f = AnalogOut l v (\<lambda>x. andThen (k x) f)"
| "andThen (AnalogOutMv l v k) f = AnalogOutMv l v (\<lambda>x. andThen (k x) f)"
| "andThen (RequestWake t k) f = RequestWake t (\<lambda>x. andThen (k x) f)"
| "andThen (Diagnose s k) f = Diagnose s (\<lambda>x. andThen (k x) f)"
| "andThen (SerialOut bs k) f = SerialOut bs (\<lambda>x. andThen (k x) f)"
| "andThen (FrameOut b fm d n k) f = FrameOut b fm d n (\<lambda>x. andThen (k x) f)"
| "andThen (FormatId s h k) f = FormatId s h (\<lambda>x. andThen (k x) f)"
| "andThen (MaxFrameBits b k) f = MaxFrameBits b (\<lambda>x. andThen (k x) f)"
| "andThen (Get k) f = Get (\<lambda>x. andThen (k x) f)"
| "andThen (Upd g k) f = Upd g (andThen k f)"

section \<open>The port\<close>

text \<open>
  \<open>class HostPort\<close>: the meaning of each call over the state \<open>'p\<close> of an environment. The
  last two are the memory behind the \<open>user\<close> pointer.
\<close>

record ('p, 'm) host_port =
  hp_now :: "'p \<Rightarrow> u64"
  hp_line_out :: "u8 \<Rightarrow> u8 \<Rightarrow> 'p \<Rightarrow> 'p"
  hp_analog_out :: "u8 \<Rightarrow> u16 \<Rightarrow> 'p \<Rightarrow> bool \<times> 'p"
  hp_analog_out_mv :: "u8 \<Rightarrow> u32 \<Rightarrow> 'p \<Rightarrow> bool \<times> 'p"
  hp_request_wake :: "u64 \<Rightarrow> 'p \<Rightarrow> bool \<times> 'p"
  hp_diagnose :: "string \<Rightarrow> 'p \<Rightarrow> bool \<times> 'p"
  hp_serial_out :: "bytes \<Rightarrow> 'p \<Rightarrow> bool \<times> 'p"
  hp_frame_out :: "u8 \<Rightarrow> u16 \<Rightarrow> bytes option \<Rightarrow> nat \<Rightarrow> 'p \<Rightarrow> bool \<times> 'p"
  hp_format_id :: "string \<Rightarrow> u32 \<Rightarrow> 'p \<Rightarrow> u16 \<times> 'p"
  hp_max_frame_bits :: "u8 \<Rightarrow> 'p \<Rightarrow> u32"
  hp_get :: "'p \<Rightarrow> 'm"
  hp_upd :: "('m \<Rightarrow> 'm) \<Rightarrow> 'p \<Rightarrow> 'p"

text \<open>
  The calls the base class answers itself: it routes no analog value, grants no wake,
  records no diagnostic, carries no frame and knows no format.
\<close>

definition base_port :: "('p, 'm) host_port \<Rightarrow> ('p, 'm) host_port" where
  "base_port hp = hp\<lparr>
     hp_analog_out := (\<lambda>line raw p. (False, p)),
     hp_analog_out_mv := (\<lambda>line mv p. (False, p)),
     hp_request_wake := (\<lambda>t p. (False, p)),
     hp_diagnose := (\<lambda>s p. (False, p)),
     hp_frame_out := (\<lambda>bus fmt data bits p. (False, p)),
     hp_format_id := (\<lambda>name schema p. (0, p)),
     hp_max_frame_bits := (\<lambda>bus p. 0)\<rparr>"

text \<open>
  Running a device program against an attached port. The state is threaded through the
  calls in the order the device makes them.
\<close>

primrec run_prog :: "('p, 'm) host_port \<Rightarrow> ('m, 'r) prog \<Rightarrow> 'p \<Rightarrow> 'r \<times> 'p" where
  "run_prog hp (Ret r) p = (r, p)"
| "run_prog hp (Attached k) p = run_prog hp (k True) p"
| "run_prog hp (Now k) p = run_prog hp (k (hp_now hp p)) p"
| "run_prog hp (LineOut l v k) p = run_prog hp k (hp_line_out hp l v p)"
| "run_prog hp (AnalogOut l v k) p = (case hp_analog_out hp l v p of (b, p') \<Rightarrow> run_prog hp (k b) p')"
| "run_prog hp (AnalogOutMv l v k) p =
     (case hp_analog_out_mv hp l v p of (b, p') \<Rightarrow> run_prog hp (k b) p')"
| "run_prog hp (RequestWake t k) p = (case hp_request_wake hp t p of (b, p') \<Rightarrow> run_prog hp (k b) p')"
| "run_prog hp (Diagnose s k) p = (case hp_diagnose hp s p of (b, p') \<Rightarrow> run_prog hp (k b) p')"
| "run_prog hp (SerialOut bs k) p = (case hp_serial_out hp bs p of (b, p') \<Rightarrow> run_prog hp (k b) p')"
| "run_prog hp (FrameOut bus f d n k) p =
     (case hp_frame_out hp bus f d n p of (b, p') \<Rightarrow> run_prog hp (k b) p')"
| "run_prog hp (FormatId s h k) p = (case hp_format_id hp s h p of (i, p') \<Rightarrow> run_prog hp (k i) p')"
| "run_prog hp (MaxFrameBits b k) p = run_prog hp (k (hp_max_frame_bits hp b p)) p"
| "run_prog hp (Get k) p = run_prog hp (k (hp_get hp p)) p"
| "run_prog hp (Upd g k) p = run_prog hp k (hp_upd hp g p)"

lemma run_prog_andThen [simp]:
  "run_prog hp (andThen m f) p = (case run_prog hp m p of (a, p') \<Rightarrow> run_prog hp (f a) p')"
  by (induction m arbitrary: p) (auto split: prod.splits)

section \<open>The methods of a device and their defaults\<close>

text \<open>
  \<open>class Device\<close> over the state \<open>'d\<close> of a model: every method returns its answer and the
  new state. The effect-free methods (\<open>reset\<close>, \<open>channelRead\<close>, \<open>dump\<close>) are plain functions.
\<close>

record ('m, 'd) device =
  dv_reset :: "'d \<Rightarrow> 'd"
  dv_i2c_write :: "bytes \<Rightarrow> i2c_transfer \<Rightarrow> 'd \<Rightarrow> ('m, u8 \<times> 'd) prog"
  dv_i2c_read :: "nat \<Rightarrow> i2c_transfer \<Rightarrow> 'd \<Rightarrow> ('m, nat \<times> bytes \<times> 'd) prog"
  dv_spi_transfer :: "u8 \<Rightarrow> 'd \<Rightarrow> ('m, u8 \<times> 'd) prog"
  dv_serial_in :: "bytes \<Rightarrow> 'd \<Rightarrow> ('m, 'd) prog"
  dv_line_in :: "u8 \<Rightarrow> u8 \<Rightarrow> 'd \<Rightarrow> ('m, 'd) prog"
  dv_frame_in :: "u8 \<Rightarrow> u16 \<Rightarrow> bytes \<Rightarrow> nat \<Rightarrow> 'd \<Rightarrow> ('m, 'd) prog"
  dv_channel_write :: "u8 \<Rightarrow> bytes \<Rightarrow> 'd \<Rightarrow> ('m, bool \<times> 'd) prog"
  dv_channel_read :: "u8 \<Rightarrow> nat \<Rightarrow> 'd \<Rightarrow> channel_answer"
  dv_advance_to :: "u64 \<Rightarrow> 'd \<Rightarrow> ('m, 'd) prog"
  dv_dump :: "'d \<Rightarrow> string"

definition base_device :: "('d \<Rightarrow> 'd) \<Rightarrow> ('m, 'd) device" where
  "base_device reset = \<lparr>
     dv_reset = reset,
     dv_i2c_write = (\<lambda>data xfer d. Ret (kI2cAddressNack, d)),
     dv_i2c_read = (\<lambda>len xfer d. Ret (0, [], d)),
     dv_spi_transfer = (\<lambda>mosi d. Ret (0xFF, d)),
     dv_serial_in = (\<lambda>data d. Ret d),
     dv_line_in = (\<lambda>line level d. Ret d),
     dv_frame_in = (\<lambda>bus format data bits d. Ret d),
     dv_channel_write = (\<lambda>channel data d. Ret (False, d)),
     dv_channel_read = (\<lambda>channel cap d. None),
     dv_advance_to = (\<lambda>nowUs d. Ret d),
     dv_dump = (\<lambda>d. [])\<rparr>"

section \<open>Properties of the packing helpers\<close>

lemma frameBytes_bounds: "8 * frameBytes bits < bits + 8 \<and> bits \<le> 8 * frameBytes bits"
  unfolding frameBytes_def by (cases "bits mod 8 = 0") (simp_all, presburger+)

lemma frameBytes_mult8 [simp]: "frameBytes (8 * n) = n" "frameBytes (n * 8) = n"
  by (simp_all add: frameBytes_def)

lemma frameBytes_le: "bits \<le> 64 \<Longrightarrow> frameBytes bits \<le> 8"
  using frameBytes_bounds [of bits] by simp

lemma framePaddingClean_whole_bytes [simp]: "framePaddingClean (Some bs) (8 * n)"
  by (simp add: framePaddingClean_def)

text \<open>
  The bits of a frame are numbered most significant first; those after the last one up to the
  end of its byte are padding, which has to be zero.
\<close>

definition frame_bit :: "bytes \<Rightarrow> nat \<Rightarrow> bool" where
  "frame_bit bs k = bit (bs ! (k div 8)) (7 - k mod 8)"

definition padding_zero :: "bytes \<Rightarrow> nat \<Rightarrow> bool" where
  "padding_zero bs bits = (\<forall>k\<in>{bits..<8 * frameBytes bits}. \<not> frame_bit bs k)"

lemma framePaddingClean_iff:
  "framePaddingClean data bits \<longleftrightarrow> bits = 0 \<or> (case data of None \<Rightarrow> False | Some bs \<Rightarrow> padding_zero bs bits)"
proof (cases "bits mod 8 = 0")
  case True
  then have "8 * frameBytes bits = bits" by (simp add: frameBytes_def) presburger
  then show ?thesis using True by (simp add: framePaddingClean_def padding_zero_def split: option.split)
next
  case False
  define q r where "q = bits div 8" and "r = bits mod 8"
  have r: "0 < r" "r < 8" "bits = 8 * q + r" using False by (simp_all add: q_def r_def)
  have fb: "frameBytes bits = Suc q" using False by (simp add: frameBytes_def q_def)
  have *: "(v :: u8) AND (push_bit (8 - r) 1 - 1) = 0 \<longleftrightarrow> (\<forall>j<8 - r. \<not> bit v j)" for v
  proof -
    have "push_bit (8 - r) 1 - 1 = (mask (8 - r) :: u8)" by (simp add: mask_eq_decr_exp push_bit_eq_mult)
    then have "v AND (push_bit (8 - r) 1 - 1) = take_bit (8 - r) v" by (simp add: take_bit_eq_mask)
    moreover have "take_bit (8 - r) v = 0 \<longleftrightarrow> (\<forall>j<8 - r. \<not> bit v j)"
      by (auto simp: bit_eq_iff bit_take_bit_iff)
    ultimately show ?thesis by simp
  qed
  have "(\<forall>j<8 - r. \<not> bit (bs ! q) j) \<longleftrightarrow> padding_zero bs bits" for bs :: bytes
  proof
    assume clean: "\<forall>j<8 - r. \<not> bit (bs ! q) j"
    show "padding_zero bs bits" unfolding padding_zero_def fb frame_bit_def
    proof
      fix k assume "k \<in> {bits..<8 * Suc q}"
      then have "k div 8 = q" "7 - k mod 8 < 8 - r" using r by auto (presburger+)
      then show "\<not> bit (bs ! (k div 8)) (7 - k mod 8)" using clean by simp
    qed
  next
    assume z: "padding_zero bs bits"
    show "\<forall>j<8 - r. \<not> bit (bs ! q) j"
    proof (intro allI impI)
      fix j assume "j < 8 - r"
      define m where "m = 7 - j"
      then have j: "j = 7 - m" "m < 8" "r \<le> m" using \<open>j < 8 - r\<close> by auto
      let ?k = "8 * q + m"
      have "?k \<in> {bits..<8 * frameBytes bits}" unfolding fb using j r by auto
      moreover have "?k div 8 = q" "7 - ?k mod 8 = j" using j by simp_all
      ultimately show "\<not> bit (bs ! q) j" using z unfolding padding_zero_def frame_bit_def by metis
    qed
  qed
  then show ?thesis using False *
    by (simp add: framePaddingClean_def Let_def fb r_def [symmetric] split: option.split)
qed

lemma fnv_loop_append: "fnv_loop h (xs @ ys) = fnv_loop (fnv_loop h xs) ys"
  by (induction xs arbitrary: h) auto

end
