(* ===== verification/Line_Map.thy ===== *)
theory Line_Map
  imports Device_Interface
begin

text \<open>
  The state of a \<open>DevicePort\<close> (\<open>src/src/embedbench_host.h\<close>): which board pin each of a
  device's own lines is wired to, and the serial port it talks through. What the port does
  with a line once it is known is in theory \<open>Device_Port\<close>.
\<close>

datatype serial_port = kSerial1 | kSerial2

text \<open>\<open>struct Mapping\<close>\<close>
record mapping =
  mp_line :: u8
  mp_pin :: u8
  mp_used :: bool

record device_port =
  dp_lines :: "mapping list"
  dp_analog :: "mapping list"
  dp_serial :: serial_port

definition kMaxLines :: nat where "kMaxLines = 8"

definition empty_mapping :: mapping where
  "empty_mapping = \<lparr>mp_line = 0, mp_pin = 0, mp_used = False\<rparr>"

definition new_device_port :: device_port where
  "new_device_port = \<lparr>dp_lines = replicate kMaxLines empty_mapping,
     dp_analog = replicate kMaxLines empty_mapping, dp_serial = kSerial1\<rparr>"

text \<open>\<open>DevicePort::find\<close>: the first slot in use for the line; \<open>-1\<close> is \<open>None\<close>.\<close>

definition find_line :: "mapping list \<Rightarrow> u8 \<Rightarrow> nat option" where
  "find_line table line =
     List.find (\<lambda>i. mp_used (table ! i) \<and> mp_line (table ! i) = line) [0..<length table]"

definition free_line :: "mapping list \<Rightarrow> nat option" where
  "free_line table = List.find (\<lambda>i. \<not> mp_used (table ! i)) [0..<length table]"

definition map_table :: "mapping list \<Rightarrow> u8 \<Rightarrow> u8 \<Rightarrow> bool \<times> mapping list" where
  "map_table table line pin =
     (case find_line table line of
        Some i \<Rightarrow> (True, table[i := (table ! i)\<lparr>mp_pin := pin\<rparr>])
      | None \<Rightarrow>
          (case free_line table of
             Some i \<Rightarrow> (True, table[i := \<lparr>mp_line = line, mp_pin = pin, mp_used = True\<rparr>])
           | None \<Rightarrow> (False, table)))"

definition mapLine :: "u8 \<Rightarrow> u8 \<Rightarrow> device_port \<Rightarrow> bool \<times> device_port" where
  "mapLine line pin dp =
     (case map_table (dp_lines dp) line pin of (ok, t) \<Rightarrow> (ok, dp\<lparr>dp_lines := t\<rparr>))"

definition mapAnalog :: "u8 \<Rightarrow> u8 \<Rightarrow> device_port \<Rightarrow> bool \<times> device_port" where
  "mapAnalog line pin dp =
     (case map_table (dp_analog dp) line pin of (ok, t) \<Rightarrow> (ok, dp\<lparr>dp_analog := t\<rparr>))"

definition useSerial :: "serial_port \<Rightarrow> device_port \<Rightarrow> device_port" where
  "useSerial port dp = dp\<lparr>dp_serial := port\<rparr>"

text \<open>The pin a line is wired to, as the port's methods look it up.\<close>

definition pin_of :: "mapping list \<Rightarrow> u8 \<Rightarrow> u8 option" where
  "pin_of table line = map_option (\<lambda>i. mp_pin (table ! i)) (find_line table line)"

section \<open>The table as a finite map\<close>

text \<open>No line has two slots in use; every mapping keeps it so.\<close>

definition table_ok :: "mapping list \<Rightarrow> bool" where
  "table_ok table \<longleftrightarrow>
     (\<forall>i<length table. \<forall>j<length table. mp_used (table ! i) \<and> mp_used (table ! j) \<and>
        mp_line (table ! i) = mp_line (table ! j) \<longrightarrow> i = j)"

lemma find_line_SomeD:
  "find_line table line = Some i \<Longrightarrow> i < length table \<and> mp_used (table ! i) \<and> mp_line (table ! i) = line"
  by (auto simp: find_line_def find_Some_iff)

lemma find_line_NoneD:
  "find_line table line = None \<Longrightarrow> i < length table \<Longrightarrow> mp_used (table ! i) \<Longrightarrow> mp_line (table ! i) \<noteq> line"
  by (auto simp: find_line_def find_None_iff)

lemma free_line_SomeD: "free_line table = Some i \<Longrightarrow> i < length table \<and> \<not> mp_used (table ! i)"
  by (auto simp: free_line_def find_Some_iff)

lemma free_line_NoneD: "free_line table = None \<Longrightarrow> i < length table \<Longrightarrow> mp_used (table ! i)"
  by (auto simp: free_line_def find_None_iff)

lemma find_line_unique:
  assumes "table_ok table" and "i < length table" and "mp_used (table ! i)"
  shows "find_line table (mp_line (table ! i)) = Some i"
proof (cases "find_line table (mp_line (table ! i))")
  case None
  then show ?thesis using find_line_NoneD [OF None assms(2,3)] by simp
next
  case (Some j)
  then show ?thesis
    using assms find_line_SomeD [OF Some] unfolding table_ok_def by blast
qed

lemma find_line_eqI:
  assumes "table_ok table" "i < length table" "mp_used (table ! i)" "mp_line (table ! i) = line"
  shows "find_line table line = Some i"
  using find_line_unique [OF assms(1-3)] assms(4) by simp

lemma pin_of_None_iff: "pin_of table line = None \<longleftrightarrow> (\<forall>i<length table. mp_used (table ! i) \<longrightarrow> mp_line (table ! i) \<noteq> line)"
  by (auto simp: pin_of_def find_line_def find_None_iff)

lemma length_map_table: "map_table table line pin = (ok, t) \<Longrightarrow> length t = length table"
  by (auto simp: map_table_def split: option.splits)

text \<open>A successful mapping writes one slot, which was free or already held the line.\<close>

lemma map_table_TrueE:
  assumes m: "map_table table line pin = (True, t)"
  obtains i where "i < length table" "t = table[i := \<lparr>mp_line = line, mp_pin = pin, mp_used = True\<rparr>]"
    "\<And>j. j < length table \<Longrightarrow> mp_used (table ! j) \<Longrightarrow> mp_line (table ! j) = line \<Longrightarrow> table_ok table \<Longrightarrow> j = i"
    "mp_used (table ! i) \<longrightarrow> mp_line (table ! i) = line"
proof (cases "find_line table line")
  case (Some i)
  note f = find_line_SomeD [OF Some]
  have "(table ! i)\<lparr>mp_pin := pin\<rparr> = \<lparr>mp_line = line, mp_pin = pin, mp_used = True\<rparr>"
    using f by (cases "table ! i") simp
  then have "t = table[i := \<lparr>mp_line = line, mp_pin = pin, mp_used = True\<rparr>]"
    using m Some by (simp add: map_table_def)
  then show thesis using that [of i] f by (auto simp: table_ok_def)
next
  case None
  then obtain i where i: "free_line table = Some i"
      and t: "t = table[i := \<lparr>mp_line = line, mp_pin = pin, mp_used = True\<rparr>]"
    using m by (auto simp: map_table_def split: option.splits)
  show thesis
    using that [of i] free_line_SomeD [OF i] t find_line_NoneD [OF None] by blast
qed

lemma pin_of_map_table_False: "map_table table line pin = (False, t) \<Longrightarrow> t = table"
  by (auto simp: map_table_def split: option.splits)

lemma used_list_update:
  assumes "t = table[i := \<lparr>mp_line = line, mp_pin = pin, mp_used = True\<rparr>]" and "i < length table"
    and "j < length t" and "mp_used (t ! j)" and "mp_line (t ! j) = l" and "l \<noteq> line"
  shows "j < length table \<and> mp_used (table ! j) \<and> mp_line (table ! j) = l \<and> j \<noteq> i"
  using assms by (cases "j = i") auto

lemma table_ok_map_table:
  assumes ok: "table_ok table" and m: "map_table table line pin = (b, t)"
  shows "table_ok t"
proof (cases b)
  case False
  then show ?thesis using ok m pin_of_map_table_False by auto
next
  case True
  then obtain i where i: "i < length table"
    and t: "t = table[i := \<lparr>mp_line = line, mp_pin = pin, mp_used = True\<rparr>]"
    and only: "\<And>j. j < length table \<Longrightarrow> mp_used (table ! j) \<Longrightarrow> mp_line (table ! j) = line \<Longrightarrow> j = i"
    using m ok by (auto elim: map_table_TrueE)
  have here: "j = i" if "j < length t" "mp_used (t ! j)" "mp_line (t ! j) = line" for j
  proof (rule ccontr)
    assume "j \<noteq> i"
    then have "t ! j = table ! j" and "j < length table" using that(1) t by simp_all
    then show False using only [of j] that(2,3) \<open>j \<noteq> i\<close> by simp
  qed
  show ?thesis
    unfolding table_ok_def
  proof (intro allI impI)
    fix j k
    assume jk: "j < length t" "k < length t"
      and u: "mp_used (t ! j) \<and> mp_used (t ! k) \<and> mp_line (t ! j) = mp_line (t ! k)"
    show "j = k"
    proof (cases "mp_line (t ! k) = line")
      case True
      then have "j = i" and "k = i" using here [OF jk(1)] here [OF jk(2)] u by auto
      then show ?thesis by simp
    next
      case False
      have "j < length table \<and> mp_used (table ! j) \<and> mp_line (table ! j) = mp_line (t ! k)"
        using used_list_update [OF t i jk(1), of "mp_line (t ! k)"] u False by simp
      moreover have "k < length table \<and> mp_used (table ! k) \<and> mp_line (table ! k) = mp_line (t ! k)"
        using used_list_update [OF t i jk(2), of "mp_line (t ! k)"] u False by simp
      ultimately show ?thesis using ok unfolding table_ok_def by simp
    qed
  qed
qed

text \<open>A mapping that succeeds is the update of a finite map; one that fails changes nothing.\<close>

lemma pin_of_map_table:
  assumes ok: "table_ok table" and m: "map_table table line pin = (True, t)"
  shows "pin_of t l = (if l = line then Some pin else pin_of table l)"
proof -
  have okt: "table_ok t" using ok m by (rule table_ok_map_table)
  obtain i where i: "i < length table"
    and t: "t = table[i := \<lparr>mp_line = line, mp_pin = pin, mp_used = True\<rparr>]"
    and free: "mp_used (table ! i) \<longrightarrow> mp_line (table ! i) = line"
    using m by (auto elim: map_table_TrueE)
  show ?thesis
  proof (cases "l = line")
    case True
    then have "find_line t l = Some i" using okt i t by (intro find_line_eqI) auto
    then show ?thesis using True i t by (simp add: pin_of_def)
  next
    case other: False
    show ?thesis
    proof (cases "find_line table l")
      case (Some j)
      then have j: "j < length table" "mp_used (table ! j)" "mp_line (table ! j) = l"
        using find_line_SomeD by auto
      then have ji: "j \<noteq> i" using free other by auto
      then have "find_line t l = Some j" using okt j t by (intro find_line_eqI) auto
      then show ?thesis using other Some t ji by (simp add: pin_of_def)
    next
      case None
      then have "pin_of t l = None"
        unfolding pin_of_None_iff using used_list_update [OF t i] other find_line_NoneD by metis
      then show ?thesis using None other by (simp add: pin_of_def)
    qed
  qed
qed

section \<open>Property\<close>

text \<open>Wiring a device's lines is the update of a finite map: a successful \<open>mapLine\<close> wires the
  line to the pin and leaves every other line as it was, a refused one (all slots taken)
  changes nothing, and no line ever has two slots.\<close>

theorem mapLine_updates_map:
  "table_ok (dp_lines dp) \<Longrightarrow> mapLine line pin dp = (ok, dp') \<Longrightarrow>
   table_ok (dp_lines dp') \<and> dp_analog dp' = dp_analog dp \<and> dp_serial dp' = dp_serial dp \<and>
   pin_of (dp_lines dp') = (if ok then (pin_of (dp_lines dp))(line \<mapsto> pin) else pin_of (dp_lines dp)) \<and>
   (ok \<longleftrightarrow> pin_of (dp_lines dp) line \<noteq> None \<or> free_line (dp_lines dp) \<noteq> None)"
proof -
  assume ok: "table_ok (dp_lines dp)" and m: "mapLine line pin dp = (ok, dp')"
  obtain t where t: "map_table (dp_lines dp) line pin = (ok, t)" "dp' = dp\<lparr>dp_lines := t\<rparr>"
    using m by (auto simp: mapLine_def split: prod.splits)
  have "pin_of t = (if ok then (pin_of (dp_lines dp))(line \<mapsto> pin) else pin_of (dp_lines dp))"
    using pin_of_map_table [OF ok, of line pin t] pin_of_map_table_False [of "dp_lines dp" line pin t] t(1)
    by (cases ok) (auto simp: fun_eq_iff)
  moreover have "ok \<longleftrightarrow> pin_of (dp_lines dp) line \<noteq> None \<or> free_line (dp_lines dp) \<noteq> None"
    using t(1) by (auto simp: map_table_def pin_of_def split: option.splits)
  ultimately show ?thesis using t table_ok_map_table [OF ok t(1)] by simp
qed

theorem mapLine_updates_map_witness:
  "pin_of (dp_lines (snd (mapLine 3 26 new_device_port))) 3 = Some 26 \<and>
   pin_of (dp_lines (snd (mapLine 3 26 new_device_port))) 4 = None"
proof -
  have new: "table_ok (dp_lines new_device_port)"
    by (simp add: new_device_port_def table_ok_def empty_mapping_def)
  obtain ok dp' where m: "mapLine 3 26 new_device_port = (ok, dp')" by (cases "mapLine 3 26 new_device_port")
  have "pin_of (dp_lines new_device_port) l = None" for l
    by (simp add: pin_of_None_iff new_device_port_def empty_mapping_def)
  moreover have "free_line (dp_lines new_device_port) = Some 0"
    by (simp add: free_line_def new_device_port_def empty_mapping_def find_upt_Some kMaxLines_def)
  ultimately show ?thesis using mapLine_updates_map [OF new m] m by auto
qed

end
