(* ===== verification/Host_State.thy ===== *)
theory Host_State
  imports Event_Record Line_Map
begin

text \<open>
  The state of the host environment (\<open>struct State\<close> of \<open>src/src/embedbench_host.cpp\<close>),
  component by component, and the code it calls that is not part of the repository.

  A function pointer with its \<open>user\<close> pointer is a \<open>callback\<close>; a null pointer is \<open>None\<close>.
  What the code behind a callback does is a parameter of the model, the record \<open>core\<close>,
  and so are the functions of the Arduino host core. The behaviour of device code is a
  device program, so it acts through its port only; an observer of the event stream may
  change the table of observers and write records, never anything else; interrupt
  handlers, frame receivers and director handlers are application code and may do anything
  to the state, or not return (\<open>None\<close>).
\<close>

type_synonym callback = "nat \<times> nat"

section \<open>The state\<close>

datatype wire_bus = kWire0 | kWire1

text \<open>\<open>struct ListenerSlot\<close>, \<open>struct Deferred\<close>, \<open>struct FormatSlot\<close>, \<open>struct WireDeviceSlot\<close>\<close>

record listener_slot =
  ls_fn :: "nat option"
  ls_user :: nat

datatype deferred = DeferredIsr u8 | DeferredFrame u8 u16 u8 bytes

record format_slot =
  fs_used :: bool
  fs_name :: string
  fs_schema :: u32

record wire_slot =
  ws_used :: bool
  ws_bus :: wire_bus
  ws_address :: u16
  ws_ops :: callback

definition kMaxWireDevices :: nat where "kMaxWireDevices = 4"
definition kMaxFormats :: nat where "kMaxFormats = 8"
definition kMaxFrameBits :: nat where "kMaxFrameBits = 64"
definition kDeferralCapacity :: nat where "kDeferralCapacity = 4"
definition kCoreLoopSliceUs :: u32 where "kCoreLoopSliceUs = 1000"
definition kMaxListeners :: nat where "kMaxListeners = 4"
definition kWakeSlots :: nat where "kWakeSlots = 8"

text \<open>The trace.\<close>

record recorder =
  buf :: "event list"
  next_seq :: u32
  dropped :: u32
  folded :: u32
  outside_window :: u32
  windows :: u32
  fold_exhausted :: bool
  truncated :: bool
  diag_count :: u32
  running :: bool

text \<open>The clock and the context it tracks.\<close>

record clock = recorder +
  tick_us :: u32
  vnow :: u64
  next_tick :: u64
  ticks :: u32
  pending_ticks :: u32
  late_ticks :: u32
  zero_waits :: u32
  zero_in_director :: u32
  dir_depth :: u32
  isr_depth :: u32

text \<open>The bindings, which persist across runs, and the running summary of an SPI transaction.\<close>

record bindings = clock +
  wire_devices :: "wire_slot list"
  uart_handler :: "callback option"
  uart2_handler :: "callback option"
  channel_handler :: "callback option"
  spi_handler :: "callback option"
  pin_forward :: "callback option"
  frame_device :: "callback option"
  frame_receiver :: "callback option"
  formats :: "format_slot list"
  in_spi_transaction :: bool
  spi_bulk_count :: u32
  spi_mosi_sum :: u8
  spi_miso_sum :: u8
  tick_handler :: "callback option"
  zero_handler :: "callback option"

text \<open>Effects held back while a device runs, and the repeated-start state of the two buses.\<close>

record deferral = bindings +
  device_depth :: u32
  max_device_depth :: u32
  deferred_effects :: "deferred list"
  deferred_isrs :: u32
  deferred_frames :: u32
  deferred_dropped :: u32
  i2c_open_address :: "wire_bus \<Rightarrow> u16"
  tick_device :: "callback option"

text \<open>Observers, wakes and the lifecycle-driven run window.\<close>

record watchers = deferral +
  listeners :: "listener_slot list"
  rejected_listeners :: u32
  dispatching :: bool
  wake_at :: "u64 list"
  dropped_wakes :: u32
  window_armed :: bool
  window_closed :: bool
  window_loops :: u32
  window_tick_us :: u32
  loops_done :: u32

text \<open>
  The whole state: the environment, the Arduino host core (\<open>hw\<close>) and the memory of the
  devices, the observers and the application (\<open>mem\<close>).
\<close>

record ('c, 'm) host = watchers +
  hw :: 'c
  mem :: 'm

section \<open>Code outside the repository\<close>

datatype irq_trigger = kTriggerNone | kTriggerRising | kTriggerFalling | kTriggerChange | kTriggerOther

text \<open>The hooks \<open>runBegin\<close> installs into the host core, in its order, and clears as groups.\<close>

datatype hook =
    PinWriteHook | PinReadHook | PinModeHook | InterruptHook | WireWriteHook | WireReadHook
  | Wire1WriteHook | Wire1ReadHook | AnalogReadHook | AnalogMilliVoltsHook | AnalogReadConfigHook
  | AnalogWriteHook | SpiTransferHook | SpiTransactionHook | Serial1Hook | Serial2Hook | ClockHooks

datatype hook_group =
    GClock | GSerial1 | GSerial2 | GWire | GWire1 | GSpi | GInterrupt | GAnalog | GPins

text \<open>What an observer may do while an event is dispatched to it.\<close>

datatype observer_action =
    ObsRemove nat
  | ObsAdd nat nat
  | ObsRecord origin u32 string

record ('c, 'm) core =
  co_pin_value :: "'c \<Rightarrow> u8 \<Rightarrow> u8"
  co_interrupt_trigger :: "'c \<Rightarrow> u8 \<Rightarrow> irq_trigger"
  co_set_pin_value :: "u8 \<Rightarrow> u8 \<Rightarrow> 'c \<Rightarrow> 'c"
  co_set_analog_value :: "u8 \<Rightarrow> u16 \<Rightarrow> 'c \<Rightarrow> 'c"
  co_set_analog_mv :: "u8 \<Rightarrow> u32 \<Rightarrow> 'c \<Rightarrow> 'c"
  co_push_rx :: "serial_port \<Rightarrow> bytes \<Rightarrow> 'c \<Rightarrow> nat \<times> 'c"
  co_set_hook :: "hook \<Rightarrow> 'c \<Rightarrow> 'c"
  co_clear_hooks :: "hook_group \<Rightarrow> 'c \<Rightarrow> 'c"
  co_set_lifecycle_hook :: "'c \<Rightarrow> 'c"
  co_observer :: "nat \<Rightarrow> nat \<Rightarrow> event \<Rightarrow> 'm \<Rightarrow> 'm \<times> observer_action list"
  co_wire_write :: "callback \<Rightarrow> bytes \<Rightarrow> bool \<Rightarrow> bool \<Rightarrow> device_port \<times> ('m, u8) prog"
  co_wire_read :: "callback \<Rightarrow> bytes \<Rightarrow> bool \<Rightarrow> bool \<Rightarrow> device_port \<times> ('m, nat \<times> bytes) prog"
  co_spi :: "callback \<Rightarrow> u8 \<Rightarrow> device_port \<times> ('m, u8) prog"
  co_uart_tx :: "callback \<Rightarrow> bytes \<Rightarrow> device_port \<times> ('m, unit) prog"
  co_channel :: "callback \<Rightarrow> u8 \<Rightarrow> bytes \<Rightarrow> device_port \<times> ('m, bool) prog"
  co_pin_forward :: "callback \<Rightarrow> u8 \<Rightarrow> u8 \<Rightarrow> (device_port \<times> ('m, unit) prog) list"
  co_frame_device :: "callback \<Rightarrow> u8 \<Rightarrow> u16 \<Rightarrow> bytes option \<Rightarrow> nat \<Rightarrow> (device_port \<times> ('m, unit) prog) list"
  co_tick_device :: "callback \<Rightarrow> u64 \<Rightarrow> (device_port \<times> ('m, unit) prog) list"
  co_frame_receiver :: "callback \<Rightarrow> u8 \<Rightarrow> u16 \<Rightarrow> bytes option \<Rightarrow> nat \<Rightarrow> ('c, 'm) host \<Rightarrow> ('c, 'm) host option"
  co_tick_handler :: "callback \<Rightarrow> u32 \<Rightarrow> ('c, 'm) host \<Rightarrow> ('c, 'm) host option"
  co_zero_handler :: "callback \<Rightarrow> u32 \<Rightarrow> ('c, 'm) host \<Rightarrow> ('c, 'm) host option"
  co_trigger_interrupt :: "u8 \<Rightarrow> ('c, 'm) host \<Rightarrow> ('c, 'm) host option"

section \<open>The state of a fresh program\<close>

definition empty_listener :: listener_slot where
  "empty_listener = \<lparr>ls_fn = None, ls_user = 0\<rparr>"

definition empty_format :: format_slot where
  "empty_format = \<lparr>fs_used = False, fs_name = [], fs_schema = 0\<rparr>"

definition empty_wire_slot :: wire_slot where
  "empty_wire_slot = \<lparr>ws_used = False, ws_bus = kWire0, ws_address = 0, ws_ops = (0, 0)\<rparr>"

definition init_host :: "'c \<Rightarrow> 'm \<Rightarrow> ('c, 'm) host" where
  "init_host c m = \<lparr>
     buf = [], next_seq = 1, dropped = 0, folded = 0, outside_window = 0, windows = 0,
     fold_exhausted = False, truncated = False, diag_count = 0, running = False,
     tick_us = 1000, vnow = 0, next_tick = 1000, ticks = 0, pending_ticks = 0, late_ticks = 0,
     zero_waits = 0, zero_in_director = 0, dir_depth = 0, isr_depth = 0,
     wire_devices = replicate kMaxWireDevices empty_wire_slot,
     uart_handler = None, uart2_handler = None, channel_handler = None, spi_handler = None,
     pin_forward = None, frame_device = None, frame_receiver = None,
     formats = replicate kMaxFormats empty_format,
     in_spi_transaction = False, spi_bulk_count = 0, spi_mosi_sum = 0, spi_miso_sum = 0,
     tick_handler = None, zero_handler = None,
     device_depth = 0, max_device_depth = 0, deferred_effects = [], deferred_isrs = 0,
     deferred_frames = 0, deferred_dropped = 0, i2c_open_address = (\<lambda>_. 0xFFFF),
     tick_device = None,
     listeners = replicate kMaxListeners empty_listener, rejected_listeners = 0,
     dispatching = False, wake_at = replicate kWakeSlots 0, dropped_wakes = 0,
     window_armed = False, window_closed = False, window_loops = 0, window_tick_us = 1000,
     loops_done = 0, hw = c, mem = m\<rparr>"

text \<open>\<open>currentCtx\<close>, \<open>ctxName\<close>, \<open>originName\<close>\<close>

definition currentCtx :: "('c, 'm) host \<Rightarrow> u8" where
  "currentCtx h = (if isr_depth h > 0 then 2 else if dir_depth h > 0 then 1 else 0)"

definition ctxName :: "u8 \<Rightarrow> string" where
  "ctxName ctx = (if ctx = 1 then ''tick'' else if ctx = 2 then ''isr'' else ''main'')"

fun originName :: "origin \<Rightarrow> string" where
  "originName kDir = ''dir''"
| "originName kDev = ''dev''"
| "originName kCore = ''core''"
| "originName kDiag = ''diag''"
| "originName kApp = ''app''"

section \<open>A core for concrete runs\<close>

text \<open>
  The code outside the repository at its simplest: pins and buffers hold nothing, callbacks
  do nothing and return. Concrete runs of the model are evaluated on it.
\<close>

definition idle_core :: "(unit, unit) core" where
  "idle_core = \<lparr>
     co_pin_value = (\<lambda>c pin. 0), co_interrupt_trigger = (\<lambda>c pin. kTriggerNone),
     co_set_pin_value = (\<lambda>pin level c. c), co_set_analog_value = (\<lambda>pin raw c. c),
     co_set_analog_mv = (\<lambda>pin mv c. c), co_push_rx = (\<lambda>port data c. (length data, c)),
     co_set_hook = (\<lambda>hook c. c), co_clear_hooks = (\<lambda>group c. c), co_set_lifecycle_hook = (\<lambda>c. c),
     co_observer = (\<lambda>fn user e m. (m, [])),
     co_wire_write = (\<lambda>cb data stop continued. (new_device_port, Ret 0)),
     co_wire_read = (\<lambda>cb buffer stop continued. (new_device_port, Ret (length buffer, buffer))),
     co_spi = (\<lambda>cb mosi. (new_device_port, Ret mosi)),
     co_uart_tx = (\<lambda>cb data. (new_device_port, Ret ())),
     co_channel = (\<lambda>cb channel data. (new_device_port, Ret True)),
     co_pin_forward = (\<lambda>cb pin val. []), co_frame_device = (\<lambda>cb bus format data bits. []),
     co_tick_device = (\<lambda>cb t. []),
     co_frame_receiver = (\<lambda>cb bus format data bits h. Some h),
     co_tick_handler = (\<lambda>cb n h. Some h), co_zero_handler = (\<lambda>cb n h. Some h),
     co_trigger_interrupt = (\<lambda>pin h. Some h)\<rparr>"

lemma idle_core_simps [simp]:
  "co_wire_write idle_core cb data stop continued = (new_device_port, Ret 0)"
  "co_wire_read idle_core cb buffer stop continued = (new_device_port, Ret (length buffer, buffer))"
  "co_spi idle_core cb mosi = (new_device_port, Ret mosi)"
  "co_uart_tx idle_core cb data = (new_device_port, Ret ())"
  "co_channel idle_core cb channel data = (new_device_port, Ret True)"
  "co_pin_forward idle_core cb pin val = []" "co_tick_device idle_core cb t = []"
  "co_frame_device idle_core cb bus format frame bits = []"
  "co_frame_receiver idle_core cb bus format frame bits h = Some h"
  "co_tick_handler idle_core cb n h = Some h" "co_zero_handler idle_core cb n h = Some h"
  "co_trigger_interrupt idle_core pin h = Some h" "co_observer idle_core fn user e m = (m, [])"
  by (simp_all add: idle_core_def)

end
