(* ===== verification/Trace_Recorder.thy ===== *)
theory Trace_Recorder
  imports Host_State
begin

text \<open>
  The event recorder of \<open>src/src/embedbench_host.cpp\<close>: storing an event in the bounded
  buffer (\<open>vrecord\<close>, with \<open>foldCycle\<close>, \<open>foldShapeCycle\<close> and \<open>markTruncated\<close> behind it), the
  table of observers and the dispatch of an event to them.
\<close>

section \<open>Storing an event\<close>

text \<open>\<open>markTruncated\<close>: the last slot becomes the standing notice.\<close>

definition truncation_mark :: "u32 \<Rightarrow> ('c, 'm) host \<Rightarrow> event" where
  "truncation_mark seq h = \<lparr>ev_seq = seq, ev_time = vnow h, ev_ctx = currentCtx h,
     ev_origin = kDiag, ev_link = 0, ev_repeats = 1, ev_last_time = vnow h,
     ev_text = clip text_cap (''trace.truncated lost='' @ decw (dropped h))\<rparr>"

definition markTruncated :: "u32 \<Rightarrow> ('c, 'm) host \<Rightarrow> ('c, 'm) host" where
  "markTruncated seq h = h\<lparr>buf := (buf h)[kCapacity - 1 := truncation_mark seq h]\<rparr>"

text \<open>The two tiers in order, on the state: room made or none to make.\<close>

definition make_room :: "('c, 'm) host \<Rightarrow> ('c, 'm) host option" where
  "make_room h =
     (case foldCycle (buf h) of
        Some (es, removed) \<Rightarrow> Some (h\<lparr>buf := es, folded := folded h + of_nat removed\<rparr>)
      | None \<Rightarrow>
          (case foldShapeCycle (buf h) of
             Some (es, removed) \<Rightarrow> Some (h\<lparr>buf := es, folded := folded h + of_nat removed\<rparr>)
           | None \<Rightarrow> None))"

text \<open>A full buffer with no cycle left: counted, and the notice brought up to date.\<close>

definition lose_event :: "u32 \<Rightarrow> ('c, 'm) host \<Rightarrow> ('c, 'm) host" where
  "lose_event seq h =
     (let h1 = (if \<not> fold_exhausted h
                then h\<lparr>fold_exhausted := True, dropped := dropped h + 1, truncated := True\<rparr> else h);
          h2 = h1\<lparr>dropped := dropped h1 + 1\<rparr>
      in markTruncated seq h2)"

definition new_event :: "u32 \<Rightarrow> origin \<Rightarrow> u32 \<Rightarrow> string \<Rightarrow> ('c, 'm) host \<Rightarrow> event" where
  "new_event seq org link text h = \<lparr>ev_seq = seq, ev_time = vnow h, ev_ctx = currentCtx h,
     ev_origin = org, ev_link = link, ev_repeats = 1, ev_last_time = vnow h,
     ev_text = clip text_cap text\<rparr>"

text \<open>
  \<open>vrecord\<close> up to the fan-out: the sequence number, the stored event if it was stored, and
  the state.
\<close>

definition store_event ::
    "origin \<Rightarrow> u32 \<Rightarrow> string \<Rightarrow> ('c, 'm) host \<Rightarrow> u32 \<times> event option \<times> ('c, 'm) host" where
  "store_event org link text h0 =
     (let seq = next_seq h0;
          h = h0\<lparr>next_seq := next_seq h0 + 1\<rparr>;
          append = (\<lambda>h. let e = new_event seq org link text h
                         in (seq, Some e, h\<lparr>buf := buf h @ [e]\<rparr>))
      in if \<not> running h then (seq, None, h\<lparr>outside_window := outside_window h + 1\<rparr>)
         else if length (buf h) < kCapacity then append h
         else if fold_exhausted h then (seq, None, lose_event seq h)
         else case make_room h of
                Some h' \<Rightarrow> append h'
              | None \<Rightarrow> (seq, None, lose_event seq h))"

definition store_only :: "origin \<Rightarrow> u32 \<Rightarrow> string \<Rightarrow> ('c, 'm) host \<Rightarrow> ('c, 'm) host" where
  "store_only org link text h = snd (snd (store_event org link text h))"

section \<open>Observers\<close>

definition removeListener :: "nat option \<Rightarrow> ('c, 'm) host \<Rightarrow> bool \<times> ('c, 'm) host" where
  "removeListener fn h =
     (case List.find (\<lambda>i. ls_fn (listeners h ! i) = fn) [0..<length (listeners h)] of
        Some i \<Rightarrow> (True, h\<lparr>listeners := (listeners h)[i := empty_listener]\<rparr>)
      | None \<Rightarrow> (False, h))"

text \<open>\<open>addListener\<close>, over the function that records its diagnostic.\<close>

definition add_listener_with ::
    "(origin \<Rightarrow> u32 \<Rightarrow> string \<Rightarrow> ('c, 'm) host \<Rightarrow> ('c, 'm) host) \<Rightarrow>
     nat option \<Rightarrow> nat \<Rightarrow> ('c, 'm) host \<Rightarrow> bool \<times> ('c, 'm) host" where
  "add_listener_with rec fn user h =
     (if fn = None then (False, h)
      else case List.find (\<lambda>i. ls_fn (listeners h ! i) = None) [0..<length (listeners h)] of
        Some i \<Rightarrow> (True, h\<lparr>listeners := (listeners h)[i := \<lparr>ls_fn = fn, ls_user = user\<rparr>]\<rparr>)
      | None \<Rightarrow>
          (False, rec kDiag 0 (''diag.listener_full cap='' @ dec kMaxListeners)
             (h\<lparr>rejected_listeners := rejected_listeners h + 1, diag_count := diag_count h + 1\<rparr>)))"

text \<open>
  What an observer does while it is called: \<open>dispatching\<close> is set then, so its own records
  are stored without a fan-out.
\<close>

fun observer_act :: "observer_action \<Rightarrow> ('c, 'm) host \<Rightarrow> ('c, 'm) host" where
  "observer_act (ObsRemove fn) h = snd (removeListener (Some fn) h)"
| "observer_act (ObsAdd fn user) h = snd (add_listener_with store_only (Some fn) user h)"
| "observer_act (ObsRecord org link text) h = store_only org link text h"

text \<open>The loop over the slots: each is read when its turn comes.\<close>

fun dispatch_slots :: "('c, 'm) core \<Rightarrow> event \<Rightarrow> nat list \<Rightarrow> ('c, 'm) host \<Rightarrow> ('c, 'm) host" where
  "dispatch_slots co e [] h = h"
| "dispatch_slots co e (i # is) h =
     (case ls_fn (listeners h ! i) of
        None \<Rightarrow> dispatch_slots co e is h
      | Some fn \<Rightarrow>
          (case co_observer co fn (ls_user (listeners h ! i)) e (mem h) of
             (m, acts) \<Rightarrow> dispatch_slots co e is (fold observer_act acts (h\<lparr>mem := m\<rparr>))))"

definition vrecord ::
    "('c, 'm) core \<Rightarrow> origin \<Rightarrow> u32 \<Rightarrow> string \<Rightarrow> ('c, 'm) host \<Rightarrow> u32 \<times> ('c, 'm) host" where
  "vrecord co org link text h =
     (case store_event org link text h of
        (seq, None, h1) \<Rightarrow> (seq, h1)
      | (seq, Some e, h1) \<Rightarrow>
          if dispatching h1 then (seq, h1)
          else (seq, (dispatch_slots co e [0..<kMaxListeners] (h1\<lparr>dispatching := True\<rparr>))
                       \<lparr>dispatching := False\<rparr>))"

text \<open>\<open>recordf\<close> is \<open>vrecord\<close> on the formatted text; \<open>emit\<close> ignores the sequence number.\<close>

definition recordf ::
    "('c, 'm) core \<Rightarrow> origin \<Rightarrow> u32 \<Rightarrow> string \<Rightarrow> ('c, 'm) host \<Rightarrow> u32 \<times> ('c, 'm) host" where
  "recordf co org link text h = vrecord co org link text h"

definition emit :: "('c, 'm) core \<Rightarrow> origin \<Rightarrow> u32 \<Rightarrow> string \<Rightarrow> ('c, 'm) host \<Rightarrow> ('c, 'm) host" where
  "emit co org link text h = snd (recordf co org link text h)"

definition addListener ::
    "('c, 'm) core \<Rightarrow> nat option \<Rightarrow> nat \<Rightarrow> ('c, 'm) host \<Rightarrow> bool \<times> ('c, 'm) host" where
  "addListener co = add_listener_with (emit co)"

text \<open>A diagnostic: counted and recorded.\<close>

definition diag :: "('c, 'm) core \<Rightarrow> u32 \<Rightarrow> string \<Rightarrow> ('c, 'm) host \<Rightarrow> ('c, 'm) host" where
  "diag co link text h = emit co kDiag link text (h\<lparr>diag_count := diag_count h + 1\<rparr>)"

section \<open>Recording leaves the environment alone\<close>

text \<open>
  The fields a record may change: the trace, the table of observers and the memory behind
  their \<open>user\<close> pointers. Everything else is the same.
\<close>

definition quiet :: "('c, 'm) host \<Rightarrow> ('c, 'm) host \<Rightarrow> bool" where
  "quiet h h' \<longleftrightarrow>
     running h' = running h \<and> windows h' = windows h \<and> tick_us h' = tick_us h \<and>
     vnow h' = vnow h \<and> next_tick h' = next_tick h \<and> ticks h' = ticks h \<and>
     pending_ticks h' = pending_ticks h \<and> late_ticks h' = late_ticks h \<and> zero_waits h' = zero_waits h \<and>
     zero_in_director h' = zero_in_director h \<and> dir_depth h' = dir_depth h \<and> isr_depth h' = isr_depth h \<and>
     wire_devices h' = wire_devices h \<and> uart_handler h' = uart_handler h \<and> uart2_handler h' = uart2_handler h \<and>
     channel_handler h' = channel_handler h \<and> spi_handler h' = spi_handler h \<and> pin_forward h' = pin_forward h \<and>
     frame_device h' = frame_device h \<and> frame_receiver h' = frame_receiver h \<and> formats h' = formats h \<and>
     in_spi_transaction h' = in_spi_transaction h \<and> spi_bulk_count h' = spi_bulk_count h \<and> spi_mosi_sum h' = spi_mosi_sum h \<and>
     spi_miso_sum h' = spi_miso_sum h \<and> tick_handler h' = tick_handler h \<and> zero_handler h' = zero_handler h \<and>
     device_depth h' = device_depth h \<and> max_device_depth h' = max_device_depth h \<and> deferred_effects h' = deferred_effects h \<and>
     deferred_isrs h' = deferred_isrs h \<and> deferred_frames h' = deferred_frames h \<and> deferred_dropped h' = deferred_dropped h \<and>
     i2c_open_address h' = i2c_open_address h \<and> tick_device h' = tick_device h \<and> wake_at h' = wake_at h \<and>
     dropped_wakes h' = dropped_wakes h \<and> window_armed h' = window_armed h \<and> window_closed h' = window_closed h \<and>
     window_loops h' = window_loops h \<and> window_tick_us h' = window_tick_us h \<and> loops_done h' = loops_done h \<and>
     hw h' = hw h"

lemma quiet_refl [simp]: "quiet h h"
  by (simp add: quiet_def)

lemma quiet_trans: "quiet h h' \<Longrightarrow> quiet h' h'' \<Longrightarrow> quiet h h''"
  by (simp add: quiet_def)

lemma store_event_quiet: "store_event org link text h = (seq, e, h') \<Longrightarrow> quiet h h'"
  by (auto simp: store_event_def Let_def lose_event_def markTruncated_def make_room_def quiet_def
      split: if_splits option.splits prod.splits)

lemma store_only_quiet: "quiet h (store_only org link text h)"
  unfolding store_only_def by (cases "store_event org link text h") (auto dest: store_event_quiet)

lemma removeListener_quiet: "quiet h (snd (removeListener fn h))"
  by (simp add: removeListener_def quiet_def split: option.split)

lemma add_listener_with_quiet:
  assumes "\<And>org link text h. quiet h (rec org link text h)"
  shows "quiet h (snd (add_listener_with rec fn user h))"
proof -
  let ?h1 = "h\<lparr>rejected_listeners := rejected_listeners h + 1, diag_count := diag_count h + 1\<rparr>"
  have "quiet h ?h1" by (simp add: quiet_def)
  then have "quiet h (rec kDiag 0 (''diag.listener_full cap='' @ dec kMaxListeners) ?h1)"
    using assms quiet_trans by blast
  then show ?thesis
    by (simp add: add_listener_with_def quiet_def split: option.split)
qed

lemma observer_act_quiet: "quiet h (observer_act a h)"
  by (cases a) (simp_all add: removeListener_quiet add_listener_with_quiet store_only_quiet)

lemma fold_observer_quiet: "quiet h (fold observer_act acts h)"
  by (induction acts arbitrary: h) (auto intro: quiet_trans observer_act_quiet)

lemma dispatch_slots_quiet: "quiet h (dispatch_slots co e is h)"
proof (induction "is" arbitrary: h)
  case (Cons i "is")
  have "quiet h (fold observer_act acts (h\<lparr>mem := m\<rparr>))" for acts m
    by (rule quiet_trans [OF _ fold_observer_quiet]) (simp add: quiet_def)
  then have "quiet h (dispatch_slots co e is (fold observer_act acts (h\<lparr>mem := m\<rparr>)))" for acts m
    using Cons.IH quiet_trans by blast
  then show ?case using Cons.IH by (auto split: option.split prod.split)
qed simp

lemma vrecord_quiet: "quiet h (snd (vrecord co org link text h))"
proof -
  obtain seq eo h1 where st: "store_event org link text h = (seq, eo, h1)"
    by (cases "store_event org link text h")
  then have q: "quiet h h1" by (rule store_event_quiet)
  have "quiet h ((dispatch_slots co e ks (h1\<lparr>dispatching := True\<rparr>))\<lparr>dispatching := False\<rparr>)" for e ks
  proof -
    have "quiet h (h1\<lparr>dispatching := True\<rparr>)" using q by (simp add: quiet_def)
    then have "quiet h (dispatch_slots co e ks (h1\<lparr>dispatching := True\<rparr>))"
      using dispatch_slots_quiet quiet_trans by blast
    then show ?thesis by (simp add: quiet_def)
  qed
  then show ?thesis using q by (simp add: vrecord_def st split: option.split)
qed

lemma recordf_quiet: "recordf co org link text h = (seq, h') \<Longrightarrow> quiet h h'"
  using vrecord_quiet [of h co org link "text"] by (simp add: recordf_def)

lemma emit_quiet: "quiet h (emit co org link text h)"
  by (simp add: emit_def recordf_def vrecord_quiet)

lemma diag_quiet: "quiet h (diag co link text h)"
  unfolding diag_def by (rule quiet_trans [OF _ emit_quiet]) (simp add: quiet_def)

lemma addListener_quiet: "quiet h (snd (addListener co fn user h))"
  unfolding addListener_def by (rule add_listener_with_quiet) (rule emit_quiet)

lemma fst_recordf [simp]: "fst (recordf co org link text h) = next_seq h"
  by (auto simp: recordf_def vrecord_def store_event_def Let_def split: option.splits prod.splits)

text \<open>The rewrite rules the components use: a record changes none of these fields.\<close>

lemmas quiet_rules = emit_quiet [unfolded quiet_def] diag_quiet [unfolded quiet_def]
  addListener_quiet [unfolded quiet_def] removeListener_quiet [unfolded quiet_def]
  vrecord_quiet [unfolded quiet_def]

declare quiet_rules [simp]

lemma snd_recordf [simp]: "snd (recordf co org link text h) = emit co org link text h"
  by (simp add: emit_def)

end
