(* ===== verification/Trace_Log.thy ===== *)
theory Trace_Log
  imports Trace_Recorder "HOL-Library.Sublist"
begin

text \<open>
  What the event recorder promises of the trace it keeps: the buffer and its lines stay within
  their bounds, a truncation notice stands at the end once written, every sequence number
  handed out is accounted for by a held repeat, a dropped event or an event outside the
  window, and folding never reorders what is held. The laws are stated once, for any way
  of storing an event (\<open>event_log\<close>), and hold of \<open>vrecord\<close> with its observers.
\<close>

section \<open>The invariant of the trace\<close>

definition held :: "('c, 'm) host \<Rightarrow> u32" where
  "held h = sum_list (map ev_repeats (buf h))"

definition notice_text :: "u32 \<Rightarrow> string" where
  "notice_text n = clip text_cap (''trace.truncated lost='' @ decw n)"

definition log_ok :: "('c, 'm) host \<Rightarrow> bool" where
  "log_ok h \<longleftrightarrow>
     length (buf h) \<le> kCapacity \<and>
     (\<forall>e\<in>set (buf h). length (ev_text e) < text_cap) \<and>
     length (listeners h) = kMaxListeners \<and>
     truncated h = fold_exhausted h \<and>
     (length (buf h) = kCapacity \<longrightarrow> ev_repeats (last (buf h)) = 1) \<and>
     (truncated h \<longrightarrow> length (buf h) = kCapacity \<and> ev_text (last (buf h)) = notice_text (dropped h))"

text \<open>Each sequence number is one repeat held, one event dropped or one outside the window.\<close>

definition balance :: "('c, 'm) host \<Rightarrow> u32" where
  "balance h = held h + dropped h - (if truncated h then 1 else 0) + outside_window h - next_seq h"

section \<open>Making room\<close>

lemma merge_repeats_text [simp]: "ev_text (merge_repeats es s w c k e) = ev_text e"
  by (simp add: merge_repeats_def)

lemma set_fold_into_first:
  "cycle_at ks s w c \<Longrightarrow> length ks = length es \<Longrightarrow>
   e \<in> set (fold_into_first f es s w c) \<Longrightarrow> e \<in> set es \<or> (\<exists>k. \<exists>e'\<in>set es. e = f k e')"
  using cycle_at_bound [of ks s w c]
  by (auto simp: fold_into_first_def cycle_at_def dest: in_set_takeD in_set_dropD)
     (metis add_diff_cancel_left' dual_order.strict_trans1 leD le_add2 linorder_le_cases nat_add_left_cancel_less nat_le_iff_add nth_mem)

lemma make_room_SomeE:
  assumes "make_room h = Some h'"
  obtains ks :: "string list" and s w c f where
    "cycle_at ks s w c" "length ks = length (buf h)"
    "buf h' = fold_into_first f (buf h) s w c"
    "h' = h\<lparr>buf := buf h', folded := folded h + of_nat (w * (c - 1))\<rparr>"
    "\<forall>k e. ev_repeats (f k e) = sum_list (map ev_repeats (copies_at (buf h) s w c k))"
    "\<forall>k e. ev_seq (f k e) = ev_seq e \<and> ev_time (f k e) = ev_time e"
    "\<forall>k e. length (ev_text e) < text_cap \<longrightarrow> length (ev_text (f k e)) < text_cap"
proof (cases "foldCycle (buf h)")
  case (Some p)
  obtain es r where p: "p = (es, r)" by (cases p)
  show thesis
    using Some unfolding p
  proof (rule foldCycle_SomeE)
    fix s w c
    assume cyc: "cycle_at (map ev_text (buf h)) s w c"
      and es: "es = fold_into_first (merge_repeats (buf h) s w c) (buf h) s w c"
      and r: "r = w * (c - 1)"
    show thesis
      by (rule that [OF cyc, of "merge_repeats (buf h) s w c"])
         (use assms Some p es r in \<open>auto simp: make_room_def merge_repeats_def\<close>)
  qed
next
  case None
  then obtain es r where s: "foldShapeCycle (buf h) = Some (es, r)"
    and h': "h' = h\<lparr>buf := es, folded := folded h + of_nat r\<rparr>"
    using assms by (auto simp: make_room_def split: option.splits)
  show thesis
    using s
  proof (rule foldShapeCycle_SomeE)
    fix s w c
    assume cyc: "cycle_at (map (shapeOf text_cap \<circ> ev_text) (buf h)) s w c"
      and es: "es = fold_into_first (summarise (buf h) s w c) (buf h) s w c"
      and r: "r = w * (c - 1)"
    show thesis
      by (rule that [OF cyc, of "summarise (buf h) s w c"])
         (use h' es r in \<open>auto simp: summarise_def Let_def text_cap_def\<close>)
  qed
qed

lemma make_room_SomeD:
  assumes "make_room h = Some h'"
  shows "length (buf h') < length (buf h)" and "held h' = held h"
    and "(\<forall>e\<in>set (buf h). length (ev_text e) < text_cap) \<Longrightarrow> (\<forall>e\<in>set (buf h'). length (ev_text e) < text_cap)"
    and "subseq (map (\<lambda>e. (ev_seq e, ev_time e)) (buf h')) (map (\<lambda>e. (ev_seq e, ev_time e)) (buf h))"
    and "\<exists>b f. h' = h\<lparr>buf := b, folded := f\<rparr>"
    and "of_nat (length (buf h')) + folded h' = of_nat (length (buf h)) + folded h"
proof -
  obtain ks :: "string list" and s w c f where cyc: "cycle_at ks s w c" and len: "length ks = length (buf h)"
    and b: "buf h' = fold_into_first f (buf h) s w c"
    and h': "h' = h\<lparr>buf := buf h', folded := folded h + of_nat (w * (c - 1))\<rparr>"
    and rep: "\<forall>k e. ev_repeats (f k e) = sum_list (map ev_repeats (copies_at (buf h) s w c k))"
    and seq: "\<forall>k e. ev_seq (f k e) = ev_seq e \<and> ev_time (f k e) = ev_time e"
    and tx: "\<forall>k e. length (ev_text e) < text_cap \<longrightarrow> length (ev_text (f k e)) < text_cap"
    using assms by (rule make_room_SomeE)
  have l: "length (buf h') + w * (c - 1) = length (buf h)"
    unfolding b using cyc len by (rule length_fold_into_first)
  then show "length (buf h') < length (buf h)" using cycle_at_bound [OF cyc] by linarith
  show "held h' = held h"
    unfolding held_def b using rep by (intro sum_repeats_fold_into_first [OF cyc len]) simp
  show "(\<forall>e\<in>set (buf h). length (ev_text e) < text_cap) \<Longrightarrow> (\<forall>e\<in>set (buf h'). length (ev_text e) < text_cap)"
    unfolding b using set_fold_into_first [OF cyc len] tx by metis
  show "\<exists>b f. h' = h\<lparr>buf := b, folded := f\<rparr>" using h' by metis
  have "of_nat (length (buf h')) + folded h' = of_nat (length (buf h')) + (folded h + of_nat (w * (c - 1)))"
    by (subst (2) h') simp
  also have "\<dots> = of_nat (length (buf h') + w * (c - 1)) + folded h" by (simp only: of_nat_add add_ac)
  finally show "of_nat (length (buf h')) + folded h' = of_nat (length (buf h)) + folded h" by (simp only: l)
  let ?g = "\<lambda>e. (ev_seq e, ev_time e)" and ?es = "buf h"
  have "s + w \<le> length ?es" using cycle_at_bound [OF cyc] len by simp
  then have mid: "map (\<lambda>k. ?g (f k (?es ! (s + k)))) [0..<w] = take w (drop s (map ?g ?es))"
    using seq by (intro nth_equalityI) auto
  have new: "map ?g (buf h') = take s (map ?g ?es) @ take w (drop s (map ?g ?es)) @ drop (s + w * c) (map ?g ?es)"
    by (simp only: b map_fold_into_first mid)
  have "subseq (drop (s + w * c) xs) (drop (s + w) xs)" for xs :: "(u32 \<times> u64) list"
  proof -
    have "w * c = w + w * (c - 1)" using cycle_at_bound [OF cyc] by simp
    then have "drop (s + w * c) xs = drop (w * (c - 1)) (drop (s + w) xs)" by (simp add: add_ac)
    then show ?thesis by (metis suffix_drop suffix_imp_subseq)
  qed
  then have "subseq (map ?g (buf h'))
     (take s (map ?g ?es) @ take w (drop s (map ?g ?es)) @ drop (s + w) (map ?g ?es))"
    by (simp only: new subseq_append')
  then show "subseq (map ?g (buf h')) (map ?g ?es)" by (simp only: take_drop_split3 [symmetric])
qed

section \<open>Storing an event\<close>

lemma full_buffer:
  assumes "log_ok h" and "length (buf h) = kCapacity"
  shows "(buf h)[kCapacity - 1 := m] = butlast (buf h) @ [m]"
    and "held h = sum_list (map ev_repeats (butlast (buf h))) + 1"
    and "buf h \<noteq> []"
proof -
  show ne: "buf h \<noteq> []" using assms(2) by (auto simp: kCapacity_def)
  have "(butlast (buf h) @ [last (buf h)])[kCapacity - 1 := m] = butlast (buf h) @ [m]"
    using assms(2) by (simp add: list_update_append)
  then show "(buf h)[kCapacity - 1 := m] = butlast (buf h) @ [m]" using ne by simp
  have "held h = sum_list (map ev_repeats (butlast (buf h) @ [last (buf h)]))"
    unfolding held_def using ne by simp
  then show "held h = sum_list (map ev_repeats (butlast (buf h))) + 1"
    using assms by (simp add: log_ok_def del: append_butlast_last_id)
qed

lemma lose_event_ok:
  assumes ok: "log_ok h" and full: "length (buf h) = kCapacity"
  shows "log_ok (lose_event seq h)" and "balance (lose_event seq h) + 1 = balance h + 1 + 1"
    and "butlast (buf (lose_event seq h)) = butlast (buf h)" and "ev_seq (last (buf (lose_event seq h))) = seq"
    and "truncated (lose_event seq h)" and "next_seq (lose_event seq h) = next_seq h"
proof -
  note fb = full_buffer [OF ok full]
  let ?h = "lose_event seq h"
  obtain m where b: "buf ?h = butlast (buf h) @ [m]" and m: "ev_seq m = seq" "ev_repeats m = 1"
      "ev_text m = notice_text (dropped ?h)"
    by (rule that [of "truncation_mark seq (h\<lparr>dropped := dropped ?h\<rparr>)"])
       (simp_all add: lose_event_def Let_def markTruncated_def fb(1) [simplified] truncation_mark_def notice_text_def currentCtx_def)
  have f: "truncated ?h" "fold_exhausted ?h" "listeners ?h = listeners h" "next_seq ?h = next_seq h"
      "outside_window ?h = outside_window h" "dropped ?h = dropped h + (if truncated h then 1 else 2)"
    using ok by (auto simp: lose_event_def Let_def markTruncated_def log_ok_def)
  have tx: "length (notice_text n) < text_cap" for n
    by (simp add: notice_text_def clip_def text_cap_def)
  have len: "length (butlast (buf h)) = kCapacity - 1" using full by simp
  show "log_ok ?h"
    unfolding log_ok_def using ok f m b len tx full
    by (auto simp: log_ok_def kCapacity_def dest: in_set_butlastD)
  show "balance ?h + 1 = balance h + 1 + 1"
    unfolding balance_def using fb(2) f m by (simp add: held_def [of ?h] b)
  show "butlast (buf ?h) = butlast (buf h)" "ev_seq (last (buf ?h)) = seq" "truncated ?h"
      "next_seq ?h = next_seq h"
    using b m f by simp_all
qed

text \<open>The cases of \<open>store_event\<close>.\<close>

lemma store_event_cases [consumes 1, case_names outside room folded lost]:
  assumes "store_event org link t h = (seq, eo, h')"
  obtains
    "\<not> running h" "eo = None" "h' = h\<lparr>next_seq := next_seq h + 1, outside_window := outside_window h + 1\<rparr>"
  | "running h" "length (buf h) < kCapacity" "eo = Some (new_event (next_seq h) org link t h)"
    "h' = h\<lparr>next_seq := next_seq h + 1, buf := buf h @ [new_event (next_seq h) org link t h]\<rparr>"
  | r where "running h" "\<not> length (buf h) < kCapacity" "\<not> fold_exhausted h"
    "make_room (h\<lparr>next_seq := next_seq h + 1\<rparr>) = Some r" "eo = Some (new_event (next_seq h) org link t h)"
    "h' = r\<lparr>buf := buf r @ [new_event (next_seq h) org link t h]\<rparr>"
  | "running h" "\<not> length (buf h) < kCapacity" "eo = None"
    "h' = lose_event (next_seq h) (h\<lparr>next_seq := next_seq h + 1\<rparr>)"
    "fold_exhausted h \<or> make_room (h\<lparr>next_seq := next_seq h + 1\<rparr>) = None"
proof -
  have ne: "new_event s org link t (h\<lparr>next_seq := n\<rparr>) = new_event s org link t h" for s n
    by (simp add: new_event_def currentCtx_def)
  have nf: "new_event s org link t r = new_event s org link t h"
    if "make_room (h\<lparr>next_seq := n\<rparr>) = Some r" for r s n
    using make_room_SomeD(5) [OF that] by (auto simp: new_event_def currentCtx_def)
  show thesis
    using assms that unfolding store_event_def Let_def
    by (auto simp: ne nf split: if_splits option.splits)
qed


text \<open>What one store keeps, by those cases.\<close>

lemma store_event_ok:
  assumes ok: "log_ok h" and st: "store_event org link t h = (seq, eo, h')"
  shows "log_ok h' \<and> balance h' = balance h"
  using st
proof (cases rule: store_event_cases)
  case outside
  then show ?thesis using ok by (simp add: log_ok_def balance_def held_def)
next
  case room
  then show ?thesis
    using ok by (auto simp: log_ok_def balance_def held_def new_event_def clip_def text_cap_def)
next
  case (folded r)
  let ?h1 = "h\<lparr>next_seq := next_seq h + 1\<rparr>"
  note mr = make_room_SomeD [OF folded(4)]
  obtain b f where r: "r = ?h1\<lparr>buf := b, folded := f\<rparr>" using mr(5) by auto
  have "length b < kCapacity" using mr(1) ok by (simp add: r log_ok_def)
  moreover have "sum_list (map ev_repeats b) = held h" using mr(2) by (simp add: r held_def)
  moreover have "\<forall>e\<in>set b. length (ev_text e) < text_cap" using mr(3) ok by (simp add: r log_ok_def)
  moreover have "\<not> truncated h" using ok folded(3) by (simp add: log_ok_def)
  ultimately show ?thesis
    using ok folded(6) by (auto simp: r log_ok_def balance_def held_def new_event_def clip_def text_cap_def)
next
  case lost
  let ?h1 = "h\<lparr>next_seq := next_seq h + 1\<rparr>"
  have ok1: "log_ok ?h1" using ok by (simp add: log_ok_def)
  have full: "length (buf ?h1) = kCapacity" using ok lost(2) by (simp add: log_ok_def)
  have "balance ?h1 + 1 = balance h" by (simp add: balance_def held_def)
  then show ?thesis using lose_event_ok(1,2) [OF ok1 full, of "next_seq h"] lost(4) by (simp add: algebra_simps)
qed

text \<open>What is held keeps its order: the events kept are some of the old ones, then the new one.\<close>

definition stamps :: "event list \<Rightarrow> (u32 \<times> u64) list" where
  "stamps es = map (\<lambda>e. (ev_seq e, ev_time e)) es"

lemma store_event_stamps:
  assumes ok: "log_ok h" and st: "store_event org link t h = (seq, eo, h')"
  shows "seq = next_seq h \<and> subseq (stamps (buf h')) (stamps (buf h) @ [(seq, vnow h)])"
proof -
  have "seq = next_seq h" using st by (auto simp: store_event_def Let_def split: if_splits option.splits)
  moreover have "subseq (stamps (buf h')) (stamps (buf h) @ [(next_seq h, vnow h)])"
    using st
  proof (cases rule: store_event_cases)
    case outside
    then show ?thesis by (simp add: stamps_def subseq_rev_drop_many)
  next
    case room
    then show ?thesis by (simp add: stamps_def new_event_def)
  next
    case (folded r)
    show ?thesis using make_room_SomeD(4) [OF folded(4)] folded(6)
      by (simp add: stamps_def new_event_def subseq_append')
  next
    case lost
    let ?h1 = "h\<lparr>next_seq := next_seq h + 1\<rparr>"
    have ok1: "log_ok ?h1" using ok by (simp add: log_ok_def)
    have full: "length (buf ?h1) = kCapacity" using ok lost(2) by (simp add: log_ok_def)
    have "buf h' = butlast (buf h) @ [truncation_mark (next_seq h) (h\<lparr>dropped := dropped h'\<rparr>)]"
      using full_buffer(1) [OF ok1 full] lost(4)
      by (simp add: lose_event_def Let_def markTruncated_def truncation_mark_def currentCtx_def)
    moreover have "subseq (map f (butlast xs)) (map f xs)" for f :: "event \<Rightarrow> u32 \<times> u64" and xs
      by (intro subseq_map prefix_imp_subseq prefixeq_butlast)
    ultimately show ?thesis by (simp add: stamps_def truncation_mark_def subseq_append')
  qed
  ultimately show ?thesis by simp
qed

section \<open>The recorder with its observers\<close>

text \<open>
  The interface between the recorder and whoever reasons about it: a predicate that one
  store keeps, and that does not look at the observers' memory, the dispatch flag, the
  contents of the observer table or the diagnostic counters, holds after every operation
  of the recorder, whatever the observers do.
\<close>

locale record_law =
  fixes I :: "('c, 'm) host \<Rightarrow> bool"
  assumes store_law: "\<And>h org link t seq eo h'. I h \<Longrightarrow> store_event org link t h = (seq, eo, h') \<Longrightarrow> I h'"
    and mem_law: "\<And>h m. I h \<Longrightarrow> I (h\<lparr>mem := m\<rparr>)"
    and dispatching_law: "\<And>h b. I h \<Longrightarrow> I (h\<lparr>dispatching := b\<rparr>)"
    and listeners_law: "\<And>h ls. I h \<Longrightarrow> length ls = length (listeners h) \<Longrightarrow> I (h\<lparr>listeners := ls\<rparr>)"
    and counters_law: "\<And>h r d. I h \<Longrightarrow> I (h\<lparr>rejected_listeners := r, diag_count := d\<rparr>)"
begin

lemma store_only_law: "I h \<Longrightarrow> I (store_only org link t h)"
  unfolding store_only_def by (cases "store_event org link t h") (auto dest: store_law)

lemma removeListener_law: "I h \<Longrightarrow> I (snd (removeListener fn h))"
  by (auto simp: removeListener_def split: option.split intro: listeners_law)

lemma add_listener_law:
  assumes "I h" and "\<And>org link t h. I h \<Longrightarrow> I (rec org link t h)"
  shows "I (snd (add_listener_with rec fn user h))"
proof -
  have "I (rec kDiag 0 (''diag.listener_full cap='' @ dec kMaxListeners)
      (h\<lparr>rejected_listeners := rejected_listeners h + 1, diag_count := diag_count h + 1\<rparr>))"
    by (intro assms(2) counters_law assms(1))
  then show ?thesis using assms(1)
    by (auto simp: add_listener_with_def split: option.split intro: listeners_law)
qed

lemma observer_law: "I h \<Longrightarrow> I (observer_act a h)"
  by (cases a) (simp_all add: removeListener_law add_listener_law store_only_law)

lemma observers_law: "I h \<Longrightarrow> I (fold observer_act acts h)"
  by (induction acts arbitrary: h) (simp_all add: observer_law)

lemma dispatch_law: "I h \<Longrightarrow> I (dispatch_slots co e ks h)"
  by (induction ks arbitrary: h) (auto split: option.split prod.split intro: observers_law mem_law)

lemma vrecord_law: "I h \<Longrightarrow> I (snd (vrecord co org link t h))"
  by (auto simp: vrecord_def split: prod.split option.split
      intro: dispatching_law dispatch_law dest: store_law)

lemma emit_law: "I h \<Longrightarrow> I (emit co org link t h)"
  by (simp add: emit_def recordf_def vrecord_law)

lemma addListener_law: "I h \<Longrightarrow> I (snd (addListener co fn user h))"
  unfolding addListener_def by (rule add_listener_law) (auto intro: emit_law)

lemma diag_law: "I h \<Longrightarrow> I (diag co link t h)"
proof -
  assume "I h"
  then have "I (h\<lparr>rejected_listeners := rejected_listeners h, diag_count := diag_count h + 1\<rparr>)"
    by (rule counters_law)
  then show ?thesis unfolding diag_def by (intro emit_law) simp
qed

end

interpretation trace_log: record_law "\<lambda>h. log_ok h \<and> balance h = b" for b
proof
  show "log_ok h' \<and> balance h' = b"
    if "log_ok h \<and> balance h = b" and "store_event org link t h = (seq, eo, h')" for h h' :: "('c, 'm) host" and org link t seq eo
    using store_event_ok that by blast
qed (auto simp: log_ok_def balance_def held_def)

text \<open>A sequence of operations on the recorder, as a run of the environment issues them.\<close>

datatype recorder_op = OpRecord origin u32 string | OpDiag u32 string
  | OpAddListener "nat option" nat | OpRemoveListener "nat option"

inductive recorder_step :: "('c, 'm) core \<Rightarrow> ('c, 'm) host \<Rightarrow> ('c, 'm) host \<Rightarrow> bool" for co where
  record_step: "recorder_step co h (emit co org link t h)"
| diag_step: "recorder_step co h (diag co link t h)"
| add_step: "recorder_step co h (snd (addListener co fn user h))"
| remove_step: "recorder_step co h (snd (removeListener fn h))"

lemma recorder_step_ok:
  "recorder_step co h h' \<Longrightarrow> log_ok h \<Longrightarrow> log_ok h' \<and> balance h' = balance h"
  by (induction rule: recorder_step.induct)
     (simp_all add: trace_log.emit_law trace_log.diag_law trace_log.addListener_law trace_log.removeListener_law)

lemma recorder_steps_ok:
  "(recorder_step co)\<^sup>*\<^sup>* h h' \<Longrightarrow> log_ok h \<Longrightarrow> log_ok h' \<and> balance h' = balance h"
  by (induction rule: rtranclp_induct) (auto dest: recorder_step_ok)

text \<open>The notice stands: once it is there, only its own slot changes.\<close>

interpretation trace_notice: record_law "\<lambda>h. log_ok h \<and> truncated h \<and> butlast (buf h) = xs" for xs
proof
  show "log_ok h' \<and> truncated h' \<and> butlast (buf h') = xs"
    if I: "log_ok h \<and> truncated h \<and> butlast (buf h) = xs" and st: "store_event org link t h = (seq, eo, h')"
    for h h' :: "('c, 'm) host" and org link t seq eo
  proof -
    have ok': "log_ok h'" using I st store_event_ok by blast
    have full: "length (buf h) = kCapacity" and ex: "fold_exhausted h" using I by (auto simp: log_ok_def)
    from st show ?thesis
    proof (cases rule: store_event_cases)
      case outside
      then show ?thesis using I ok' by simp
    next
      case lost
      have ok1: "log_ok (h\<lparr>next_seq := next_seq h + 1\<rparr>)" using I by (simp add: log_ok_def)
      show ?thesis
        using lose_event_ok(3,5) [OF ok1, of "next_seq h"] full lost(4) I ok' by simp
    qed (use full ex in auto)
  qed
qed (auto simp: log_ok_def)

lemma recorder_steps_notice:
  "(recorder_step co)\<^sup>*\<^sup>* h h' \<Longrightarrow> log_ok h \<Longrightarrow> truncated h \<Longrightarrow>
     log_ok h' \<and> truncated h' \<and> butlast (buf h') = butlast (buf h)"
proof (induction rule: rtranclp_induct)
  case (step h1 h2)
  then have I: "log_ok h1 \<and> truncated h1 \<and> butlast (buf h1) = butlast (buf h)" by simp
  from step.hyps(2) show ?case
    by (cases rule: recorder_step.cases)
       (use trace_notice.emit_law [OF I] trace_notice.diag_law [OF I] trace_notice.addListener_law [OF I]
         trace_notice.removeListener_law [OF I] in auto)
qed simp

section \<open>Properties\<close>

text \<open>Storing an event never reorders the trace: what is held afterwards is some of what was
  held before, in its old order and with its first sequence numbers and times, followed by
  at most the new event.\<close>

theorem store_event_keeps_order:
  "log_ok h \<Longrightarrow> store_event org link t h = (seq, eo, h') \<Longrightarrow>
   seq = next_seq h \<and> subseq (stamps (buf h')) (stamps (buf h) @ [(seq, vnow h)])"
  by (rule store_event_stamps)

theorem store_event_keeps_order_witness:
  "stamps (buf (store_only kApp 0 ''a'' ((init_host () ())\<lparr>running := True\<rparr>))) = [(1, 0)]"
proof -
  let ?h = "(init_host () ())\<lparr>running := True\<rparr>"
  have ok: "log_ok ?h" by (simp add: log_ok_def init_host_def kCapacity_def)
  have ne: "buf (store_only kApp 0 ''a'' ?h) \<noteq> []"
    by (simp add: store_only_def store_event_def init_host_def kCapacity_def Let_def)
  obtain seq eo h' where st: "store_event kApp 0 ''a'' ?h = (seq, eo, h')"
    by (cases "store_event kApp 0 ''a'' ?h")
  have "subseq (stamps (buf h')) [(1, 0)]"
    using store_event_keeps_order [OF ok st] by (auto simp: init_host_def stamps_def)
  then show ?thesis
    using ne st by (cases "stamps (buf h')") (auto simp: store_only_def stamps_def split: if_splits)
qed

text \<open>C13: the truncation notice stands. Once the buffer is full with nothing left to fold, no
  later record changes any other line; the last line keeps saying how many events were lost,
  and that number is up to date.\<close>

theorem truncation_notice_stands:
  "log_ok h \<Longrightarrow> truncated h \<Longrightarrow> (recorder_step co)\<^sup>*\<^sup>* h h' \<Longrightarrow>
   truncated h' \<and> length (buf h') = kCapacity \<and> butlast (buf h') = butlast (buf h) \<and>
   ev_text (last (buf h')) = notice_text (dropped h')"
  using recorder_steps_notice [of co h h'] by (auto simp: log_ok_def)

definition full_example :: "(unit, unit) host" where
  "full_example = (init_host () ())\<lparr>running := True, truncated := True, fold_exhausted := True, dropped := 5,
     buf := replicate 63 (new_event 1 kApp 0 ''x'' (init_host () ())) @
            [truncation_mark 70 ((init_host () ())\<lparr>dropped := 5\<rparr>)]\<rparr>"

theorem truncation_notice_stands_witness:
  "ev_text (last (buf (emit idle_core kApp 0 ''y'' full_example))) =
     notice_text (dropped (emit idle_core kApp 0 ''y'' full_example))"
proof -
  have "log_ok full_example"
    by (simp add: full_example_def log_ok_def init_host_def kCapacity_def new_event_def truncation_mark_def
        notice_text_def clip_def text_cap_def)
  moreover have "truncated full_example" by (simp add: full_example_def)
  moreover have "(recorder_step idle_core)\<^sup>*\<^sup>* full_example (emit idle_core kApp 0 ''y'' full_example)"
    by (rule r_into_rtranclp) (rule record_step)
  ultimately show ?thesis using truncation_notice_stands by blast
qed

end
