(* ===== verification/Bounded_Queue.thy ===== *)
theory Bounded_Queue
  imports EB_Prelude
begin

text \<open>
  The contract of a bounded first-in first-out buffer that drops what does not fit and counts
  it: the host's queue of held effects and the sample buffer of the motion sensor keep it.
\<close>

text \<open>
  The client sees the well-formed states, the items in order, the insertion, the counter of
  refusals and the capacity.
\<close>

locale bounded_queue =
  fixes good :: "'q \<Rightarrow> bool"
    and items :: "'q \<Rightarrow> 'e list"
    and enqueue :: "'e \<Rightarrow> 'q \<Rightarrow> 'q"
    and refused :: "'q \<Rightarrow> u32"
    and capacity :: nat
  assumes keeps: "good q \<Longrightarrow> good (enqueue e q)"
    and accept_law: "good q \<Longrightarrow> length (items q) < capacity \<Longrightarrow>
      items (enqueue e q) = items q @ [e] \<and> refused (enqueue e q) = refused q"
    and refuse_law: "good q \<Longrightarrow> \<not> length (items q) < capacity \<Longrightarrow>
      items (enqueue e q) = items q \<and> refused (enqueue e q) = refused q + 1"
begin

lemma bounded: "good q \<Longrightarrow> length (items q) \<le> capacity \<Longrightarrow> length (items (enqueue e q)) \<le> capacity"
  using accept_law [of q e] refuse_law [of q e] by (cases "length (items q) < capacity") auto

text \<open>A whole sequence: the prefix that fits, in order, the rest counted.\<close>

lemma sequence:
  assumes "good q" "length (items q) \<le> capacity"
  shows "items (fold enqueue es q) = items q @ take (capacity - length (items q)) es \<and>
     refused (fold enqueue es q) = refused q + of_nat (length es - (capacity - length (items q)))"
  using assms
proof (induction es arbitrary: q)
  case (Cons e es)
  note good = keeps [OF Cons.prems(1), of e]
  have b: "length (items (enqueue e q)) \<le> capacity" using Cons.prems by (rule bounded)
  show ?case
  proof (cases "length (items q) < capacity")
    case True
    then obtain n where n: "capacity = length (items q) + Suc n" by (metis less_imp_Suc_add add_Suc_right)
    then show ?thesis using Cons.IH [OF good b] accept_law [OF Cons.prems(1) True, of e] by (simp add: n)
  next
    case False
    then show ?thesis
      using Cons.IH [OF good b] refuse_law [OF Cons.prems(1) False, of e] Cons.prems by (simp add: add_ac)
  qed
qed simp

lemma sequence_good: "good q \<Longrightarrow> good (fold enqueue es q)"
  by (induction es arbitrary: q) (simp_all add: keeps)

end

end
