(* ===== verification/Deferral.thy ===== *)
theory Deferral
  imports Trace_Log Bounded_Queue
begin

text \<open>
  The bracketing of device calls and the queue of held effects of
  \<open>src/src/embedbench_host.cpp\<close>: an effect a device raises towards the application while it
  runs waits until the outermost device call has completed, and is then delivered in order.
\<close>

section \<open>Bracketing\<close>

definition enterDevice :: "('c, 'm) host \<Rightarrow> ('c, 'm) host" where
  "enterDevice h =
     (let h1 = h\<lparr>device_depth := device_depth h + 1\<rparr>
      in if device_depth h1 > max_device_depth h1 then h1\<lparr>max_device_depth := device_depth h1\<rparr> else h1)"

definition leaveDevice :: "('c, 'm) host \<Rightarrow> ('c, 'm) host" where
  "leaveDevice h = (if device_depth h > 0 then h\<lparr>device_depth := device_depth h - 1\<rparr> else h)"

definition refuseReentrantCall :: "('c, 'm) core \<Rightarrow> string \<Rightarrow> ('c, 'm) host \<Rightarrow> bool \<times> ('c, 'm) host" where
  "refuseReentrantCall co what h =
     (if device_depth h = 0 then (False, h) else (True, diag co 0 (''diag.reentrant '' @ what) h))"

section \<open>The queue\<close>

definition deferred_full_text :: "deferred \<Rightarrow> string" where
  "deferred_full_text effect =
     (case effect of
        DeferredIsr pin \<Rightarrow> ''diag.deferred_full kind=isr pin='' @ decw pin
      | DeferredFrame bus format bits data \<Rightarrow> ''diag.deferred_full kind=frame bus='' @ decw bus)"

definition queueDeferred :: "('c, 'm) core \<Rightarrow> deferred \<Rightarrow> ('c, 'm) host \<Rightarrow> ('c, 'm) host" where
  "queueDeferred co effect h =
     (if length (deferred_effects h) < kDeferralCapacity then
        (let h1 = h\<lparr>deferred_effects := deferred_effects h @ [effect]\<rparr>
         in case effect of
              DeferredIsr pin \<Rightarrow> h1\<lparr>deferred_isrs := deferred_isrs h1 + 1\<rparr>
            | DeferredFrame bus format bits data \<Rightarrow> h1\<lparr>deferred_frames := deferred_frames h1 + 1\<rparr>)
      else diag co 0 (deferred_full_text effect) (h\<lparr>deferred_dropped := deferred_dropped h + 1\<rparr>))"

text \<open>One held effect delivered to the application.\<close>

definition deliver_one :: "('c, 'm) core \<Rightarrow> deferred \<Rightarrow> ('c, 'm) host \<Rightarrow> ('c, 'm) host option" where
  "deliver_one co effect h =
     (case effect of
        DeferredIsr pin \<Rightarrow> co_trigger_interrupt co pin h
      | DeferredFrame bus format bits data \<Rightarrow>
          (case frame_receiver h of
             None \<Rightarrow> Some h
           | Some cb \<Rightarrow> co_frame_receiver co cb bus format (Some data) (unat bits) h))"

text \<open>The loop of \<open>deliverDeferred\<close>; what it delivers to may queue more, or not return.\<close>

partial_function (option) deliverDeferred ::
    "('c, 'm) core \<Rightarrow> ('c, 'm) host \<Rightarrow> ('c, 'm) host option" where
  "deliverDeferred co h =
     (if device_depth h = 0 \<and> deferred_effects h \<noteq> [] then
        Option.bind (deliver_one co (hd (deferred_effects h)) (h\<lparr>deferred_effects := tl (deferred_effects h)\<rparr>))
          (deliverDeferred co)
      else Some h)"

section \<open>Bracketing: what it does to the depth\<close>

lemma device_depth_enter [simp]: "device_depth (enterDevice h) = device_depth h + 1"
  by (simp add: enterDevice_def Let_def)

lemma device_depth_leave [simp]:
  "device_depth (leaveDevice h) = (if device_depth h = 0 then 0 else device_depth h - 1)"
  by (simp add: leaveDevice_def word_neq_0_conv)

lemma max_device_depth_enter:
  "max_device_depth (enterDevice h) = max (max_device_depth h) (device_depth h + 1)"
  by (auto simp: enterDevice_def Let_def max_def)

section \<open>The queue is first in, first out\<close>

interpretation held_effects: bounded_queue
  "\<lambda>_. True" deferred_effects "queueDeferred co" deferred_dropped kDeferralCapacity for co :: "('c, 'm) core"
  by unfold_locales (auto simp: queueDeferred_def Let_def split: deferred.split)

section \<open>Delivery\<close>

lemma deliverDeferred_held: "device_depth h \<noteq> 0 \<Longrightarrow> deliverDeferred co h = Some h"
  by (subst deliverDeferred.simps) simp

lemma deliverDeferred_empty: "deferred_effects h = [] \<Longrightarrow> deliverDeferred co h = Some h"
  by (subst deliverDeferred.simps) simp

lemma deliverDeferred_drained:
  assumes "deliverDeferred co h = Some h'"
  shows "device_depth h' \<noteq> 0 \<or> deferred_effects h' = []"
proof (rule deliverDeferred.raw_induct [OF _ assms])
  fix rec :: "('a, 'b) core \<Rightarrow> ('a, 'b) host \<Rightarrow> ('a, 'b) host option" and co h h'
  assume IH: "\<And>co h h'. rec co h = Some h' \<Longrightarrow> device_depth h' \<noteq> 0 \<or> deferred_effects h' = []"
    and step: "(if device_depth h = 0 \<and> deferred_effects h \<noteq> [] then
        Option.bind (deliver_one co (hd (deferred_effects h)) (h\<lparr>deferred_effects := tl (deferred_effects h)\<rparr>)) (rec co)
      else Some h) = Some h'"
  show "device_depth h' \<noteq> 0 \<or> deferred_effects h' = []"
    using step IH by (cases "device_depth h = 0 \<and> deferred_effects h \<noteq> []") (auto simp: bind_eq_Some_conv)
qed

text \<open>
  When what is delivered to returns with no device running and nothing newly held, the
  loop is the fold over the queue: every effect is delivered once, the oldest first.
\<close>

fun deliver_each :: "('c, 'm) core \<Rightarrow> deferred list \<Rightarrow> ('c, 'm) host \<Rightarrow> ('c, 'm) host option" where
  "deliver_each co [] h = Some h"
| "deliver_each co (e # es) h = Option.bind (deliver_one co e (h\<lparr>deferred_effects := es\<rparr>)) (deliver_each co es)"

lemma deliverDeferred_each:
  assumes quiet_app: "\<And>e h h'. device_depth h = 0 \<Longrightarrow> deliver_one co e h = Some h' \<Longrightarrow>
      device_depth h' = 0 \<and> deferred_effects h' = deferred_effects h"
    and "device_depth h = 0" and "deferred_effects h = es"
  shows "deliverDeferred co h = deliver_each co es h"
  using assms(2,3)
proof (induction es arbitrary: h)
  case Nil
  then show ?case by (simp add: deliverDeferred_empty)
next
  case (Cons e es)
  let ?h = "h\<lparr>deferred_effects := es\<rparr>"
  have "deliverDeferred co h = Option.bind (deliver_one co e ?h) (deliverDeferred co)"
    using Cons.prems by (subst deliverDeferred.simps) simp
  also have "\<dots> = Option.bind (deliver_one co e ?h) (deliver_each co es)"
    using Cons.IH quiet_app [of ?h e] Cons.prems
    by (cases "deliver_one co e ?h") auto
  finally show ?case by simp
qed

text \<open>On the idle core a delivery empties the queue.\<close>

lemma deliver_one_idle [simp]: "deliver_one idle_core e h = Some h"
  by (simp add: deliver_one_def split: deferred.split option.split)

lemma deliver_each_idle: "deliver_each idle_core es h = Some (if es = [] then h else h\<lparr>deferred_effects := []\<rparr>)"
  by (induction es arbitrary: h) auto

lemma deliverDeferred_idle:
  "deliverDeferred idle_core h = Some (if device_depth h = 0 then h\<lparr>deferred_effects := []\<rparr> else h)"
proof (cases "device_depth h = 0")
  case True
  have "deliverDeferred idle_core h = deliver_each idle_core (deferred_effects h) h"
    using True by (intro deliverDeferred_each) auto
  also have "\<dots> = Some (h\<lparr>deferred_effects := []\<rparr>)"
    by (cases "deferred_effects h = []") (simp_all add: deliver_each_idle)
  finally show ?thesis using True by simp
qed (simp add: deliverDeferred_held)

section \<open>Properties\<close>

text \<open>C17: the effects a device raises are held in order up to the capacity of four; what does
  not fit is refused and counted, never delivered early and never lost in silence.\<close>

theorem held_effects_are_a_bounded_queue:
  "length (deferred_effects h) \<le> kDeferralCapacity \<Longrightarrow>
   deferred_effects (fold (queueDeferred co) es h) =
     deferred_effects h @ take (kDeferralCapacity - length (deferred_effects h)) es \<and>
   deferred_dropped (fold (queueDeferred co) es h) =
     deferred_dropped h + of_nat (length es - (kDeferralCapacity - length (deferred_effects h)))"
  by (rule held_effects.sequence [OF TrueI])

theorem held_effects_are_a_bounded_queue_witness:
  "deferred_effects (fold (queueDeferred idle_core) (map DeferredIsr [1, 2, 3, 4, 5]) (init_host () ())) =
     map DeferredIsr [1, 2, 3, 4] \<and>
   deferred_dropped (fold (queueDeferred idle_core) (map DeferredIsr [1, 2, 3, 4, 5]) (init_host () ())) = 1"
  using held_effects_are_a_bounded_queue [of "init_host () ()" idle_core "map DeferredIsr [1, 2, 3, 4, 5]"]
  by (simp add: init_host_def kDeferralCapacity_def)

text \<open>\<open>deliverDeferred\<close> delivers nothing while device code is on the stack, and otherwise, when
  what it delivers to returns and holds nothing new, delivers every held effect once, the
  oldest first.\<close>

theorem deliverDeferred_in_order:
  "(\<forall>e h h'. device_depth h = 0 \<longrightarrow> deliver_one co e h = Some h' \<longrightarrow>
      device_depth h' = 0 \<and> deferred_effects h' = deferred_effects h) \<Longrightarrow>
   deliverDeferred co h =
     (if device_depth h = 0 then deliver_each co (deferred_effects h) h else Some h)"
proof (cases "device_depth h = 0")
  case True
  assume "\<forall>e h h'. device_depth h = 0 \<longrightarrow> deliver_one co e h = Some h' \<longrightarrow>
      device_depth h' = 0 \<and> deferred_effects h' = deferred_effects h"
  then have "deliverDeferred co h = deliver_each co (deferred_effects h) h"
    using True by (intro deliverDeferred_each) auto
  then show ?thesis using True by simp
qed (simp add: deliverDeferred_held)

theorem deliverDeferred_in_order_witness:
  "deliverDeferred idle_core ((init_host () ())\<lparr>deferred_effects := [DeferredIsr 1, DeferredIsr 2]\<rparr>) =
     Some (init_host () ())"
proof -
  have calm: "\<forall>e h h'. device_depth h = 0 \<longrightarrow> deliver_one idle_core e h = Some h' \<longrightarrow>
      device_depth h' = 0 \<and> deferred_effects h' = deferred_effects h"
    by simp
  show ?thesis
    using deliverDeferred_in_order [OF calm, of "(init_host () ())\<lparr>deferred_effects := [DeferredIsr 1, DeferredIsr 2]\<rparr>"]
    by (simp add: init_host_def)
qed

end
