(* ===== verification/Frame_Routing.thy ===== *)
theory Frame_Routing
  imports Deferral
begin

text \<open>
  Frames and their formats in \<open>src/src/embedbench_host.cpp\<close>: the registry that hands out
  format ids, the atomic acceptance of a frame, and the delivery of a device's frame to
  the application.
\<close>

section \<open>The registry\<close>

definition formatLabel :: "('c, 'm) host \<Rightarrow> u16 \<Rightarrow> nat \<Rightarrow> string" where
  "formatLabel h fid cap =
     (if fid \<ge> 1 \<and> unat fid \<le> kMaxFormats \<and> fs_used (formats h ! (unat fid - 1))
      then clip cap (fs_name (formats h ! (unat fid - 1))) else clip cap (decw fid))"

definition find_format :: "string \<Rightarrow> format_slot list \<Rightarrow> nat option" where
  "find_format name fs = List.find (\<lambda>i. fs_used (fs ! i) \<and> fs_name (fs ! i) = name) [0..<kMaxFormats]"

definition free_format :: "format_slot list \<Rightarrow> nat option" where
  "free_format fs = List.find (\<lambda>i. \<not> fs_used (fs ! i)) [0..<kMaxFormats]"

text \<open>The id of a slot: ids start at one, \<open>0\<close> is a refusal.\<close>

definition slot_id :: "nat \<Rightarrow> u16" where
  "slot_id i = of_nat (i + 1)"

text \<open>A null name is \<open>None\<close>; the answer is the id, \<open>0\<close> for a refusal.\<close>

definition registerFormat ::
    "('c, 'm) core \<Rightarrow> string option \<Rightarrow> u32 \<Rightarrow> ('c, 'm) host \<Rightarrow> u16 \<times> ('c, 'm) host" where
  "registerFormat co name_ptr schema h =
     (case name_ptr of None \<Rightarrow> (0, h)
      | Some name \<Rightarrow>
          if name = [] then (0, h)
          else if length name > kFormatNameMaxLength then
            (0, diag co 0 (''diag.fmt_name_long len='' @ decu (length name)) h)
          else case find_format name (formats h) of
            Some i \<Rightarrow>
              if fs_schema (formats h ! i) \<noteq> schema
              then (0, diag co 0 (''diag.fmt_conflict name='' @ name) h)
              else (slot_id i, h)
          | None \<Rightarrow>
              (case free_format (formats h) of
                 Some i \<Rightarrow>
                   (slot_id i,
                    h\<lparr>formats := (formats h)[i := \<lparr>fs_used = True, fs_name = clip 20 name, fs_schema = schema\<rparr>]\<rparr>)
               | None \<Rightarrow> (0, diag co 0 (''diag.fmt_full name='' @ name) h)))"

section \<open>Accepting a frame\<close>

definition frameAccept ::
    "('c, 'm) core \<Rightarrow> u8 \<Rightarrow> u16 \<Rightarrow> bytes option \<Rightarrow> nat \<Rightarrow> ('c, 'm) host \<Rightarrow> bool \<times> ('c, 'm) host" where
  "frameAccept co bus format data bits h =
     (if format = 0 then (False, diag co 0 (''diag.frame_noformat bus='' @ decw bus) h)
      else if unat format > kMaxFormats \<or> \<not> fs_used (formats h ! (unat format - 1)) then
        (False, diag co 0 (''diag.frame_unknown_format bus='' @ decw bus @ '' fmt='' @ decw format) h)
      else if bits > kMaxFrameBits then
        (False, diag co 0 (''diag.frame_oversize bus='' @ decw bus @ '' bits='' @ decu bits @
                           '' max='' @ dec kMaxFrameBits) h)
      else if bits > 0 \<and> data = None then
        (False, diag co 0 (''diag.frame_nodata bus='' @ decw bus @ '' bits='' @ decu bits) h)
      else if bits > 0 \<and> \<not> framePaddingClean data bits then
        (False, diag co 0 (''diag.frame_padding bus='' @ decw bus @ '' bits='' @ decu bits) h)
      else (True, h))"

text \<open>The bytes of an accepted frame.\<close>

definition frame_payload :: "bytes option \<Rightarrow> nat \<Rightarrow> bytes" where
  "frame_payload data bits = (case data of None \<Rightarrow> [] | Some bs \<Rightarrow> take (frameBytes bits) bs)"

definition frame_line :: "string \<Rightarrow> u8 \<Rightarrow> string \<Rightarrow> nat \<Rightarrow> bytes \<Rightarrow> string" where
  "frame_line kind bus label bits payload =
     kind @ '' bus='' @ decw bus @ '' fmt='' @ label @ '' bits='' @ decu bits @ '' '' @ payloadLabel payload 20"

text \<open>The copy into \<open>Deferred::data\<close>, whose eight bytes start as zeros.\<close>

definition deferred_data :: "bytes option \<Rightarrow> nat \<Rightarrow> bytes" where
  "deferred_data data bits =
     (let copied = take 8 (frame_payload data bits) in copied @ replicate (8 - length copied) 0)"

definition frameRx ::
    "('c, 'm) core \<Rightarrow> origin \<Rightarrow> u8 \<Rightarrow> u16 \<Rightarrow> bytes option \<Rightarrow> nat \<Rightarrow> ('c, 'm) host \<Rightarrow>
     (bool \<times> ('c, 'm) host) option" where
  "frameRx co org bus format data bits h =
     (case frameAccept co bus format data bits h of
        (False, h1) \<Rightarrow> Some (False, h1)
      | (True, h1) \<Rightarrow>
          let h2 = emit co org 0 (frame_line ''dev.frame'' bus (formatLabel h1 format 20) bits
                                    (frame_payload data bits)) h1
          in case frame_receiver h2 of
               None \<Rightarrow> Some (True, h2)
             | Some cb \<Rightarrow>
                 if device_depth h2 > 0 then
                   Some (True, queueDeferred co
                     (DeferredFrame bus format (of_nat bits) (deferred_data data bits)) h2)
                 else map_option (Pair True) (co_frame_receiver co cb bus format data bits h2))"

section \<open>The registry as a finite map\<close>

definition lookup_format :: "format_slot list \<Rightarrow> u16 \<Rightarrow> (string \<times> u32) option" where
  "lookup_format fs fid =
     (if fid \<ge> 1 \<and> unat fid \<le> kMaxFormats \<and> fs_used (fs ! (unat fid - 1))
      then Some (fs_name (fs ! (unat fid - 1)), fs_schema (fs ! (unat fid - 1))) else None)"

definition formats_ok :: "format_slot list \<Rightarrow> bool" where
  "formats_ok fs \<longleftrightarrow>
     length fs = kMaxFormats \<and>
     (\<forall>i<kMaxFormats. fs_used (fs ! i) \<longrightarrow>
        fs_name (fs ! i) \<noteq> [] \<and> length (fs_name (fs ! i)) \<le> kFormatNameMaxLength \<and>
        find_format (fs_name (fs ! i)) fs = Some i)"

lemma find_format_SomeD: "find_format name fs = Some i \<Longrightarrow> i < kMaxFormats \<and> fs_used (fs ! i) \<and> fs_name (fs ! i) = name"
  by (auto simp: find_format_def find_Some_iff)

lemma find_format_NoneD: "find_format name fs = None \<Longrightarrow> i < kMaxFormats \<Longrightarrow> fs_used (fs ! i) \<Longrightarrow> fs_name (fs ! i) \<noteq> name"
  by (auto simp: find_format_def find_None_iff)

lemma free_format_SomeD: "free_format fs = Some i \<Longrightarrow> i < kMaxFormats \<and> \<not> fs_used (fs ! i)"
  by (auto simp: free_format_def find_Some_iff)

lemma unat_slot_id [simp]: "i < kMaxFormats \<Longrightarrow> unat (slot_id i) = Suc i"
  by (simp add: slot_id_def kMaxFormats_def unat_of_nat del: of_nat_Suc of_nat_add)

lemma slot_id_positive [simp]: "i < kMaxFormats \<Longrightarrow> 1 \<le> slot_id i" "i < kMaxFormats \<Longrightarrow> slot_id i \<noteq> 0"
proof -
  show one: "i < kMaxFormats \<Longrightarrow> 1 \<le> slot_id i" by (simp add: word_le_nat_alt)
  show "i < kMaxFormats \<Longrightarrow> slot_id i \<noteq> 0" using unat_slot_id [of i] by (metis unat_0 nat.distinct(1))
qed

lemma slot_id_inject [simp]:
  "i < kMaxFormats \<Longrightarrow> j < kMaxFormats \<Longrightarrow> slot_id i = slot_id j \<longleftrightarrow> i = j"
  by (metis Suc_inject unat_slot_id)

lemma lookup_format_slot:
  "i < kMaxFormats \<Longrightarrow> lookup_format fs (slot_id i) =
     (if fs_used (fs ! i) then Some (fs_name (fs ! i), fs_schema (fs ! i)) else None)"
  by (simp add: lookup_format_def)

lemma find_format_update:
  assumes "i < kMaxFormats" "length fs = kMaxFormats" "\<not> fs_used (fs ! i)" "find_format name fs = None"
  shows "find_format n (fs[i := \<lparr>fs_used = True, fs_name = name, fs_schema = s\<rparr>]) =
     (if n = name then Some i else find_format n fs)"
proof (cases "n = name")
  case True
  have "\<not> (fs_used (fs ! j) \<and> fs_name (fs ! j) = name)" if "j < i" for j
    using find_format_NoneD [OF assms(4)] that assms(1) by auto
  then have "List.find (\<lambda>j. fs_used (fs[i := \<lparr>fs_used = True, fs_name = name, fs_schema = s\<rparr>] ! j) \<and>
      fs_name (fs[i := \<lparr>fs_used = True, fs_name = name, fs_schema = s\<rparr>] ! j) = name) [0..<kMaxFormats] = Some i"
    using assms by (auto simp: find_upt_Some)
  then show ?thesis using True by (simp add: find_format_def)
next
  case False
  have "(fs_used (fs[i := \<lparr>fs_used = True, fs_name = name, fs_schema = s\<rparr>] ! j) \<and>
      fs_name (fs[i := \<lparr>fs_used = True, fs_name = name, fs_schema = s\<rparr>] ! j) = n) =
      (fs_used (fs ! j) \<and> fs_name (fs ! j) = n)" if "j < kMaxFormats" for j
    using that assms False by (cases "j = i") auto
  then have "find_format n (fs[i := \<lparr>fs_used = True, fs_name = name, fs_schema = s\<rparr>]) = find_format n fs"
    unfolding find_format_def by (intro find_cong) auto
  then show ?thesis using False by simp
qed

text \<open>
  The contract of the registry towards devices and applications: a granted id names its
  name and layout for good, asking again gives the same id, and a name is never shared by
  two layouts.
\<close>

locale format_registry =
  fixes look :: "'s \<Rightarrow> u16 \<Rightarrow> (string \<times> u32) option"
    and reg :: "string \<Rightarrow> u32 \<Rightarrow> 's \<Rightarrow> u16 \<times> 's"
    and ok :: "'s \<Rightarrow> bool"
  assumes keeps_law: "ok s \<Longrightarrow> ok (snd (reg n c s))"
    and granted_law: "ok s \<Longrightarrow> reg n c s = (i, s') \<Longrightarrow> i \<noteq> 0 \<Longrightarrow> look s' i = Some (n, c)"
    and stable_law: "ok s \<Longrightarrow> look s i = Some p \<Longrightarrow> look (snd (reg n c s)) i = Some p"
    and again_law: "ok s \<Longrightarrow> look s i = Some (n, c) \<Longrightarrow> reg n c s = (i, s)"
    and conflict_law: "ok s \<Longrightarrow> look s i = Some (n, c') \<Longrightarrow> c' \<noteq> c \<Longrightarrow> fst (reg n c s) = 0"
begin

definition after :: "(string \<times> u32) list \<Rightarrow> 's \<Rightarrow> 's" where
  "after asks s = fold (\<lambda>(n, c) s. snd (reg n c s)) asks s"

lemma after_ok: "ok s \<Longrightarrow> ok (after asks s)"
  unfolding after_def by (induction asks arbitrary: s) (auto intro: keeps_law)

lemma after_look: "ok s \<Longrightarrow> look s i = Some p \<Longrightarrow> look (after asks s) i = Some p"
  unfolding after_def by (induction asks arbitrary: s) (auto intro: keeps_law stable_law)

lemma granted_for_good:
  assumes "ok s" and "reg n c s = (i, s')" and "i \<noteq> 0"
  shows "look (after asks s') i = Some (n, c) \<and> reg n c (after asks s') = (i, after asks s') \<and>
    (c' \<noteq> c \<longrightarrow> fst (reg n c' (after asks s')) = 0)"
proof -
  have ok: "ok s'" using keeps_law [OF assms(1), of n c] assms(2) by simp
  have l: "look (after asks s') i = Some (n, c)"
    using after_look [OF ok] granted_law [OF assms] by blast
  then show ?thesis
    using again_law [OF after_ok [OF ok] l] conflict_law [OF after_ok [OF ok] l, of c'] by auto
qed

lemma distinct_names_distinct_ids:
  assumes "ok s" and "reg n c s = (i, s')" "i \<noteq> 0" and "reg m d (after asks s') = (j, s'')" "j \<noteq> 0"
    and "n \<noteq> m"
  shows "i \<noteq> j"
proof
  assume eq: "i = j"
  have ok: "ok s'" using keeps_law [OF assms(1), of n c] assms(2) by simp
  have "look s'' i = Some (n, c)"
    using granted_for_good [OF assms(1-3)] stable_law [OF after_ok [OF ok], of asks i "(n, c)" m d] assms(4)
    by simp
  moreover have "look s'' j = Some (m, d)"
    using granted_law [OF after_ok [OF ok] assms(4,5)] .
  ultimately show False using eq assms(6) by simp
qed

end

lemma lookup_formatD:
  assumes "lookup_format fs i = Some p"
  obtains k where "k < kMaxFormats" "i = slot_id k" "fs_used (fs ! k)" "p = (fs_name (fs ! k), fs_schema (fs ! k))"
proof -
  from assms have i: "1 \<le> i" "unat i \<le> kMaxFormats" "fs_used (fs ! (unat i - 1))"
    and p: "p = (fs_name (fs ! (unat i - 1)), fs_schema (fs ! (unat i - 1)))"
    by (auto simp: lookup_format_def split: if_splits)
  then have k: "unat i - 1 < kMaxFormats" and "unat i \<noteq> 0" by (auto simp: word_le_nat_alt)
  moreover have "i = slot_id (unat i - 1)"
    unfolding slot_id_def using \<open>unat i \<noteq> 0\<close> by (simp only: le_add_diff_inverse2 [of 1 "unat i"]) simp
  ultimately show thesis using that i p by blast
qed

text \<open>The outcomes of a registration.\<close>

lemma registerFormat_cases [consumes 2, case_names refused again granted]:
  assumes r: "registerFormat co (Some name) schema h = (i, h')" and ok: "formats_ok (formats h)"
  obtains
    "i = 0" "formats h' = formats h"
    "\<not> (\<exists>k<kMaxFormats. fs_used (formats h ! k) \<and> fs_name (formats h ! k) = name \<and> fs_schema (formats h ! k) = schema)"
  | k where "k < kMaxFormats" "i = slot_id k" "h' = h" "find_format name (formats h) = Some k"
    "fs_schema (formats h ! k) = schema"
  | k where "k < kMaxFormats" "i = slot_id k" "find_format name (formats h) = None" "\<not> fs_used (formats h ! k)"
    "name \<noteq> []" "length name \<le> kFormatNameMaxLength"
    "h' = h\<lparr>formats := (formats h)[k := \<lparr>fs_used = True, fs_name = name, fs_schema = schema\<rparr>]\<rparr>"
proof (cases "name = [] \<or> length name > kFormatNameMaxLength")
  case True
  then have "\<not> (\<exists>k<kMaxFormats. fs_used (formats h ! k) \<and> fs_name (formats h ! k) = name \<and> fs_schema (formats h ! k) = schema)"
    using ok by (auto simp: formats_ok_def)
  moreover have "i = 0 \<and> formats h' = formats h"
    using r True by (auto simp: registerFormat_def split: if_splits)
  ultimately show thesis using that(1) by blast
next
  case False
  then have clip: "clip 20 name = name" by (simp add: clip_def kFormatNameMaxLength_def)
  show thesis
  proof (cases "find_format name (formats h)")
    case (Some k)
    note f = find_format_SomeD [OF Some]
    have only: "j = k" if "j < kMaxFormats" "fs_used (formats h ! j)" "fs_name (formats h ! j) = name" for j
      using ok that Some by (auto simp: formats_ok_def)
    show thesis
    proof (cases "fs_schema (formats h ! k) = schema")
      case True
      then show thesis using r False Some f that(2) [of k] by (simp add: registerFormat_def)
    next
      case other: False
      have "\<not> (\<exists>j<kMaxFormats. fs_used (formats h ! j) \<and> fs_name (formats h ! j) = name \<and> fs_schema (formats h ! j) = schema)"
        using only other by blast
      then show thesis using r False Some other that(1) by (auto simp: registerFormat_def)
    qed
  next
    case None
    note free = find_format_NoneD [OF None]
    show thesis
    proof (cases "free_format (formats h)")
      case (Some k)
      then show thesis
        using r False None clip that(3) [of k] free_format_SomeD [OF Some] by (simp add: registerFormat_def)
    next
      case full: None
      have "\<not> (\<exists>j<kMaxFormats. fs_used (formats h ! j) \<and> fs_name (formats h ! j) = name \<and> fs_schema (formats h ! j) = schema)"
        using free by blast
      then show thesis using r False None full that(1) by (auto simp: registerFormat_def)
    qed
  qed
qed

lemma formats_ok_register: "formats_ok (formats h) \<Longrightarrow> formats_ok (formats (snd (registerFormat co (Some n) c h)))"
proof -
  assume ok: "formats_ok (formats h)"
  obtain i h' where r: "registerFormat co (Some n) c h = (i, h')" by (cases "registerFormat co (Some n) c h")
  from r ok show ?thesis
  proof (cases rule: registerFormat_cases)
    case (granted k)
    have len: "length (formats h) = kMaxFormats" using ok by (simp add: formats_ok_def)
    note upd = find_format_update [OF granted(1) len granted(4,3)]
    show ?thesis
      using ok granted upd find_format_NoneD [OF granted(3)]
      by (auto simp: r formats_ok_def nth_list_update)
  qed (use ok r in auto)
qed

lemma lookup_register:
  assumes "formats_ok (formats h)" and "lookup_format (formats h) i = Some p"
  shows "lookup_format (formats (snd (registerFormat co (Some n) c h))) i = Some p"
proof -
  obtain j h' where r: "registerFormat co (Some n) c h = (j, h')" by (cases "registerFormat co (Some n) c h")
  obtain k where k: "k < kMaxFormats" "i = slot_id k" "fs_used (formats h ! k)"
      "p = (fs_name (formats h ! k), fs_schema (formats h ! k))"
    using assms(2) by (rule lookup_formatD)
  from r assms(1) show ?thesis
  proof (cases rule: registerFormat_cases)
    case (granted l)
    then have "l \<noteq> k" using k by auto
    then show ?thesis using granted k r by (simp add: lookup_format_slot)
  qed (use assms r in auto)
qed

interpretation formats: format_registry
  "\<lambda>h. lookup_format (formats h)" "\<lambda>n. registerFormat co (Some n)" "\<lambda>h. formats_ok (formats h)"
  for co :: "('c, 'm) core"
proof
  fix h :: "('c, 'm) host" and n c i h'
  assume ok: "formats_ok (formats h)"
  show "formats_ok (formats (snd (registerFormat co (Some n) c h)))" using ok by (rule formats_ok_register)
  show "lookup_format (formats (snd (registerFormat co (Some n) c h))) i = Some p"
    if "lookup_format (formats h) i = Some p" for p using ok that by (rule lookup_register)
  have len: "length (formats h) = kMaxFormats" using ok by (simp add: formats_ok_def)
  show "lookup_format (formats h') i = Some (n, c)"
    if "registerFormat co (Some n) c h = (i, h')" "i \<noteq> 0"
    using that(1) ok by (cases rule: registerFormat_cases)
      (use that(2) len find_format_SomeD in \<open>auto simp: lookup_format_slot\<close>)
  {
    fix c' assume "lookup_format (formats h) i = Some (n, c')"
    then obtain k where k: "k < kMaxFormats" "i = slot_id k" "fs_used (formats h ! k)"
        "n = fs_name (formats h ! k)" "c' = fs_schema (formats h ! k)"
      by (rule lookup_formatD) simp
    then have f: "find_format n (formats h) = Some k" and "n \<noteq> []" "\<not> length n > kFormatNameMaxLength"
      using ok by (auto simp: formats_ok_def)
    then have "registerFormat co (Some n) c h =
        (if c' \<noteq> c then (0, diag co 0 (''diag.fmt_conflict name='' @ n) h) else (i, h))"
      using k by (simp add: registerFormat_def)
  }
  note slot = this
  show "registerFormat co (Some n) c h = (i, h)" if "lookup_format (formats h) i = Some (n, c)"
    using slot [OF that] by simp
  show "fst (registerFormat co (Some n) c h) = 0"
    if "lookup_format (formats h) i = Some (n, c')" "c' \<noteq> c" for c'
    using slot [OF that(1)] that(2) by simp
qed

section \<open>Acceptance\<close>

text \<open>A frame is accepted exactly when its format is registered and its bits are sound.\<close>

lemma frameAccept_iff:
  "fst (frameAccept co bus format data bits h) \<longleftrightarrow>
     lookup_format (formats h) format \<noteq> None \<and> bits \<le> kMaxFrameBits \<and> framePaddingClean data bits"
  by (auto simp: frameAccept_def lookup_format_def framePaddingClean_def word_neq_0_conv
      word_less_nat_alt word_le_nat_alt split: option.splits)

lemma frameAccept_True: "frameAccept co bus format data bits h = (True, h') \<Longrightarrow> h' = h"
  by (auto simp: frameAccept_def split: if_splits)

lemma frameAccept_refuses:
  "\<not> fst (frameAccept co bus format data bits h) \<Longrightarrow>
     \<exists>text. snd (frameAccept co bus format data bits h) = diag co 0 text h"
  by (auto simp: frameAccept_def split: if_splits)

section \<open>Properties\<close>

text \<open>C10: an id the registry granted stands for its name and layout whatever is registered
  afterwards: asking again for the same pair answers the same id and changes nothing, and
  asking for the name with another layout is refused.\<close>

theorem format_id_granted_for_good:
  "formats_ok (formats h) \<Longrightarrow> registerFormat co (Some n) c h = (i, h1) \<Longrightarrow> i \<noteq> 0 \<Longrightarrow>
   h2 = fold (\<lambda>(m, d) s. snd (registerFormat co (Some m) d s)) asks h1 \<Longrightarrow>
   lookup_format (formats h2) i = Some (n, c) \<and> registerFormat co (Some n) c h2 = (i, h2) \<and>
   (c' \<noteq> c \<longrightarrow> fst (registerFormat co (Some n) c' h2) = 0)"
  using formats.granted_for_good [of h co n c i h1 asks c'] by (simp add: formats.after_def)

theorem format_id_granted_for_good_witness:
  "fst (registerFormat idle_core (Some ''m5.ir.nec.1'') 7 (snd (registerFormat idle_core (Some ''m5.ir.nec.1'') 7
     (init_host () ())))) = 1"
proof -
  let ?h = "init_host () ()"
  have ok: "formats_ok (formats ?h)"
    by (simp add: formats_ok_def init_host_def empty_format_def)
  have reg: "fst (registerFormat idle_core (Some ''m5.ir.nec.1'') 7 ?h) = 1"
  proof -
    have "find_format ''m5.ir.nec.1'' (formats ?h) = None"
      by (simp add: find_format_def find_upt_None init_host_def empty_format_def)
    moreover have "free_format (formats ?h) = Some 0"
      by (simp add: free_format_def find_upt_Some init_host_def empty_format_def kMaxFormats_def)
    ultimately show ?thesis by (simp add: registerFormat_def kFormatNameMaxLength_def slot_id_def)
  qed
  obtain h1 where r: "registerFormat idle_core (Some ''m5.ir.nec.1'') 7 ?h = (1, h1)"
    using reg by (cases "registerFormat idle_core (Some ''m5.ir.nec.1'') 7 ?h") simp
  show ?thesis using format_id_granted_for_good [OF ok r, of h1 "[]" 8] r by simp
qed

text \<open>C7: a frame is accepted exactly when its format was handed out by the registry, its bits fit
  the bus and its data is there with every padding bit zero; an accepted frame changes
  nothing, a refused one leaves a diagnostic.\<close>

theorem frame_accepted_iff_sound:
  "if lookup_format (formats h) format \<noteq> None \<and> bits \<le> kMaxFrameBits \<and>
      (bits = 0 \<or> (case data of None \<Rightarrow> False | Some bs \<Rightarrow> padding_zero bs bits))
   then frameAccept co bus format data bits h = (True, h)
   else \<exists>line. frameAccept co bus format data bits h = (False, diag co 0 line h)"
proof -
  obtain a h' where f: "frameAccept co bus format data bits h = (a, h')"
    by (cases "frameAccept co bus format data bits h")
  show ?thesis unfolding framePaddingClean_iff [symmetric]
    using frameAccept_iff [of co bus format data bits h] frameAccept_True [of co bus format data bits h h']
      frameAccept_refuses [of co bus format data bits h] f
    by (cases a) auto
qed

text \<open>A frame held back while a device runs reaches the receiver unchanged: the eight bytes of
  the held copy carry every byte of an accepted frame, and its bit count fits the stored
  byte.\<close>

theorem held_frame_is_complete:
  "bits \<le> kMaxFrameBits \<Longrightarrow>
   take (frameBytes bits) (deferred_data data bits) = frame_payload data bits @
     replicate (frameBytes bits - length (frame_payload data bits)) 0 \<and>
   length (deferred_data data bits) = 8 \<and> unat (of_nat bits :: u8) = bits"
proof -
  assume b: "bits \<le> kMaxFrameBits"
  then have f: "frameBytes bits \<le> 8" by (simp add: frameBytes_le kMaxFrameBits_def)
  have len: "length (frame_payload data bits) \<le> frameBytes bits"
    by (auto simp: frame_payload_def split: option.split)
  then have "deferred_data data bits = frame_payload data bits @ replicate (8 - length (frame_payload data bits)) 0"
    using f by (simp add: deferred_data_def Let_def)
  then show ?thesis using len f b by (simp add: kMaxFrameBits_def unat_of_nat)
qed

theorem held_frame_is_complete_witness:
  "take 2 (deferred_data (Some [0xA5, 0xF0]) 12) = [0xA5, 0xF0]"
  using held_frame_is_complete [of 12 "Some [0xA5, 0xF0]"]
  by (simp add: kMaxFrameBits_def frameBytes_def frame_payload_def numeral_2_eq_2)

end
