(* ===== verification/Device_Port.thy ===== *)
theory Device_Port
  imports Frame_Routing
begin

text \<open>
  What a device can do to the environment (\<open>src/src/embedbench_host.cpp\<close>): the sinks for
  lines, serial bytes, analog values, notes and wake requests, the port that routes a
  device's calls to them (\<open>DevicePort\<close>), and the bracketed call of device code.
\<close>

section \<open>Sinks\<close>

definition LOW :: u8 where "LOW = 0"
definition HIGH :: u8 where "HIGH = 1"

definition edge_match :: "u8 \<Rightarrow> u8 \<Rightarrow> irq_trigger \<Rightarrow> bool" where
  "edge_match previous level trigger =
     (if previous = LOW \<and> level = HIGH then trigger = kTriggerRising \<or> trigger = kTriggerChange
      else if previous = HIGH \<and> level = LOW then trigger = kTriggerFalling \<or> trigger = kTriggerChange
      else False)"

definition pinInject ::
    "('c, 'm) core \<Rightarrow> origin \<Rightarrow> u8 \<Rightarrow> u8 \<Rightarrow> ('c, 'm) host \<Rightarrow> ('c, 'm) host option" where
  "pinInject co org pin level h =
     (let previous = co_pin_value co (hw h) pin;
          match = edge_match previous level (co_interrupt_trigger co (hw h) pin);
          h1 = emit co org 0 (''gpio.inject pin='' @ decw pin @ '' '' @ decw previous @ ''->'' @
                              decw level @ '' match='' @ bool_dec match) h;
          h2 = h1\<lparr>hw := co_set_pin_value co pin level (hw h1)\<rparr>
      in if \<not> match then Some h2
         else if device_depth h2 > 0 then Some (queueDeferred co (DeferredIsr pin) h2)
         else co_trigger_interrupt co pin h2)"

definition port_tag :: "serial_port \<Rightarrow> string" where
  "port_tag port = (if port = kSerial2 then '' port=2'' else [])"

definition uartInjectOn ::
    "('c, 'm) core \<Rightarrow> origin \<Rightarrow> serial_port \<Rightarrow> bytes \<Rightarrow> ('c, 'm) host \<Rightarrow> bool \<times> ('c, 'm) host" where
  "uartInjectOn co org port data h =
     (let h1 = emit co org 0 (''dev.tx'' @ port_tag port @ '' '' @ bytesLabel data 24) h
      in case co_push_rx co port data (hw h1) of
        (accepted, c) \<Rightarrow>
          let h2 = h1\<lparr>hw := c\<rparr>
          in if accepted < length data
             then (False, diag co 0 (''diag.uart_rx_full accepted='' @ decu accepted @ '' len='' @
                                     decu (length data)) h2)
             else (True, h2))"

definition uartInject ::
    "('c, 'm) core \<Rightarrow> origin \<Rightarrow> bytes \<Rightarrow> ('c, 'm) host \<Rightarrow> bool \<times> ('c, 'm) host" where
  "uartInject co org data h = uartInjectOn co org kSerial1 data h"

definition analogInject ::
    "('c, 'm) core \<Rightarrow> origin \<Rightarrow> u8 \<Rightarrow> u16 \<Rightarrow> ('c, 'm) host \<Rightarrow> ('c, 'm) host" where
  "analogInject co org pin raw h =
     (let h1 = emit co org 0 (''analog.inject pin='' @ decw pin @ '' val='' @ decw raw) h
      in h1\<lparr>hw := co_set_analog_value co pin raw (hw h1)\<rparr>)"

definition analogInjectMilliVolts ::
    "('c, 'm) core \<Rightarrow> origin \<Rightarrow> u8 \<Rightarrow> u32 \<Rightarrow> ('c, 'm) host \<Rightarrow> ('c, 'm) host" where
  "analogInjectMilliVolts co org pin mv h =
     (let h1 = emit co org 0 (''analog.inject.mv pin='' @ decw pin @ '' mv='' @ decw mv) h
      in h1\<lparr>hw := co_set_analog_mv co pin mv (hw h1)\<rparr>)"

definition deviceNote :: "('c, 'm) core \<Rightarrow> string \<Rightarrow> ('c, 'm) host \<Rightarrow> ('c, 'm) host" where
  "deviceNote co note_text h = emit co kDev 0 (''dev.note '' @ note_text) h"

section \<open>Wake requests\<close>

definition requestWake :: "('c, 'm) core \<Rightarrow> u64 \<Rightarrow> ('c, 'm) host \<Rightarrow> bool \<times> ('c, 'm) host" where
  "requestWake co whenUs h =
     (if whenUs \<le> vnow h then (True, h)
      else if list_ex (\<lambda>i. wake_at h ! i = whenUs) [0..<kWakeSlots] then (True, h)
      else case List.find (\<lambda>i. wake_at h ! i = 0) [0..<kWakeSlots] of
        Some i \<Rightarrow> (True, h\<lparr>wake_at := (wake_at h)[i := whenUs]\<rparr>)
      | None \<Rightarrow>
          (False, emit co kDiag 0 (''diag.wake_full pending='' @ dec kWakeSlots)
             (h\<lparr>dropped_wakes := dropped_wakes h + 1\<rparr>)))"

section \<open>The port\<close>

text \<open>
  \<open>DevicePort\<close>: each method routes to its sink. The environment behind the port is
  \<open>None\<close> once an interrupt handler or frame receiver reached from a sink has not returned.
\<close>

definition DevicePort_lineOut ::
    "('c, 'm) core \<Rightarrow> device_port \<Rightarrow> u8 \<Rightarrow> u8 \<Rightarrow> ('c, 'm) host \<Rightarrow> ('c, 'm) host option" where
  "DevicePort_lineOut co dp line level h =
     (case pin_of (dp_lines dp) line of None \<Rightarrow> Some h | Some pin \<Rightarrow> pinInject co kDev pin level h)"

definition DevicePort_analogOut ::
    "('c, 'm) core \<Rightarrow> device_port \<Rightarrow> u8 \<Rightarrow> u16 \<Rightarrow> ('c, 'm) host \<Rightarrow> bool \<times> ('c, 'm) host" where
  "DevicePort_analogOut co dp line raw h =
     (case pin_of (dp_analog dp) line of
        None \<Rightarrow> (False, h) | Some pin \<Rightarrow> (True, analogInject co kDev pin raw h))"

definition DevicePort_analogOutMilliVolts ::
    "('c, 'm) core \<Rightarrow> device_port \<Rightarrow> u8 \<Rightarrow> u32 \<Rightarrow> ('c, 'm) host \<Rightarrow> bool \<times> ('c, 'm) host" where
  "DevicePort_analogOutMilliVolts co dp line mv h =
     (case pin_of (dp_analog dp) line of
        None \<Rightarrow> (False, h) | Some pin \<Rightarrow> (True, analogInjectMilliVolts co kDev pin mv h))"

text \<open>A total call on an environment that may be gone, and one that may not return.\<close>

definition on_env :: "'a \<Rightarrow> ('h \<Rightarrow> 'a \<times> 'h) \<Rightarrow> 'h option \<Rightarrow> 'a \<times> 'h option" where
  "on_env lost f s = (case s of None \<Rightarrow> (lost, None) | Some h \<Rightarrow> (case f h of (a, h') \<Rightarrow> (a, Some h')))"

definition on_env_opt :: "'a \<Rightarrow> ('h \<Rightarrow> ('a \<times> 'h) option) \<Rightarrow> 'h option \<Rightarrow> 'a \<times> 'h option" where
  "on_env_opt lost f s =
     (case Option.bind s f of None \<Rightarrow> (lost, None) | Some (a, h') \<Rightarrow> (a, Some h'))"

definition device_port_calls ::
    "('c, 'm) core \<Rightarrow> device_port \<Rightarrow> (('c, 'm) host option, 'm) host_port" where
  "device_port_calls co dp = \<lparr>
     hp_now = (\<lambda>s. case s of None \<Rightarrow> 0 | Some h \<Rightarrow> vnow h),
     hp_line_out = (\<lambda>line level s. Option.bind s (DevicePort_lineOut co dp line level)),
     hp_analog_out = (\<lambda>line raw. on_env False (DevicePort_analogOut co dp line raw)),
     hp_analog_out_mv = (\<lambda>line mv. on_env False (DevicePort_analogOutMilliVolts co dp line mv)),
     hp_request_wake = (\<lambda>t. on_env False (requestWake co t)),
     hp_diagnose = (\<lambda>s. on_env False (\<lambda>h. (True, deviceNote co s h))),
     hp_serial_out = (\<lambda>data. on_env False (uartInjectOn co kDev (dp_serial dp) data)),
     hp_frame_out = (\<lambda>bus format data bits. on_env_opt False (frameRx co kDev bus format data bits)),
     hp_format_id = (\<lambda>name schema. on_env 0 (registerFormat co (Some name) schema)),
     hp_max_frame_bits = (\<lambda>bus s. of_nat kMaxFrameBits),
     hp_get = (\<lambda>s. case s of None \<Rightarrow> undefined | Some h \<Rightarrow> mem h),
     hp_upd = (\<lambda>g. map_option (\<lambda>h. h\<lparr>mem := g (mem h)\<rparr>))\<rparr>"

text \<open>Device code on the stack: \<open>enterDevice\<close>, the code behind the binding, \<open>leaveDevice\<close>.\<close>

definition run_device ::
    "('c, 'm) core \<Rightarrow> device_port \<times> ('m, 'r) prog \<Rightarrow> ('c, 'm) host \<Rightarrow> ('r \<times> ('c, 'm) host) option" where
  "run_device co call h =
     (case run_prog (device_port_calls co (fst call)) (snd call) (Some h) of
        (r, s) \<Rightarrow> map_option (Pair r) s)"

definition call_device ::
    "('c, 'm) core \<Rightarrow> device_port \<times> ('m, 'r) prog \<Rightarrow> ('c, 'm) host \<Rightarrow> ('r \<times> ('c, 'm) host) option" where
  "call_device co call h =
     map_option (\<lambda>(r, h1). (r, leaveDevice h1)) (run_device co call (enterDevice h))"

text \<open>A callback that walks over several devices, such as the one that advances time.\<close>

fun run_devices ::
    "('c, 'm) core \<Rightarrow> (device_port \<times> ('m, unit) prog) list \<Rightarrow> ('c, 'm) host \<Rightarrow> ('c, 'm) host option" where
  "run_devices co [] h = Some h"
| "run_devices co (call # calls) h =
     Option.bind (run_device co call h) (\<lambda>(u, h1). run_devices co calls h1)"

definition call_devices ::
    "('c, 'm) core \<Rightarrow> (device_port \<times> ('m, unit) prog) list \<Rightarrow> ('c, 'm) host \<Rightarrow> ('c, 'm) host option" where
  "call_devices co calls h = map_option leaveDevice (run_devices co calls (enterDevice h))"

section \<open>What device code leaves alone\<close>

text \<open>
  The contract behind re-entrancy: a law of the environment that every sink keeps is kept
  by any device code, which always returns and always leaves the depth as it was, because
  whatever it raises towards the application is held.
\<close>

locale device_law = record_law I for I :: "('c, 'm) host \<Rightarrow> bool" +
  fixes co :: "('c, 'm) core"
  assumes hw_law: "I h \<Longrightarrow> I (h\<lparr>hw := c\<rparr>)"
    and register_law: "I h \<Longrightarrow> I (snd (registerFormat co n s h))"
    and queue_law: "I h \<Longrightarrow> I (queueDeferred co e h)"
    and wake_law: "I h \<Longrightarrow> I (snd (requestWake co t h))"
begin

lemma pinInject_law:
  assumes "I h" and "device_depth h > 0"
  shows "\<exists>h'. pinInject co org pin level h = Some h' \<and> I h'"
  using assms by (auto simp: pinInject_def Let_def intro!: queue_law hw_law emit_law)

lemma lineOut_law:
  "I h \<Longrightarrow> device_depth h > 0 \<Longrightarrow> \<exists>h'. DevicePort_lineOut co dp line level h = Some h' \<and> I h'"
  by (auto simp: DevicePort_lineOut_def split: option.split intro: pinInject_law)

lemma uart_law: "I h \<Longrightarrow> I (snd (uartInjectOn co org port data h))"
  by (auto simp: uartInjectOn_def Let_def split: prod.split intro!: diag_law hw_law emit_law)

lemma analog_law:
  "I h \<Longrightarrow> I (snd (DevicePort_analogOut co dp line raw h))"
  "I h \<Longrightarrow> I (snd (DevicePort_analogOutMilliVolts co dp line mv h))"
  by (auto simp: DevicePort_analogOut_def DevicePort_analogOutMilliVolts_def analogInject_def
      analogInjectMilliVolts_def Let_def split: option.split intro!: hw_law emit_law)

lemma note_law: "I h \<Longrightarrow> I (deviceNote co s h)"
  by (simp add: deviceNote_def emit_law)

lemma accept_law: "I h \<Longrightarrow> I (snd (frameAccept co bus format data bits h))"
  by (auto simp: frameAccept_def intro: diag_law)

lemma frameRx_law:
  assumes "I h" and "device_depth h > 0"
  shows "\<exists>r h'. frameRx co org bus format data bits h = Some (r, h') \<and> I h'"
proof (cases "frameAccept co bus format data bits h")
  case (Pair r h1)
  have "I h1" using accept_law [OF assms(1)] Pair by (metis snd_conv)
  moreover have "r \<Longrightarrow> h1 = h" using Pair frameAccept_True by (cases r) auto
  ultimately show ?thesis
    using assms by (cases r) (auto simp: frameRx_def Pair Let_def split: option.split
        intro!: queue_law emit_law)
qed

end

text \<open>The depth is the same after every sink.\<close>

lemma queueDeferred_depth [simp]: "device_depth (queueDeferred co e h) = device_depth h"
  by (auto simp: queueDeferred_def Let_def split: deferred.split)

lemma pinInject_depth:
  "device_depth h > 0 \<Longrightarrow> pinInject co org pin level h = Some h' \<Longrightarrow> device_depth h' = device_depth h"
  by (auto simp: pinInject_def Let_def split: if_splits)

lemma lineOut_depth:
  "device_depth h > 0 \<Longrightarrow> DevicePort_lineOut co dp line level h = Some h' \<Longrightarrow> device_depth h' = device_depth h"
  by (auto simp: DevicePort_lineOut_def dest: pinInject_depth split: option.splits)

lemma sinks_depth [simp]:
  "device_depth (snd (uartInjectOn co org port data h)) = device_depth h"
  "device_depth (snd (DevicePort_analogOut co dp line raw h)) = device_depth h"
  "device_depth (snd (DevicePort_analogOutMilliVolts co dp line mv h)) = device_depth h"
  "device_depth (deviceNote co s h) = device_depth h"
  "device_depth (snd (requestWake co t h)) = device_depth h"
  "device_depth (snd (registerFormat co n s' h)) = device_depth h"
  by (auto simp: uartInjectOn_def DevicePort_analogOut_def DevicePort_analogOutMilliVolts_def
      analogInject_def analogInjectMilliVolts_def deviceNote_def requestWake_def registerFormat_def Let_def
      split: option.split prod.split)

lemma frameRx_depth:
  assumes "device_depth h > 0" and "frameRx co org bus format data bits h = Some (r, h')"
  shows "device_depth h' = device_depth h"
proof -
  obtain a h1 where a: "frameAccept co bus format data bits h = (a, h1)"
    by (cases "frameAccept co bus format data bits h")
  have "device_depth h1 = device_depth h" using a by (auto simp: frameAccept_def split: if_splits)
  then show ?thesis
    using assms by (auto simp: frameRx_def a Let_def split: bool.splits option.splits if_splits)
qed

context device_law
begin

lemma run_prog_law:
  assumes "I h" and "device_depth h > 0"
  shows "\<exists>r h'. run_prog (device_port_calls co dp) p (Some h) = (r, Some h') \<and> I h' \<and>
    device_depth h' = device_depth h"
  using assms
proof (induction p arbitrary: h)
  case (LineOut l v k)
  obtain h' where "DevicePort_lineOut co dp l v h = Some h'" "I h'"
    using lineOut_law LineOut.prems by blast
  then show ?case using LineOut.IH [of h'] LineOut.prems lineOut_depth [of h co dp l v h']
    by (simp add: device_port_calls_def)
next
  case (FrameOut bus f d n k)
  obtain r h' where f: "frameRx co kDev bus f d n h = Some (r, h')" "I h'"
    using frameRx_law FrameOut.prems by blast
  have d: "device_depth h' = device_depth h" using FrameOut.prems f(1) by (intro frameRx_depth)
  show ?case using FrameOut.IH [of "k r" h'] FrameOut.prems d f
    by (simp add: device_port_calls_def on_env_opt_def)
next
  case (AnalogOut l v k)
  let ?o = "DevicePort_analogOut co dp l v h"
  show ?case using AnalogOut.IH [of "k (fst ?o)" "snd ?o"] AnalogOut.prems analog_law(1)
    by (simp add: device_port_calls_def on_env_def split_beta)
next
  case (AnalogOutMv l v k)
  let ?o = "DevicePort_analogOutMilliVolts co dp l v h"
  show ?case using AnalogOutMv.IH [of "k (fst ?o)" "snd ?o"] AnalogOutMv.prems analog_law(2)
    by (simp add: device_port_calls_def on_env_def split_beta)
next
  case (RequestWake t k)
  let ?o = "requestWake co t h"
  show ?case using RequestWake.IH [of "k (fst ?o)" "snd ?o"] RequestWake.prems wake_law
    by (simp add: device_port_calls_def on_env_def split_beta)
next
  case (Diagnose s k)
  show ?case using Diagnose.IH [of "k True" "deviceNote co s h"] Diagnose.prems note_law
    by (simp add: device_port_calls_def on_env_def)
next
  case (SerialOut data k)
  let ?o = "uartInjectOn co kDev (dp_serial dp) data h"
  show ?case using SerialOut.IH [of "k (fst ?o)" "snd ?o"] SerialOut.prems uart_law
    by (simp add: device_port_calls_def on_env_def split_beta)
next
  case (FormatId n s k)
  let ?o = "registerFormat co (Some n) s h"
  show ?case using FormatId.IH [of "k (fst ?o)" "snd ?o"] FormatId.prems register_law
    by (simp add: device_port_calls_def on_env_def split_beta)
next
  case (Upd g k)
  show ?case using Upd.IH [of "h\<lparr>mem := g (mem h)\<rparr>"] Upd.prems mem_law
    by (simp add: device_port_calls_def)
qed (simp_all add: device_port_calls_def)

lemma run_device_law:
  assumes "I h" and "device_depth h > 0"
  shows "\<exists>r h'. run_device co call h = Some (r, h') \<and> I h' \<and> device_depth h' = device_depth h"
  using run_prog_law [OF assms, of "fst call" "snd call"] by (auto simp: run_device_def)

lemma run_devices_law:
  assumes "I h" and "device_depth h > 0"
  shows "\<exists>h'. run_devices co calls h = Some h' \<and> I h' \<and> device_depth h' = device_depth h"
  using assms
proof (induction calls arbitrary: h)
  case (Cons call calls)
  obtain r h1 where "run_device co call h = Some (r, h1)" "I h1" "device_depth h1 = device_depth h"
    using run_device_law [OF Cons.prems, of call] by blast
  then show ?case using Cons.IH [of h1] Cons.prems(2) by simp
qed simp

end

section \<open>The frame of device code\<close>

text \<open>
  Beside the trace and the memory, device code changes the registry, the held effects,
  the wake requests and the host core, nothing else.
\<close>

definition device_frame :: "('c, 'm) host \<Rightarrow> ('c, 'm) host \<Rightarrow> bool" where
  "device_frame h h' \<longleftrightarrow>
     quiet h (h'\<lparr>formats := formats h, deferred_effects := deferred_effects h,
                deferred_isrs := deferred_isrs h, deferred_frames := deferred_frames h,
                deferred_dropped := deferred_dropped h, wake_at := wake_at h,
                dropped_wakes := dropped_wakes h, hw := hw h\<rparr>)"

lemma quiet_device_frame: "quiet h h' \<Longrightarrow> device_frame h h'"
  by (simp add: device_frame_def quiet_def)

lemma device_frame_refl [simp]: "device_frame h h"
  by (simp add: quiet_device_frame)

lemma device_frame_trans: "device_frame h h' \<Longrightarrow> device_frame h' h'' \<Longrightarrow> device_frame h h''"
  by (simp add: device_frame_def quiet_def)

lemma queueDeferred_frame: "device_frame h (queueDeferred co e h)"
proof (cases "length (deferred_effects h) < kDeferralCapacity")
  case True
  then show ?thesis
    by (auto simp: queueDeferred_def Let_def device_frame_def quiet_def split: deferred.split)
next
  case False
  let ?h = "h\<lparr>deferred_dropped := deferred_dropped h + 1\<rparr>"
  have "device_frame h ?h" by (simp add: device_frame_def quiet_def)
  then have "device_frame h (diag co 0 (deferred_full_text e) ?h)"
    by (rule device_frame_trans) (rule quiet_device_frame [OF diag_quiet])
  then show ?thesis using False by (simp add: queueDeferred_def)
qed

lemma requestWake_frame: "device_frame h (snd (requestWake co t h))"
proof -
  let ?h = "h\<lparr>dropped_wakes := dropped_wakes h + 1\<rparr>"
  have "device_frame h ?h" by (simp add: device_frame_def quiet_def)
  then have "device_frame h (emit co kDiag 0 (''diag.wake_full pending='' @ dec kWakeSlots) ?h)"
    by (rule device_frame_trans) (rule quiet_device_frame [OF emit_quiet])
  then show ?thesis by (auto simp: requestWake_def device_frame_def quiet_def split: option.split)
qed

lemma registerFormat_frame: "device_frame h (snd (registerFormat co n s h))"
  using diag_quiet quiet_device_frame
  by (auto simp: registerFormat_def device_frame_def quiet_def split: option.split)

interpretation frame_of_devices: device_law "device_frame h0" co for h0 :: "('c, 'm) host" and co
proof
  fix h h' :: "('c, 'm) host" and org link t seq eo
  show "device_frame h0 h'" if "device_frame h0 h" "store_event org link t h = (seq, eo, h')"
    using that store_event_quiet quiet_device_frame device_frame_trans by blast
  show "device_frame h0 (queueDeferred co e h)" if "device_frame h0 h" for e
    using that queueDeferred_frame device_frame_trans by blast
  show "device_frame h0 (snd (requestWake co t h))" if "device_frame h0 h" for t
    using that requestWake_frame device_frame_trans by blast
  show "device_frame h0 (snd (registerFormat co n s h))" if "device_frame h0 h" for n s
    using that registerFormat_frame device_frame_trans by blast
qed (simp_all add: device_frame_def quiet_def)

text \<open>The trace of a state does not depend on what device code changes beside it.\<close>

lemma log_ok_update [simp]:
  "log_ok (h\<lparr>hw := c\<rparr>) = log_ok h" "log_ok (h\<lparr>deferred_dropped := n\<rparr>) = log_ok h"
  "log_ok (h\<lparr>dropped_wakes := n\<rparr>) = log_ok h" "log_ok (h\<lparr>formats := fs\<rparr>) = log_ok h"
  "log_ok (h\<lparr>wake_at := ws\<rparr>) = log_ok h" "log_ok (h\<lparr>deferred_effects := es\<rparr>) = log_ok h"
  "log_ok (h\<lparr>deferred_isrs := n\<rparr>) = log_ok h" "log_ok (h\<lparr>deferred_frames := n\<rparr>) = log_ok h"
  by (simp_all add: log_ok_def)

lemma balance_update [simp]:
  "balance (h\<lparr>hw := c\<rparr>) = balance h" "balance (h\<lparr>deferred_dropped := n\<rparr>) = balance h"
  "balance (h\<lparr>dropped_wakes := n\<rparr>) = balance h" "balance (h\<lparr>formats := fs\<rparr>) = balance h"
  "balance (h\<lparr>wake_at := ws\<rparr>) = balance h" "balance (h\<lparr>deferred_effects := es\<rparr>) = balance h"
  "balance (h\<lparr>deferred_isrs := n\<rparr>) = balance h" "balance (h\<lparr>deferred_frames := n\<rparr>) = balance h"
  by (simp_all add: balance_def held_def)

lemma record_ok [simp]:
  assumes "log_ok h"
  shows "log_ok (emit co org link t h)" "balance (emit co org link t h) = balance h"
    "log_ok (diag co link t h)" "balance (diag co link t h) = balance h"
  using assms trace_log.emit_law [of h "balance h"] trace_log.diag_law [of h "balance h"] by simp_all

interpretation trace_of_devices: device_law "\<lambda>h. log_ok h \<and> balance h = b" co for b and co :: "('c, 'm) core"
proof
  fix h :: "('c, 'm) host"
  assume I: "log_ok h \<and> balance h = b"
  show "log_ok (h\<lparr>hw := c\<rparr>) \<and> balance (h\<lparr>hw := c\<rparr>) = b" for c using I by simp
  show "log_ok (queueDeferred co e h) \<and> balance (queueDeferred co e h) = b" for e
    using I by (auto simp: queueDeferred_def Let_def split: deferred.split)
  show "log_ok (snd (requestWake co t h)) \<and> balance (snd (requestWake co t h)) = b" for t
    using I by (auto simp: requestWake_def split: option.split)
  show "log_ok (snd (registerFormat co n s h)) \<and> balance (snd (registerFormat co n s h)) = b" for n s
    using I by (auto simp: registerFormat_def split: option.split)
qed

section \<open>Properties\<close>

text \<open>C6: device code always returns and cannot reach the application: run from a device call, any
  program over the port ends in a state where the clock, the contexts, the bindings and
  the device depth are what they were, and the trace still satisfies its invariant with
  every record accounted for. Interrupts and frames it raised are only held.\<close>

theorem device_code_returns_and_keeps_frame:
  "device_depth h > 0 \<Longrightarrow> log_ok h \<Longrightarrow>
   \<exists>r h'. run_device co call h = Some (r, h') \<and> device_depth h' = device_depth h \<and> device_frame h h' \<and>
     log_ok h' \<and> balance h' = balance h"
  using frame_of_devices.run_device_law [of h h co call] trace_of_devices.run_device_law [of h "balance h" co call]
  by force

theorem device_code_returns_and_keeps_frame_witness:
  "\<exists>r h'. run_device idle_core (new_device_port, LineOut 0 1 (SerialOut [65] Ret))
      ((init_host () ())\<lparr>device_depth := 1\<rparr>) = Some (r, h') \<and> device_depth h' = 1"
proof -
  let ?h = "(init_host () ())\<lparr>device_depth := 1\<rparr>"
  have pre: "device_depth ?h > 0" "log_ok ?h" by (simp_all add: log_ok_def init_host_def kCapacity_def)
  show ?thesis
    using device_code_returns_and_keeps_frame [OF pre, of idle_core "(new_device_port, LineOut 0 1 (SerialOut [65] Ret))"]
    by auto
qed

text \<open>C4: a wake request is honest. It answers true exactly when the moment is past, already
  held, or could be given a free slot; no request ever evicts another; and the moment is
  held whenever it lies ahead and the answer was true.\<close>

theorem wake_request_honest:
  "length (wake_at h) = kWakeSlots \<Longrightarrow> requestWake co t h = (ok, h') \<Longrightarrow>
   (ok \<longleftrightarrow> t \<le> vnow h \<or> t \<in> set (wake_at h) \<or> 0 \<in> set (wake_at h)) \<and>
   (ok \<and> vnow h < t \<longrightarrow> t \<in> set (wake_at h')) \<and>
   set (wake_at h) - {0} \<subseteq> set (wake_at h') \<and> set (wake_at h') \<subseteq> insert t (set (wake_at h)) \<and>
   length (wake_at h') = kWakeSlots \<and> (\<not> ok \<longrightarrow> dropped_wakes h' = dropped_wakes h + 1)"
proof -
  assume len: "length (wake_at h) = kWakeSlots" and r: "requestWake co t h = (ok, h')"
  have ex: "list_ex (\<lambda>i. wake_at h ! i = v) [0..<kWakeSlots] \<longleftrightarrow> v \<in> set (wake_at h)" for v
    using len by (auto simp: list_ex_iff in_set_conv_nth)
  consider (known) "t \<le> vnow h \<or> t \<in> set (wake_at h)"
    | (free) i where "\<not> (t \<le> vnow h \<or> t \<in> set (wake_at h))" "i < kWakeSlots" "wake_at h ! i = 0"
        "List.find (\<lambda>i. wake_at h ! i = 0) [0..<kWakeSlots] = Some i"
    | (full) "\<not> (t \<le> vnow h \<or> t \<in> set (wake_at h))" "0 \<notin> set (wake_at h)"
        "List.find (\<lambda>i. wake_at h ! i = 0) [0..<kWakeSlots] = None"
    using len by (cases "List.find (\<lambda>i. wake_at h ! i = 0) [0..<kWakeSlots]")
      (auto simp: find_upt_Some find_upt_None in_set_conv_nth)
  then show ?thesis
  proof cases
    case known
    then have "ok \<and> h' = h" using r by (auto simp: requestWake_def ex split: if_splits)
    then show ?thesis using known len by auto
  next
    case free
    then have h': "ok" "h' = h\<lparr>wake_at := (wake_at h)[i := t]\<rparr>" using r by (auto simp: requestWake_def ex)
    have "t \<in> set ((wake_at h)[i := t])" using free(2) len by (simp add: set_update_memI)
    moreover have "set (wake_at h) - {0} \<subseteq> set ((wake_at h)[i := t])"
    proof
      fix v assume v: "v \<in> set (wake_at h) - {0}"
      then obtain j where "j < length (wake_at h)" "wake_at h ! j = v" by (auto simp: in_set_conv_nth)
      then have "j \<noteq> i" using v free(3) by auto
      then show "v \<in> set ((wake_at h)[i := t])"
        using \<open>j < length (wake_at h)\<close> \<open>wake_at h ! j = v\<close> by (metis length_list_update nth_list_update_neq nth_mem)
    qed
    moreover have "0 \<in> set (wake_at h)" using free(2,3) len by (metis nth_mem)
    ultimately show ?thesis using h' len free(1) set_update_subset_insert [of "wake_at h" i t] by auto
  next
    case full
    then have "\<not> ok \<and> wake_at h' = wake_at h \<and> dropped_wakes h' = dropped_wakes h + 1"
      using r by (auto simp: requestWake_def ex)
    then show ?thesis using full len by auto
  qed
qed

theorem wake_request_honest_witness:
  "fst (requestWake idle_core 1500 (init_host () ()))"
proof -
  have len: "length (wake_at (init_host () ())) = kWakeSlots" by (simp add: init_host_def)
  obtain ok h' where r: "requestWake idle_core 1500 (init_host () ()) = (ok, h')"
    by (cases "requestWake idle_core 1500 (init_host () ())")
  show ?thesis using wake_request_honest [OF len r] r by (simp add: init_host_def kWakeSlots_def)
qed

end
