(* ===== verification/Host_Clock.thy ===== *)
theory Host_Clock
  imports Device_Port
begin

text \<open>
  The virtual clock of \<open>src/src/embedbench_host.cpp\<close>: ticks and requested wakes, and
  \<open>onWait\<close>, which splits a wait at the moments something is due.
\<close>

section \<open>Advancing devices\<close>

definition onNow :: "('c, 'm) host \<Rightarrow> u64" where
  "onNow h = vnow h"

text \<open>The block that hands the current time to the tick device and delivers what was held.\<close>

definition serve_advance :: "('c, 'm) core \<Rightarrow> ('c, 'm) host \<Rightarrow> ('c, 'm) host option" where
  "serve_advance co h =
     (case tick_device h of
        None \<Rightarrow> Some h
      | Some cb \<Rightarrow> Option.bind (call_devices co (co_tick_device co cb (vnow h)) h) (deliverDeferred co))"

definition fireTick :: "('c, 'm) core \<Rightarrow> ('c, 'm) host \<Rightarrow> ('c, 'm) host option" where
  "fireTick co h = do {
     h1 \<leftarrow> serve_advance co (h\<lparr>ticks := ticks h + 1, dir_depth := dir_depth h + 1\<rparr>);
     h2 \<leftarrow> (case tick_handler h1 of None \<Rightarrow> Some h1 | Some cb \<Rightarrow> co_tick_handler co cb (ticks h1) h1);
     Some (h2\<lparr>dir_depth := dir_depth h2 - 1\<rparr>)
   }"

text \<open>The wake of \<open>onWait\<close>: retire, then advance the devices in director context.\<close>

definition retireWakesUpTo :: "u64 \<Rightarrow> ('c, 'm) host \<Rightarrow> ('c, 'm) host" where
  "retireWakesUpTo when h = h\<lparr>wake_at := map (\<lambda>w. if w \<noteq> 0 \<and> w \<le> when then 0 else w) (wake_at h)\<rparr>"

definition fireWake :: "('c, 'm) core \<Rightarrow> ('c, 'm) host \<Rightarrow> ('c, 'm) host option" where
  "fireWake co h = do {
     let h0 = retireWakesUpTo (vnow h) h;
     h1 \<leftarrow> serve_advance co (h0\<lparr>dir_depth := dir_depth h0 + 1\<rparr>);
     Some (h1\<lparr>dir_depth := dir_depth h1 - 1\<rparr>)
   }"

definition nextWakeAfter :: "u64 \<Rightarrow> ('c, 'm) host \<Rightarrow> u64" where
  "nextWakeAfter after h =
     foldl (\<lambda>best w. if w = 0 \<or> w \<le> after then best
                     else if best = 0 \<or> w < best then w else best) 0 (wake_at h)"

definition pendingWakeUs :: "('c, 'm) host \<Rightarrow> u64" where
  "pendingWakeUs h = nextWakeAfter (vnow h) h"

section \<open>Waiting\<close>

text \<open>The loop of a nested wait: the ticks it passes are counted for later.\<close>

partial_function (option) skip_ticks :: "u64 \<Rightarrow> ('c, 'm) host \<Rightarrow> ('c, 'm) host option" where
  "skip_ticks target h =
     (if next_tick h \<le> target then
        skip_ticks target (h\<lparr>pending_ticks := pending_ticks h + 1,
                             next_tick := next_tick h + ucast (tick_us h)\<rparr>)
      else Some h)"

text \<open>The loop that catches up on the ticks nested waits have passed.\<close>

partial_function (option) late_loop :: "('c, 'm) core \<Rightarrow> ('c, 'm) host \<Rightarrow> ('c, 'm) host option" where
  "late_loop co h =
     (if pending_ticks h > 0 then
        Option.bind (fireTick co (h\<lparr>pending_ticks := pending_ticks h - 1, late_ticks := late_ticks h + 1\<rparr>))
          (late_loop co)
      else Some h)"

text \<open>The next moment something is due, and whether it is a wake rather than a tick.\<close>

definition next_stop :: "('c, 'm) host \<Rightarrow> u64 \<times> bool" where
  "next_stop h =
     (let wake = nextWakeAfter (vnow h) h
      in if wake \<noteq> 0 \<and> wake < next_tick h then (wake, True) else (next_tick h, False))"

definition finish_wait :: "u64 \<Rightarrow> ('c, 'm) host \<Rightarrow> ('c, 'm) host" where
  "finish_wait target h = (if target > vnow h then h\<lparr>vnow := target\<rparr> else h)"

definition pass_tick :: "('c, 'm) core \<Rightarrow> ('c, 'm) host \<Rightarrow> ('c, 'm) host option" where
  "pass_tick co h = do {
     h1 \<leftarrow> fireTick co (retireWakesUpTo (vnow h) (h\<lparr>next_tick := next_tick h + ucast (tick_us h)\<rparr>));
     late_loop co h1
   }"

text \<open>
  The main loop. \<open>loops\<close> says the caller will come back for the rest of its wait, so a wake
  ends the slice there.
\<close>

partial_function (option) wait_loop ::
    "('c, 'm) core \<Rightarrow> bool \<Rightarrow> u64 \<Rightarrow> ('c, 'm) host \<Rightarrow> ('c, 'm) host option" where
  "wait_loop co loops target h =
     (if fst (next_stop h) > target then Some (finish_wait target h)
      else if snd (next_stop h) then
        (if loops then fireWake co (h\<lparr>vnow := fst (next_stop h)\<rparr>)
         else Option.bind (fireWake co (h\<lparr>vnow := fst (next_stop h)\<rparr>)) (wait_loop co loops target))
      else Option.bind (pass_tick co (h\<lparr>vnow := fst (next_stop h)\<rparr>)) (wait_loop co loops target))"

definition onWait :: "('c, 'm) core \<Rightarrow> u32 \<Rightarrow> ('c, 'm) host \<Rightarrow> ('c, 'm) host option" where
  "onWait co us h =
     (if us = 0 then
        (if dir_depth h > 0 \<or> isr_depth h > 0
         then Some (h\<lparr>zero_in_director := zero_in_director h + 1\<rparr>)
         else
           (let h1 = h\<lparr>zero_waits := zero_waits h + 1\<rparr>
            in case zero_handler h1 of
                 None \<Rightarrow> Some h1
               | Some cb \<Rightarrow>
                   map_option (\<lambda>h2. h2\<lparr>dir_depth := dir_depth h2 - 1\<rparr>)
                     (co_zero_handler co cb (zero_waits h1) (h1\<lparr>dir_depth := dir_depth h1 + 1\<rparr>))))
      else if dir_depth h > 0 \<or> isr_depth h > 0 then
        map_option (\<lambda>h1. h1\<lparr>vnow := vnow h + ucast us\<rparr>) (skip_ticks (vnow h + ucast us) h)
      else wait_loop co (us = kCoreLoopSliceUs) (vnow h + ucast us) h)"

section \<open>The wake table\<close>

text \<open>No request is held whose moment has come; the table has its eight slots.\<close>

definition wakes_ok :: "('c, 'm) host \<Rightarrow> bool" where
  "wakes_ok h \<longleftrightarrow> length (wake_at h) = kWakeSlots \<and> (\<forall>w\<in>set (wake_at h). w = 0 \<or> vnow h < w)"

definition wakes_after :: "u64 \<Rightarrow> ('c, 'm) host \<Rightarrow> u64 set" where
  "wakes_after t h = {w \<in> set (wake_at h). w \<noteq> 0 \<and> t < w}"

definition earliest :: "u64 \<Rightarrow> u64 \<Rightarrow> u64 \<Rightarrow> u64" where
  "earliest after best w =
     (if w = 0 \<or> w \<le> after then best else if best = 0 \<or> w < best then w else best)"

lemma foldl_earliest:
  fixes ws :: "u64 list" and after best :: u64
  defines "due \<equiv> {w \<in> set ws. w \<noteq> 0 \<and> after < w}"
  defines "r \<equiv> foldl (earliest after) best ws"
  shows "(r = best \<or> r \<in> due) \<and> (r = 0 \<longrightarrow> best = 0 \<and> due = {}) \<and> (best \<noteq> 0 \<longrightarrow> r \<le> best) \<and>
    (\<forall>v\<in>due. r \<le> v)"
  unfolding due_def r_def
proof (induction ws arbitrary: best)
  case (Cons w ws)
  consider "w = 0 \<or> w \<le> after" | "w \<noteq> 0" "after < w" "best = 0 \<or> w < best"
    | "w \<noteq> 0" "after < w" "best \<noteq> 0" "best \<le> w" by force
  then show ?case
  proof cases
    case 1
    then have "earliest after best w = best" by (auto simp: earliest_def)
    then show ?thesis using Cons.IH [of best] 1 by auto
  next
    case 2
    then have "earliest after best w = w" by (auto simp: earliest_def)
    then show ?thesis using Cons.IH [of w] 2 by auto
  next
    case 3
    then have "earliest after best w = best" by (auto simp: earliest_def)
    then show ?thesis using Cons.IH [of best] 3 by auto
  qed
qed simp

lemma nextWakeAfter_least:
  "nextWakeAfter t h = w \<longleftrightarrow>
     (if wakes_after t h = {} then w = 0 else w \<in> wakes_after t h \<and> (\<forall>v\<in>wakes_after t h. w \<le> v))"
proof -
  have "nextWakeAfter t h = foldl (earliest t) 0 (wake_at h)"
    by (simp add: nextWakeAfter_def earliest_def [abs_def])
  then show ?thesis
    using foldl_earliest [of t 0 "wake_at h"] unfolding wakes_after_def
    by (auto dest: order.antisym)
qed

section \<open>Device code and the wake table\<close>

lemma wakes_ok_quiet: "quiet h h' \<Longrightarrow> wakes_ok h' = wakes_ok h"
  by (simp add: quiet_def wakes_ok_def)

lemma wakes_ok_requestWake:
  assumes "wakes_ok h"
  shows "wakes_ok (snd (requestWake co t h))"
proof (cases "t \<le> vnow h \<or> list_ex (\<lambda>i. wake_at h ! i = t) [0..<kWakeSlots]")
  case True
  then show ?thesis using assms by (auto simp: requestWake_def)
next
  case False
  have "set ((wake_at h)[i := t]) \<subseteq> insert t (set (wake_at h))" for i by (rule set_update_subset_insert)
  then show ?thesis
    using assms False by (auto simp: requestWake_def wakes_ok_def not_le split: option.split)
qed

interpretation wakes_of_devices: device_law wakes_ok co for co :: "('c, 'm) core"
proof
  fix h h' :: "('c, 'm) host" and org link t seq eo
  show "wakes_ok h'" if "wakes_ok h" "store_event org link t h = (seq, eo, h')"
    using that wakes_ok_quiet store_event_quiet by blast
  show "wakes_ok (queueDeferred co e h)" if "wakes_ok h" for e
    using that wakes_ok_quiet [OF diag_quiet]
    by (auto simp: queueDeferred_def Let_def wakes_ok_def split: deferred.split)
  show "wakes_ok (snd (registerFormat co n s h))" if "wakes_ok h" for n s
    using that wakes_ok_quiet [OF diag_quiet]
    by (auto simp: registerFormat_def wakes_ok_def split: option.split)
  show "wakes_ok (snd (requestWake co t h))" if "wakes_ok h" for t
    using that by (rule wakes_ok_requestWake)
qed (simp_all add: wakes_ok_def)

text \<open>What a wait relies on the application for: it returns and leaves the clock alone.\<close>

definition clock_kept :: "('c, 'm) host \<Rightarrow> ('c, 'm) host \<Rightarrow> bool" where
  "clock_kept h h' \<longleftrightarrow>
     tick_us h' = tick_us h \<and> vnow h' = vnow h \<and> next_tick h' = next_tick h \<and> ticks h' = ticks h \<and>
     pending_ticks h' = pending_ticks h \<and> late_ticks h' = late_ticks h \<and> dir_depth h' = dir_depth h \<and>
     isr_depth h' = isr_depth h \<and> device_depth h' = device_depth h \<and> (wakes_ok h \<longrightarrow> wakes_ok h')"

definition calm_app :: "('c, 'm) core \<Rightarrow> bool" where
  "calm_app co \<longleftrightarrow>
     (\<forall>cb n h. \<exists>h'. co_tick_handler co cb n h = Some h' \<and> clock_kept h h') \<and>
     (\<forall>e h. \<exists>h'. deliver_one co e h = Some h' \<and> clock_kept h h' \<and>
        length (deferred_effects h') \<le> length (deferred_effects h))"

lemma clock_kept_refl [simp]: "clock_kept h h"
  by (simp add: clock_kept_def)

lemma clock_kept_trans: "clock_kept h h' \<Longrightarrow> clock_kept h' h'' \<Longrightarrow> clock_kept h h''"
  by (simp add: clock_kept_def)

lemma deliverDeferred_calm:
  assumes calm: "calm_app co"
  shows "\<exists>h'. deliverDeferred co h = Some h' \<and> clock_kept h h'"
proof (induction "length (deferred_effects h)" arbitrary: h rule: less_induct)
  case less
  show ?case
  proof (cases "device_depth h = 0 \<and> deferred_effects h \<noteq> []")
    case True
    let ?h = "h\<lparr>deferred_effects := tl (deferred_effects h)\<rparr>"
    obtain h1 where h1: "deliver_one co (hd (deferred_effects h)) ?h = Some h1" "clock_kept ?h h1"
        "length (deferred_effects h1) \<le> length (tl (deferred_effects h))"
      using calm unfolding calm_app_def by (metis (no_types, lifting) deferral.select_convs(3) deferral.surjective deferral.update_convs(3))
    then have "length (deferred_effects h1) < length (deferred_effects h)" using True by (cases "deferred_effects h") auto
    from less [OF this] obtain h2 where h2: "deliverDeferred co h1 = Some h2" "clock_kept h1 h2" by blast
    have "clock_kept h ?h" by (simp add: clock_kept_def wakes_ok_def)
    then have "clock_kept h h2" using h1(2) h2(2) clock_kept_trans by blast
    then show ?thesis using True h1 h2 by (subst deliverDeferred.simps) simp
  next
    case False
    then show ?thesis by (auto simp: deliverDeferred_held deliverDeferred_empty)
  qed
qed

lemma call_devices_kept:
  assumes "device_depth h = 0"
  shows "\<exists>h'. call_devices co calls h = Some h' \<and> clock_kept h h' \<and> device_frame h (h'\<lparr>max_device_depth := max_device_depth h\<rparr>)"
proof -
  let ?h = "enterDevice h"
  have d: "device_depth ?h = 1" using assms by simp
  then have "device_depth ?h > 0" by simp
  then obtain h1 where h1: "run_devices co calls ?h = Some h1" "device_frame ?h h1" "device_depth h1 = 1"
    using frame_of_devices.run_devices_law [of ?h ?h co calls] d by auto
  have "wakes_ok ?h \<Longrightarrow> wakes_ok h1"
    using wakes_of_devices.run_devices_law [of ?h co calls] d h1(1) by auto
  moreover have "wakes_ok ?h = wakes_ok h" by (simp add: wakes_ok_def enterDevice_def Let_def)
  moreover have "wakes_ok (leaveDevice h1) = wakes_ok h1" by (simp add: wakes_ok_def leaveDevice_def)
  ultimately have "clock_kept h (leaveDevice h1)"
    using h1(2,3) assms by (auto simp: clock_kept_def device_frame_def quiet_def leaveDevice_def enterDevice_def Let_def split: if_splits)
  moreover have "device_frame h ((leaveDevice h1)\<lparr>max_device_depth := max_device_depth h\<rparr>)"
    using h1(2,3) assms by (auto simp: device_frame_def quiet_def leaveDevice_def enterDevice_def Let_def split: if_splits)
  ultimately show ?thesis using h1(1) by (simp add: call_devices_def)
qed

lemma serve_advance_calm:
  assumes "calm_app co" and "device_depth h = 0"
  shows "\<exists>h'. serve_advance co h = Some h' \<and> clock_kept h h'"
proof (cases "tick_device h")
  case None
  then show ?thesis by (simp add: serve_advance_def)
next
  case (Some cb)
  obtain h1 where "call_devices co (co_tick_device co cb (vnow h)) h = Some h1" "clock_kept h h1"
    using call_devices_kept [OF assms(2)] by blast
  then show ?thesis
    using Some deliverDeferred_calm [OF assms(1), of h1] clock_kept_trans by (auto simp: serve_advance_def)
qed


section \<open>A wait lasts as long as it was asked to\<close>

text \<open>The director depth is taken back after the advance, whatever it was.\<close>

lemma fireTick_calm:
  assumes "calm_app co" and "device_depth h = 0"
  shows "\<exists>h'. fireTick co h = Some h' \<and> clock_kept (h\<lparr>ticks := ticks h + 1\<rparr>) h'"
proof -
  let ?h = "h\<lparr>ticks := ticks h + 1, dir_depth := dir_depth h + 1\<rparr>"
  obtain h1 where h1: "serve_advance co ?h = Some h1" "clock_kept ?h h1"
    using serve_advance_calm [OF assms(1), of ?h] assms(2) by auto
  have "\<exists>h2. (case tick_handler h1 of None \<Rightarrow> Some h1 | Some cb \<Rightarrow> co_tick_handler co cb (ticks h1) h1) = Some h2
      \<and> clock_kept h1 h2"
  proof (cases "tick_handler h1")
    case (Some cb)
    obtain h2 where "co_tick_handler co cb (ticks h1) h1 = Some h2" "clock_kept h1 h2"
      using assms(1) unfolding calm_app_def by blast
    then show ?thesis using Some by simp
  qed simp
  then obtain h2 where h2: "(case tick_handler h1 of None \<Rightarrow> Some h1 | Some cb \<Rightarrow> co_tick_handler co cb (ticks h1) h1) = Some h2"
      "clock_kept h1 h2" by blast
  have "clock_kept (h\<lparr>ticks := ticks h + 1\<rparr>) (h2\<lparr>dir_depth := dir_depth h2 - 1\<rparr>)"
    using clock_kept_trans [OF h1(2) h2(2)] by (auto simp: clock_kept_def wakes_ok_def)
  then show ?thesis using h1 h2 by (simp add: fireTick_def)
qed

lemma wakes_ok_retire:
  "length (wake_at h) = kWakeSlots \<Longrightarrow> wakes_ok (retireWakesUpTo (vnow h) h)"
  by (auto simp: wakes_ok_def retireWakesUpTo_def)

lemma fireWake_calm:
  assumes "calm_app co" and "device_depth h = 0" and "length (wake_at h) = kWakeSlots"
  shows "\<exists>h'. fireWake co h = Some h' \<and> clock_kept h (h'\<lparr>wake_at := wake_at h\<rparr>) \<and> wakes_ok h'"
proof -
  let ?h0 = "retireWakesUpTo (vnow h) h"
  let ?h = "?h0\<lparr>dir_depth := dir_depth ?h0 + 1\<rparr>"
  have d: "device_depth ?h = 0" using assms(2) by (simp add: retireWakesUpTo_def)
  obtain h1 where h1: "serve_advance co ?h = Some h1" "clock_kept ?h h1"
    using serve_advance_calm [OF assms(1) d] by auto
  have "wakes_ok ?h" using wakes_ok_retire [OF assms(3)] by (simp add: wakes_ok_def)
  then have "wakes_ok h1" using h1(2) by (simp add: clock_kept_def)
  then have w: "wakes_ok (h1\<lparr>dir_depth := dir_depth h1 - 1\<rparr>)" by (simp add: wakes_ok_def)
  have "clock_kept h (h1\<lparr>dir_depth := dir_depth h1 - 1, wake_at := wake_at h\<rparr>)"
    using h1(2) by (auto simp: clock_kept_def retireWakesUpTo_def wakes_ok_def)
  then show ?thesis using h1(1) w by (intro exI [of _ "h1\<lparr>dir_depth := dir_depth h1 - 1\<rparr>"]) (simp add: fireWake_def)
qed

text \<open>A clock between two waits of the application.\<close>

definition clock_ok :: "('c, 'm) host \<Rightarrow> bool" where
  "clock_ok h \<longleftrightarrow>
     tick_us h > 0 \<and> vnow h < next_tick h \<and> pending_ticks h = 0 \<and> dir_depth h = 0 \<and> isr_depth h = 0 \<and>
     device_depth h = 0 \<and> wakes_ok h"

lemma next_stop_after:
  assumes "clock_ok h" and "next_stop h = (t, w)"
  shows "vnow h < t" and "t \<le> next_tick h" and "\<not> w \<Longrightarrow> t = next_tick h"
    and "\<forall>v\<in>wakes_after (vnow h) h. v < next_tick h \<longrightarrow> t \<le> v"
    and "w \<Longrightarrow> t \<in> wakes_after (vnow h) h \<and> t < next_tick h"
proof -
  let ?v = "nextWakeAfter (vnow h) h"
  have least: "if wakes_after (vnow h) h = {} then ?v = 0
      else ?v \<in> wakes_after (vnow h) h \<and> (\<forall>v\<in>wakes_after (vnow h) h. ?v \<le> v)"
    using nextWakeAfter_least [of "vnow h" h ?v] by simp
  have after: "?v \<noteq> 0 \<Longrightarrow> vnow h < ?v"
    using least by (auto simp: wakes_after_def split: if_splits)
  have zero: "?v = 0 \<Longrightarrow> wakes_after (vnow h) h = {}"
    using least by (auto simp: wakes_after_def split: if_splits)
  show "vnow h < t" "t \<le> next_tick h" "\<not> w \<Longrightarrow> t = next_tick h"
    using assms after by (auto simp: next_stop_def Let_def clock_ok_def split: if_splits)
  show "\<forall>v\<in>wakes_after (vnow h) h. v < next_tick h \<longrightarrow> t \<le> v"
    using assms(2) least zero by (auto simp: next_stop_def Let_def split: if_splits)
  show "w \<Longrightarrow> t \<in> wakes_after (vnow h) h \<and> t < next_tick h"
    using assms(2) least by (auto simp: next_stop_def Let_def split: if_splits)
qed

text \<open>One turn of the loop: a tick boundary, or a wake before it.\<close>

lemma pass_tick_calm:
  assumes calm: "calm_app co" and ok: "clock_ok h"
    and fits: "unat (next_tick h) + unat (tick_us h) < 2 ^ 64"
  shows "\<exists>h'. pass_tick co (h\<lparr>vnow := next_tick h\<rparr>) = Some h' \<and> clock_ok h' \<and> vnow h' = next_tick h \<and>
    tick_us h' = tick_us h \<and> next_tick h' = next_tick h + ucast (tick_us h) \<and>
    unat (next_tick h') = unat (next_tick h) + unat (tick_us h) \<and> ticks h' = ticks h + 1 \<and> late_ticks h' = late_ticks h"
proof -
  let ?h = "h\<lparr>vnow := next_tick h, next_tick := next_tick h + ucast (tick_us h)\<rparr>"
  let ?r = "retireWakesUpTo (next_tick h) ?h"
  have n: "unat (next_tick h + ucast (tick_us h)) = unat (next_tick h) + unat (tick_us h)"
    using fits by (intro u64_less_add [THEN trans]) simp_all
  have "unat (tick_us h) > 0" using ok by (simp add: clock_ok_def unat_gt_0 word_neq_0_conv)
  then have later: "next_tick h < next_tick h + ucast (tick_us h)" by (simp add: word_less_nat_alt n)
  have "wakes_ok ?r" using wakes_ok_retire [of ?h] ok by (simp add: clock_ok_def wakes_ok_def)
  then have r: "clock_ok (?r)" using ok later by (simp add: clock_ok_def retireWakesUpTo_def)
  obtain h1 where h1: "fireTick co ?r = Some h1" "clock_kept (?r\<lparr>ticks := ticks ?r + 1\<rparr>) h1"
    using fireTick_calm [OF calm, of ?r] r by (auto simp: clock_ok_def)
  have "wakes_ok (?r\<lparr>ticks := ticks ?r + 1\<rparr>)" using r by (simp add: clock_ok_def wakes_ok_def)
  then have h1_ok: "clock_ok h1" using h1(2) r by (simp add: clock_ok_def clock_kept_def)
  have "late_loop co h1 = Some h1" using h1_ok by (subst late_loop.simps) (simp add: clock_ok_def)
  moreover have "h\<lparr>vnow := next_tick h, next_tick := next_tick h + ucast (tick_us h)\<rparr> =
      (h\<lparr>vnow := next_tick h\<rparr>)\<lparr>next_tick := next_tick h + ucast (tick_us h)\<rparr>" by simp
  ultimately have "pass_tick co (h\<lparr>vnow := next_tick h\<rparr>) = Some h1"
    using h1(1) by (simp add: pass_tick_def)
  then show ?thesis using h1(2) h1_ok n by (simp add: clock_kept_def retireWakesUpTo_def)
qed

lemma pass_wake_calm:
  assumes calm: "calm_app co" and ok: "clock_ok h" and w: "vnow h < w" "w < next_tick h"
  shows "\<exists>h'. fireWake co (h\<lparr>vnow := w\<rparr>) = Some h' \<and> clock_ok h' \<and> vnow h' = w \<and>
    tick_us h' = tick_us h \<and> next_tick h' = next_tick h \<and> ticks h' = ticks h \<and> late_ticks h' = late_ticks h"
proof -
  have pre: "device_depth (h\<lparr>vnow := w\<rparr>) = 0" "length (wake_at (h\<lparr>vnow := w\<rparr>)) = kWakeSlots"
    using ok by (simp_all add: clock_ok_def wakes_ok_def)
  obtain h' where "fireWake co (h\<lparr>vnow := w\<rparr>) = Some h'"
      "clock_kept (h\<lparr>vnow := w\<rparr>) (h'\<lparr>wake_at := wake_at (h\<lparr>vnow := w\<rparr>)\<rparr>)" "wakes_ok h'"
    using fireWake_calm [OF calm pre] by blast
  then show ?thesis using ok w by (auto simp: clock_kept_def clock_ok_def)
qed

text \<open>The number of tick boundaries passed, and where the next one lies.\<close>

definition ticked :: "nat \<Rightarrow> ('c, 'm) host \<Rightarrow> ('c, 'm) host \<Rightarrow> bool" where
  "ticked j h h' \<longleftrightarrow>
     tick_us h' = tick_us h \<and> unat (next_tick h') = unat (next_tick h) + j * unat (tick_us h) \<and>
     ticks h' = ticks h + of_nat j \<and> late_ticks h' = late_ticks h"

lemma wait_loop_one_shot:
  assumes calm: "calm_app co" and "clock_ok h" and "vnow h \<le> target"
    and "unat target + unat (tick_us h) < 2 ^ 64"
  shows "\<exists>h' j. wait_loop co False target h = Some h' \<and> clock_ok h' \<and> vnow h' = target \<and> ticked j h h' \<and>
    (j = 0 \<or> unat (next_tick h') \<le> unat target + unat (tick_us h))"
  using assms(2-)
proof (induction "unat target - unat (vnow h)" arbitrary: h rule: less_induct)
  case less
  obtain t w where stop: "next_stop h = (t, w)" by (cases "next_stop h")
  note st = next_stop_after [OF less.prems(1) stop]
  show ?case
  proof (cases "t > target")
    case True
    have "clock_ok (finish_wait target h) \<and> vnow (finish_wait target h) = target \<and> ticked 0 h (finish_wait target h)"
    proof (cases "target > vnow h")
      case later: True
      have "target < w" if "w \<in> set (wake_at h)" "w \<noteq> 0" for w
      proof -
        have "w \<in> wakes_after (vnow h) h"
          using that less.prems(1) by (auto simp: wakes_after_def clock_ok_def wakes_ok_def)
        then have "w < next_tick h \<longrightarrow> t \<le> w" using st(4) by blast
        then show ?thesis using True st(2) by (meson leI order.strict_trans1 order.strict_trans2)
      qed
      then have "clock_ok (h\<lparr>vnow := target\<rparr>)"
        using less.prems(1) True st(2) by (auto simp: clock_ok_def wakes_ok_def)
      then show ?thesis using later by (simp add: finish_wait_def ticked_def)
    next
      case False
      then show ?thesis using less.prems by (simp add: finish_wait_def ticked_def)
    qed
    then show ?thesis using True stop by (subst wait_loop.simps) auto
  next
    case False
    then have le: "t \<le> target" by simp
    have step: "unat target - unat t < unat target - unat (vnow h)"
      using st(1) le by (simp add: word_less_nat_alt word_le_nat_alt)
    show ?thesis
    proof (cases w)
      case True
      obtain h1 where h1: "fireWake co (h\<lparr>vnow := t\<rparr>) = Some h1" "clock_ok h1" "vnow h1 = t" "tick_us h1 = tick_us h"
          "next_tick h1 = next_tick h" "ticks h1 = ticks h" "late_ticks h1 = late_ticks h"
        using pass_wake_calm [OF calm less.prems(1) st(1)] st(5) [OF True] by blast
      obtain h' j where "wait_loop co False target h1 = Some h'" "clock_ok h'" "vnow h' = target" "ticked j h1 h'"
          "j = 0 \<or> unat (next_tick h') \<le> unat target + unat (tick_us h1)"
        using less.hyps [of h1] step h1 le less.prems(3) by auto
      then show ?thesis using True stop le h1
        by (subst wait_loop.simps) (auto simp: ticked_def not_less)
    next
      case tick: False
      have t: "t = next_tick h" using st(3) tick by simp
      have fits: "unat (next_tick h) + unat (tick_us h) < 2 ^ 64"
        using le less.prems(3) by (simp add: t word_le_nat_alt)
      obtain h1 where h1: "pass_tick co (h\<lparr>vnow := t\<rparr>) = Some h1" "clock_ok h1" "vnow h1 = t" "tick_us h1 = tick_us h"
          "unat (next_tick h1) = unat (next_tick h) + unat (tick_us h)" "ticks h1 = ticks h + 1" "late_ticks h1 = late_ticks h"
        using pass_tick_calm [OF calm less.prems(1) fits] t by auto
      obtain h' j where h': "wait_loop co False target h1 = Some h'" "clock_ok h'" "vnow h' = target" "ticked j h1 h'"
          "j = 0 \<or> unat (next_tick h') \<le> unat target + unat (tick_us h1)"
        using less.hyps [of h1] step h1 le less.prems(3) by auto
      have "ticked (Suc j) h h'" using h'(4) h1 by (simp add: ticked_def)
      moreover have "unat (next_tick h') \<le> unat target + unat (tick_us h)"
        using h'(4,5) h1 le by (cases "j = 0") (auto simp: ticked_def t word_le_nat_alt)
      ultimately show ?thesis using tick stop le h1 h'
        by (intro exI [of _ h'] exI [of _ "Suc j"], subst wait_loop.simps) (auto simp: not_less)
    qed
  qed
qed

text \<open>A slice of a waiting loop ends at its target, or early at a wake it has just served.\<close>

lemma wait_loop_slice:
  assumes calm: "calm_app co" and "clock_ok h" and "vnow h \<le> target"
    and "unat target + unat (tick_us h) < 2 ^ 64"
  shows "\<exists>h' j. wait_loop co True target h = Some h' \<and> clock_ok h' \<and> vnow h \<le> vnow h' \<and> vnow h' \<le> target \<and>
    ticked j h h' \<and> (vnow h < target \<longrightarrow> vnow h < vnow h')"
  using assms(2-)
proof (induction "unat target - unat (vnow h)" arbitrary: h rule: less_induct)
  case less
  obtain t w where stop: "next_stop h = (t, w)" by (cases "next_stop h")
  note st = next_stop_after [OF less.prems(1) stop]
  have later: "vnow h \<le> t" using st(1) by simp
  show ?case
  proof (cases "t > target \<or> w")
    case True
    show ?thesis
    proof (cases "t > target")
      case over: True
      have "wait_loop co True target h = wait_loop co False target h"
        using over stop by (subst (1 2) wait_loop.simps) simp
      then show ?thesis using wait_loop_one_shot [OF calm less.prems] less.prems(2) by auto
    next
      case False
      then have w: w using True by simp
      obtain h1 where "fireWake co (h\<lparr>vnow := t\<rparr>) = Some h1" "clock_ok h1" "vnow h1 = t" "tick_us h1 = tick_us h"
          "next_tick h1 = next_tick h" "ticks h1 = ticks h" "late_ticks h1 = late_ticks h"
        using pass_wake_calm [OF calm less.prems(1) st(1)] st(5) [OF w] by blast
      then show ?thesis using w stop False st(1) later
        by (intro exI [of _ h1] exI [of _ 0], subst wait_loop.simps) (auto simp: ticked_def not_less)
    qed
  next
    case False
    then have le: "t \<le> target" and t: "t = next_tick h" using st(3) by auto
    have step: "unat target - unat t < unat target - unat (vnow h)"
      using st(1) le by (simp add: word_less_nat_alt word_le_nat_alt)
    have fits: "unat (next_tick h) + unat (tick_us h) < 2 ^ 64"
      using le less.prems(3) by (simp add: t word_le_nat_alt)
    obtain h1 where h1: "pass_tick co (h\<lparr>vnow := t\<rparr>) = Some h1" "clock_ok h1" "vnow h1 = t" "tick_us h1 = tick_us h"
        "unat (next_tick h1) = unat (next_tick h) + unat (tick_us h)" "ticks h1 = ticks h + 1" "late_ticks h1 = late_ticks h"
      using pass_tick_calm [OF calm less.prems(1) fits] t by auto
    obtain h' j where h': "wait_loop co True target h1 = Some h'" "clock_ok h'" "vnow h1 \<le> vnow h'" "vnow h' \<le> target"
        "ticked j h1 h'"
      using less.hyps [of h1] step h1 le less.prems(3) by auto
    have "ticked (Suc j) h h'" using h'(5) h1 by (simp add: ticked_def)
    moreover have "vnow h < vnow h'" using st(1) h'(3) h1(3) by simp
    ultimately show ?thesis using False stop le h1 h' later
      by (intro exI [of _ h'] exI [of _ "Suc j"], subst wait_loop.simps) (auto simp: not_less)
  qed
qed

section \<open>A nested wait\<close>

lemma skip_ticks_counts:
  assumes "tick_us h > 0" and "unat target + unat (tick_us h) < 2 ^ 64"
  shows "\<exists>h' j. skip_ticks target h = Some h' \<and> target < next_tick h' \<and>
     h' = h\<lparr>pending_ticks := pending_ticks h + of_nat j, next_tick := next_tick h'\<rparr> \<and>
     unat (next_tick h') = unat (next_tick h) + j * unat (tick_us h)"
  using assms
proof (induction "unat target + 1 - unat (next_tick h)" arbitrary: h rule: less_induct)
  case less
  show ?case
  proof (cases "next_tick h \<le> target")
    case True
    let ?h = "h\<lparr>pending_ticks := pending_ticks h + 1, next_tick := next_tick h + ucast (tick_us h)\<rparr>"
    have n: "unat (next_tick ?h) = unat (next_tick h) + unat (tick_us h)"
      using True less.prems(2) by (simp add: u64_less_add word_le_nat_alt)
    have "unat (tick_us h) > 0" using less.prems(1) by (simp add: unat_gt_0 word_neq_0_conv)
    then have "unat target + 1 - unat (next_tick ?h) < unat target + 1 - unat (next_tick h)"
      using True n by (simp add: word_le_nat_alt)
    then obtain h' j where h': "skip_ticks target ?h = Some h'" "target < next_tick h'"
        "h' = ?h\<lparr>pending_ticks := pending_ticks ?h + of_nat j, next_tick := next_tick h'\<rparr>"
        "unat (next_tick h') = unat (next_tick ?h) + j * unat (tick_us h)"
      using less.hyps [of ?h] less.prems by auto
    have "h' = h\<lparr>pending_ticks := pending_ticks h + of_nat (Suc j), next_tick := next_tick h'\<rparr>"
      by (subst h'(3)) (simp add: add.assoc)
    moreover have "unat (next_tick h') = unat (next_tick h) + Suc j * unat (tick_us h)"
      using h'(4) n by simp
    ultimately show ?thesis using True h'(1,2) by (subst skip_ticks.simps) (auto simp del: of_nat_Suc)
  next
    case False
    then have "skip_ticks target h = Some h" by (subst skip_ticks.simps) simp
    moreover have "h = h\<lparr>pending_ticks := pending_ticks h + of_nat 0, next_tick := next_tick h\<rparr>" by simp
    ultimately show ?thesis using False by (intro exI [of _ h] exI [of _ 0]) (simp add: not_le)
  qed
qed

section \<open>A tick of zero microseconds\<close>

definition clock_stuck :: "u64 \<Rightarrow> ('c, 'm) host \<Rightarrow> bool" where
  "clock_stuck target h \<longleftrightarrow>
     tick_us h = 0 \<and> next_tick h \<le> vnow h \<and> next_tick h \<le> target \<and> pending_ticks h = 0 \<and> device_depth h = 0"

lemma pass_tick_stuck:
  assumes "calm_app co" and "clock_stuck target h"
  shows "\<exists>h'. pass_tick co (h\<lparr>vnow := next_tick h\<rparr>) = Some h' \<and> clock_stuck target h'"
proof -
  let ?h = "h\<lparr>vnow := next_tick h, next_tick := next_tick h + ucast (tick_us h)\<rparr>"
  let ?r = "retireWakesUpTo (next_tick h) ?h"
  have "device_depth ?r = 0" using assms(2) by (simp add: clock_stuck_def retireWakesUpTo_def)
  from fireTick_calm [OF assms(1) this]
  obtain h1 where h1: "fireTick co ?r = Some h1" "clock_kept (?r\<lparr>ticks := ticks ?r + 1\<rparr>) h1" by blast
  then have "clock_stuck target h1"
    using assms(2) by (simp add: clock_stuck_def clock_kept_def retireWakesUpTo_def)
  moreover from this have "late_loop co h1 = Some h1" by (subst late_loop.simps) (simp add: clock_stuck_def)
  ultimately show ?thesis using h1(1) by (simp add: pass_tick_def)
qed

lemma wait_loop_stuck:
  assumes calm: "calm_app co" and "clock_stuck target h"
  shows "wait_loop co loops target h = None"
proof (rule ccontr)
  assume "wait_loop co loops target h \<noteq> None"
  then obtain h' where r: "wait_loop co loops target h = Some h'" by auto
  have "calm_app co \<longrightarrow> \<not> clock_stuck target h"
  proof (rule wait_loop.raw_induct [OF _ r])
    fix rec :: "('a, 'b) core \<Rightarrow> bool \<Rightarrow> u64 \<Rightarrow> ('a, 'b) host \<Rightarrow> ('a, 'b) host option"
      and co loops target h h'
    assume IH: "\<And>co loops target h h'. rec co loops target h = Some h' \<Longrightarrow>
        calm_app co \<longrightarrow> \<not> clock_stuck target h"
      and step: "(if fst (next_stop h) > target then Some (finish_wait target h)
        else if snd (next_stop h) then
          (if loops then fireWake co (h\<lparr>vnow := fst (next_stop h)\<rparr>)
           else Option.bind (fireWake co (h\<lparr>vnow := fst (next_stop h)\<rparr>)) (rec co loops target))
        else Option.bind (pass_tick co (h\<lparr>vnow := fst (next_stop h)\<rparr>)) (rec co loops target)) = Some h'"
    show "calm_app co \<longrightarrow> \<not> clock_stuck target h"
    proof (intro impI notI)
      assume calm: "calm_app co" and stuck: "clock_stuck target h"
      have "nextWakeAfter (vnow h) h = 0 \<or> next_tick h < nextWakeAfter (vnow h) h"
        using nextWakeAfter_least [of "vnow h" h "nextWakeAfter (vnow h) h"] stuck
        by (auto simp: wakes_after_def clock_stuck_def split: if_splits)
      then have stop: "next_stop h = (next_tick h, False)" by (auto simp: next_stop_def Let_def)
      obtain h1 where "pass_tick co (h\<lparr>vnow := next_tick h\<rparr>) = Some h1" "clock_stuck target h1"
        using pass_tick_stuck [OF calm stuck] by blast
      moreover have "\<not> target < next_tick h" using stuck by (simp add: clock_stuck_def not_less)
      ultimately show False using step stop IH [of co loops target h1 h'] calm by simp
    qed
  qed
  then show False using assms by simp
qed

section \<open>Properties\<close>

lemma idle_core_calm: "calm_app idle_core"
proof -
  have "\<exists>h'. deliver_one idle_core e h = Some h' \<and> clock_kept h h' \<and>
      length (deferred_effects h') \<le> length (deferred_effects h)" for e h
    by (auto simp: deliver_one_def idle_core_def split: deferred.split option.split)
  moreover have "\<exists>h'. co_tick_handler idle_core cb n h = Some h' \<and> clock_kept h h'" for cb n h
    by (simp add: idle_core_def)
  ultimately show ?thesis unfolding calm_app_def by blast
qed

lemma init_clock_ok: "clock_ok (init_host c m)"
  by (simp add: clock_ok_def wakes_ok_def init_host_def kWakeSlots_def)

text \<open>C3: a one-shot wait lasts exactly as long as it was asked to. With an application that
  returns and leaves the clock alone, a wait of any length other than a core slice returns
  at its target to the microsecond, has fired every tick boundary up to it exactly once and
  no other, and leaves no wake request behind whose moment has come.\<close>

theorem one_shot_wait_is_exact:
  "calm_app co \<Longrightarrow> clock_ok h \<Longrightarrow> us \<noteq> 0 \<Longrightarrow> us \<noteq> kCoreLoopSliceUs \<Longrightarrow>
   unat (vnow h) + unat us + unat (tick_us h) < 2 ^ 64 \<Longrightarrow>
   \<exists>h' j. onWait co us h = Some h' \<and> unat (vnow h') = unat (vnow h) + unat us \<and> clock_ok h' \<and> ticked j h h' \<and>
     (j = 0 \<or> unat (next_tick h') \<le> unat (vnow h') + unat (tick_us h))"
proof -
  assume calm: "calm_app co" and ok: "clock_ok h" and us: "us \<noteq> 0" "us \<noteq> kCoreLoopSliceUs"
    and fits: "unat (vnow h) + unat us + unat (tick_us h) < 2 ^ 64"
  let ?t = "vnow h + ucast us"
  have t: "unat ?t = unat (vnow h) + unat us"
    using fits by (intro u64_less_add [THEN trans]) simp_all
  then have "vnow h \<le> ?t" and "unat ?t + unat (tick_us h) < 2 ^ 64"
    using fits by (simp_all add: word_le_nat_alt)
  from wait_loop_one_shot [OF calm ok this] obtain h' j where "wait_loop co False ?t h = Some h'" "clock_ok h'"
      "vnow h' = ?t" "ticked j h h'" "j = 0 \<or> unat (next_tick h') \<le> unat ?t + unat (tick_us h)" by blast
  then show ?thesis using ok us t
    by (intro exI [of _ h'] exI [of _ j]) (auto simp: onWait_def clock_ok_def)
qed

theorem one_shot_wait_is_exact_witness:
  "\<exists>h'. onWait idle_core 2500 (init_host () ()) = Some h' \<and> unat (vnow h') = 2500"
proof -
  have us: "(2500 :: u32) \<noteq> 0" "(2500 :: u32) \<noteq> kCoreLoopSliceUs"
    "unat (vnow (init_host () ())) + unat (2500 :: u32) + unat (tick_us (init_host () ())) < 2 ^ 64"
    by (simp_all add: kCoreLoopSliceUs_def init_host_def)
  show ?thesis
    using one_shot_wait_is_exact [OF idle_core_calm init_clock_ok us] by (auto simp: init_host_def)
qed

text \<open>A slice of the core's waiting loops never overshoots and always makes progress: it ends
  at its target or earlier, strictly after it started, with the ticks on the way fired and
  no due wake left; so a waiting loop reaches its deadline however often it is cut short.\<close>

theorem loop_slice_makes_progress:
  "calm_app co \<Longrightarrow> clock_ok h \<Longrightarrow>
   unat (vnow h) + unat kCoreLoopSliceUs + unat (tick_us h) < 2 ^ 64 \<Longrightarrow>
   \<exists>h' j. onWait co kCoreLoopSliceUs h = Some h' \<and> clock_ok h' \<and> ticked j h h' \<and>
     vnow h < vnow h' \<and> unat (vnow h') \<le> unat (vnow h) + unat kCoreLoopSliceUs"
proof -
  assume calm: "calm_app co" and ok: "clock_ok h"
    and fits: "unat (vnow h) + unat kCoreLoopSliceUs + unat (tick_us h) < 2 ^ 64"
  let ?t = "vnow h + ucast kCoreLoopSliceUs"
  have t: "unat ?t = unat (vnow h) + unat kCoreLoopSliceUs"
    using fits by (intro u64_less_add [THEN trans]) simp_all
  then have lt: "vnow h < ?t" by (simp add: word_less_nat_alt kCoreLoopSliceUs_def)
  then have le: "vnow h \<le> ?t" by simp
  have "unat ?t + unat (tick_us h) < 2 ^ 64" using fits t by simp
  from wait_loop_slice [OF calm ok le this] obtain h' j where "wait_loop co True ?t h = Some h'" "clock_ok h'"
      "vnow h' \<le> ?t" "ticked j h h'" "vnow h < vnow h'" using lt by blast
  moreover have "kCoreLoopSliceUs \<noteq> 0" by (simp add: kCoreLoopSliceUs_def)
  ultimately show ?thesis using ok t
    by (intro exI [of _ h'] exI [of _ j]) (auto simp: onWait_def clock_ok_def word_le_nat_alt)
qed

theorem loop_slice_makes_progress_witness:
  "\<exists>h'. onWait idle_core kCoreLoopSliceUs (init_host () ()) = Some h' \<and> vnow (init_host () ()) < vnow h'"
proof -
  have "unat (vnow (init_host () ())) + unat kCoreLoopSliceUs + unat (tick_us (init_host () ())) < 2 ^ 64"
    by (simp add: kCoreLoopSliceUs_def init_host_def)
  from loop_slice_makes_progress [OF idle_core_calm init_clock_ok this] show ?thesis by blast
qed

text \<open>C14: a wait nested in a director or an interrupt advances the clock to its target and defers
  every tick boundary it passes to the outer wait, firing none; it advances no device, so a
  wake that falls inside it is passed over: its moment is behind and it is no longer the
  pending one.\<close>

theorem nested_wait_defers:
  "dir_depth h > 0 \<or> isr_depth h > 0 \<Longrightarrow> us \<noteq> 0 \<Longrightarrow> tick_us h > 0 \<Longrightarrow>
   unat (vnow h) + unat us + unat (tick_us h) < 2 ^ 64 \<Longrightarrow>
   \<exists>h' j. onWait co us h = Some h' \<and> unat (vnow h') = unat (vnow h) + unat us \<and> vnow h' < next_tick h' \<and>
     h' = h\<lparr>vnow := vnow h', pending_ticks := pending_ticks h + of_nat j, next_tick := next_tick h'\<rparr> \<and>
     unat (next_tick h') = unat (next_tick h) + j * unat (tick_us h) \<and>
     (\<forall>w\<in>set (wake_at h). w \<le> vnow h' \<longrightarrow> w \<in> set (wake_at h') \<and> (w \<noteq> 0 \<longrightarrow> pendingWakeUs h' \<noteq> w))"
proof -
  assume nested: "dir_depth h > 0 \<or> isr_depth h > 0" and us: "us \<noteq> 0" and tick: "tick_us h > 0"
    and fits: "unat (vnow h) + unat us + unat (tick_us h) < 2 ^ 64"
  let ?t = "vnow h + ucast us"
  have t: "unat ?t = unat (vnow h) + unat us"
    using fits by (intro u64_less_add [THEN trans]) simp_all
  then have "unat ?t + unat (tick_us h) < 2 ^ 64" using fits by simp
  from skip_ticks_counts [OF tick this] obtain h1 j where s: "skip_ticks ?t h = Some h1" "?t < next_tick h1"
      "h1 = h\<lparr>pending_ticks := pending_ticks h + of_nat j, next_tick := next_tick h1\<rparr>"
      "unat (next_tick h1) = unat (next_tick h) + j * unat (tick_us h)" by blast
  let ?h = "h1\<lparr>vnow := ?t\<rparr>"
  have wait: "onWait co us h = Some ?h" using nested us s(1) by (auto simp: onWait_def)
  have h: "?h = h\<lparr>vnow := vnow ?h, pending_ticks := pending_ticks h + of_nat j, next_tick := next_tick ?h\<rparr>"
    by (subst s(3)) simp
  have wakes: "wake_at ?h = wake_at h" by (subst s(3)) simp
  have "pendingWakeUs ?h \<noteq> w" if "w \<noteq> 0" "w \<le> ?t" for w
    using nextWakeAfter_least [of ?t ?h w] that by (auto simp: pendingWakeUs_def wakes_after_def)
  then show ?thesis using wait h wakes s(2,4) t
    by (intro exI [of _ ?h] exI [of _ j]) (simp del: of_nat_Suc)
qed

theorem nested_wait_defers_witness:
  "\<exists>h'. onWait idle_core 2500 ((init_host () ())\<lparr>dir_depth := 1, wake_at := 700 # replicate 7 0\<rparr>) = Some h' \<and>
     unat (vnow h') = 2500 \<and> ticks h' = 0 \<and> pendingWakeUs h' \<noteq> 700"
proof -
  let ?h = "(init_host () ())\<lparr>dir_depth := 1, wake_at := 700 # replicate 7 0\<rparr>"
  have pre: "dir_depth ?h > 0 \<or> isr_depth ?h > 0" "(2500 :: u32) \<noteq> 0" "tick_us ?h > 0"
    "unat (vnow ?h) + unat (2500 :: u32) + unat (tick_us ?h) < 2 ^ 64" by (simp_all add: init_host_def)
  from nested_wait_defers [OF pre, of idle_core] obtain h' j where h': "onWait idle_core 2500 ?h = Some h'"
      "unat (vnow h') = unat (vnow ?h) + unat (2500 :: u32)"
      "h' = ?h\<lparr>vnow := vnow h', pending_ticks := pending_ticks ?h + of_nat j, next_tick := next_tick h'\<rparr>"
      "\<forall>w\<in>set (wake_at ?h). w \<le> vnow h' \<longrightarrow> w \<in> set (wake_at h') \<and> (w \<noteq> 0 \<longrightarrow> pendingWakeUs h' \<noteq> w)"
    by blast
  have v: "unat (vnow h') = 2500" using h'(2) by (simp add: init_host_def)
  then have "700 \<le> vnow h'" by (simp add: word_le_nat_alt)
  then have "pendingWakeUs h' \<noteq> 700" using h'(4) by simp
  moreover have "ticks h' = 0" by (subst h'(3)) (simp add: init_host_def)
  ultimately show ?thesis using h'(1) v by blast
qed

text \<open>C15: a tick of zero microseconds hangs the clock. Once a run has a tick length of zero, a wait
  of the application outside any handler never returns: every turn of the loop stops at the
  same boundary again.\<close>

theorem zero_tick_wait_never_returns:
  "calm_app co \<Longrightarrow> tick_us h = 0 \<Longrightarrow> next_tick h \<le> vnow h \<Longrightarrow> pending_ticks h = 0 \<Longrightarrow> device_depth h = 0 \<Longrightarrow>
   dir_depth h = 0 \<Longrightarrow> isr_depth h = 0 \<Longrightarrow> us \<noteq> 0 \<Longrightarrow> unat (vnow h) + unat us < 2 ^ 64 \<Longrightarrow>
   onWait co us h = None"
proof -
  assume calm: "calm_app co"
    and h: "tick_us h = 0" "next_tick h \<le> vnow h" "pending_ticks h = 0" "device_depth h = 0"
    and out: "dir_depth h = 0" "isr_depth h = 0" "us \<noteq> 0" and fits: "unat (vnow h) + unat us < 2 ^ 64"
  let ?t = "vnow h + ucast us"
  have "unat ?t = unat (vnow h) + unat us" using fits by (intro u64_less_add [THEN trans]) simp_all
  then have "vnow h \<le> ?t" by (simp add: word_le_nat_alt)
  then have "clock_stuck ?t h" using h by (auto simp: clock_stuck_def)
  from wait_loop_stuck [OF calm this] show ?thesis using out by (simp add: onWait_def)
qed

theorem zero_tick_wait_never_returns_witness:
  "onWait idle_core 1 ((init_host () ())\<lparr>tick_us := 0, next_tick := 0\<rparr>) = None"
  by (rule zero_tick_wait_never_returns [OF idle_core_calm]) (simp_all add: init_host_def)

end
