(* ===== verification/Bus_Hooks.thy ===== *)
theory Bus_Hooks
  imports Host_Clock
begin

text \<open>
  The hooks the environment installs into the host core (\<open>src/src/embedbench_host.cpp\<close>):
  pins and interrupts, the two I2C buses, SPI, analog and the serial ports, with the
  bindings they route to and the director's channel and frame writes.
\<close>

section \<open>Bindings\<close>

definition findWireDevice :: "wire_bus \<Rightarrow> u16 \<Rightarrow> ('c, 'm) host \<Rightarrow> wire_slot option" where
  "findWireDevice bus address h =
     List.find (\<lambda>s. ws_used s \<and> ws_bus s = bus \<and> ws_address s = address) (wire_devices h)"

definition count_diag :: "('c, 'm) host \<Rightarrow> ('c, 'm) host" where
  "count_diag h = h\<lparr>diag_count := diag_count h + 1\<rparr>"

definition bindWireDeviceOn ::
    "wire_bus \<Rightarrow> u16 \<Rightarrow> callback \<Rightarrow> ('c, 'm) host \<Rightarrow> bool \<times> ('c, 'm) host" where
  "bindWireDeviceOn bus address ops h =
     (if findWireDevice bus address h \<noteq> None then (False, count_diag h)
      else case List.find (\<lambda>i. \<not> ws_used (wire_devices h ! i)) [0..<kMaxWireDevices] of
        Some i \<Rightarrow>
          (True, h\<lparr>wire_devices := (wire_devices h)
             [i := \<lparr>ws_used = True, ws_bus = bus, ws_address = address, ws_ops = ops\<rparr>]\<rparr>)
      | None \<Rightarrow> (False, count_diag h))"

definition bindWireDevice :: "u16 \<Rightarrow> callback \<Rightarrow> ('c, 'm) host \<Rightarrow> bool \<times> ('c, 'm) host" where
  "bindWireDevice = bindWireDeviceOn kWire0"

definition bindUartDeviceOn ::
    "serial_port \<Rightarrow> callback option \<Rightarrow> ('c, 'm) host \<Rightarrow> ('c, 'm) host" where
  "bindUartDeviceOn port handler h =
     (if port = kSerial2 then h\<lparr>uart2_handler := handler\<rparr> else h\<lparr>uart_handler := handler\<rparr>)"

definition bindUartDevice :: "callback option \<Rightarrow> ('c, 'm) host \<Rightarrow> ('c, 'm) host" where
  "bindUartDevice = bindUartDeviceOn kSerial1"

definition setChannelHandler :: "callback option \<Rightarrow> ('c, 'm) host \<Rightarrow> ('c, 'm) host" where
  "setChannelHandler handler h = h\<lparr>channel_handler := handler\<rparr>"

definition bindSpiDevice :: "callback option \<Rightarrow> ('c, 'm) host \<Rightarrow> ('c, 'm) host" where
  "bindSpiDevice handler h = h\<lparr>spi_handler := handler\<rparr>"

definition setPinWriteForward :: "callback option \<Rightarrow> ('c, 'm) host \<Rightarrow> ('c, 'm) host" where
  "setPinWriteForward handler h = h\<lparr>pin_forward := handler\<rparr>"

definition bindFrameDevice :: "callback option \<Rightarrow> ('c, 'm) host \<Rightarrow> ('c, 'm) host" where
  "bindFrameDevice handler h = h\<lparr>frame_device := handler\<rparr>"

definition setFrameReceiver :: "callback option \<Rightarrow> ('c, 'm) host \<Rightarrow> ('c, 'm) host" where
  "setFrameReceiver handler h = h\<lparr>frame_receiver := handler\<rparr>"

definition setTickHandler :: "callback option \<Rightarrow> ('c, 'm) host \<Rightarrow> ('c, 'm) host" where
  "setTickHandler handler h = h\<lparr>tick_handler := handler\<rparr>"

definition bindTickDevice :: "callback option \<Rightarrow> ('c, 'm) host \<Rightarrow> ('c, 'm) host" where
  "bindTickDevice handler h = h\<lparr>tick_device := handler\<rparr>"

definition setZeroWaitHandler :: "callback option \<Rightarrow> ('c, 'm) host \<Rightarrow> ('c, 'm) host" where
  "setZeroWaitHandler handler h = h\<lparr>zero_handler := handler\<rparr>"

section \<open>Pins and interrupts\<close>

definition onPinWrite :: "('c, 'm) core \<Rightarrow> u8 \<Rightarrow> u8 \<Rightarrow> ('c, 'm) host \<Rightarrow> ('c, 'm) host option" where
  "onPinWrite co pin val h =
     (let h1 = emit co kApp 0 (''gpio.write pin='' @ decw pin @ '' val='' @ decw val) h
      in case pin_forward h1 of
           None \<Rightarrow> Some h1
         | Some cb \<Rightarrow> Option.bind (call_devices co (co_pin_forward co cb pin val) h1) (deliverDeferred co))"

definition onPinRead :: "('c, 'm) core \<Rightarrow> u8 \<Rightarrow> u8 \<Rightarrow> ('c, 'm) host \<Rightarrow> u8 \<times> ('c, 'm) host" where
  "onPinRead co pin held_value h =
     (held_value, emit co kApp 0 (''gpio.read pin='' @ decw pin @ '' val='' @ decw held_value) h)"

definition onPinMode :: "('c, 'm) core \<Rightarrow> u8 \<Rightarrow> u8 \<Rightarrow> ('c, 'm) host \<Rightarrow> ('c, 'm) host" where
  "onPinMode co pin mode h = emit co kApp 0 (''gpio.mode pin='' @ decw pin @ '' mode='' @ decw mode) h"

text \<open>The events of the host core's interrupt table; the trigger is printed as its number.\<close>

datatype interrupt_event = kInterruptAttach nat | kInterruptDetach | kInterruptEnter | kInterruptExit

definition onInterruptEvent ::
    "('c, 'm) core \<Rightarrow> interrupt_event \<Rightarrow> u8 \<Rightarrow> ('c, 'm) host \<Rightarrow> ('c, 'm) host" where
  "onInterruptEvent co event pin h =
     (case event of
        kInterruptAttach trigger \<Rightarrow>
          emit co kApp 0 (''int.attach pin='' @ decw pin @ '' trig='' @ decu trigger) h
      | kInterruptDetach \<Rightarrow> emit co kApp 0 (''int.detach pin='' @ decw pin) h
      | kInterruptEnter \<Rightarrow>
          emit co kCore 0 (''isr.enter pin='' @ decw pin) (h\<lparr>isr_depth := isr_depth h + 1\<rparr>)
      | kInterruptExit \<Rightarrow>
          (let h1 = emit co kCore 0 (''isr.exit pin='' @ decw pin) h
           in if isr_depth h1 > 0 then h1\<lparr>isr_depth := isr_depth h1 - 1\<rparr> else h1))"

section \<open>I2C\<close>

definition bus_tag :: "wire_bus \<Rightarrow> string" where
  "bus_tag bus = (if bus = kWire0 then [] else '' bus=1'')"

definition i2c_continued :: "wire_bus \<Rightarrow> u8 \<Rightarrow> ('c, 'm) host \<Rightarrow> bool" where
  "i2c_continued bus address h \<longleftrightarrow>
     findWireDevice bus (ucast address) h \<noteq> None \<and> i2c_open_address h bus = ucast address"

definition i2c_close :: "wire_bus \<Rightarrow> u8 \<Rightarrow> bool \<Rightarrow> ('c, 'm) host \<Rightarrow> ('c, 'm) host" where
  "i2c_close bus address stop h =
     h\<lparr>i2c_open_address := (i2c_open_address h)(bus := if stop then 0xFFFF else ucast address)\<rparr>"

definition diag_unbound :: "('c, 'm) core \<Rightarrow> u32 \<Rightarrow> u8 \<Rightarrow> ('c, 'm) host \<Rightarrow> ('c, 'm) host" where
  "diag_unbound co req address h = diag co req (''diag.unbound addr='' @ hex2 address) h"

definition onWireWriteOn ::
    "('c, 'm) core \<Rightarrow> wire_bus \<Rightarrow> u8 \<Rightarrow> bytes \<Rightarrow> bool \<Rightarrow> ('c, 'm) host \<Rightarrow> (u8 \<times> ('c, 'm) host) option" where
  "onWireWriteOn co bus address data stop h = do {
     let dev = findWireDevice bus (ucast address) h;
     let continued = i2c_continued bus address h;
     let (req, h1) = recordf co kApp 0 (''i2c.req addr='' @ hex2 address @ bus_tag bus @ '' data='' @
           hexOf data 12 @ '' stop='' @ bool_dec stop @ (if continued then '' rs'' else [])) h;
     (status, h2) \<leftarrow> (case dev of
         None \<Rightarrow> Some (2, diag_unbound co req address h1)
       | Some slot \<Rightarrow>
           map_option (\<lambda>(status, h'). (status,
               if status > kI2cOther
               then diag co req (''diag.i2c_status addr='' @ hex2 address @ '' status='' @ decw status) h'
               else h'))
             (call_device co (co_wire_write co (ws_ops slot) data stop continued) h1));
     let h3 = i2c_close bus address stop h2;
     let h4 = emit co kDev req (''i2c.resp status='' @ decw status) h3;
     h5 \<leftarrow> deliverDeferred co h4;
     Some (status, h5)
   }"

definition onWireWrite ::
    "('c, 'm) core \<Rightarrow> u8 \<Rightarrow> bytes \<Rightarrow> bool \<Rightarrow> ('c, 'm) host \<Rightarrow> (u8 \<times> ('c, 'm) host) option" where
  "onWireWrite co = onWireWriteOn co kWire0"

definition onWire1Write ::
    "('c, 'm) core \<Rightarrow> u8 \<Rightarrow> bytes \<Rightarrow> bool \<Rightarrow> ('c, 'm) host \<Rightarrow> (u8 \<times> ('c, 'm) host) option" where
  "onWire1Write co = onWireWriteOn co kWire1"

text \<open>
  A read: the host core's buffer goes in, the count and the buffer as the device left it
  come out.
\<close>

definition onWireReadOn ::
    "('c, 'm) core \<Rightarrow> wire_bus \<Rightarrow> u8 \<Rightarrow> bytes \<Rightarrow> bool \<Rightarrow> ('c, 'm) host \<Rightarrow>
     (nat \<times> bytes \<times> ('c, 'm) host) option" where
  "onWireReadOn co bus address buffer stop h = do {
     let dev = findWireDevice bus (ucast address) h;
     let continued = i2c_continued bus address h;
     let (req, h1) = recordf co kApp 0 (''i2c.rd.req addr='' @ hex2 address @ bus_tag bus @ '' req='' @
           decu (length buffer) @ '' stop='' @ bool_dec stop @ (if continued then '' rs'' else [])) h;
     (count, data, h2) \<leftarrow> (case dev of
         None \<Rightarrow> Some (0, buffer, diag_unbound co req address h1)
       | Some slot \<Rightarrow>
           map_option (\<lambda>((count, data), h').
               if count > length buffer
               then (0, data, diag co req (''diag.i2c_read_length addr='' @ hex2 address @ '' got='' @
                       decu count @ '' max='' @ decu (length buffer)) h')
               else (count, data, h'))
             (call_device co (co_wire_read co (ws_ops slot) buffer stop continued) h1));
     let h3 = i2c_close bus address stop h2;
     let h4 = emit co kDev req (''i2c.rd.resp len='' @ decu count @ '' data='' @ hexOf (take count data) 12) h3;
     h5 \<leftarrow> deliverDeferred co h4;
     Some (count, data, h5)
   }"

definition onWireRead ::
    "('c, 'm) core \<Rightarrow> u8 \<Rightarrow> bytes \<Rightarrow> bool \<Rightarrow> ('c, 'm) host \<Rightarrow> (nat \<times> bytes \<times> ('c, 'm) host) option" where
  "onWireRead co = onWireReadOn co kWire0"

definition onWire1Read ::
    "('c, 'm) core \<Rightarrow> u8 \<Rightarrow> bytes \<Rightarrow> bool \<Rightarrow> ('c, 'm) host \<Rightarrow> (nat \<times> bytes \<times> ('c, 'm) host) option" where
  "onWire1Read co = onWireReadOn co kWire1"

text \<open>
  A transfer of either direction and what the master gets of it; what the device behind a slot
  answers when it is told whether the transfer continues the one before.
\<close>

datatype transfer = BusWrite bytes bool | BusRead bytes bool

datatype outcome = Wrote u8 | Got bytes

fun with_stop :: "transfer \<Rightarrow> bool" where
  "with_stop (BusWrite data stop) = stop"
| "with_stop (BusRead buffer stop) = stop"

fun carry :: "('c, 'm) core \<Rightarrow> wire_bus \<Rightarrow> u8 \<Rightarrow> transfer \<Rightarrow> ('c, 'm) host \<Rightarrow> (outcome \<times> ('c, 'm) host) option" where
  "carry co bus address (BusWrite data stop) h =
     map_option (\<lambda>(status, h'). (Wrote status, h')) (onWireWriteOn co bus address data stop h)"
| "carry co bus address (BusRead buffer stop) h =
     map_option (\<lambda>(count, data, h'). (Got (take count data), h')) (onWireReadOn co bus address buffer stop h)"

fun request_text :: "wire_bus \<Rightarrow> u8 \<Rightarrow> transfer \<Rightarrow> bool \<Rightarrow> string" where
  "request_text bus address (BusWrite data stop) continued =
     ''i2c.req addr='' @ hex2 address @ bus_tag bus @ '' data='' @ hexOf data 12 @ '' stop='' @ bool_dec stop @
     (if continued then '' rs'' else [])"
| "request_text bus address (BusRead buffer stop) continued =
     ''i2c.rd.req addr='' @ hex2 address @ bus_tag bus @ '' req='' @ decu (length buffer) @ '' stop='' @ bool_dec stop @
     (if continued then '' rs'' else [])"

fun device_answer :: "('c, 'm) core \<Rightarrow> wire_slot \<Rightarrow> transfer \<Rightarrow> bool \<Rightarrow> ('c, 'm) host \<Rightarrow> outcome option" where
  "device_answer co slot (BusWrite data stop) continued h =
     map_option (\<lambda>(status, h'). Wrote status) (call_device co (co_wire_write co (ws_ops slot) data stop continued) h)"
| "device_answer co slot (BusRead buffer stop) continued h =
     map_option (\<lambda>((count, data), h'). Got (take (if count > length buffer then 0 else count) data))
       (call_device co (co_wire_read co (ws_ops slot) buffer stop continued) h)"

section \<open>SPI\<close>

definition onSpiTransfer ::
    "('c, 'm) core \<Rightarrow> u8 \<Rightarrow> ('c, 'm) host \<Rightarrow> (u8 \<times> ('c, 'm) host) option" where
  "onSpiTransfer co mosi h =
     (if in_spi_transaction h then do {
        (miso, h1) \<leftarrow> (case spi_handler h of
            None \<Rightarrow> Some (0xFF, h) | Some cb \<Rightarrow> call_device co (co_spi co cb mosi) h);
        Some (miso, h1\<lparr>spi_bulk_count := spi_bulk_count h1 + 1,
                      spi_mosi_sum := crc8Step (spi_mosi_sum h1) mosi,
                      spi_miso_sum := crc8Step (spi_miso_sum h1) miso\<rparr>)
      } else do {
        let (req, h0) = recordf co kApp 0 (''spi.req mosi='' @ hex2 mosi) h;
        (miso, h1) \<leftarrow> (case spi_handler h0 of
            None \<Rightarrow> Some (0xFF, diag co req ''diag.unbound spi'' h0)
          | Some cb \<Rightarrow> call_device co (co_spi co cb mosi) h0);
        h3 \<leftarrow> deliverDeferred co (emit co kDev req (''spi.resp miso='' @ hex2 miso) h1);
        Some (miso, h3)
      })"

definition onSpiTransaction :: "('c, 'm) core \<Rightarrow> bool \<Rightarrow> ('c, 'm) host \<Rightarrow> ('c, 'm) host option" where
  "onSpiTransaction co starting h =
     (if starting then
        Some (emit co kApp 0 ''spi.begin''
          (h\<lparr>in_spi_transaction := True, spi_bulk_count := 0, spi_mosi_sum := 0, spi_miso_sum := 0\<rparr>))
      else
        (let h1 = h\<lparr>in_spi_transaction := False\<rparr>
         in deliverDeferred co (emit co kApp 0 (''spi.bulk n='' @ decw (spi_bulk_count h1) @ '' mosi_crc='' @
              hex2 (spi_mosi_sum h1) @ '' miso_crc='' @ hex2 (spi_miso_sum h1)) h1)))"

section \<open>Analog\<close>

definition onAnalogRead :: "('c, 'm) core \<Rightarrow> u8 \<Rightarrow> u16 \<Rightarrow> ('c, 'm) host \<Rightarrow> u16 \<times> ('c, 'm) host" where
  "onAnalogRead co pin held_value h =
     (case recordf co kApp 0 (''analog.req pin='' @ decw pin) h of
        (req, h1) \<Rightarrow> (held_value, emit co kCore req (''analog.resp val='' @ decw held_value) h1))"

definition onAnalogMilliVolts :: "('c, 'm) core \<Rightarrow> u8 \<Rightarrow> u32 \<Rightarrow> ('c, 'm) host \<Rightarrow> u32 \<times> ('c, 'm) host" where
  "onAnalogMilliVolts co pin held_value h =
     (case recordf co kApp 0 (''analog.mv.req pin='' @ decw pin) h of
        (req, h1) \<Rightarrow> (held_value, emit co kCore req (''analog.mv.resp mv='' @ decw held_value) h1))"

definition onAnalogReadConfig :: "('c, 'm) core \<Rightarrow> u8 \<Rightarrow> ('c, 'm) host \<Rightarrow> ('c, 'm) host" where
  "onAnalogReadConfig co bits h = emit co kApp 0 (''analog.config bits='' @ decw bits) h"

datatype analog_write_event =
  kAnalogAttach | kAnalogWrite | kAnalogConfig | kAnalogTone | kAnalogDetach | kAnalogOther

fun analogEventName :: "analog_write_event \<Rightarrow> string" where
  "analogEventName kAnalogAttach = ''attach''"
| "analogEventName kAnalogWrite = ''write''"
| "analogEventName kAnalogConfig = ''config''"
| "analogEventName kAnalogTone = ''tone''"
| "analogEventName kAnalogDetach = ''detach''"
| "analogEventName kAnalogOther = ''dac''"

definition onAnalogWrite ::
    "('c, 'm) core \<Rightarrow> analog_write_event \<Rightarrow> u8 \<Rightarrow> u32 \<Rightarrow> u32 \<Rightarrow> ('c, 'm) host \<Rightarrow> ('c, 'm) host" where
  "onAnalogWrite co event pin duty frequency h =
     emit co kApp 0 (''analog.out '' @ analogEventName event @ '' pin='' @ decw pin @ '' duty='' @
       decw duty @ '' hz='' @ decw frequency) h"

section \<open>Serial ports\<close>

datatype uart_event =
  kUartTx bytes | kUartRx u8 | kUartBegin | kUartEnd | kUartConfig | kUartRxDiscard nat

definition onUartActivity ::
    "('c, 'm) core \<Rightarrow> uart_event \<Rightarrow> serial_port \<Rightarrow> ('c, 'm) host \<Rightarrow> ('c, 'm) host option" where
  "onUartActivity co event port h =
     (let tag = port_tag port;
          handler = (if port = kSerial2 then uart2_handler h else uart_handler h)
      in case event of
        kUartTx data \<Rightarrow>
          (let h1 = emit co kApp 0 (''uart.tx'' @ tag @ '' '' @ bytesLabel data 24) h
           in case handler of
                None \<Rightarrow> Some h1
              | Some cb \<Rightarrow>
                  Option.bind (call_device co (co_uart_tx co cb data) h1) (\<lambda>(u, h2). deliverDeferred co h2))
      | kUartRx b \<Rightarrow>
          Some (if printable b then emit co kApp 0 (''uart.rx'' @ tag @ '' '' @ [byte_char b]) h
                else emit co kApp 0 (''uart.rx'' @ tag @ '' 0x'' @ hex2 b) h)
      | kUartBegin \<Rightarrow> Some (emit co kApp 0 (''uart.begin'' @ tag) h)
      | kUartEnd \<Rightarrow> Some (emit co kApp 0 (''uart.end'' @ tag) h)
      | kUartConfig \<Rightarrow> Some (emit co kApp 0 (''uart.config'' @ tag) h)
      | kUartRxDiscard len \<Rightarrow> Some (emit co kApp 0 (''uart.rx_discard'' @ tag @ '' len='' @ decu len) h))"

section \<open>The director's writes\<close>

definition chanWrite ::
    "('c, 'm) core \<Rightarrow> origin \<Rightarrow> u8 \<Rightarrow> bytes \<Rightarrow> ('c, 'm) host \<Rightarrow> ('c, 'm) host option" where
  "chanWrite co org channel data h =
     (let h1 = emit co org 0 (''chan.write chan='' @ decw channel @ '' data='' @ hexOf data 12) h
      in case refuseReentrantCall co ''chan.write'' h1 of
        (True, h2) \<Rightarrow> Some h2
      | (False, h2) \<Rightarrow>
          (case channel_handler h2 of
             None \<Rightarrow> Some h2
           | Some cb \<Rightarrow> do {
               (applied, h3) \<leftarrow> call_device co (co_channel co cb channel data) h2;
               deliverDeferred co
                 (if applied then h3
                  else diag co 0 (''diag.chan_reject chan='' @ decw channel @ '' len='' @ decu (length data)) h3)
             }))"

definition frameTx ::
    "('c, 'm) core \<Rightarrow> origin \<Rightarrow> u8 \<Rightarrow> u16 \<Rightarrow> bytes option \<Rightarrow> nat \<Rightarrow> ('c, 'm) host \<Rightarrow>
     (bool \<times> ('c, 'm) host) option" where
  "frameTx co org bus format data bits h =
     (case frameAccept co bus format data bits h of
        (False, h1) \<Rightarrow> Some (False, h1)
      | (True, h1) \<Rightarrow>
          let h2 = emit co org 0 (frame_line ''frame.tx'' bus (formatLabel h1 format 20) bits
                                    (frame_payload data bits)) h1
          in case frame_device h2 of
               None \<Rightarrow> Some (True, h2)
             | Some cb \<Rightarrow>
                 (case refuseReentrantCall co ''frame.tx'' h2 of
                    (True, h3) \<Rightarrow> Some (False, h3)
                  | (False, h3) \<Rightarrow> do {
                      h4 \<leftarrow> call_devices co (co_frame_device co cb bus format data bits) h3;
                      h5 \<leftarrow> deliverDeferred co h4;
                      Some (True, h5)
                    }))"

section \<open>Properties of the buses\<close>

lemma call_device_frame:
  assumes "device_depth h = 0" and "call_device co call h = Some (r, h')"
  shows "device_frame h (h'\<lparr>max_device_depth := max_device_depth h\<rparr>)"
proof -
  have d: "device_depth (enterDevice h) > 0" using assms(1) by simp
  obtain h1 where h1: "run_device co call (enterDevice h) = Some (r, h1)" "h' = leaveDevice h1"
    using assms(2) by (auto simp: call_device_def)
  have "device_frame (enterDevice h) h1"
    using frame_of_devices.run_device_law [of "enterDevice h" "enterDevice h" co call] d h1(1) by auto
  then show ?thesis
    using h1(2) assms(1)
    by (auto simp: device_frame_def quiet_def leaveDevice_def enterDevice_def Let_def split: if_splits)
qed

lemma call_device_fields:
  assumes "device_depth h = 0" and "call_device co call h = Some (r, h')"
  shows "i2c_open_address h' = i2c_open_address h" "wire_devices h' = wire_devices h"
    "in_spi_transaction h' = in_spi_transaction h" "spi_bulk_count h' = spi_bulk_count h"
    "spi_mosi_sum h' = spi_mosi_sum h" "spi_miso_sum h' = spi_miso_sum h" "spi_handler h' = spi_handler h"
    "device_depth h' = 0"
  using call_device_frame [OF assms] assms(1) by (simp_all add: device_frame_def quiet_def)

text \<open>The request is recorded, the device behind the slot is called with the flag of the bus.\<close>

lemma carry_answer:
  assumes "carry co bus address t h = Some (res, h')" "findWireDevice bus (ucast address) h = Some slot"
  shows "device_answer co slot t (i2c_continued bus address h)
    (emit co kApp 0 (request_text bus address t (i2c_continued bus address h)) h) = Some res"
proof (cases t)
  case (BusWrite data stop)
  let ?line = "request_text bus address t (i2c_continued bus address h)"
  obtain req where "recordf co kApp 0 ?line h = (req, emit co kApp 0 ?line h)" by (metis prod.collapse snd_recordf)
  then show ?thesis using assms BusWrite
    by (auto simp: onWireWriteOn_def Let_def bind_eq_Some_conv)
next
  case (BusRead buffer stop)
  let ?line = "request_text bus address t (i2c_continued bus address h)"
  obtain req where "recordf co kApp 0 ?line h = (req, emit co kApp 0 ?line h)" by (metis prod.collapse snd_recordf)
  then show ?thesis using assms BusRead
    by (fastforce simp: onWireReadOn_def Let_def bind_eq_Some_conv split: if_splits)
qed

text \<open>The end of a transfer, whatever came of it, is what leaves the bus open or closed.\<close>

lemma carry_open:
  assumes "carry co bus address t h = Some (res, h')" "device_depth h = 0"
  shows "\<exists>h4. deliverDeferred co h4 = Some h' \<and> wire_devices h4 = wire_devices h \<and>
    i2c_open_address h4 = (i2c_open_address h)(bus := if with_stop t then 0xFFFF else ucast address)"
proof -
  define g where "g = emit co kApp 0 (request_text bus address t (i2c_continued bus address h)) h"
  obtain req where rec: "recordf co kApp 0 (request_text bus address t (i2c_continued bus address h)) h = (req, g)"
    unfolding g_def by (metis prod.collapse snd_recordf)
  have g: "device_depth g = 0" "i2c_open_address g = i2c_open_address h" "wire_devices g = wire_devices h"
    using assms(2) by (simp_all add: g_def)
  have closed: "wire_devices (emit co kDev req s (i2c_close bus address stop h2)) = wire_devices h2 \<and>
      i2c_open_address (emit co kDev req s (i2c_close bus address stop h2)) =
        (i2c_open_address h2)(bus := if stop then 0xFFFF else ucast address)" for s stop h2
    by (simp add: i2c_close_def)
  have end_of: ?thesis
    if "deliverDeferred co (emit co kDev req s (i2c_close bus address (with_stop t) h2)) = Some h'"
      "wire_devices h2 = wire_devices g" "i2c_open_address h2 = i2c_open_address g" for s h2
    using that closed [of s "with_stop t" h2] g by metis
  show ?thesis
  proof (cases t)
    case (BusWrite data stop)
    then have stopped: "with_stop t = stop" by simp
    show ?thesis
    proof (cases "findWireDevice bus (ucast address) h")
      case None
      then show ?thesis using assms(1) rec BusWrite
        by (intro end_of [of "''i2c.resp status='' @ decw (2 :: u8)" "diag_unbound co req address g"])
          (simp_all add: onWireWriteOn_def Let_def bind_eq_Some_conv diag_unbound_def)
    next
      case (Some slot)
      obtain st h2 where c: "call_device co (co_wire_write co (ws_ops slot) data stop (i2c_continued bus address h)) g = Some (st, h2)"
        and del: "deliverDeferred co (emit co kDev req (''i2c.resp status='' @ decw st) (i2c_close bus address stop
            (if st > kI2cOther
             then diag co req (''diag.i2c_status addr='' @ hex2 address @ '' status='' @ decw st) h2 else h2))) = Some h'"
        using assms(1) rec BusWrite Some by (auto simp: onWireWriteOn_def Let_def bind_eq_Some_conv)
      show ?thesis
        by (rule end_of [OF del [folded stopped]]) (simp_all add: call_device_fields(1,2) [OF g(1) c])
    qed
  next
    case (BusRead buffer stop)
    then have stopped: "with_stop t = stop" by simp
    show ?thesis
    proof (cases "findWireDevice bus (ucast address) h")
      case None
      then show ?thesis using assms(1) rec BusRead
        by (intro end_of [of "''i2c.rd.resp len='' @ decu 0 @ '' data='' @ hexOf (take 0 buffer) 12" "diag_unbound co req address g"])
          (simp_all add: onWireReadOn_def Let_def bind_eq_Some_conv diag_unbound_def)
    next
      case (Some slot)
      obtain n data h2 where c: "call_device co (co_wire_read co (ws_ops slot) buffer stop (i2c_continued bus address h)) g = Some ((n, data), h2)"
        and del: "deliverDeferred co (emit co kDev req
            (''i2c.rd.resp len='' @ decu (if n > length buffer then 0 else n) @ '' data='' @
             hexOf (take (if n > length buffer then 0 else n) data) 12) (i2c_close bus address stop
            (if n > length buffer
             then diag co req (''diag.i2c_read_length addr='' @ hex2 address @ '' got='' @ decu n @ '' max='' @ decu (length buffer)) h2
             else h2))) = Some h'"
        using assms(1) rec BusRead Some by (auto simp: onWireReadOn_def Let_def bind_eq_Some_conv split: if_splits)
      show ?thesis
        by (rule end_of [OF del [folded stopped]]) (simp_all add: call_device_fields(1,2) [OF g(1) c])
    qed
  qed
qed

lemma ucast_address [simp]: "(ucast x :: u16) = ucast y \<longleftrightarrow> x = y" "(ucast x :: u16) \<noteq> 0xFFFF" for x y :: u8
proof -
  have u: "unat (ucast z :: u16) = unat z" for z :: u8
    using unsigned_less [of z, where 'a = nat] by (simp add: unsigned_ucast_eq take_bit_eq_mod)
  show "(ucast x :: u16) = ucast y \<longleftrightarrow> x = y" by (metis u word_unat_eq_iff)
  show "(ucast x :: u16) \<noteq> 0xFFFF"
  proof
    assume "(ucast x :: u16) = 0xFFFF"
    then have "unat x = 65535" using u [of x] by simp
    then show False using unsigned_less [of x, where 'a = nat] by simp
  qed
qed

text \<open>C11: what a repeated start means. After a transfer of either direction the next one, of
  either direction, continues it exactly when the first ended without a stop and both go to the same
  bound address of the same bus; a transfer on the other bus is unaffected. This is what the trace
  says of it and what the bound device is told. (For an application that starts no transfer from
  what is delivered to it in between.)\<close>

theorem repeated_start_per_bus:
  assumes "carry co bus address t h = Some (res, h')" "device_depth h = 0"
    and "\<forall>s s'. deliverDeferred co s = Some s' \<longrightarrow>
      i2c_open_address s' = i2c_open_address s \<and> wire_devices s' = wire_devices s"
  defines "again \<equiv> \<lambda>b a. if b = bus then \<not> with_stop t \<and> a = address \<and> findWireDevice bus (ucast address) h \<noteq> None
      else i2c_continued b a h"
  shows "(i2c_continued b a h' \<longleftrightarrow> again b a) \<and>
    (\<forall>slot t2 res2 h2. findWireDevice b (ucast a) h = Some slot \<longrightarrow> carry co b a t2 h' = Some (res2, h2) \<longrightarrow>
       device_answer co slot t2 (again b a) (emit co kApp 0 (request_text b a t2 (again b a)) h') = Some res2)"
proof -
  have wires: "wire_devices h' = wire_devices h"
    and opened: "i2c_open_address h' = (i2c_open_address h)(bus := if with_stop t then 0xFFFF else ucast address)"
    using carry_open [OF assms(1,2)] assms(3) by force+
  have found: "findWireDevice b x h' = findWireDevice b x h" for b x by (simp add: findWireDevice_def wires)
  have "i2c_continued b a h' \<longleftrightarrow> again b a" by (auto simp: again_def i2c_continued_def opened found)
  then show ?thesis using carry_answer [of co b a _ h'] found by auto
qed

theorem repeated_start_per_bus_witness:
  "\<exists>res h'. carry idle_core kWire0 0x44 (BusRead [0, 0] False)
       ((init_host () ())\<lparr>wire_devices := [\<lparr>ws_used = True, ws_bus = kWire0, ws_address = 0x44, ws_ops = (0, 0)\<rparr>]\<rparr>) =
       Some (res, h') \<and> i2c_continued kWire0 0x44 h' \<and> \<not> i2c_continued kWire0 0x45 h'"
proof -
  let ?h = "(init_host () ())\<lparr>wire_devices := [\<lparr>ws_used = True, ws_bus = kWire0, ws_address = 0x44, ws_ops = (0, 0)\<rparr>]\<rparr>"
  have calm: "\<forall>s s'. deliverDeferred idle_core s = Some s' \<longrightarrow>
      i2c_open_address s' = i2c_open_address s \<and> wire_devices s' = wire_devices s"
    by (auto simp: deliverDeferred_idle split: if_splits)
  have d: "device_depth ?h = 0" by (simp add: init_host_def)
  have found: "findWireDevice kWire0 (ucast (0x44 :: u8)) ?h \<noteq> None" by (simp add: findWireDevice_def)
  obtain res h' where w: "carry idle_core kWire0 0x44 (BusRead [0, 0] False) ?h = Some (res, h')"
    by (auto simp: onWireReadOn_def Let_def split_beta findWireDevice_def deliverDeferred_idle call_device_def
        run_device_def)
  show ?thesis
    using repeated_start_per_bus [OF w d calm, of kWire0 "0x44"] repeated_start_per_bus [OF w d calm, of kWire0 "0x45"]
      found w by auto
qed

text \<open>The master never reads past its buffer. Whatever a device claims to have supplied, the
  count a read hook answers is at most the length asked for, and zero from an address
  nothing is bound to.\<close>

theorem wire_read_within_buffer:
  "onWireReadOn co bus address buffer stop h = Some (count, data, h') \<Longrightarrow>
   count \<le> length buffer \<and> (findWireDevice bus (ucast address) h = None \<longrightarrow> count = 0)"
  by (auto simp: onWireReadOn_def Let_def bind_eq_Some_conv split: prod.splits option.splits if_splits)

theorem wire_read_within_buffer_witness:
  "\<exists>count data h'. onWireReadOn idle_core kWire0 0x44 [0, 0, 0] True (init_host () ()) = Some (count, data, h') \<and> count = 0"
proof -
  have none: "findWireDevice kWire0 (ucast (0x44 :: u8)) (init_host () ()) = None"
    by (simp add: findWireDevice_def init_host_def kMaxWireDevices_def empty_wire_slot_def numeral_eq_Suc)
  obtain count data h' where r: "onWireReadOn idle_core kWire0 0x44 [0, 0, 0] True (init_host () ()) = Some (count, data, h')"
    using none by (auto simp: onWireReadOn_def Let_def split_beta deliverDeferred_idle)
  show ?thesis using wire_read_within_buffer [OF r] none r by blast
qed

text \<open>The bytes of a transaction, one hook call each.\<close>

fun spi_transfers :: "('c, 'm) core \<Rightarrow> bytes \<Rightarrow> ('c, 'm) host \<Rightarrow> (bytes \<times> ('c, 'm) host) option" where
  "spi_transfers co [] h = Some ([], h)"
| "spi_transfers co (m # ms) h = do {
     (miso, h1) \<leftarrow> onSpiTransfer co m h;
     (misos, h2) \<leftarrow> spi_transfers co ms h1;
     Some (miso # misos, h2)
   }"

lemma onSpiTransfer_bulk:
  assumes "in_spi_transaction h" and "device_depth h = 0" and t: "onSpiTransfer co m h = Some (miso, h')"
  shows "in_spi_transaction h'" "device_depth h' = 0" "spi_bulk_count h' = spi_bulk_count h + 1"
    "spi_mosi_sum h' = crc8Step (spi_mosi_sum h) m" "spi_miso_sum h' = crc8Step (spi_miso_sum h) miso"
proof -
  obtain h1 where h1: "(case spi_handler h of None \<Rightarrow> Some (0xFF, h) | Some cb \<Rightarrow> call_device co (co_spi co cb m) h) = Some (miso, h1)"
    and h': "h' = h1\<lparr>spi_bulk_count := spi_bulk_count h1 + 1, spi_mosi_sum := crc8Step (spi_mosi_sum h1) m,
      spi_miso_sum := crc8Step (spi_miso_sum h1) miso\<rparr>"
    using assms(1) t by (auto simp: onSpiTransfer_def bind_eq_Some_conv)
  have "in_spi_transaction h1 = in_spi_transaction h \<and> device_depth h1 = 0 \<and> spi_bulk_count h1 = spi_bulk_count h \<and>
      spi_mosi_sum h1 = spi_mosi_sum h \<and> spi_miso_sum h1 = spi_miso_sum h"
  proof (cases "spi_handler h")
    case None
    then show ?thesis using h1 assms(2) by simp
  next
    case (Some cb)
    then have "call_device co (co_spi co cb m) h = Some (miso, h1)" using h1 by simp
    from call_device_fields [OF assms(2) this] show ?thesis by simp
  qed
  then show "in_spi_transaction h'" "device_depth h' = 0" "spi_bulk_count h' = spi_bulk_count h + 1"
    "spi_mosi_sum h' = crc8Step (spi_mosi_sum h) m" "spi_miso_sum h' = crc8Step (spi_miso_sum h) miso"
    using assms(1) by (simp_all add: h')
qed

lemma spi_transfers_bulk:
  assumes "in_spi_transaction h" and "device_depth h = 0" and "spi_transfers co ms h = Some (misos, h')"
  shows "length misos = length ms \<and> in_spi_transaction h' \<and>
    spi_bulk_count h' = spi_bulk_count h + of_nat (length ms) \<and>
    spi_mosi_sum h' = foldl crc8Step (spi_mosi_sum h) ms \<and> spi_miso_sum h' = foldl crc8Step (spi_miso_sum h) misos"
  using assms
proof (induction ms arbitrary: h misos)
  case (Cons m ms)
  obtain miso h1 rest where t: "onSpiTransfer co m h = Some (miso, h1)"
      "spi_transfers co ms h1 = Some (rest, h')" "misos = miso # rest"
    using Cons.prems(3) by (auto simp: bind_eq_Some_conv)
  note one = onSpiTransfer_bulk [OF Cons.prems(1,2) t(1)]
  show ?case using Cons.IH [OF one(1,2) t(2)] one t(3) by (simp add: add.assoc)
qed simp

text \<open>The one line a bulk transaction leaves stands for all its bytes: after \<open>spi.begin\<close> and
  any number of transfers the counter is their number and the two checksums are those of
  the bytes sent and of the bytes the device answered, in order.\<close>

theorem spi_bulk_line_covers_transaction:
  "device_depth h = 0 \<Longrightarrow> onSpiTransaction co True h = Some h0 \<Longrightarrow>
   spi_transfers co ms h0 = Some (misos, h1) \<Longrightarrow>
   length misos = length ms \<and> spi_bulk_count h1 = of_nat (length ms) \<and>
   spi_mosi_sum h1 = crc8 ms \<and> spi_miso_sum h1 = crc8 misos"
proof -
  assume d: "device_depth h = 0" and b: "onSpiTransaction co True h = Some h0"
    and t: "spi_transfers co ms h0 = Some (misos, h1)"
  have h0: "in_spi_transaction h0" "device_depth h0 = 0" "spi_bulk_count h0 = 0" "spi_mosi_sum h0 = 0" "spi_miso_sum h0 = 0"
    using b d by (auto simp: onSpiTransaction_def)
  show ?thesis using spi_transfers_bulk [OF h0(1,2) t] h0 by (simp add: crc8_foldl)
qed

theorem spi_bulk_line_covers_transaction_witness:
  "\<exists>h0 misos h1. onSpiTransaction idle_core True (init_host () ()) = Some h0 \<and>
     spi_transfers idle_core [0x9F, 0] h0 = Some (misos, h1) \<and> spi_mosi_sum h1 = crc8 [0x9F, 0]"
proof -
  have d: "device_depth (init_host () ()) = 0" by (simp add: init_host_def)
  obtain h0 where b: "onSpiTransaction idle_core True (init_host () ()) = Some h0" by (simp add: onSpiTransaction_def)
  have s: "in_spi_transaction h0 \<and> spi_handler h0 = None" using b by (auto simp: onSpiTransaction_def init_host_def)
  obtain misos h1 where t: "spi_transfers idle_core [0x9F, 0] h0 = Some (misos, h1)"
    using s by (auto simp: onSpiTransfer_def)
  show ?thesis using spi_bulk_line_covers_transaction [OF d b t] b t by blast
qed

end
