(* ===== verification/Run_Window.thy ===== *)
theory Run_Window
  imports Bus_Hooks
begin

text \<open>
  A run of the environment (\<open>src/src/embedbench_host.cpp\<close>): opening and closing the recording
  window, the window driven by the host core's lifecycle, the counters a test reads, and
  the trace as text.
\<close>

section \<open>The window\<close>

definition begin_hooks :: "hook list" where
  "begin_hooks =
     [PinWriteHook, PinReadHook, PinModeHook, InterruptHook, WireWriteHook, WireReadHook,
      Wire1WriteHook, Wire1ReadHook, AnalogReadHook, AnalogMilliVoltsHook, AnalogReadConfigHook,
      AnalogWriteHook, SpiTransferHook, SpiTransactionHook, Serial1Hook, Serial2Hook, ClockHooks]"

definition end_hooks :: "hook_group list" where
  "end_hooks = [GClock, GSerial1, GSerial2, GWire, GWire1, GSpi, GInterrupt, GAnalog, GPins]"

definition runBegin :: "('c, 'm) core \<Rightarrow> u32 \<Rightarrow> ('c, 'm) host \<Rightarrow> ('c, 'm) host" where
  "runBegin co tickUs h =
     h\<lparr>buf := [], next_seq := 1, dropped := 0, folded := 0, fold_exhausted := False, truncated := False,
       diag_count := 0, tick_us := tickUs, vnow := 0, next_tick := ucast tickUs, ticks := 0,
       pending_ticks := 0, late_ticks := 0, zero_waits := 0, zero_in_director := 0, dir_depth := 0,
       isr_depth := 0, in_spi_transaction := False, spi_bulk_count := 0, spi_mosi_sum := 0,
       spi_miso_sum := 0, device_depth := 0, max_device_depth := 0, deferred_effects := [],
       deferred_isrs := 0, deferred_frames := 0, deferred_dropped := 0,
       i2c_open_address := (\<lambda>_. 0xFFFF), wake_at := replicate kWakeSlots 0, dropped_wakes := 0,
       running := True, windows := windows h + 1, hw := fold (co_set_hook co) begin_hooks (hw h)\<rparr>"

definition runEnd :: "('c, 'm) core \<Rightarrow> ('c, 'm) host \<Rightarrow> ('c, 'm) host" where
  "runEnd co h = h\<lparr>running := False, hw := fold (co_clear_hooks co) end_hooks (hw h)\<rparr>"

definition openWindow :: "('c, 'm) core \<Rightarrow> u32 \<Rightarrow> ('c, 'm) host \<Rightarrow> ('c, 'm) host" where
  "openWindow co tickUs h = runBegin co tickUs h"

definition closeWindow :: "('c, 'm) core \<Rightarrow> ('c, 'm) host \<Rightarrow> ('c, 'm) host" where
  "closeWindow co h = runEnd co h"

section \<open>The lifecycle\<close>

definition armRunWindow :: "('c, 'm) core \<Rightarrow> u32 \<Rightarrow> u32 \<Rightarrow> ('c, 'm) host \<Rightarrow> ('c, 'm) host" where
  "armRunWindow co tickUs loops h =
     h\<lparr>window_armed := True, window_closed := False, window_loops := (if loops > 0 then loops else 1),
       window_tick_us := (if tickUs > 0 then tickUs else 1), loops_done := 0,
       hw := co_set_lifecycle_hook co (hw h)\<rparr>"

datatype lifecycle_phase = kPreSetup | kPostSetup | kPreLoop | kPostLoop | kOtherPhase

definition onLifecycle :: "('c, 'm) core \<Rightarrow> lifecycle_phase \<Rightarrow> ('c, 'm) host \<Rightarrow> ('c, 'm) host" where
  "onLifecycle co phase h =
     (case phase of
        kPreSetup \<Rightarrow>
          if window_armed h \<and> \<not> window_closed h
          then emit co kCore 0 ''life.pre_setup'' (openWindow co (window_tick_us h) h) else h
      | kPostSetup \<Rightarrow> emit co kCore 0 ''life.post_setup'' h
      | kPreLoop \<Rightarrow> emit co kCore 0 (''life.pre_loop n='' @ decw (loops_done h + 1)) h
      | kPostLoop \<Rightarrow>
          (let h1 = h\<lparr>loops_done := loops_done h + 1\<rparr>;
               h2 = emit co kCore 0 (''life.post_loop n='' @ decw (loops_done h1)) h1
           in if window_armed h2 \<and> \<not> window_closed h2 \<and> loops_done h2 \<ge> window_loops h2 then
                (let h3 = emit co kCore 0 (''life.window_end loops='' @ decw (loops_done h2)) h2
                 in closeWindow co (h3\<lparr>window_closed := True\<rparr>))
              else h2)
      | kOtherPhase \<Rightarrow> h)"

definition runWindowClosed :: "('c, 'm) host \<Rightarrow> bool" where
  "runWindowClosed h = window_closed h"

definition completedLoops :: "('c, 'm) host \<Rightarrow> u32" where
  "completedLoops h = loops_done h"

section \<open>What a test reads\<close>

record run_stats =
  st_events :: u32
  st_dropped :: u32
  st_zero_waits :: u32
  st_zero_in_director :: u32
  st_late_ticks :: u32
  st_ticks :: u32
  st_diag_count :: u32
  st_deferred_isrs :: u32
  st_deferred_frames :: u32
  st_deferred_dropped :: u32
  st_max_device_depth :: u32
  st_folded :: u32
  st_outside_window :: u32
  st_windows :: u32

definition stats :: "('c, 'm) host \<Rightarrow> run_stats" where
  "stats h = \<lparr>st_events = of_nat (length (buf h)), st_dropped = dropped h, st_zero_waits = zero_waits h,
     st_zero_in_director = zero_in_director h, st_late_ticks = late_ticks h, st_ticks = ticks h,
     st_diag_count = diag_count h, st_deferred_isrs = deferred_isrs h,
     st_deferred_frames = deferred_frames h, st_deferred_dropped = deferred_dropped h,
     st_max_device_depth = max_device_depth h, st_folded = folded h,
     st_outside_window = outside_window h, st_windows = windows h\<rparr>"

definition eventCount :: "('c, 'm) host \<Rightarrow> nat" where
  "eventCount h = length (buf h)"

definition respLineCount :: "('c, 'm) host \<Rightarrow> nat" where
  "respLineCount h = length (filter (\<lambda>e. ev_link e \<noteq> 0) (buf h))"

definition nowUs :: "('c, 'm) host \<Rightarrow> u64" where
  "nowUs h = vnow h"

definition dumpf :: "('c, 'm) core \<Rightarrow> string \<Rightarrow> ('c, 'm) host \<Rightarrow> ('c, 'm) host" where
  "dumpf co formatted h = emit co kDir 0 (''dump '' @ clip 50 formatted) h"

text \<open>
  \<open>formatTrace\<close>: each piece of a line is written while the position is inside the buffer;
  \<open>snprintf\<close> answers the full length of a piece, so the position may pass the capacity.
  The pair is the characters written and the position.
\<close>

definition put_piece :: "nat \<Rightarrow> string \<Rightarrow> string \<times> nat \<Rightarrow> string \<times> nat" where
  "put_piece cap piece s =
     (case s of (out, pos) \<Rightarrow>
        if pos < cap then (out @ clip (cap - pos) piece, pos + length piece) else (out, pos))"

definition event_pieces :: "event \<Rightarrow> string list" where
  "event_pieces e =
     [pad0 2 (decw (ev_seq e)) @ '' '' @ pad0 6 (decw (ev_time e)) @ '' '' @ ctxName (ev_ctx e) @ '' '' @
        originName (ev_origin e) @ '' '' @ ev_text e]
     @ (if ev_link e \<noteq> 0 then ['' re='' @ decw (ev_link e)] else [])
     @ (if ev_repeats e > 1 then ['' x'' @ decw (ev_repeats e) @ ''..'' @ pad0 6 (decw (ev_last_time e))] else [])
     @ [[CHR 10]]"

definition formatTrace :: "nat \<Rightarrow> ('c, 'm) host \<Rightarrow> string \<times> nat" where
  "formatTrace cap h =
     fold (\<lambda>e s. if snd s < cap then fold (put_piece cap) (event_pieces e) s else s) (buf h) ([], 0)"

section \<open>A trace that fits is complete\<close>

definition trace_text :: "event list \<Rightarrow> string" where
  "trace_text es = concat (map (concat \<circ> event_pieces) es)"

lemma put_piece_fits:
  "length out = pos \<Longrightarrow> pos + length piece < cap \<Longrightarrow>
   put_piece cap piece (out, pos) = (out @ piece, pos + length piece)"
  by (simp add: put_piece_def clip_def)

lemma put_pieces_fit:
  "pos = length out \<Longrightarrow> pos + length (concat ps) < cap \<Longrightarrow>
   fold (put_piece cap) ps (out, pos) = (out @ concat ps, pos + length (concat ps))"
proof (induction ps arbitrary: out pos)
  case (Cons p ps)
  show ?case using Cons.prems Cons.IH [of "pos + length p" "out @ p"] by (simp add: put_piece_fits)
qed simp

lemma format_events_fit:
  "pos = length out \<Longrightarrow> pos + length (trace_text es) < cap \<Longrightarrow>
   fold (\<lambda>e s. if snd s < cap then fold (put_piece cap) (event_pieces e) s else s) es (out, pos) =
     (out @ trace_text es, pos + length (trace_text es))"
proof (induction es arbitrary: out pos)
  case Nil
  then show ?case by (simp add: trace_text_def)
next
  case (Cons e es)
  have "trace_text (e # es) = concat (event_pieces e) @ trace_text es" by (simp add: trace_text_def)
  then show ?case using Cons.prems Cons.IH [of "pos + length (concat (event_pieces e))" "out @ concat (event_pieces e)"]
    by (simp add: put_pieces_fit)
qed

text \<open>What is written never exceeds the buffer: one character is left for the terminator.\<close>

lemma put_piece_bound:
  "length (fst s) \<le> snd s \<and> length (fst s) \<le> cap - 1 \<and> (snd s < cap \<longrightarrow> length (fst s) = snd s) \<Longrightarrow>
   length (fst (put_piece cap p s)) \<le> snd (put_piece cap p s) \<and> length (fst (put_piece cap p s)) \<le> cap - 1 \<and>
   (snd (put_piece cap p s) < cap \<longrightarrow> length (fst (put_piece cap p s)) = snd (put_piece cap p s))"
  by (cases s) (auto simp: put_piece_def clip_def)

lemma put_pieces_bound:
  "length (fst s) \<le> snd s \<and> length (fst s) \<le> cap - 1 \<and> (snd s < cap \<longrightarrow> length (fst s) = snd s) \<Longrightarrow>
   length (fst (fold (put_piece cap) ps s)) \<le> snd (fold (put_piece cap) ps s) \<and>
   length (fst (fold (put_piece cap) ps s)) \<le> cap - 1 \<and>
   (snd (fold (put_piece cap) ps s) < cap \<longrightarrow> length (fst (fold (put_piece cap) ps s)) = snd (fold (put_piece cap) ps s))"
proof (induction ps arbitrary: s)
  case (Cons p ps)
  show ?case using Cons.IH [OF put_piece_bound [OF Cons.prems]] by simp
qed simp

lemma formatTrace_bound_from:
  "length (fst s) \<le> snd s \<and> length (fst s) \<le> cap - 1 \<and> (snd s < cap \<longrightarrow> length (fst s) = snd s) \<Longrightarrow>
   length (fst (fold (\<lambda>e s. if snd s < cap then fold (put_piece cap) (event_pieces e) s else s) es s)) \<le> cap - 1"
proof (induction es arbitrary: s)
  case (Cons e es)
  show ?case
  proof (cases "snd s < cap")
    case True
    show ?thesis using Cons.IH [OF put_pieces_bound [OF Cons.prems, of "event_pieces e"]] True by simp
  next
    case False
    then show ?thesis using Cons.IH [OF Cons.prems] by simp
  qed
qed simp

section \<open>Properties\<close>

text \<open>C19: the trace as text is complete when it fits and never overruns the buffer: given room, the
  output is every line in full and the answer its length; in any case at most one character
  less than the capacity is written.\<close>

theorem formatTrace_complete_or_bounded:
  "(length (trace_text (buf h)) < cap \<longrightarrow>
      formatTrace cap h = (trace_text (buf h), length (trace_text (buf h)))) \<and>
   length (fst (formatTrace cap h)) \<le> cap - 1"
  using format_events_fit [of 0 "[]" "buf h" cap] formatTrace_bound_from [of "([], 0)" cap "buf h"]
  by (simp add: formatTrace_def)

theorem formatTrace_complete_or_bounded_witness:
  "fst (formatTrace 80 ((init_host () ())\<lparr>buf := [new_event 1 kApp 0 ''x'' (init_host () ())]\<rparr>)) =
     ''01 000000 main app x'' @ [CHR 10]"
proof -
  let ?h = "(init_host () ())\<lparr>buf := [new_event 1 kApp 0 ''x'' (init_host () ())]\<rparr>"
  have t: "trace_text (buf ?h) = ''01 000000 main app x'' @ [CHR 10]"
  proof -
    have digits: "decw (1 :: u32) = ''1''" "decw (0 :: u64) = ''0''"
      by (simp_all add: decw_def dec.simps digit_char_def char_of_def bit_iff_odd)
    have padded: "pad0 2 ''1'' = ''01''" "pad0 6 ''0'' = ''000000''"
      by (simp_all add: pad0_def numeral_eq_Suc)
    show ?thesis
      by (simp add: trace_text_def event_pieces_def new_event_def init_host_def currentCtx_def ctxName_def
          clip_def text_cap_def digits padded)
  qed
  have "length (trace_text (buf ?h)) < 80" unfolding t by simp
  then show ?thesis using formatTrace_complete_or_bounded [of ?h 80] t by simp
qed

text \<open>One round of the application's loop, as the lifecycle hook sees it.\<close>

definition loop_once :: "('c, 'm) core \<Rightarrow> ('c, 'm) host \<Rightarrow> ('c, 'm) host" where
  "loop_once co h = onLifecycle co kPostLoop (onLifecycle co kPreLoop h)"

lemma loop_once_counts:
  assumes "window_armed h"
  shows "window_armed (loop_once co h)" "window_loops (loop_once co h) = window_loops h"
    "loops_done (loop_once co h) = loops_done h + 1"
    "window_closed (loop_once co h) \<longleftrightarrow> window_closed h \<or> window_loops h \<le> loops_done h + 1"
    "running (loop_once co h) \<longleftrightarrow> running h \<and> (window_closed h \<or> \<not> window_loops h \<le> loops_done h + 1)"
  using assms
  by (auto simp: loop_once_def onLifecycle_def Let_def closeWindow_def runEnd_def)

lemma loops_counted:
  assumes "window_armed h" and "\<not> window_closed h" and "running h" and "loops_done h = 0"
    and "window_loops h > 0" and "n < 2 ^ 32"
  shows "window_armed ((loop_once co ^^ n) h) \<and> window_loops ((loop_once co ^^ n) h) = window_loops h \<and>
    loops_done ((loop_once co ^^ n) h) = of_nat n \<and>
    (window_closed ((loop_once co ^^ n) h) \<longleftrightarrow> unat (window_loops h) \<le> n) \<and>
    (running ((loop_once co ^^ n) h) \<longleftrightarrow> n < unat (window_loops h))"
  using assms(6)
proof (induction n)
  case 0
  have "unat (window_loops h) > 0" using assms(5) by (simp add: unat_gt_0 word_neq_0_conv)
  then show ?case using assms by simp
next
  case (Suc n)
  let ?s = "(loop_once co ^^ n) h"
  have n: "n < 2 ^ 32" using Suc.prems by simp
  note IH = Suc.IH [OF n]
  have le: "window_loops h \<le> of_nat n + 1 \<longleftrightarrow> unat (window_loops h) \<le> Suc n"
  proof -
    have "unat (of_nat n + 1 :: u32) = Suc n"
    proof -
      have "unat (of_nat (Suc n) :: u32) = Suc n" using Suc.prems by (simp add: unat_of_nat del: of_nat_Suc)
      then show ?thesis by (simp add: add.commute)
    qed
    then show ?thesis by (simp add: word_le_nat_alt)
  qed
  show ?case using IH loop_once_counts [of ?s co] le by (auto simp: add.commute)
qed

text \<open>C18: an armed window records exactly the loops it was asked for: it opens at \<open>kPreSetup\<close>, and
  after \<open>n\<close> loops the window is still recording if and only if \<open>n\<close> is below that number
  (at least one), and closed otherwise.\<close>

theorem armed_window_spans_loops:
  "\<not> window_closed h0 \<Longrightarrow> h0 = armRunWindow co us loops h \<Longrightarrow> n < 2 ^ 32 \<Longrightarrow>
   h1 = (loop_once co ^^ n) (onLifecycle co kPreSetup h0) \<Longrightarrow>
   (running h1 \<longleftrightarrow> n < max 1 (unat loops)) \<and> (runWindowClosed h1 \<longleftrightarrow> \<not> running h1) \<and>
   completedLoops h1 = of_nat n"
proof -
  assume h0: "h0 = armRunWindow co us loops h" and n: "n < 2 ^ 32"
    and h1: "h1 = (loop_once co ^^ n) (onLifecycle co kPreSetup h0)"
  let ?s = "onLifecycle co kPreSetup h0"
  have s: "window_armed ?s" "\<not> window_closed ?s" "running ?s" "loops_done ?s = 0"
      "window_loops ?s = (if loops > 0 then loops else 1)"
    by (auto simp: onLifecycle_def h0 armRunWindow_def openWindow_def runBegin_def)
  have pos: "window_loops ?s > 0" using s(5) by simp
  have "unat (window_loops ?s) = max 1 (unat loops)"
    using s(5) by (auto simp: word_neq_0_conv unat_gt_0 max_def Suc_le_eq)
  then show ?thesis
    using loops_counted [OF s(1-4) pos n, of co] h1 by (auto simp: runWindowClosed_def completedLoops_def)
qed

theorem armed_window_spans_loops_witness:
  "running (loop_once idle_core (onLifecycle idle_core kPreSetup (armRunWindow idle_core 1000 2 (init_host () ()))))"
proof -
  let ?h0 = "armRunWindow idle_core 1000 2 (init_host () ())"
  have "\<not> window_closed ?h0" by (simp add: armRunWindow_def)
  from armed_window_spans_loops [OF this refl _ refl, of 1] show ?thesis by simp
qed

end
