(* ===== verification/Host_Contract.thy ===== *)
theory Host_Contract
  imports Run_Window
begin

text \<open>
  The environment as a whole: its operations as a step relation, the invariant every one
  of them keeps, and with it the re-entrancy contract of \<open>src/src/embedbench_host.h\<close>: no
  device method ever runs while another is on the stack, so \<open>maxDeviceDepth\<close> stays at one.
\<close>

section \<open>The invariant\<close>

text \<open>\<open>d\<close> is the number of device calls on the stack.\<close>

definition env_ok :: "u32 \<Rightarrow> ('c, 'm) host \<Rightarrow> bool" where
  "env_ok d h \<longleftrightarrow>
     log_ok h \<and> device_depth h = d \<and> max_device_depth h \<le> 1 \<and> formats_ok (formats h) \<and>
     length (deferred_effects h) \<le> kDeferralCapacity \<and> length (wake_at h) = kWakeSlots \<and>
     length (wire_devices h) = kMaxWireDevices"

text \<open>The fields an invariant of the whole may look at.\<close>

definition same_core :: "('c, 'm) host \<Rightarrow> ('c, 'm) host \<Rightarrow> bool" where
  "same_core h h' \<longleftrightarrow>
     buf h' = buf h \<and> dropped h' = dropped h \<and> truncated h' = truncated h \<and> fold_exhausted h' = fold_exhausted h \<and>
     length (listeners h') = length (listeners h) \<and> device_depth h' = device_depth h \<and>
     max_device_depth h' = max_device_depth h \<and> formats h' = formats h \<and>
     length (deferred_effects h') \<le> length (deferred_effects h) \<and>
     length (wake_at h') = length (wake_at h) \<and> length (wire_devices h') = length (wire_devices h) \<and>
     next_seq h' = next_seq h \<and> outside_window h' = outside_window h"

lemma env_ok_same: "same_core h h' \<Longrightarrow> env_ok d h \<Longrightarrow> env_ok d h'"
  by (auto simp: same_core_def env_ok_def log_ok_def)

lemma store_event_env:
  assumes "env_ok d h" and "store_event org link t h = (seq, eo, h')"
  shows "env_ok d h'"
proof -
  have "quiet h h'" using assms(2) by (rule store_event_quiet)
  moreover have "log_ok h'" using assms(1) store_event_ok [OF _ assms(2)] by (simp add: env_ok_def)
  ultimately show ?thesis using assms(1) by (simp add: env_ok_def quiet_def)
qed

interpretation env_sinks: device_law "env_ok d" co for d and co :: "('c, 'm) core"
proof
  fix h h' :: "('c, 'm) host" and org link t seq eo
  show "env_ok d h'" if "env_ok d h" "store_event org link t h = (seq, eo, h')"
    using that by (rule store_event_env)
  assume I: "env_ok d h"
  show "env_ok d (h\<lparr>mem := m\<rparr>)" "env_ok d (h\<lparr>dispatching := b\<rparr>)"
    "env_ok d (h\<lparr>rejected_listeners := r, diag_count := n\<rparr>)" "env_ok d (h\<lparr>hw := c\<rparr>)" for m b r n c
    using I by (auto intro: env_ok_same [rotated] simp: same_core_def)
  show "env_ok d (h\<lparr>listeners := ls\<rparr>)" if "length ls = length (listeners h)" for ls
    using I that by (auto intro: env_ok_same [rotated] simp: same_core_def)
  have trace: "log_ok h" using I by (simp add: env_ok_def)
  show "env_ok d (queueDeferred co e h)" for e
    using I trace trace_of_devices.queue_law [of h "balance h" co e] held_effects.bounded [OF TrueI, of h co e]
      queueDeferred_frame [of h co e]
    by (simp add: env_ok_def device_frame_def quiet_def)
       (simp add: queueDeferred_def Let_def split: deferred.split)
  show "env_ok d (snd (requestWake co t h))" for t
    using I trace trace_of_devices.wake_law [of h "balance h" co t] requestWake_frame [of h co t]
    by (simp add: env_ok_def device_frame_def quiet_def)
       (simp add: requestWake_def split: option.split)
  show "env_ok d (snd (registerFormat co n s h))" for n s
    using I trace trace_of_devices.register_law [of h "balance h" co n s] registerFormat_frame [of h co n s]
      formats_ok_register [of h co "the n" s]
    by (cases n) (auto simp: env_ok_def device_frame_def quiet_def registerFormat_def split: option.split)
qed

section \<open>What the environment relies on\<close>

text \<open>
  Application code: whatever it does, when it returns the invariant holds again. Code made
  of the operations below does that, as the rest of the theory shows.
\<close>

definition app_law :: "(u32 \<Rightarrow> ('c, 'm) host \<Rightarrow> bool) \<Rightarrow> ('c, 'm) core \<Rightarrow> bool" where
  "app_law I co \<longleftrightarrow>
     (\<forall>h. I 0 h \<longrightarrow>
        (\<forall>cb n. pred_option (I 0) (co_tick_handler co cb n h)) \<and> (\<forall>cb n. pred_option (I 0) (co_zero_handler co cb n h)) \<and>
        (\<forall>pin. pred_option (I 0) (co_trigger_interrupt co pin h)) \<and>
        (\<forall>cb bus format data bits. pred_option (I 0) (co_frame_receiver co cb bus format data bits h)))"

lemma app_lawD:
  assumes "app_law I co" and "I 0 h"
  shows "pred_option (I 0) (co_tick_handler co cb n h)" "pred_option (I 0) (co_zero_handler co cb n h)"
    "pred_option (I 0) (co_trigger_interrupt co pin h)" "pred_option (I 0) (co_frame_receiver co cb bus format data bits h)"
  using assms unfolding app_law_def by blast+

lemma pred_option_bind:
  "pred_option Q m \<Longrightarrow> (\<And>x. Q x \<Longrightarrow> pred_option P (f x)) \<Longrightarrow> pred_option P (Option.bind m f)"
  by (cases m) auto

section \<open>A law of the whole environment\<close>

text \<open>
  \<open>I d\<close> is an invariant with \<open>d\<close> device calls on the stack: every sink of a device keeps it, it
  looks at no more than the fields above, and the brackets of a device call take it from one depth
  to the other. Every operation of the environment then keeps it.
\<close>

locale host_law =
  fixes I :: "u32 \<Rightarrow> ('c, 'm) host \<Rightarrow> bool"
  assumes sinks_law: "\<And>d co. device_law (I d) co"
    and core_law: "\<And>d h h'. same_core h h' \<Longrightarrow> I d h \<Longrightarrow> I d h'"
    and depth_law: "\<And>d h. I d h \<Longrightarrow> device_depth h = d"
    and enter_law: "\<And>h. I 0 h \<Longrightarrow> I 1 (enterDevice h)"
    and leave_law: "\<And>h. I 1 h \<Longrightarrow> I 0 (leaveDevice h)"

sublocale host_law < env: device_law "I d" co for d co
  by (rule sinks_law)

context host_law
begin

abbreviation ok_if :: "('c, 'm) host option \<Rightarrow> bool" where
  "ok_if r \<equiv> pred_option (I 0) r"

abbreviation ok_snd :: "('a \<times> ('c, 'm) host) option \<Rightarrow> bool" where
  "ok_snd r \<equiv> pred_option (\<lambda>(a, h). I 0 h) r"

lemma core_eq: "same_core h h' \<Longrightarrow> same_core h' h \<Longrightarrow> I d h' = I d h"
  using core_law by blast

lemma call_device_env:
  assumes "I 0 h"
  shows "ok_snd (call_device co call h)"
proof -
  have one: "I 1 (enterDevice h)"
    using assms by (rule enter_law)
  then have "device_depth (enterDevice h) > 0" using depth_law [of 1 "enterDevice h"] by simp
  then obtain r h1 where "run_device co call (enterDevice h) = Some (r, h1)" "I 1 h1"
    using env.run_device_law [OF one, of co call] by blast
  then show ?thesis by (simp add: call_device_def leave_law)
qed

lemma call_devices_env:
  assumes "I 0 h"
  shows "ok_if (call_devices co calls h)"
proof -
  have one: "I 1 (enterDevice h)"
    using assms by (rule enter_law)
  then have "device_depth (enterDevice h) > 0" using depth_law [of 1 "enterDevice h"] by simp
  then obtain h1 where "run_devices co calls (enterDevice h) = Some h1" "I 1 h1"
    using env.run_devices_law [OF one, of co calls] by blast
  then show ?thesis by (simp add: call_devices_def leave_law)
qed

lemma deliver_one_env: "app_law I co \<Longrightarrow> I 0 h \<Longrightarrow> ok_if (deliver_one co e h)"
  by (auto simp: deliver_one_def split: deferred.split option.split intro: app_lawD)

lemma deliverDeferred_env:
  assumes app: "app_law I co" and ok: "I 0 h"
  shows "ok_if (deliverDeferred co h)"
proof (cases "deliverDeferred co h")
  case (Some h')
  have "app_law I co \<longrightarrow> I 0 h \<longrightarrow> I 0 h'"
  proof (rule deliverDeferred.raw_induct [OF _ Some])
    fix rec :: "('c, 'm) core \<Rightarrow> ('c, 'm) host \<Rightarrow> ('c, 'm) host option" and co h h'
    assume IH: "\<And>co h h'. rec co h = Some h' \<Longrightarrow> app_law I co \<longrightarrow> I 0 h \<longrightarrow> I 0 h'"
      and step: "(if device_depth h = 0 \<and> deferred_effects h \<noteq> [] then
          Option.bind (deliver_one co (hd (deferred_effects h)) (h\<lparr>deferred_effects := tl (deferred_effects h)\<rparr>)) (rec co)
        else Some h) = Some h'"
    show "app_law I co \<longrightarrow> I 0 h \<longrightarrow> I 0 h'"
    proof (intro impI)
      assume a: "app_law I co" and h: "I 0 h"
      have "I 0 (h\<lparr>deferred_effects := tl (deferred_effects h)\<rparr>)"
        using h by (rule core_law [rotated]) (simp add: same_core_def)
      then have "ok_if (deliver_one co (hd (deferred_effects h)) (h\<lparr>deferred_effects := tl (deferred_effects h)\<rparr>))"
        using a by (rule deliver_one_env [rotated])
      then show "I 0 h'"
        using step IH a h
        by (cases "device_depth h = 0 \<and> deferred_effects h \<noteq> []") (auto simp: bind_eq_Some_conv)
    qed
  qed
  then show ?thesis using assms Some by simp
qed simp

lemmas env_records = env.emit_law env.diag_law env.queue_law env.hw_law

text \<open>A field the invariant does not look at.\<close>

lemma law_fields [simp]:
  "I d (h\<lparr>ticks := a\<rparr>) = I d h" "I d (h\<lparr>dir_depth := b\<rparr>) = I d h"
  "I d (h\<lparr>isr_depth := b\<rparr>) = I d h" "I d (h\<lparr>vnow := t\<rparr>) = I d h"
  "I d (h\<lparr>next_tick := t\<rparr>) = I d h" "I d (h\<lparr>pending_ticks := a\<rparr>) = I d h"
  "I d (h\<lparr>late_ticks := a\<rparr>) = I d h" "I d (h\<lparr>zero_waits := a\<rparr>) = I d h"
  "I d (h\<lparr>zero_in_director := a\<rparr>) = I d h" "I d (h\<lparr>diag_count := a\<rparr>) = I d h"
  "I d (h\<lparr>i2c_open_address := o2\<rparr>) = I d h" "I d (h\<lparr>in_spi_transaction := c\<rparr>) = I d h"
  "I d (h\<lparr>spi_bulk_count := a\<rparr>) = I d h" "I d (h\<lparr>spi_mosi_sum := s\<rparr>) = I d h"
  "I d (h\<lparr>spi_miso_sum := s\<rparr>) = I d h" "I d (h\<lparr>running := c\<rparr>) = I d h"
  "I d (h\<lparr>windows := a\<rparr>) = I d h" "I d (h\<lparr>loops_done := a\<rparr>) = I d h"
  "I d (h\<lparr>window_closed := c\<rparr>) = I d h" "I d (h\<lparr>window_armed := c\<rparr>) = I d h"
  "I d (h\<lparr>window_loops := a\<rparr>) = I d h" "I d (h\<lparr>window_tick_us := a\<rparr>) = I d h"
  "I d (h\<lparr>hw := w\<rparr>) = I d h"
  by (rule core_eq; simp add: same_core_def)+

lemma law_bindings [simp]:
  "I d (h\<lparr>uart_handler := f\<rparr>) = I d h" "I d (h\<lparr>uart2_handler := f\<rparr>) = I d h"
  "I d (h\<lparr>channel_handler := f\<rparr>) = I d h" "I d (h\<lparr>spi_handler := f\<rparr>) = I d h"
  "I d (h\<lparr>pin_forward := f\<rparr>) = I d h" "I d (h\<lparr>frame_device := f\<rparr>) = I d h"
  "I d (h\<lparr>frame_receiver := f\<rparr>) = I d h" "I d (h\<lparr>tick_handler := f\<rparr>) = I d h"
  "I d (h\<lparr>zero_handler := f\<rparr>) = I d h" "I d (h\<lparr>tick_device := f\<rparr>) = I d h"
  by (rule core_eq; simp add: same_core_def)+

section \<open>The operations keep the invariant\<close>

lemma serve_advance_env: "app_law I co \<Longrightarrow> I 0 h \<Longrightarrow> ok_if (serve_advance co h)"
  by (auto simp: serve_advance_def split: option.split
      intro!: pred_option_bind [OF call_devices_env] deliverDeferred_env)

lemma fireTick_env: "app_law I co \<Longrightarrow> I 0 h \<Longrightarrow> ok_if (fireTick co h)"
  unfolding fireTick_def
  by (intro pred_option_bind [OF serve_advance_env])
     (auto split: option.split intro!: pred_option_bind [where Q = "I 0"] app_lawD)

lemma fireWake_env: "app_law I co \<Longrightarrow> I 0 h \<Longrightarrow> ok_if (fireWake co h)"
proof -
  assume a: "app_law I co" and h: "I 0 h"
  have "I 0 (retireWakesUpTo t h)" for t
    using h by (rule core_law [rotated]) (simp add: same_core_def retireWakesUpTo_def)
  then show ?thesis unfolding fireWake_def Let_def
    by (intro pred_option_bind [OF serve_advance_env [OF a]]) simp_all
qed

lemma late_loop_env:
  assumes "app_law I co" and "I 0 h"
  shows "ok_if (late_loop co h)"
proof (cases "late_loop co h")
  case (Some h')
  have "app_law I co \<longrightarrow> I 0 h \<longrightarrow> I 0 h'"
  proof (rule late_loop.raw_induct [OF _ Some])
    fix rec :: "('c, 'm) core \<Rightarrow> ('c, 'm) host \<Rightarrow> ('c, 'm) host option" and co h h'
    assume IH: "\<And>co h h'. rec co h = Some h' \<Longrightarrow> app_law I co \<longrightarrow> I 0 h \<longrightarrow> I 0 h'"
      and step: "(if pending_ticks h > 0 then
          Option.bind (fireTick co (h\<lparr>pending_ticks := pending_ticks h - 1, late_ticks := late_ticks h + 1\<rparr>)) (rec co)
        else Some h) = Some h'"
    show "app_law I co \<longrightarrow> I 0 h \<longrightarrow> I 0 h'"
    proof (intro impI)
      assume a: "app_law I co" and h: "I 0 h"
      then have "ok_if (fireTick co (h\<lparr>pending_ticks := pending_ticks h - 1, late_ticks := late_ticks h + 1\<rparr>))"
        by (intro fireTick_env) simp_all
      then show "I 0 h'"
        using step IH a h by (cases "pending_ticks h > 0") (auto simp: bind_eq_Some_conv)
    qed
  qed
  then show ?thesis using assms Some by simp
qed simp

lemma pass_tick_env: "app_law I co \<Longrightarrow> I 0 h \<Longrightarrow> ok_if (pass_tick co h)"
proof -
  assume a: "app_law I co" and h: "I 0 h"
  have "I 0 (retireWakesUpTo (vnow h) (h\<lparr>next_tick := t\<rparr>))" for t
    using h by (rule core_law [rotated]) (simp add: same_core_def retireWakesUpTo_def)
  then show ?thesis unfolding pass_tick_def
    by (intro pred_option_bind [OF fireTick_env [OF a]] late_loop_env a)
qed

lemma wait_loop_env:
  assumes "app_law I co" and "I 0 h"
  shows "ok_if (wait_loop co loops target h)"
proof (cases "wait_loop co loops target h")
  case (Some h')
  have "app_law I co \<longrightarrow> I 0 h \<longrightarrow> I 0 h'"
  proof (rule wait_loop.raw_induct [OF _ Some])
    fix rec :: "('c, 'm) core \<Rightarrow> bool \<Rightarrow> u64 \<Rightarrow> ('c, 'm) host \<Rightarrow> ('c, 'm) host option" and co loops target h h'
    assume IH: "\<And>co loops target h h'. rec co loops target h = Some h' \<Longrightarrow> app_law I co \<longrightarrow> I 0 h \<longrightarrow> I 0 h'"
      and step: "(if fst (next_stop h) > target then Some (finish_wait target h)
        else if snd (next_stop h) then
          (if loops then fireWake co (h\<lparr>vnow := fst (next_stop h)\<rparr>)
           else Option.bind (fireWake co (h\<lparr>vnow := fst (next_stop h)\<rparr>)) (rec co loops target))
        else Option.bind (pass_tick co (h\<lparr>vnow := fst (next_stop h)\<rparr>)) (rec co loops target)) = Some h'"
    show "app_law I co \<longrightarrow> I 0 h \<longrightarrow> I 0 h'"
    proof (intro impI)
      assume a: "app_law I co" and h: "I 0 h"
      let ?h = "h\<lparr>vnow := fst (next_stop h)\<rparr>"
      have "ok_if (fireWake co ?h)" "ok_if (pass_tick co ?h)"
        using a h by (intro fireWake_env pass_tick_env; simp)+
      then show "I 0 h'"
        using step IH a h
        by (auto simp: finish_wait_def bind_eq_Some_conv split: if_splits)
    qed
  qed
  then show ?thesis using assms Some by simp
qed simp

lemma skip_ticks_env: "I 0 h \<Longrightarrow> ok_if (skip_ticks target h)"
proof (cases "skip_ticks target h")
  case (Some h')
  assume ok: "I 0 h"
  have "I 0 h \<longrightarrow> I 0 h'"
  proof (rule skip_ticks.raw_induct [OF _ Some])
    fix rec :: "u64 \<Rightarrow> ('c, 'm) host \<Rightarrow> ('c, 'm) host option" and target h h'
    assume IH: "\<And>target h h'. rec target h = Some h' \<Longrightarrow> I 0 h \<longrightarrow> I 0 h'"
      and step: "(if next_tick h \<le> target then
          rec target (h\<lparr>pending_ticks := pending_ticks h + 1, next_tick := next_tick h + ucast (tick_us h)\<rparr>)
        else Some h) = Some h'"
    show "I 0 h \<longrightarrow> I 0 h'"
      using step IH [of target "h\<lparr>pending_ticks := pending_ticks h + 1, next_tick := next_tick h + ucast (tick_us h)\<rparr>" h']
      by (auto split: if_splits)
  qed
  then show ?thesis using ok Some by simp
qed simp

lemma onWait_env:
  assumes a: "app_law I co" and h: "I 0 h"
  shows "ok_if (onWait co us h)"
proof -
  have zero: "ok_if (map_option (\<lambda>h2. h2\<lparr>dir_depth := dir_depth h2 - 1\<rparr>)
      (co_zero_handler co cb n (h\<lparr>zero_waits := z, dir_depth := d\<rparr>)))" for cb n z d
    using app_lawD(2) [OF a, of "h\<lparr>zero_waits := z, dir_depth := d\<rparr>" cb n] h by (simp add: option.pred_map comp_def)
  have nested: "ok_if (map_option (\<lambda>h1. h1\<lparr>vnow := t\<rparr>) (skip_ticks t h))" for t
    using skip_ticks_env [OF h, of t] by (auto simp: option.pred_map comp_def)
  show ?thesis
    using zero nested wait_loop_env [OF a h] h
    by (auto simp: onWait_def Let_def split: option.split)
qed

lemma pinInject_env: "app_law I co \<Longrightarrow> I 0 h \<Longrightarrow> ok_if (pinInject co org pin level h)"
  by (auto simp: pinInject_def Let_def intro!: env_records app_lawD)

lemma frameRx_env: "app_law I co \<Longrightarrow> I 0 h \<Longrightarrow> ok_snd (frameRx co org bus format data bits h)"
proof -
  assume a: "app_law I co" and h: "I 0 h"
  obtain r h1 where f: "frameAccept co bus format data bits h = (r, h1)"
    by (cases "frameAccept co bus format data bits h")
  have "I 0 h1" using env.accept_law [OF h] f by (metis snd_conv)
  then show ?thesis using a
    by (cases r) (auto simp: frameRx_def f Let_def option.pred_map comp_def
        split: option.split intro!: env_records app_lawD)
qed

lemma onPinWrite_env: "app_law I co \<Longrightarrow> I 0 h \<Longrightarrow> ok_if (onPinWrite co pin v h)"
  by (auto simp: onPinWrite_def Let_def split: option.split
      intro!: env_records pred_option_bind [OF call_devices_env] deliverDeferred_env)

lemma onInterruptEvent_env: "I 0 h \<Longrightarrow> I 0 (onInterruptEvent co event pin h)"
  by (auto simp: onInterruptEvent_def Let_def split: interrupt_event.split intro!: env_records)

lemma call_device_envD: "I 0 h \<Longrightarrow> call_device co call h = Some (r, h') \<Longrightarrow> I 0 h'"
  using call_device_env [of h co call] by simp

lemma record_env: "I d h \<Longrightarrow> recordf co org link t h = (req, h') \<Longrightarrow> I d h'"
  using env.vrecord_law [of d h co org link t] by (simp add: recordf_def)

lemma onWireWriteOn_env:
  assumes a: "app_law I co" and h: "I 0 h"
  shows "ok_snd (onWireWriteOn co bus address data stop h)"
proof -
  let ?line = "''i2c.req addr='' @ hex2 address @ bus_tag bus @ '' data='' @ hexOf data 12 @ '' stop='' @
    bool_dec stop @ (if i2c_continued bus address h then '' rs'' else [])"
  obtain req h1 where r: "recordf co kApp 0 ?line h = (req, h1)" by (cases "recordf co kApp 0 ?line h")
  have h1: "I 0 h1" using h r by (rule record_env)
  have dev: "ok_snd (map_option (\<lambda>(status, h'). (status, if status > kI2cOther then diag co req (t status) h' else h'))
      (call_device co call h1))" for call t
    using call_device_env [OF h1, of co call]
    by (auto simp: option.pred_map comp_def env_records elim!: option.pred_mono_strong)
  show ?thesis
    unfolding onWireWriteOn_def Let_def r
    by (auto simp: diag_unbound_def i2c_close_def split: option.split
        intro!: pred_option_bind [where Q = "\<lambda>(a, h). I 0 h"] pred_option_bind [OF deliverDeferred_env [OF a]]
          env_records h1 dev)
qed

lemma onWireReadOn_env:
  assumes a: "app_law I co" and h: "I 0 h"
  shows "pred_option (\<lambda>(count, data, h). I 0 h \<and> count \<le> length buffer) (onWireReadOn co bus address buffer stop h)"
proof -
  let ?line = "''i2c.rd.req addr='' @ hex2 address @ bus_tag bus @ '' req='' @ decu (length buffer) @ '' stop='' @
    bool_dec stop @ (if i2c_continued bus address h then '' rs'' else [])"
  let ?P = "\<lambda>(count, data, h). I 0 h \<and> count \<le> length buffer"
  obtain req h1 where r: "recordf co kApp 0 ?line h = (req, h1)" by (cases "recordf co kApp 0 ?line h")
  have h1: "I 0 h1" using h r by (rule record_env)
  have dev: "pred_option ?P (map_option (\<lambda>((count, data), h').
      if count > length buffer then (0, data, diag co req (t count) h') else (count, data, h'))
      (call_device co call h1))" for call t
    using call_device_env [OF h1, of co call]
    by (auto simp: option.pred_map comp_def env_records split: if_splits elim!: option.pred_mono_strong)
  show ?thesis
    unfolding onWireReadOn_def Let_def r
    by (auto simp: diag_unbound_def i2c_close_def split: option.split
        intro!: pred_option_bind [where Q = ?P] pred_option_bind [OF deliverDeferred_env [OF a]]
          env_records h1 dev)
qed

lemma onSpiTransfer_env:
  assumes a: "app_law I co" and h: "I 0 h"
  shows "ok_snd (onSpiTransfer co mosi h)"
proof -
  obtain req h0 where r: "recordf co kApp 0 (''spi.req mosi='' @ hex2 mosi) h = (req, h0)"
    by (cases "recordf co kApp 0 (''spi.req mosi='' @ hex2 mosi) h")
  have h0: "I 0 h0" using h r by (rule record_env)
  show ?thesis
    unfolding onSpiTransfer_def Let_def r
    by (auto split: option.split
        intro!: pred_option_bind [where Q = "\<lambda>(a, h). I 0 h"] pred_option_bind [OF deliverDeferred_env [OF a]]
          env_records h0 h call_device_env)
qed

lemma onSpiTransaction_env: "app_law I co \<Longrightarrow> I 0 h \<Longrightarrow> ok_if (onSpiTransaction co b h)"
  by (auto simp: onSpiTransaction_def Let_def intro!: env_records deliverDeferred_env)

lemma onAnalog_env:
  assumes "I 0 h"
  shows "I 0 (snd (onAnalogRead co pin v h))" "I 0 (snd (onAnalogMilliVolts co pin mv h))"
    "I 0 (onAnalogReadConfig co bits h)" "I 0 (onAnalogWrite co event pin duty hz h)"
  using assms
  by (auto simp: onAnalogRead_def onAnalogMilliVolts_def onAnalogReadConfig_def onAnalogWrite_def
      split: prod.split dest: record_env intro!: env_records)

lemma onUartActivity_env:
  assumes a: "app_law I co" and h: "I 0 h"
  shows "ok_if (onUartActivity co event port h)"
  using h unfolding onUartActivity_def Let_def
  by (auto split: uart_event.split option.split
      intro!: env_records pred_option_bind [OF call_device_env] deliverDeferred_env a)

lemma chanWrite_env:
  assumes a: "app_law I co" and h: "I 0 h"
  shows "ok_if (chanWrite co org channel data h)"
  using h unfolding chanWrite_def Let_def refuseReentrantCall_def
  by (auto split: option.split
      intro!: env_records pred_option_bind [OF call_device_env] deliverDeferred_env a)

lemma frameTx_env:
  assumes a: "app_law I co" and h: "I 0 h"
  shows "ok_snd (frameTx co org bus format data bits h)"
proof -
  obtain r h1 where f: "frameAccept co bus format data bits h = (r, h1)"
    by (cases "frameAccept co bus format data bits h")
  have h1: "I 0 h1" using env.accept_law [OF h] f by (metis snd_conv)
  show ?thesis
    unfolding frameTx_def f Let_def refuseReentrantCall_def
    by (auto split: option.split bool.split
        intro!: env_records pred_option_bind [OF call_devices_env] pred_option_bind [OF deliverDeferred_env] a h1)
qed

lemma bindWireDeviceOn_env: "I 0 h \<Longrightarrow> I 0 (snd (bindWireDeviceOn bus address ops h))"
  by (auto simp: bindWireDeviceOn_def count_diag_def split: option.split
      elim!: core_law [rotated] simp: same_core_def)

lemma runEnd_env: "I 0 h \<Longrightarrow> I 0 (runEnd co h)"
  by (simp add: runEnd_def)

text \<open>Only the opening of a window may take the invariant away.\<close>

lemma onLifecycle_env:
  "I 0 h \<Longrightarrow> windows (onLifecycle co phase h) = windows h \<or> (\<forall>us. I 0 (runBegin co us h)) \<Longrightarrow> I 0 (onLifecycle co phase h)"
  by (auto simp: onLifecycle_def Let_def openWindow_def closeWindow_def runBegin_def split: lifecycle_phase.splits
      intro!: env_records runEnd_env)

end

section \<open>The step relation\<close>

text \<open>One operation of the public interface or one hook, from a state without device code on the stack.\<close>

inductive host_step :: "('c, 'm) core \<Rightarrow> ('c, 'm) host \<Rightarrow> ('c, 'm) host \<Rightarrow> bool" for co where
  step_begin: "host_step co h (runBegin co us h)"
| step_end: "host_step co h (runEnd co h)"
| step_arm: "host_step co h (armRunWindow co us loops h)"
| step_lifecycle: "host_step co h (onLifecycle co phase h)"
| step_wait: "onWait co us h = Some h' \<Longrightarrow> host_step co h h'"
| step_pin_write: "onPinWrite co pin v h = Some h' \<Longrightarrow> host_step co h h'"
| step_pin_read: "host_step co h (snd (onPinRead co pin v h))"
| step_pin_mode: "host_step co h (onPinMode co pin v h)"
| step_interrupt: "host_step co h (onInterruptEvent co event pin h)"
| step_wire_write: "onWireWriteOn co bus address data stop h = Some (status, h') \<Longrightarrow> host_step co h h'"
| step_wire_read: "onWireReadOn co bus address buffer stop h = Some (count, data, h') \<Longrightarrow> host_step co h h'"
| step_spi: "onSpiTransfer co mosi h = Some (miso, h') \<Longrightarrow> host_step co h h'"
| step_spi_transaction: "onSpiTransaction co b h = Some h' \<Longrightarrow> host_step co h h'"
| step_analog_read: "host_step co h (snd (onAnalogRead co pin v h))"
| step_analog_mv: "host_step co h (snd (onAnalogMilliVolts co pin mv h))"
| step_analog_config: "host_step co h (onAnalogReadConfig co bits h)"
| step_analog_write: "host_step co h (onAnalogWrite co aevent pin duty hz h)"
| step_uart: "onUartActivity co uevent port h = Some h' \<Longrightarrow> host_step co h h'"
| step_bind_wire: "host_step co h (snd (bindWireDeviceOn bus address16 ops h))"
| step_bind_uart: "host_step co h (bindUartDeviceOn port f h)"
| step_bind_channel: "host_step co h (setChannelHandler f h)"
| step_bind_spi: "host_step co h (bindSpiDevice f h)"
| step_bind_pins: "host_step co h (setPinWriteForward f h)"
| step_bind_frame: "host_step co h (bindFrameDevice f h)"
| step_bind_receiver: "host_step co h (setFrameReceiver f h)"
| step_bind_tick_handler: "host_step co h (setTickHandler f h)"
| step_bind_tick_device: "host_step co h (bindTickDevice f h)"
| step_bind_zero: "host_step co h (setZeroWaitHandler f h)"
| step_add_listener: "host_step co h (snd (addListener co fn user h))"
| step_remove_listener: "host_step co h (snd (removeListener fn h))"
| step_pin_inject: "pinInject co org pin v h = Some h' \<Longrightarrow> host_step co h h'"
| step_uart_inject: "host_step co h (snd (uartInjectOn co org port data h))"
| step_channel: "chanWrite co org channel data h = Some h' \<Longrightarrow> host_step co h h'"
| step_frame_tx: "frameTx co org bus8 format frame bitcount h = Some (r, h') \<Longrightarrow> host_step co h h'"
| step_frame_rx: "frameRx co org bus8 format frame bitcount h = Some (r, h') \<Longrightarrow> host_step co h h'"
| step_register: "host_step co h (snd (registerFormat co fname schema h))"
| step_analog_inject: "host_step co h (analogInject co org pin raw h)"
| step_analog_inject_mv: "host_step co h (analogInjectMilliVolts co org pin mv h)"
| step_note: "host_step co h (deviceNote co line h)"
| step_wake: "host_step co h (snd (requestWake co t h))"
| step_dump: "host_step co h (dumpf co line h)"

context host_law
begin

lemma host_step_env:
  assumes "host_step co h h'" and a: "app_law I co" and h: "I 0 h"
    and opens: "windows h' = windows h \<or> (\<forall>us. I 0 (runBegin co us h))"
  shows "I 0 h'"
  using assms(1) h opens
proof (induction rule: host_step.induct)
  case (step_wire_read bus address buffer stop h count data h')
  then show ?case using onWireReadOn_env [OF a step_wire_read(2), of buffer bus address stop] by simp
next
  case (step_begin us h)
  then show ?case by (auto simp: runBegin_def)
next
  case (step_lifecycle phase h)
  then show ?case by (intro onLifecycle_env) auto
next
  case (step_wire_write bus address data stop h status h')
  then show ?case using onWireWriteOn_env [OF a step_wire_write(2), of bus address data stop] by simp
next
  case (step_wait us h h')
  then show ?case using onWait_env [OF a step_wait(2), of us] by simp
next
  case (step_pin_write pin v h h')
  then show ?case using onPinWrite_env [OF a step_pin_write(2), of pin v] by simp
next
  case (step_spi mosi h miso h')
  then show ?case using onSpiTransfer_env [OF a step_spi(2), of mosi] by simp
next
  case (step_spi_transaction b h h')
  then show ?case using onSpiTransaction_env [OF a step_spi_transaction(2), of b] by simp
next
  case (step_uart uevent port h h')
  then show ?case using onUartActivity_env [OF a step_uart(2), of uevent port] by simp
next
  case (step_pin_inject org pin v h h')
  then show ?case using pinInject_env [OF a step_pin_inject(2), of org pin v] by simp
next
  case (step_channel org channel data h h')
  then show ?case using chanWrite_env [OF a step_channel(2), of org channel data] by simp
next
  case (step_frame_tx org bus8 format frame bitcount h r h')
  then show ?case using frameTx_env [OF a step_frame_tx(2), of org bus8 format frame bitcount] by simp
next
  case (step_frame_rx org bus8 format frame bitcount h r h')
  then show ?case using frameRx_env [OF a step_frame_rx(2), of org bus8 format frame bitcount] by simp
qed (simp_all add: runEnd_env onAnalog_env onInterruptEvent_env bindWireDeviceOn_env
      armRunWindow_def onPinRead_def onPinMode_def env_records bindUartDeviceOn_def setChannelHandler_def
      bindSpiDevice_def setPinWriteForward_def bindFrameDevice_def setFrameReceiver_def setTickHandler_def
      bindTickDevice_def setZeroWaitHandler_def env.addListener_law env.removeListener_law env.uart_law
      env.register_law env.wake_law env.note_law analogInject_def analogInjectMilliVolts_def dumpf_def Let_def)

end

section \<open>The bounds and the books\<close>

lemma runBegin_env: "env_ok 0 h \<Longrightarrow> env_ok 0 (runBegin co us h)"
  by (auto simp: env_ok_def runBegin_def log_ok_def kCapacity_def)

interpretation bounds: host_law env_ok
proof (rule host_law.intro)
  show "device_law (env_ok d) co" for d and co :: "('c, 'm) core" by (rule env_sinks.device_law_axioms)
  show "env_ok d h'" if "same_core h h'" "env_ok d h" for d and h h' :: "('c, 'm) host"
    using that by (rule env_ok_same)
  show "device_depth h = d" if "env_ok d h" for d and h :: "('c, 'm) host" using that by (simp add: env_ok_def)
  show "env_ok 1 (enterDevice h)" if "env_ok 0 h" for h :: "('c, 'm) host"
    using that by (auto simp: env_ok_def enterDevice_def Let_def log_ok_def)
  show "env_ok 0 (leaveDevice h)" if "env_ok 1 h" for h :: "('c, 'm) host"
    using that by (simp add: env_ok_def leaveDevice_def log_ok_def)
qed

text \<open>While no window opens the books of the trace are balanced throughout.\<close>

definition books_ok :: "u32 \<Rightarrow> u32 \<Rightarrow> ('c, 'm) host \<Rightarrow> bool" where
  "books_ok b d h \<longleftrightarrow> env_ok d h \<and> balance h = b"

lemma balance_core [simp]:
  "same_core h h' \<Longrightarrow> balance h' = balance h" "balance (enterDevice h) = balance h" "balance (leaveDevice h) = balance h"
  by (simp_all add: same_core_def balance_def held_def enterDevice_def leaveDevice_def Let_def)

lemma device_law_both:
  assumes "device_law P co" "device_law Q co"
  shows "device_law (\<lambda>h. P h \<and> Q h) co"
proof -
  note P = device_law.axioms(1) [OF assms(1)] and Q = device_law.axioms(1) [OF assms(2)]
  show ?thesis
    by (intro device_law.intro record_law.intro device_law_axioms.intro)
      (auto intro: record_law.store_law [OF P] record_law.store_law [OF Q] record_law.mem_law [OF P] record_law.mem_law [OF Q]
        record_law.dispatching_law [OF P] record_law.dispatching_law [OF Q] record_law.listeners_law [OF P] record_law.listeners_law [OF Q]
        record_law.counters_law [OF P] record_law.counters_law [OF Q] device_law.hw_law [OF assms(1)] device_law.hw_law [OF assms(2)]
        device_law.register_law [OF assms(1)] device_law.register_law [OF assms(2)] device_law.queue_law [OF assms(1)]
        device_law.queue_law [OF assms(2)] device_law.wake_law [OF assms(1)] device_law.wake_law [OF assms(2)])
qed

lemma books_ok_both: "books_ok b d = (\<lambda>h. env_ok d h \<and> (log_ok h \<and> balance h = b))"
  by (auto simp: books_ok_def env_ok_def)

interpretation books: host_law "books_ok b" for b
proof (rule host_law.intro)
  show "device_law (books_ok b d) co" for d and co :: "('c, 'm) core"
    unfolding books_ok_both
    by (rule device_law_both [OF env_sinks.device_law_axioms trace_of_devices.device_law_axioms])
qed (auto simp: books_ok_def bounds.core_law bounds.depth_law bounds.enter_law bounds.leave_law)

definition app_ok :: "('c, 'm) core \<Rightarrow> bool" where
  "app_ok co \<longleftrightarrow> app_law env_ok co"

inductive_cases host_stepE: "host_step co h h'"

text \<open>A fresh program satisfies the invariant, so every reachable state does.\<close>

lemma init_env: "env_ok 0 (init_host c m)"
proof -
  have "formats_ok (replicate kMaxFormats empty_format)"
    by (simp add: formats_ok_def empty_format_def)
  then show ?thesis by (simp add: env_ok_def init_host_def log_ok_def kCapacity_def)
qed

lemma reachable_env:
  assumes "(host_step co)\<^sup>*\<^sup>* (init_host c m) h" and "app_ok co"
  shows "env_ok 0 h"
  using assms(1) by (induction rule: rtranclp_induct)
    (auto intro: init_env bounds.host_step_env [OF _ assms(2) [unfolded app_ok_def]] simp: runBegin_env)

section \<open>Properties\<close>

lemma idle_core_app_ok: "app_ok idle_core"
  by (simp add: app_ok_def app_law_def)

text \<open>C1: no device is ever re-entered and the environment stays within its bounds: in every state
  reachable from a fresh program through any operations, whatever the devices and observers
  do and as long as application code is itself made of such operations, no device call is on
  the stack, the deepest nesting seen is one, and the trace, the held effects, the wake
  requests and the registry satisfy their invariants.\<close>

theorem no_device_reentered:
  "(host_step co)\<^sup>*\<^sup>* (init_host c m) h \<Longrightarrow> app_ok co \<Longrightarrow>
   max_device_depth h \<le> 1 \<and> device_depth h = 0 \<and> length (buf h) \<le> kCapacity \<and>
   (\<forall>e\<in>set (buf h). length (ev_text e) < text_cap) \<and> length (deferred_effects h) \<le> kDeferralCapacity \<and>
   length (wake_at h) = kWakeSlots \<and> formats_ok (formats h)"
  using reachable_env [of co c m h] by (simp add: env_ok_def log_ok_def)

theorem no_device_reentered_witness:
  "max_device_depth (runBegin idle_core 1000 (init_host () ())) \<le> 1"
proof -
  have "(host_step idle_core)\<^sup>*\<^sup>* (init_host () ()) (runBegin idle_core 1000 (init_host () ()))"
    by (rule r_into_rtranclp) (rule step_begin)
  from no_device_reentered [OF this idle_core_app_ok] show ?thesis by blast
qed

text \<open>C16: the director cannot reach into a running device: while a device call is on the stack, a
  channel write or a frame towards a device is recorded and refused with a diagnostic; no
  device code runs and nothing is delivered.\<close>

theorem director_refused_while_device_runs:
  "device_depth h \<noteq> 0 \<Longrightarrow>
   (\<exists>line. chanWrite co org channel data h = Some (diag co 0 ''diag.reentrant chan.write'' (emit co org 0 line h))) \<and>
   (lookup_format (formats h) format \<noteq> None \<and> bits \<le> kMaxFrameBits \<and> framePaddingClean frame bits \<and>
      frame_device h \<noteq> None \<longrightarrow>
    (\<exists>line. frameTx co org bus format frame bits h =
       Some (False, diag co 0 ''diag.reentrant frame.tx'' (emit co org 0 line h))))"
proof -
  assume d: "device_depth h \<noteq> 0"
  have "frameAccept co bus format frame bits h = (True, h)"
    if "lookup_format (formats h) format \<noteq> None" "bits \<le> kMaxFrameBits" "framePaddingClean frame bits"
    using that frameAccept_iff [of co bus format frame bits h] frameAccept_True [of co bus format frame bits h]
    by (cases "frameAccept co bus format frame bits h") auto
  then show ?thesis
    using d by (auto simp: chanWrite_def frameTx_def Let_def refuseReentrantCall_def split: option.splits)
qed

theorem director_refused_while_device_runs_witness:
  "\<exists>line. chanWrite idle_core kDir 0 [1] ((init_host () ())\<lparr>device_depth := 1\<rparr>) =
     Some (diag idle_core 0 ''diag.reentrant chan.write'' (emit idle_core kDir 0 line ((init_host () ())\<lparr>device_depth := 1\<rparr>)))"
proof -
  have "device_depth ((init_host () ())\<lparr>device_depth := 1\<rparr>) \<noteq> 0" by simp
  from director_refused_while_device_runs [OF this] show ?thesis by blast
qed

text \<open>
  Application code that keeps the books, and the operations that open no window.
\<close>

definition app_accounts :: "('c, 'm) core \<Rightarrow> bool" where
  "app_accounts co \<longleftrightarrow> (\<forall>b. app_law (books_ok b) co)"

definition window_step :: "('c, 'm) core \<Rightarrow> ('c, 'm) host \<Rightarrow> ('c, 'm) host \<Rightarrow> bool" where
  "window_step co h h' \<longleftrightarrow> host_step co h h' \<and> windows h' = windows h"

text \<open>C2: every event of a run is accounted for. From the opening of a window on, through any
  operations of the environment until the next one opens - waits, bus transfers, device calls, the
  closing of the window and what happens after it - the number of sequence numbers handed out is
  the repeats held in the buffer plus the events counted as dropped plus those counted as outside
  the window, the standing notice not counted among them. Application code is only asked to be
  made of such operations itself.\<close>

theorem run_accounts_for_every_event:
  "(host_step co)\<^sup>*\<^sup>* (init_host c m) h \<Longrightarrow> app_ok co \<Longrightarrow> app_accounts co \<Longrightarrow>
   (window_step co)\<^sup>*\<^sup>* (runBegin co us h) h' \<Longrightarrow>
   next_seq h' - 1 = held h' + dropped h' - (if truncated h' then 1 else 0) +
     (outside_window h' - outside_window h) \<and> log_ok h'"
proof -
  assume reach: "(host_step co)\<^sup>*\<^sup>* (init_host c m) h" and a: "app_ok co" "app_accounts co"
    and steps: "(window_step co)\<^sup>*\<^sup>* (runBegin co us h) h'"
  have "balance (runBegin co us h) = outside_window h - 1" by (simp add: balance_def held_def runBegin_def)
  then have b: "books_ok (outside_window h - 1) 0 (runBegin co us h)"
    using runBegin_env [OF reachable_env [OF reach a(1)]] by (simp add: books_ok_def)
  from steps have "books_ok (outside_window h - 1) 0 h'"
    using b a(2) by (induction rule: rtranclp_induct)
      (auto simp: window_step_def app_accounts_def intro: books.host_step_env)
  then show ?thesis by (simp add: books_ok_def env_ok_def balance_def algebra_simps)
qed

text \<open>A run with one event in its window and one after it.\<close>

definition late_event_run :: "(unit, unit) host" where
  "late_event_run = dumpf idle_core ''late'' (runEnd idle_core (dumpf idle_core ''x'' (runBegin idle_core 1000 (init_host () ()))))"

theorem run_accounts_for_every_event_witness:
  "next_seq late_event_run - 1 = 1 + (outside_window late_event_run - outside_window (init_host () ())) \<and>
   outside_window late_event_run = 1"
proof -
  let ?h0 = "init_host () ()"
  have "(host_step idle_core)\<^sup>*\<^sup>* (init_host () ()) ?h0" by simp
  note acc = run_accounts_for_every_event [OF this idle_core_app_ok]
  have app: "app_accounts idle_core" by (simp add: app_accounts_def app_law_def)
  have w: "windows (dumpf idle_core s h) = windows h" "windows (runEnd idle_core h) = windows h" for s and h :: "(unit, unit) host"
    by (simp_all add: dumpf_def runEnd_def)
  let ?h1 = "runBegin idle_core 1000 ?h0"
  let ?h2 = "dumpf idle_core ''x'' ?h1"
  have "window_step idle_core ?h1 ?h2" "window_step idle_core ?h2 (runEnd idle_core ?h2)"
    "window_step idle_core (runEnd idle_core ?h2) late_event_run"
    by (simp_all add: window_step_def w step_dump step_end late_event_run_def)
  then have "(window_step idle_core)\<^sup>*\<^sup>* ?h1 late_event_run" by (meson r_into_rtranclp rtranclp_trans)
  note balanced = acc [OF app this]
  have "held late_event_run = 1" "dropped late_event_run = 0" "\<not> truncated late_event_run" "outside_window late_event_run = 1"
    by code_simp+
  then show ?thesis using balanced by simp
qed

end
