(* ===== verification/Device_Calls.thy ===== *)
theory Device_Calls
  imports Device_Interface
begin

text \<open>
  The calls the device models of \<open>src/devices/src\<close> make to their port, each guarded by
  \<open>port() != nullptr\<close> the way the models write it, and a bench: a port that writes down what
  a device does, for statements about whole conversations.
\<close>

section \<open>Guarded calls\<close>

definition note_then :: "string \<Rightarrow> ('m, 'r) prog \<Rightarrow> ('m, 'r) prog" where
  "note_then s k = Attached (\<lambda>att. if att then Diagnose s (\<lambda>_. k) else k)"

definition wake_then :: "u64 \<Rightarrow> ('m, 'r) prog \<Rightarrow> ('m, 'r) prog" where
  "wake_then t k = Attached (\<lambda>att. if att then RequestWake t (\<lambda>_. k) else k)"

definition now_then :: "(u64 \<Rightarrow> ('m, 'r) prog) \<Rightarrow> ('m, 'r) prog" where
  "now_then k = Attached (\<lambda>att. if att then Now k else k 0)"

definition line_then :: "u8 \<Rightarrow> u8 \<Rightarrow> ('m, 'r) prog \<Rightarrow> ('m, 'r) prog" where
  "line_then line level k = Attached (\<lambda>att. if att then LineOut line level k else k)"

lemma run_note_then [simp]: "run_prog hp (note_then s k) p = run_prog hp k (snd (hp_diagnose hp s p))"
  by (simp add: note_then_def split_beta)

lemma run_wake_then [simp]: "run_prog hp (wake_then t k) p = run_prog hp k (snd (hp_request_wake hp t p))"
  by (simp add: wake_then_def split_beta)

lemma run_now_then [simp]: "run_prog hp (now_then k) p = run_prog hp (k (hp_now hp p)) p"
  by (simp add: now_then_def)

lemma run_line_then [simp]: "run_prog hp (line_then line level k) p = run_prog hp k (hp_line_out hp line level p)"
  by (simp add: line_then_def)

text \<open>A method called once per element of a list, the state threaded through.\<close>

fun prog_map :: "('a \<Rightarrow> 'd \<Rightarrow> ('m, 'b \<times> 'd) prog) \<Rightarrow> 'a list \<Rightarrow> 'd \<Rightarrow> ('m, 'b list \<times> 'd) prog" where
  "prog_map f [] d = Ret ([], d)"
| "prog_map f (x # xs) d =
     andThen (f x d) (\<lambda>(y, d1). andThen (prog_map f xs d1) (\<lambda>(ys, d2). Ret (y # ys, d2)))"

lemma run_prog_map_append:
  "run_prog hp (prog_map f (xs @ ys) d) p =
     (case run_prog hp (prog_map f xs d) p of ((bs, d1), p1) \<Rightarrow>
        (case run_prog hp (prog_map f ys d1) p1 of ((cs, d2), p2) \<Rightarrow> ((bs @ cs, d2), p2)))"
  by (induction xs arbitrary: d p) (simp_all split: prod.split)

text \<open>
  A \<open>while\<close> loop of a method, with fuel. Once the condition is false more fuel changes nothing.
\<close>

fun repeat_while :: "('d \<Rightarrow> bool) \<Rightarrow> ('d \<Rightarrow> ('m, 'd) prog) \<Rightarrow> nat \<Rightarrow> 'd \<Rightarrow> ('m, 'd) prog" where
  "repeat_while c body 0 d = Ret d"
| "repeat_while c body (Suc fuel) d = (if c d then andThen (body d) (repeat_while c body fuel) else Ret d)"

lemma repeat_while_stops: "\<not> c d \<Longrightarrow> repeat_while c body fuel d = Ret d"
  by (cases fuel) simp_all

lemma repeat_while_split:
  "run_prog hp (repeat_while c body (n + k) d) p =
     (case run_prog hp (repeat_while c body n d) p of (d1, p1) \<Rightarrow> run_prog hp (repeat_while c body k d1) p1)"
proof (induction n arbitrary: d p)
  case (Suc n)
  then show ?case by (cases "c d") (simp_all add: repeat_while_stops split: prod.split)
qed simp

lemma repeat_while_enough:
  "run_prog hp (repeat_while c body n d) p = (d1, p1) \<Longrightarrow> \<not> c d1 \<Longrightarrow>
   run_prog hp (repeat_while c body (n + k) d) p = (d1, p1)"
  by (simp add: repeat_while_split repeat_while_stops)

text \<open>A loop run to an earlier bound and then to a later one is the loop run to the later one.\<close>

lemma repeat_while_merge:
  assumes "\<And>d. early d \<Longrightarrow> late d" "run_prog hp (repeat_while early body n d) p = (d1, p1)"
    "run_prog hp (repeat_while late body k d1) p1 = (d2, p2)" "\<not> late d2"
  shows "run_prog hp (repeat_while late body (n + k) d) p = (d2, p2)"
  using assms(2-)
proof (induction n arbitrary: d p)
  case (Suc n)
  show ?case
  proof (cases "early d")
    case True
    then show ?thesis using Suc assms(1) [OF True] by (auto split: prod.splits)
  next
    case False
    then have "run_prog hp (repeat_while late body k d) p = (d2, p2)" using Suc.prems by simp
    from repeat_while_enough [OF this Suc.prems(3), of "Suc n"] show ?thesis by (simp add: add.commute)
  qed
qed simp

lemma repeat_while_keeps:
  "(\<And>d p. I d \<Longrightarrow> c d \<Longrightarrow> I (fst (run_prog hp (body d) p))) \<Longrightarrow> I d \<Longrightarrow>
   I (fst (run_prog hp (repeat_while c body n d) p))"
proof (induction n arbitrary: d p)
  case (Suc n)
  have "I (fst (run_prog hp (repeat_while c body n d') p'))" if "c d" "run_prog hp (body d) p = (d', p')" for d' p'
    using Suc.IH [OF Suc.prems(1), of d'] Suc.prems that by (metis fst_conv)
  then show ?case using Suc.prems(2) by (auto split: prod.split)
qed simp

text \<open>The call per element over a method that only computes.\<close>

fun state_map :: "('a \<Rightarrow> 'd \<Rightarrow> 'b \<times> 'd) \<Rightarrow> 'a list \<Rightarrow> 'd \<Rightarrow> 'b list \<times> 'd" where
  "state_map f [] d = ([], d)"
| "state_map f (x # xs) d =
     (case f x d of (y, d1) \<Rightarrow> (case state_map f xs d1 of (ys, d2) \<Rightarrow> (y # ys, d2)))"

lemma prog_map_Ret: "(\<And>x d. m x d = Ret (f x d)) \<Longrightarrow> prog_map m xs d = Ret (state_map f xs d)"
  by (induction xs arbitrary: d) (simp_all split: prod.split)

lemma state_map_append:
  "state_map f (xs @ ys) d =
     (case state_map f xs d of (bs, d1) \<Rightarrow> (case state_map f ys d1 of (cs, d2) \<Rightarrow> (bs @ cs, d2)))"
  by (induction xs arbitrary: d) (simp_all split: prod.split)

lemma length_state_map: "length (fst (state_map f xs d)) = length xs"
  by (induction xs arbitrary: d) (simp_all split: prod.split, metis fst_conv)

section \<open>The bench\<close>

record bench =
  bn_now :: u64
  bn_lines :: "(u8 \<times> u8) list"
  bn_notes :: "string list"
  bn_wakes :: "u64 list"
  bn_serial :: "bytes list"
  bn_frames :: "(u8 \<times> u16 \<times> bytes \<times> nat) list"
  bn_analog :: "(u8 \<times> u16) list"

definition bench_port :: "u32 \<Rightarrow> (bench, unit) host_port" where
  "bench_port capacity = \<lparr>
     hp_now = bn_now,
     hp_line_out = (\<lambda>line level b. b\<lparr>bn_lines := bn_lines b @ [(line, level)]\<rparr>),
     hp_analog_out = (\<lambda>line raw b. (True, b\<lparr>bn_analog := bn_analog b @ [(line, raw)]\<rparr>)),
     hp_analog_out_mv = (\<lambda>line mv b. (False, b)),
     hp_request_wake = (\<lambda>t b. (True, b\<lparr>bn_wakes := bn_wakes b @ [t]\<rparr>)),
     hp_diagnose = (\<lambda>s b. (True, b\<lparr>bn_notes := bn_notes b @ [s]\<rparr>)),
     hp_serial_out = (\<lambda>data b. (True, b\<lparr>bn_serial := bn_serial b @ [data]\<rparr>)),
     hp_frame_out = (\<lambda>bus format data bits b.
        if unat capacity < bits then (False, b)
        else (True, b\<lparr>bn_frames := bn_frames b @
                [(bus, format, (case data of None \<Rightarrow> [] | Some bs \<Rightarrow> take (frameBytes bits) bs), bits)]\<rparr>)),
     hp_format_id = (\<lambda>name schema b. (1, b)),
     hp_max_frame_bits = (\<lambda>bus b. capacity),
     hp_get = (\<lambda>b. ()), hp_upd = (\<lambda>g b. b)\<rparr>"

definition new_bench :: "u64 \<Rightarrow> bench" where
  "new_bench t = \<lparr>bn_now = t, bn_lines = [], bn_notes = [], bn_wakes = [], bn_serial = [], bn_frames = [],
     bn_analog = []\<rparr>"

lemma bench_port_simps [simp]:
  "hp_now (bench_port c) = bn_now"
  "hp_line_out (bench_port c) = (\<lambda>line level b. b\<lparr>bn_lines := bn_lines b @ [(line, level)]\<rparr>)"
  "hp_request_wake (bench_port c) = (\<lambda>t b. (True, b\<lparr>bn_wakes := bn_wakes b @ [t]\<rparr>))"
  "hp_diagnose (bench_port c) = (\<lambda>s b. (True, b\<lparr>bn_notes := bn_notes b @ [s]\<rparr>))"
  "hp_serial_out (bench_port c) = (\<lambda>data b. (True, b\<lparr>bn_serial := bn_serial b @ [data]\<rparr>))"
  "hp_format_id (bench_port c) = (\<lambda>name schema b. (1, b))"
  "hp_max_frame_bits (bench_port c) = (\<lambda>bus b. c)"
  "hp_frame_out (bench_port c) = (\<lambda>bus format data bits b.
        if unat c < bits then (False, b)
        else (True, b\<lparr>bn_frames := bn_frames b @
                [(bus, format, (case data of None \<Rightarrow> [] | Some bs \<Rightarrow> take (frameBytes bits) bs), bits)]\<rparr>))"
  by (simp_all add: bench_port_def)

text \<open>Whatever a device does, the bench only adds to what it has written down.\<close>

lemma bench_notes_at_least:
  "n \<le> length (bn_notes b) \<Longrightarrow> n \<le> length (bn_notes (snd (run_prog (bench_port c) m b)))"
  by (induction m arbitrary: b) (simp_all add: bench_port_def)

lemmas bench_notes_grow = bench_notes_at_least [OF order_refl]

lemma bench_now_kept: "bn_now (snd (run_prog (bench_port c) m b)) = bn_now b"
  by (induction m arbitrary: b) (simp_all add: bench_port_def)

end
