(* ===== verification/Storage_Contract.thy ===== *)
theory Storage_Contract
  imports Device_Calls
begin

text \<open>
  What the storage parts of the catalogue (\<open>unit_flash_model\<close>, \<open>unit_sdcard_model\<close>) promise
  alike: an array that outlives a power cycle, and a write that is committed as a whole when
  its time has passed, or never.
\<close>

section \<open>Writing into an array\<close>

definition overwrite :: "nat \<Rightarrow> 'a list \<Rightarrow> 'a list \<Rightarrow> 'a list" where
  "overwrite s bs xs = take s xs @ bs @ drop (s + length bs) xs"

lemma length_overwrite [simp]: "s + length bs \<le> length xs \<Longrightarrow> length (overwrite s bs xs) = length xs"
  by (simp add: overwrite_def)

lemma overwrite_read_back: "s + length bs \<le> length xs \<Longrightarrow> take (length bs) (drop s (overwrite s bs xs)) = bs"
  by (simp add: overwrite_def)

lemma overwrite_nth:
  "s + length bs \<le> length xs \<Longrightarrow> i < length xs \<Longrightarrow>
   overwrite s bs xs ! i = (if s \<le> i \<and> i < s + length bs then bs ! (i - s) else xs ! i)"
  by (auto simp: overwrite_def nth_append)

text \<open>A range that the write does not meet reads as before.\<close>

lemma overwrite_elsewhere:
  assumes "s + length bs \<le> length xs" "r + n \<le> length xs" "r + n \<le> s \<or> s + length bs \<le> r"
  shows "take n (drop r (overwrite s bs xs)) = take n (drop r xs)"
  by (rule nth_equalityI) (use assms in \<open>auto simp: overwrite_nth\<close>)

section \<open>The contract\<close>

text \<open>What an array holds after the times in the list have passed, given the write in flight.\<close>

definition committed :: "(nat \<times> bytes) option \<Rightarrow> u64 \<Rightarrow> u64 list \<Rightarrow> bytes \<Rightarrow> bytes" where
  "committed flight due ts array =
     (case flight of
        Some (s, bs) \<Rightarrow> if list_ex (\<lambda>t. due \<le> t) ts then overwrite s bs array else array
      | None \<Rightarrow> array)"

text \<open>
  The client sees the well-formed states, the array, the write in flight (its offset and bytes),
  the time it is due, the passing of time and the power cycle.
\<close>

locale delayed_store =
  fixes good :: "'d \<Rightarrow> bool"
    and array :: "'d \<Rightarrow> bytes"
    and in_flight :: "'d \<Rightarrow> (nat \<times> bytes) option"
    and due :: "'d \<Rightarrow> u64"
    and power_cycle :: "'d \<Rightarrow> 'd"
    and advance :: "u64 \<Rightarrow> 'd \<Rightarrow> 'd"
  assumes good_cycle: "good d \<Longrightarrow> good (power_cycle d)"
    and good_advance: "good d \<Longrightarrow> good (advance t d)"
    and cycle_keeps: "array (power_cycle d) = array d"
    and cycle_drops: "in_flight (power_cycle d) = None"
    and idle: "in_flight d = None \<Longrightarrow> array (advance t d) = array d \<and> in_flight (advance t d) = None"
    and early: "in_flight d = Some w \<Longrightarrow> t < due d \<Longrightarrow>
      array (advance t d) = array d \<and> in_flight (advance t d) = Some w \<and> due (advance t d) = due d"
    and commit: "good d \<Longrightarrow> in_flight d = Some (s, bs) \<Longrightarrow> due d \<le> t \<Longrightarrow>
      array (advance t d) = overwrite s bs (array d) \<and> in_flight (advance t d) = None"
begin

lemma idle_for_good: "in_flight d = None \<Longrightarrow> array (fold advance ts d) = array d"
  by (induction ts arbitrary: d) (simp_all add: idle)

lemma committed_once_or_not_at_all: "good d \<Longrightarrow> array (fold advance ts d) = committed (in_flight d) (due d) ts (array d)"
proof (induction ts arbitrary: d)
  case (Cons t ts)
  show ?case
  proof (cases "in_flight d")
    case (Some w)
    obtain s bs where w: "w = (s, bs)" by (cases w)
    show ?thesis
    proof (cases "due d \<le> t")
      case True
      then show ?thesis using commit [OF Cons.prems] Some w by (simp add: idle_for_good committed_def)
    next
      case False
      then have "t < due d" by simp
      from early [OF Some this] Cons.IH [OF good_advance [OF Cons.prems]] show ?thesis
        using False Some w by (simp add: committed_def)
    qed
  qed (simp add: idle_for_good idle committed_def)
qed (simp add: committed_def split: option.split)

lemma power_cut_loses_the_write: "array (fold advance ts (power_cycle d)) = array d"
  by (simp add: idle_for_good cycle_drops cycle_keeps)

end

end
