(* ===== verification/Flash_Model.thy ===== *)
theory Flash_Model
  imports Storage_Contract
begin

text \<open>
  The SPI flash of \<open>src/devices/src/unit_flash_model.h\<close> and \<open>.cpp\<close>: a protocol locked by
  sequence, framed by a select line, with a write-enable latch, a page buffer and a memory
  that outlives a power cycle.
\<close>

section \<open>State\<close>

datatype flash_phase = FlIdle | FlCommand | FlAddress | FlData
datatype flash_pending = FlNothing | FlProgramPending | FlErasePending

record flash =
  fl_phase :: flash_phase
  fl_selected :: bool
  fl_command :: u8
  fl_address :: u8
  fl_write_enabled :: bool
  fl_busy :: bool
  fl_pending :: flash_pending
  fl_done_us :: u64
  fl_memory :: bytes
  fl_staging :: bytes
  fl_staged_len :: nat
  fl_page :: bytes
  fl_page_len :: nat
  fl_page_address :: u8
  fl_programs :: u32
  fl_refused :: u32

definition flash_size :: nat where "flash_size = 64"
definition kCmdWriteEnable :: u8 where "kCmdWriteEnable = 0x06"
definition kCmdPageProgram :: u8 where "kCmdPageProgram = 0x02"
definition kCmdRead :: u8 where "kCmdRead = 0x03"
definition kCmdStatus :: u8 where "kCmdStatus = 0x05"
definition kCmdChipErase :: u8 where "kCmdChipErase = 0xC7"
definition kProgramUs :: u64 where "kProgramUs = 3000"
definition kEraseUs :: u64 where "kEraseUs = 8000"

lemmas flash_commands =
  kCmdWriteEnable_def kCmdPageProgram_def kCmdRead_def kCmdStatus_def kCmdChipErase_def

definition new_flash :: flash where
  "new_flash = \<lparr>fl_phase = FlIdle, fl_selected = False, fl_command = 0, fl_address = 0,
     fl_write_enabled = False, fl_busy = False, fl_pending = FlNothing, fl_done_us = 0,
     fl_memory = replicate flash_size 0xFF, fl_staging = replicate flash_size 0, fl_staged_len = 0,
     fl_page = replicate flash_size 0, fl_page_len = 0, fl_page_address = 0, fl_programs = 0, fl_refused = 0\<rparr>"

section \<open>Methods\<close>

definition flash_reset :: "flash \<Rightarrow> flash" where
  "flash_reset d = d\<lparr>fl_phase := FlIdle, fl_selected := False, fl_command := 0, fl_address := 0,
     fl_write_enabled := False, fl_busy := False, fl_pending := FlNothing, fl_done_us := 0,
     fl_staging := replicate flash_size 0, fl_staged_len := 0, fl_page := replicate flash_size 0,
     fl_page_len := 0, fl_page_address := 0, fl_programs := 0, fl_refused := 0\<rparr>"

definition flash_refuse :: "string \<Rightarrow> (flash \<Rightarrow> ('m, 'r) prog) \<Rightarrow> flash \<Rightarrow> ('m, 'r) prog" where
  "flash_refuse why k d = (let d1 = d\<lparr>fl_refused := fl_refused d + 1\<rparr> in note_then why (k d1))"

text \<open>Entering the busy state for the given time.\<close>

definition flash_start :: "flash_pending \<Rightarrow> u64 \<Rightarrow> (flash \<Rightarrow> ('m, 'r) prog) \<Rightarrow> flash \<Rightarrow> ('m, 'r) prog" where
  "flash_start what us k d = now_then (\<lambda>now.
     let d1 = d\<lparr>fl_busy := True, fl_pending := what, fl_write_enabled := False, fl_done_us := now + us\<rparr>
     in wake_then (fl_done_us d1) (k d1))"

definition flash_latch_page :: "flash \<Rightarrow> flash" where
  "flash_latch_page d = d\<lparr>fl_page_address := fl_address d, fl_page_len := fl_staged_len d,
     fl_page := take (fl_staged_len d) (fl_staging d) @ drop (fl_staged_len d) (fl_page d)\<rparr>"

definition flash_finishCommand :: "flash \<Rightarrow> ('m, flash) prog" where
  "flash_finishCommand d =
     (let end = (\<lambda>d. Ret (d\<lparr>fl_phase := FlIdle, fl_command := 0, fl_staged_len := 0\<rparr>))
      in if fl_command d = kCmdChipErase then
           (if \<not> fl_write_enabled d then flash_refuse ''erase without write-enable'' end d
            else if fl_busy d then flash_refuse ''erase while busy'' end d
            else flash_start FlErasePending kEraseUs end d)
         else if fl_command d = kCmdPageProgram \<and> fl_staged_len d > 0 then
           (if \<not> fl_write_enabled d then flash_refuse ''program without write-enable'' end d
            else if fl_busy d then flash_refuse ''program while busy'' end d
            else flash_start FlProgramPending kProgramUs (\<lambda>d. end (flash_latch_page d)) d)
         else end d)"

definition flash_lineIn :: "u8 \<Rightarrow> u8 \<Rightarrow> flash \<Rightarrow> ('m, flash) prog" where
  "flash_lineIn line level d =
     (if line \<noteq> 0 then Ret d
      else let nowSelected = (level = 0)
           in if nowSelected = fl_selected d then Ret d
              else if nowSelected then
                Ret (d\<lparr>fl_selected := True, fl_phase := FlCommand, fl_command := 0, fl_staged_len := 0\<rparr>)
              else flash_finishCommand (d\<lparr>fl_selected := False\<rparr>))"

text \<open>\<open>spiTransfer\<close> makes no call to the port.\<close>

definition flash_transfer :: "u8 \<Rightarrow> flash \<Rightarrow> u8 \<times> flash" where
  "flash_transfer mosi d =
     (if \<not> fl_selected d then (0xFF, d)
      else case fl_phase d of
        FlCommand \<Rightarrow>
          (0xFF,
           let d1 = d\<lparr>fl_command := mosi\<rparr>
           in if mosi = kCmdWriteEnable then d1\<lparr>fl_write_enabled := True, fl_phase := FlIdle\<rparr>
              else if mosi = kCmdChipErase then d1\<lparr>fl_phase := FlIdle\<rparr>
              else if mosi = kCmdStatus then d1\<lparr>fl_phase := FlData\<rparr>
              else d1\<lparr>fl_phase := FlAddress\<rparr>)
      | FlAddress \<Rightarrow> (0xFF, d\<lparr>fl_address := mosi, fl_phase := FlData\<rparr>)
      | FlData \<Rightarrow>
          if fl_command d = kCmdStatus then
            ((if fl_busy d then 1 else 0) OR (if fl_write_enabled d then 2 else 0), d)
          else if fl_command d = kCmdRead then
            (if unat (fl_address d) < flash_size
             then (fl_memory d ! unat (fl_address d), d\<lparr>fl_address := fl_address d + 1\<rparr>)
             else (0xFF, d))
          else if fl_command d = kCmdPageProgram then
            (0xFF, if fl_staged_len d < flash_size
                   then d\<lparr>fl_staging := (fl_staging d)[fl_staged_len d := mosi],
                          fl_staged_len := fl_staged_len d + 1\<rparr>
                   else d)
          else (0xFF, d)
      | FlIdle \<Rightarrow> (0xFF, d))"

definition flash_spiTransfer :: "u8 \<Rightarrow> flash \<Rightarrow> ('m, u8 \<times> flash) prog" where
  "flash_spiTransfer mosi d = Ret (flash_transfer mosi d)"

definition flash_commit :: "flash \<Rightarrow> bytes" where
  "flash_commit d =
     (if fl_pending d = FlErasePending then replicate flash_size 0xFF
      else let a = unat (fl_page_address d); n = min (fl_page_len d) (flash_size - a)
           in take a (fl_memory d) @ take n (fl_page d) @ drop (a + n) (fl_memory d))"

definition flash_advance :: "u64 \<Rightarrow> flash \<Rightarrow> flash" where
  "flash_advance nowUs d =
     (if \<not> fl_busy d \<or> nowUs < fl_done_us d then d
      else d\<lparr>fl_busy := False, fl_memory := flash_commit d, fl_programs := fl_programs d + 1,
             fl_pending := FlNothing, fl_page_len := 0\<rparr>)"

definition flash_advanceTo :: "u64 \<Rightarrow> flash \<Rightarrow> ('m, flash) prog" where
  "flash_advanceTo nowUs d = Ret (flash_advance nowUs d)"

definition flash_channelRead :: "u8 \<Rightarrow> nat \<Rightarrow> flash \<Rightarrow> channel_answer" where
  "flash_channelRead channel cap d =
     (if channel \<noteq> 0 then Some (0, []) else Some (flash_size, take (min flash_size cap) (fl_memory d)))"

definition flash_dump :: "flash \<Rightarrow> string" where
  "flash_dump d = ''flash we='' @ bool_dec (fl_write_enabled d) @ '' busy='' @ bool_dec (fl_busy d) @
     '' progs='' @ decw (fl_programs d) @ '' no='' @ decw (fl_refused d) @
     '' m0='' @ hex2 (fl_memory d ! 0) @ '' m1='' @ hex2 (fl_memory d ! 1)"

definition flash_device :: "('m, flash) device" where
  "flash_device = (base_device flash_reset)\<lparr>
     dv_line_in := flash_lineIn, dv_spi_transfer := flash_spiTransfer, dv_advance_to := flash_advanceTo,
     dv_channel_read := flash_channelRead, dv_dump := flash_dump\<rparr>"

section \<open>What the select line frames\<close>

text \<open>A state between commands, with its buffers at their sizes.\<close>

definition flash_ok :: "flash \<Rightarrow> bool" where
  "flash_ok d \<longleftrightarrow> length (fl_memory d) = flash_size \<and> length (fl_staging d) = flash_size \<and>
     length (fl_page d) = flash_size"

lemma flash_spi_map: "prog_map flash_spiTransfer xs d = Ret (state_map flash_transfer xs d)"
  by (rule prog_map_Ret) (simp add: flash_spiTransfer_def)

lemma flash_stage:
  assumes "fl_selected d" "fl_phase d = FlData" "fl_command d = kCmdPageProgram"
    and "length (fl_staging d) = flash_size" "fl_staged_len d + length bs \<le> flash_size"
  shows "snd (state_map flash_transfer bs d) =
    d\<lparr>fl_staging := take (fl_staged_len d) (fl_staging d) @ bs @ drop (fl_staged_len d + length bs) (fl_staging d),
      fl_staged_len := fl_staged_len d + length bs\<rparr>"
  using assms
proof (induction bs arbitrary: d)
  case Nil
  then show ?case by simp
next
  case (Cons b bs)
  let ?n = "fl_staged_len d"
  let ?d1 = "d\<lparr>fl_staging := (fl_staging d)[?n := b], fl_staged_len := ?n + 1\<rparr>"
  have t: "flash_transfer b d = (0xFF, ?d1)"
    using Cons.prems by (simp add: flash_transfer_def flash_commands)
  have "snd (state_map flash_transfer bs ?d1) =
    ?d1\<lparr>fl_staging := take (?n + 1) (fl_staging ?d1) @ bs @ drop (?n + 1 + length bs) (fl_staging ?d1),
      fl_staged_len := ?n + 1 + length bs\<rparr>"
    using Cons.IH [of ?d1] Cons.prems by simp
  moreover have "take (?n + 1) ((fl_staging d)[?n := b]) = take ?n (fl_staging d) @ [b]"
    using Cons.prems by (simp add: take_Suc_conv_app_nth)
  moreover have "drop (?n + 1 + length bs) ((fl_staging d)[?n := b]) = drop (?n + 1 + length bs) (fl_staging d)"
    by simp
  ultimately show ?case by (simp add: t split_beta)
qed

lemma flash_read_run:
  assumes "fl_selected d" "fl_phase d = FlData" "fl_command d = kCmdRead"
    and "unat (fl_address d) + n \<le> flash_size" and "length (fl_memory d) = flash_size"
  shows "fst (state_map flash_transfer (replicate n x) d) = take n (drop (unat (fl_address d)) (fl_memory d))"
  using assms
proof (induction n arbitrary: d)
  case 0
  then show ?case by simp
next
  case (Suc n)
  let ?d1 = "d\<lparr>fl_address := fl_address d + 1\<rparr>"
  have lt: "unat (fl_address d) < flash_size" using Suc.prems by simp
  then have a: "unat (fl_address d + 1) = Suc (unat (fl_address d))"
    using unat_add_no_overflow [of "fl_address d" 1] by (simp add: flash_size_def)
  have "flash_transfer x d = (fl_memory d ! unat (fl_address d), ?d1)"
    using Suc.prems lt by (simp add: flash_transfer_def flash_commands)
  moreover have "fst (state_map flash_transfer (replicate n x) ?d1) = take n (drop (Suc (unat (fl_address d))) (fl_memory d))"
    using Suc.IH [of ?d1] Suc.prems a by simp
  ultimately show ?case
    using lt Suc.prems(5) by (simp add: split_beta Cons_nth_drop_Suc [symmetric])
qed

section \<open>The flash as a delayed store\<close>

definition flash_in_flight :: "flash \<Rightarrow> (nat \<times> bytes) option" where
  "flash_in_flight d =
     (if \<not> fl_busy d then None
      else if fl_pending d = FlErasePending then Some (0, replicate flash_size 0xFF)
      else Some (unat (fl_page_address d), take (min (fl_page_len d) (flash_size - unat (fl_page_address d))) (fl_page d)))"

lemma flash_commit_overwrites:
  assumes "flash_ok d" "flash_in_flight d = Some (s, bs)"
  shows "flash_commit d = overwrite s bs (fl_memory d)"
  using assms by (auto simp: flash_ok_def flash_in_flight_def flash_commit_def overwrite_def Let_def split: if_splits)

lemma flash_ok_advance: "flash_ok d \<Longrightarrow> flash_ok (flash_advance t d)"
  by (auto simp: flash_ok_def flash_advance_def flash_commit_def Let_def)

interpretation flash_medium: delayed_store flash_ok fl_memory flash_in_flight fl_done_us flash_reset flash_advance
proof unfold_locales
  show "flash_ok d \<Longrightarrow> flash_ok (flash_advance t d)" for d t by (rule flash_ok_advance)
next
  fix d t s bs
  assume "flash_ok d" "flash_in_flight d = Some (s, bs)" "fl_done_us d \<le> t"
  then show "fl_memory (flash_advance t d) = overwrite s bs (fl_memory d) \<and> flash_in_flight (flash_advance t d) = None"
    using flash_commit_overwrites [of d s bs] by (auto simp: flash_advance_def flash_in_flight_def split: if_splits)
qed (auto simp: flash_in_flight_def flash_advance_def flash_reset_def flash_ok_def split: if_splits)

section \<open>Conversations\<close>

text \<open>
  The two conversations a driver holds: enable and program a page, each command framed by
  the select line, and read bytes from an address.
\<close>

definition flash_command :: "bytes \<Rightarrow> flash \<Rightarrow> ('m, bytes \<times> flash) prog" where
  "flash_command bs d =
     andThen (flash_lineIn 0 0 d) (\<lambda>d1. andThen (prog_map flash_spiTransfer bs d1)
       (\<lambda>(answers, d2). andThen (flash_lineIn 0 1 d2) (\<lambda>d3. Ret (answers, d3))))"

definition flash_program_page :: "u8 \<Rightarrow> bytes \<Rightarrow> flash \<Rightarrow> ('m, flash) prog" where
  "flash_program_page addr data d =
     andThen (flash_command [kCmdWriteEnable] d)
       (\<lambda>(_, d1). andThen (flash_command ([kCmdPageProgram, addr] @ data) d1) (\<lambda>(_, d2). Ret d2))"

definition flash_read :: "u8 \<Rightarrow> nat \<Rightarrow> flash \<Rightarrow> ('m, bytes) prog" where
  "flash_read addr n d =
     andThen (flash_command ([kCmdRead, addr] @ replicate n 0) d) (\<lambda>(answers, _). Ret (drop 2 answers))"

lemma flash_command_run:
  "\<not> fl_selected d \<Longrightarrow> run_prog hp (flash_command bs d) p =
     (case state_map flash_transfer bs
         (d\<lparr>fl_selected := True, fl_phase := FlCommand, fl_command := 0, fl_staged_len := 0\<rparr>) of
        (answers, d2) \<Rightarrow> (case run_prog hp (flash_lineIn 0 1 d2) p of (d3, p3) \<Rightarrow> ((answers, d3), p3)))"
  by (simp add: flash_command_def flash_lineIn_def [of 0 0] flash_spi_map split_beta del: prog_map.simps)

lemma flash_enable_run:
  assumes "\<not> fl_selected d"
  shows "run_prog hp (flash_command [kCmdWriteEnable] d) p =
    (([0xFF], d\<lparr>fl_selected := False, fl_write_enabled := True, fl_phase := FlIdle, fl_command := 0, fl_staged_len := 0\<rparr>), p)"
  using assms
  by (simp add: flash_command_def flash_lineIn_def flash_spiTransfer_def flash_transfer_def flash_finishCommand_def
      flash_commands Let_def)

lemma flash_program_run:
  assumes "flash_ok d" "\<not> fl_selected d" "\<not> fl_busy d" "fl_write_enabled d"
    and "data \<noteq> []" "length data \<le> flash_size"
  shows "\<exists>ans p'. run_prog hp (flash_command ([kCmdPageProgram, addr] @ data) d) p =
    ((ans, d\<lparr>fl_selected := False, fl_phase := FlIdle, fl_command := 0, fl_address := addr, fl_write_enabled := False, fl_busy := True,
        fl_pending := FlProgramPending, fl_done_us := hp_now hp p + kProgramUs,
        fl_staging := data @ drop (length data) (fl_staging d), fl_staged_len := 0,
        fl_page := data @ drop (length data) (fl_page d), fl_page_len := length data, fl_page_address := addr\<rparr>), p')"
proof -
  let ?s = "d\<lparr>fl_selected := True, fl_staged_len := 0, fl_command := kCmdPageProgram, fl_address := addr, fl_phase := FlData\<rparr>"
  have ok: "length (fl_staging d) = flash_size" using assms(1) by (simp add: flash_ok_def)
  have st: "snd (state_map flash_transfer data ?s) =
      ?s\<lparr>fl_staging := data @ drop (length data) (fl_staging d), fl_staged_len := length data\<rparr>"
    using flash_stage [of ?s data] ok assms(6) by simp
  have two: "state_map flash_transfer ([kCmdPageProgram, addr] @ data)
      (d\<lparr>fl_selected := True, fl_phase := FlCommand, fl_command := 0, fl_staged_len := 0\<rparr>) =
      (0xFF # 0xFF # fst (state_map flash_transfer data ?s), snd (state_map flash_transfer data ?s))"
    by (simp add: flash_transfer_def flash_commands split_beta)
  show ?thesis
    unfolding flash_command_run [OF assms(2)] two st prod.case
    using assms ok
    by (simp add: flash_lineIn_def flash_finishCommand_def flash_start_def flash_latch_page_def Let_def flash_commands)
qed

text \<open>The read conversation: two header bytes, then the memory from the address on.\<close>

lemma flash_read_result:
  assumes "flash_ok d" "\<not> fl_selected d" "unat addr + n \<le> flash_size"
  shows "fst (run_prog hp (flash_read addr n d) p) = take n (drop (unat addr) (fl_memory d))"
proof -
  let ?s = "d\<lparr>fl_selected := True, fl_staged_len := 0, fl_command := kCmdRead, fl_address := addr, fl_phase := FlData\<rparr>"
  have len: "length (fl_memory d) = flash_size" using assms(1) by (simp add: flash_ok_def)
  have "fst (state_map flash_transfer (replicate n 0) ?s) = take n (drop (unat addr) (fl_memory d))"
    using flash_read_run [of ?s n 0] assms(3) len by simp
  moreover have "state_map flash_transfer ([kCmdRead, addr] @ replicate n 0)
      (d\<lparr>fl_selected := True, fl_phase := FlCommand, fl_command := 0, fl_staged_len := 0\<rparr>) =
      (0xFF # 0xFF # fst (state_map flash_transfer (replicate n 0) ?s), snd (state_map flash_transfer (replicate n 0) ?s))"
    by (simp add: flash_transfer_def flash_commands split_beta)
  ultimately show ?thesis
    by (simp add: flash_read_def flash_command_run [OF assms(2)] split_beta del: append_Cons append_Nil)
qed

text \<open>What a pending operation will commit, and that bus traffic cannot disturb it.\<close>

definition busy_part :: "flash \<Rightarrow> bytes \<times> nat \<times> u8 \<times> flash_pending \<times> bool \<times> u64 \<times> bytes" where
  "busy_part d = (fl_page d, fl_page_len d, fl_page_address d, fl_pending d, fl_busy d, fl_done_us d, fl_memory d)"

lemma flash_transfers_busy: "busy_part (snd (state_map flash_transfer bs d)) = busy_part d"
proof (induction bs arbitrary: d)
  case (Cons b bs)
  have "busy_part (snd (flash_transfer b d)) = busy_part d"
    by (auto simp: flash_transfer_def busy_part_def Let_def split: flash_phase.split)
  then show ?case using Cons.IH [of "snd (flash_transfer b d)"] by (simp add: split_beta)
qed simp

lemma flash_lineIn_busy: "fl_busy d \<Longrightarrow> busy_part (fst (run_prog hp (flash_lineIn line level d) p)) = busy_part d"
  by (auto simp: flash_lineIn_def flash_finishCommand_def flash_refuse_def busy_part_def Let_def)

lemma flash_command_busy:
  assumes "fl_busy d"
  shows "busy_part (snd (fst (run_prog hp (flash_command bs d) p))) = busy_part d"
proof -
  obtain d1 p1 where l: "run_prog hp (flash_lineIn 0 0 d) p = (d1, p1)" by (cases "run_prog hp (flash_lineIn 0 0 d) p")
  have b1: "busy_part d1 = busy_part d" using flash_lineIn_busy [OF assms, of hp 0 0 p] l by simp
  let ?d2 = "snd (state_map flash_transfer bs d1)"
  have b2: "busy_part ?d2 = busy_part d" using flash_transfers_busy b1 by simp
  then have "fl_busy ?d2" using assms by (simp add: busy_part_def)
  from flash_lineIn_busy [OF this, of hp 0 1 p1] show ?thesis
    by (simp add: flash_command_def l flash_spi_map split_beta b2 del: prog_map.simps)
qed

section \<open>Properties\<close>

text \<open>C20: what is programmed is what is read. From a part that is deselected and idle, enabling and
  programming a page and letting the program time pass stores exactly the bytes sent at
  their address, leaves every other byte as it was, spends the write enable, and a read of
  that range answers them; until the time has passed the memory is unchanged. No
  command issued while the part is busy, for instance one that polls the status, disturbs
  what will be committed.\<close>

theorem flash_program_read_round_trip:
  "flash_ok d \<Longrightarrow> \<not> fl_selected d \<Longrightarrow> \<not> fl_busy d \<Longrightarrow> data \<noteq> [] \<Longrightarrow>
   unat addr + length data \<le> flash_size \<Longrightarrow> d1 = fst (run_prog hp (flash_program_page addr data d) p) \<Longrightarrow>
   fl_done_us d1 = hp_now hp p + kProgramUs \<and>
   (\<forall>t. t < fl_done_us d1 \<longrightarrow> fl_memory (flash_advance t d1) = fl_memory d) \<and>
   (\<forall>t. fl_done_us d1 \<le> t \<longrightarrow>
      fl_memory (flash_advance t d1) =
        take (unat addr) (fl_memory d) @ data @ drop (unat addr + length data) (fl_memory d) \<and>
      \<not> fl_write_enabled (flash_advance t d1) \<and>
      fst (run_prog hp (flash_read addr (length data) (flash_advance t d1)) p') = data) \<and>
   (\<forall>bs. busy_part (snd (fst (run_prog hp' (flash_command bs d1) p'))) = busy_part d1)"
proof -
  assume ok: "flash_ok d" and sel: "\<not> fl_selected d" and idle: "\<not> fl_busy d" and ne: "data \<noteq> []"
    and fits: "unat addr + length data \<le> flash_size"
    and d1: "d1 = fst (run_prog hp (flash_program_page addr data d) p)"
  let ?e = "d\<lparr>fl_selected := False, fl_write_enabled := True, fl_phase := FlIdle, fl_command := 0, fl_staged_len := 0\<rparr>"
  have pre: "flash_ok ?e" "\<not> fl_selected ?e" "\<not> fl_busy ?e" "fl_write_enabled ?e" "length data \<le> flash_size"
    using ok idle fits by (simp_all add: flash_ok_def)
  obtain ans p1 where run: "run_prog hp (flash_command ([kCmdPageProgram, addr] @ data) ?e) p =
    ((ans, ?e\<lparr>fl_selected := False, fl_phase := FlIdle, fl_command := 0, fl_address := addr, fl_write_enabled := False,
        fl_busy := True, fl_pending := FlProgramPending, fl_done_us := hp_now hp p + kProgramUs,
        fl_staging := data @ drop (length data) (fl_staging ?e), fl_staged_len := 0,
        fl_page := data @ drop (length data) (fl_page ?e), fl_page_len := length data, fl_page_address := addr\<rparr>), p1)"
    using flash_program_run [OF pre(1-4) ne pre(5), of hp addr p] by blast
  have d1_eq: "d1 = ?e\<lparr>fl_selected := False, fl_phase := FlIdle, fl_command := 0, fl_address := addr, fl_write_enabled := False,
        fl_busy := True, fl_pending := FlProgramPending, fl_done_us := hp_now hp p + kProgramUs,
        fl_staging := data @ drop (length data) (fl_staging d), fl_staged_len := 0,
        fl_page := data @ drop (length data) (fl_page d), fl_page_len := length data, fl_page_address := addr\<rparr>"
    unfolding d1 flash_program_page_def
    by (simp add: flash_enable_run [OF sel] run del: append_Cons append_Nil)
  have commit: "flash_commit d1 = take (unat addr) (fl_memory d) @ data @ drop (unat addr + length data) (fl_memory d)"
    using fits by (simp add: d1_eq flash_commit_def Let_def)
  have mem: "length (fl_memory d) = flash_size" using ok by (simp add: flash_ok_def)
  have settled: "flash_ok (flash_advance t d1) \<and> \<not> fl_selected (flash_advance t d1) \<and>
      \<not> fl_write_enabled (flash_advance t d1) \<and> fl_memory (flash_advance t d1) = flash_commit d1"
    if "fl_done_us d1 \<le> t" for t
    using that ok fits mem by (auto simp: flash_advance_def d1_eq flash_ok_def flash_commit_def Let_def)
  have "take (length data) (drop (unat addr) (flash_commit d1)) = data"
    using fits mem by (simp add: commit)
  then have "fst (run_prog hp (flash_read addr (length data) (flash_advance t d1)) p') = data"
    if "fl_done_us d1 \<le> t" for t
    using flash_read_result [of "flash_advance t d1" addr "length data" hp p'] settled [OF that] fits by simp
  moreover have "fl_memory (flash_advance t d1) = fl_memory d" if "t < fl_done_us d1" for t
    using that by (simp add: flash_advance_def d1_eq)
  moreover have polled: "busy_part (snd (fst (run_prog hp' (flash_command bs d1) p'))) = busy_part d1" for bs
    by (rule flash_command_busy) (simp add: d1_eq)
  ultimately show ?thesis using settled commit polled by (simp add: d1_eq)
qed

theorem flash_program_read_round_trip_witness:
  "fst (run_prog (bench_port 0) (flash_read 4 2 (flash_advance 3000
      (fst (run_prog (bench_port 0) (flash_program_page 4 [0xAB, 0xCD] new_flash) (new_bench 0))))) (new_bench 3000)) =
    [0xAB, 0xCD]"
proof -
  let ?d1 = "fst (run_prog (bench_port 0) (flash_program_page 4 [0xAB, 0xCD] new_flash) (new_bench 0))"
  have pre: "flash_ok new_flash" "\<not> fl_selected new_flash" "\<not> fl_busy new_flash" "[0xAB, 0xCD :: u8] \<noteq> []"
    "unat (4 :: u8) + length [0xAB, 0xCD :: u8] \<le> flash_size"
    by (simp_all add: new_flash_def flash_ok_def flash_size_def)
  note rt = flash_program_read_round_trip [OF pre refl, of "bench_port 0" "new_bench 0" "new_bench 3000" "bench_port 0"]
  have "fl_done_us ?d1 \<le> 3000" using rt by (simp add: new_bench_def kProgramUs_def)
  then show ?thesis using rt by (simp add: numeral_2_eq_2)
qed

text \<open>C21: a program or erase command without its write enable is refused aloud: releasing the select
  line starts nothing, changes no stored byte and no pending work, counts the refusal and
  hands the port a diagnostic; and the same holds while the part is busy.\<close>

theorem flash_refuses_without_enable:
  "fl_command d = kCmdChipErase \<or> fl_command d = kCmdPageProgram \<and> fl_staged_len d > 0 \<Longrightarrow>
   \<not> fl_write_enabled d \<or> fl_busy d \<Longrightarrow>
   \<exists>why. run_prog hp (flash_finishCommand d) p =
     (d\<lparr>fl_refused := fl_refused d + 1, fl_phase := FlIdle, fl_command := 0, fl_staged_len := 0\<rparr>,
      snd (hp_diagnose hp why p))"
proof -
  assume cmd: "fl_command d = kCmdChipErase \<or> fl_command d = kCmdPageProgram \<and> fl_staged_len d > 0"
    and no: "\<not> fl_write_enabled d \<or> fl_busy d"
  have ne: "kCmdPageProgram \<noteq> kCmdChipErase" by (simp add: flash_commands)
  show ?thesis
    by (cases "fl_command d = kCmdChipErase"; cases "fl_write_enabled d")
       (use cmd no ne in \<open>simp_all add: flash_finishCommand_def flash_refuse_def Let_def\<close>, blast+)
qed

theorem flash_refuses_without_enable_witness:
  "bn_notes (snd (run_prog (bench_port 0) (flash_finishCommand (new_flash\<lparr>fl_command := kCmdChipErase\<rparr>)) (new_bench 0))) \<noteq> []"
proof -
  let ?d = "new_flash\<lparr>fl_command := kCmdChipErase\<rparr>"
  have "fl_command ?d = kCmdChipErase \<or> fl_command ?d = kCmdPageProgram \<and> fl_staged_len ?d > 0" by simp
  moreover have "\<not> fl_write_enabled ?d \<or> fl_busy ?d" by (simp add: new_flash_def)
  ultimately obtain why where "run_prog (bench_port 0) (flash_finishCommand ?d) (new_bench 0) =
     (?d\<lparr>fl_refused := fl_refused ?d + 1, fl_phase := FlIdle, fl_command := 0, fl_staged_len := 0\<rparr>,
      snd (hp_diagnose (bench_port 0) why (new_bench 0)))"
    using flash_refuses_without_enable [of ?d "bench_port 0" "new_bench 0"] by metis
  then show ?thesis by simp
qed

end
