(* ===== verification/SdCard_Model.thy ===== *)
theory SdCard_Model
  imports Storage_Contract
begin

text \<open>
  The SD card of \<open>src/devices/src/unit_sdcard_model.h\<close> and \<open>.cpp\<close>: a block device over SPI with
  six-byte commands, response tokens, 512-byte blocks and a busy time after a write. The
  store is the flat array of \<open>kBlockCount * kBlockSize\<close> bytes that \<open>&store_[0][0]\<close> is.
\<close>

section \<open>State\<close>

datatype sd_phase = SdIdle | SdCommand | SdReply | SdRead | SdWriteWait | SdWrite | SdBusy

record sdcard =
  sd_phase :: sd_phase
  sd_after :: sd_phase
  sd_selected :: bool
  sd_initialised :: bool
  sd_command :: bytes
  sd_command_len :: nat
  sd_block :: u32
  sd_offset :: nat
  sd_pending :: u8
  sd_done_us :: u64
  sd_store :: bytes
  sd_staging :: bytes
  sd_reads :: u32
  sd_writes :: u32
  sd_rejected :: u32

definition kBlockSize :: nat where "kBlockSize = 512"
definition kBlockCount :: nat where "kBlockCount = 8"
definition kCmdGoIdle :: u8 where "kCmdGoIdle = 0x40"
definition kCmdSendIfCond :: u8 where "kCmdSendIfCond = 0x48"
definition kCmdReadSingle :: u8 where "kCmdReadSingle = 0x51"
definition kCmdWriteSingle :: u8 where "kCmdWriteSingle = 0x58"
definition kR1Idle :: u8 where "kR1Idle = 0x01"
definition kR1Ok :: u8 where "kR1Ok = 0x00"
definition kR1IllegalCommand :: u8 where "kR1IllegalCommand = 0x04"
definition kTokenStart :: u8 where "kTokenStart = 0xFE"
definition kDataAccepted :: u8 where "kDataAccepted = 0x05"
definition kWriteUs :: u64 where "kWriteUs = 4000"

lemmas sd_constants = kCmdGoIdle_def kCmdSendIfCond_def kCmdReadSingle_def kCmdWriteSingle_def
  kR1Idle_def kR1Ok_def kR1IllegalCommand_def kTokenStart_def kDataAccepted_def

definition new_sdcard :: sdcard where
  "new_sdcard = \<lparr>sd_phase = SdIdle, sd_after = SdCommand, sd_selected = False, sd_initialised = False,
     sd_command = replicate 6 0, sd_command_len = 0, sd_block = 0, sd_offset = 0, sd_pending = 0, sd_done_us = 0,
     sd_store = replicate (kBlockCount * kBlockSize) 0, sd_staging = replicate kBlockSize 0,
     sd_reads = 0, sd_writes = 0, sd_rejected = 0\<rparr>"

section \<open>Methods\<close>

definition sd_reset :: "sdcard \<Rightarrow> sdcard" where
  "sd_reset d = d\<lparr>sd_phase := SdIdle, sd_after := SdCommand, sd_selected := False, sd_initialised := False,
     sd_command := replicate 6 0, sd_command_len := 0, sd_block := 0, sd_offset := 0, sd_pending := 0xFF,
     sd_done_us := 0, sd_staging := replicate kBlockSize 0, sd_reads := 0, sd_writes := 0, sd_rejected := 0\<rparr>"

text \<open>A null pointer is \<open>None\<close>.\<close>

definition sd_loadBlocks :: "u32 \<Rightarrow> bytes option \<Rightarrow> sdcard \<Rightarrow> bool \<times> sdcard" where
  "sd_loadBlocks firstBlock data d =
     (case data of
        None \<Rightarrow> (False, d)
      | Some bs \<Rightarrow>
          let start = unat firstBlock * kBlockSize
          in if start + length bs > kBlockCount * kBlockSize then (False, d)
             else (True, d\<lparr>sd_store := overwrite start bs (sd_store d)\<rparr>))"

text \<open>\<open>struct ImageRun\<close> (the bytes with their length) and \<open>struct Image\<close>.\<close>

record image_run =
  ir_offset :: u32
  ir_bytes :: bytes

record sd_image =
  im_name :: string
  im_blocks :: u32
  im_runs :: "image_run list"

fun load_runs :: "image_run list \<Rightarrow> bytes \<Rightarrow> bool \<times> bytes" where
  "load_runs [] flat = (True, flat)"
| "load_runs (run # runs) flat =
     (if unat (ir_offset run) + length (ir_bytes run) > kBlockCount * kBlockSize then (False, flat)
      else load_runs runs (overwrite (unat (ir_offset run)) (ir_bytes run) flat))"

definition sd_loadImage :: "sd_image \<Rightarrow> sdcard \<Rightarrow> bool \<times> sdcard" where
  "sd_loadImage im d =
     (if unat (im_blocks im) > kBlockCount then (False, d)
      else case load_runs (im_runs im) (replicate (kBlockCount * kBlockSize) 0) of
             (ok, flat) \<Rightarrow> (ok, d\<lparr>sd_store := flat\<rparr>))"

definition sd_line :: "u8 \<Rightarrow> u8 \<Rightarrow> sdcard \<Rightarrow> sdcard" where
  "sd_line line level d =
     (if line \<noteq> 0 then d
      else let now = (level = 0)
           in if now = sd_selected d then d
              else let d1 = d\<lparr>sd_selected := now\<rparr>
                   in if \<not> now then
                        (if sd_phase d1 \<noteq> SdBusy then d1\<lparr>sd_phase := SdIdle\<rparr> else d1)\<lparr>sd_command_len := 0\<rparr>
                      else if sd_phase d1 \<noteq> SdBusy then d1\<lparr>sd_phase := SdCommand, sd_command_len := 0\<rparr>
                      else d1)"

definition sd_lineIn :: "u8 \<Rightarrow> u8 \<Rightarrow> sdcard \<Rightarrow> ('m, sdcard) prog" where
  "sd_lineIn line level d = Ret (sd_line line level d)"

definition block_of :: "bytes \<Rightarrow> u32" where
  "block_of c = push_bit 24 (ucast (c ! 1)) OR push_bit 16 (ucast (c ! 2)) OR
                push_bit 8 (ucast (c ! 3)) OR ucast (c ! 4)"

text \<open>The R1 that a command earns, and where it hands control to.\<close>

definition sd_reply :: "u8 \<Rightarrow> sd_phase \<Rightarrow> sdcard \<Rightarrow> sdcard" where
  "sd_reply r1 next d = d\<lparr>sd_pending := r1, sd_after := next, sd_phase := SdReply\<rparr>"

definition sd_reject :: "string \<Rightarrow> sdcard \<Rightarrow> ('m, sdcard) prog" where
  "sd_reject why d =
     (let d1 = d\<lparr>sd_rejected := sd_rejected d + 1\<rparr>
      in note_then why (Ret (sd_reply kR1IllegalCommand SdCommand d1)))"

definition sd_beginCommand :: "sdcard \<Rightarrow> ('m, sdcard) prog" where
  "sd_beginCommand d =
     (let op = sd_command d ! 0;
          d1 = d\<lparr>sd_block := block_of (sd_command d), sd_command_len := 0\<rparr>
      in if op = kCmdGoIdle then Ret (sd_reply kR1Idle SdCommand (d1\<lparr>sd_initialised := True\<rparr>))
         else if op = kCmdSendIfCond then
           Ret (sd_reply (if sd_initialised d1 then kR1Ok else kR1IllegalCommand) SdCommand d1)
         else if op = kCmdReadSingle \<or> op = kCmdWriteSingle then
           (if \<not> sd_initialised d1 then sd_reject ''command before CMD0'' d1
            else if unat (sd_block d1) \<ge> kBlockCount then sd_reject ''block out of range'' d1
            else Ret (sd_reply kR1Ok (if op = kCmdReadSingle then SdRead else SdWriteWait) (d1\<lparr>sd_offset := 0\<rparr>)))
         else sd_reject ''unsupported command'' d1)"

definition sd_commandByte :: "u8 \<Rightarrow> sdcard \<Rightarrow> ('m, u8 \<times> sdcard) prog" where
  "sd_commandByte mosi d =
     (if mosi = 0xFF then Ret (0xFF, d)
      else let d1 = d\<lparr>sd_command := (sd_command d)[sd_command_len d := mosi], sd_command_len := sd_command_len d + 1\<rparr>
           in if sd_command_len d1 = 6 then andThen (sd_beginCommand d1) (\<lambda>d2. Ret (0xFF, d2))
              else Ret (0xFF, d1))"

definition sd_readByte :: "sdcard \<Rightarrow> u8 \<times> sdcard" where
  "sd_readByte d =
     (if sd_offset d = 0 then (kTokenStart, d\<lparr>sd_offset := sd_offset d + 1\<rparr>)
      else let index = sd_offset d - 1; d1 = d\<lparr>sd_offset := sd_offset d + 1\<rparr>
           in if index < kBlockSize then (sd_store d ! (unat (sd_block d) * kBlockSize + index), d1)
              else (0xFF, if sd_offset d1 \<ge> kBlockSize + 3
                          then d1\<lparr>sd_reads := sd_reads d + 1, sd_phase := SdCommand, sd_pending := 0xFF\<rparr>
                          else d1))"

definition sd_writeByte :: "u8 \<Rightarrow> sdcard \<Rightarrow> ('m, u8 \<times> sdcard) prog" where
  "sd_writeByte mosi d =
     (if sd_offset d < kBlockSize then
        Ret (0xFF, d\<lparr>sd_staging := (sd_staging d)[sd_offset d := mosi], sd_offset := sd_offset d + 1\<rparr>)
      else let d1 = d\<lparr>sd_offset := sd_offset d + 1\<rparr>
           in if sd_offset d1 < kBlockSize + 2 then Ret (0xFF, d1)
              else now_then (\<lambda>now. let d2 = d1\<lparr>sd_phase := SdBusy, sd_done_us := now + kWriteUs\<rparr>
                                   in wake_then (sd_done_us d2) (Ret (kDataAccepted, d2))))"

definition sd_spiTransfer :: "u8 \<Rightarrow> sdcard \<Rightarrow> ('m, u8 \<times> sdcard) prog" where
  "sd_spiTransfer mosi d =
     (if \<not> sd_selected d then Ret (0xFF, d)
      else case sd_phase d of
        SdCommand \<Rightarrow> sd_commandByte mosi d
      | SdReply \<Rightarrow> Ret (sd_pending d, d\<lparr>sd_pending := 0xFF, sd_offset := 0, sd_phase := sd_after d\<rparr>)
      | SdRead \<Rightarrow> Ret (sd_readByte d)
      | SdWriteWait \<Rightarrow> Ret (0xFF, if mosi = kTokenStart then d\<lparr>sd_phase := SdWrite, sd_offset := 0\<rparr> else d)
      | SdWrite \<Rightarrow> sd_writeByte mosi d
      | SdBusy \<Rightarrow> Ret (0x00, d)
      | SdIdle \<Rightarrow> Ret (0xFF, d))"

definition sd_advance :: "u64 \<Rightarrow> sdcard \<Rightarrow> sdcard" where
  "sd_advance nowUs d =
     (if sd_phase d \<noteq> SdBusy \<or> nowUs < sd_done_us d then d
      else d\<lparr>sd_store := overwrite (unat (sd_block d) * kBlockSize) (sd_staging d) (sd_store d),
             sd_writes := sd_writes d + 1, sd_phase := (if sd_selected d then SdCommand else SdIdle),
             sd_pending := 0xFF\<rparr>)"

definition sd_advanceTo :: "u64 \<Rightarrow> sdcard \<Rightarrow> ('m, sdcard) prog" where
  "sd_advanceTo nowUs d = Ret (sd_advance nowUs d)"

definition fill_pattern :: "u8 \<Rightarrow> bytes" where
  "fill_pattern seed = map (\<lambda>i. seed + of_nat i) [0..<kBlockSize]"

definition sd_fill :: "u8 \<Rightarrow> bytes \<Rightarrow> sdcard \<Rightarrow> bool \<times> sdcard" where
  "sd_fill channel data d =
     (if channel \<noteq> 0 \<or> length data < 2 then (False, d)
      else if unat (data ! 0) \<ge> kBlockCount then (False, d)
      else (True, d\<lparr>sd_store := overwrite (unat (data ! 0) * kBlockSize) (fill_pattern (data ! 1)) (sd_store d),
                    sd_block := ucast (data ! 0)\<rparr>))"

definition sd_channelWrite :: "u8 \<Rightarrow> bytes \<Rightarrow> sdcard \<Rightarrow> ('m, bool \<times> sdcard) prog" where
  "sd_channelWrite channel data d = Ret (sd_fill channel data d)"

definition sd_channelRead :: "u8 \<Rightarrow> nat \<Rightarrow> sdcard \<Rightarrow> channel_answer" where
  "sd_channelRead channel cap d =
     (if channel \<noteq> 1 then None
      else if cap < 4 then Some (4, [])
      else Some (4, map (\<lambda>i. sd_store d ! (unat (sd_block d) * kBlockSize + i)) [0..<4]))"

definition sd_dump :: "sdcard \<Rightarrow> string" where
  "sd_dump d = ''sd init='' @ bool_dec (sd_initialised d) @ '' blk='' @ decw (sd_block d) @
     '' rd='' @ decw (sd_reads d) @ '' wr='' @ decw (sd_writes d) @ '' no='' @ decw (sd_rejected d) @
     '' b0='' @ hex2 (sd_store d ! (unat (sd_block d) * kBlockSize)) @
     hex2 (sd_store d ! (unat (sd_block d) * kBlockSize + 1))"

definition sdcard_device :: "('m, sdcard) device" where
  "sdcard_device = (base_device sd_reset)\<lparr>
     dv_line_in := sd_lineIn, dv_spi_transfer := sd_spiTransfer, dv_advance_to := sd_advanceTo,
     dv_channel_write := sd_channelWrite, dv_channel_read := sd_channelRead, dv_dump := sd_dump\<rparr>"

section \<open>Well-formedness: every index stays inside its array\<close>

text \<open>
  The phases that go on to touch the block the last command named, and the invariant that keeps
  the command buffer, the staging buffer and the store indexed within bounds there.
\<close>

definition touches_block :: "sdcard \<Rightarrow> bool" where
  "touches_block d \<longleftrightarrow> sd_phase d \<in> {SdRead, SdWriteWait, SdWrite, SdBusy} \<or>
     sd_phase d = SdReply \<and> sd_after d \<noteq> SdCommand"

definition sd_ok :: "sdcard \<Rightarrow> bool" where
  "sd_ok d \<longleftrightarrow> length (sd_store d) = kBlockCount * kBlockSize \<and> length (sd_staging d) = kBlockSize \<and>
     length (sd_command d) = 6 \<and> sd_command_len d < 6 \<and>
     sd_after d \<in> {SdCommand, SdRead, SdWriteWait} \<and>
     (touches_block d \<longrightarrow> unat (sd_block d) < kBlockCount) \<and>
     (sd_phase d = SdRead \<longrightarrow> sd_offset d < kBlockSize + 3) \<and>
     (sd_phase d = SdWrite \<longrightarrow> sd_offset d < kBlockSize + 2)"

named_theorems sd_defs "what the methods of the card unfold to"
declare sd_ok_def [sd_defs] touches_block_def [sd_defs] Let_def [sd_defs]

lemma block_fits: "b < kBlockCount \<Longrightarrow> b * kBlockSize + kBlockSize \<le> kBlockCount * kBlockSize"
  by (simp add: kBlockCount_def kBlockSize_def)

lemma sd_ok_new [simp]: "sd_ok new_sdcard"
  by (simp add: sd_defs new_sdcard_def)

lemma sd_ok_reset: "sd_ok d \<Longrightarrow> sd_ok (sd_reset d)"
  by (simp add: sd_defs sd_reset_def)

lemma sd_ok_line: "sd_ok d \<Longrightarrow> sd_ok (sd_line line level d)"
  by (auto simp: sd_defs sd_line_def)

lemma sd_ok_beginCommand:
  "sd_ok (d\<lparr>sd_command_len := 0\<rparr>) \<Longrightarrow> sd_phase d = SdCommand \<Longrightarrow> sd_ok (fst (run_prog hp (sd_beginCommand d) p))"
  by (auto simp: sd_defs sd_beginCommand_def sd_reply_def sd_reject_def)

lemma sd_ok_commandByte:
  assumes "sd_ok d" "sd_phase d = SdCommand"
  shows "sd_ok (snd (fst (run_prog hp (sd_commandByte mosi d) p)))"
proof -
  let ?d1 = "d\<lparr>sd_command := (sd_command d)[sd_command_len d := mosi], sd_command_len := sd_command_len d + 1\<rparr>"
  have "sd_ok (?d1\<lparr>sd_command_len := 0\<rparr>)" "sd_phase ?d1 = SdCommand"
    using assms by (simp_all add: sd_defs)
  note b = sd_ok_beginCommand [OF this, of hp p]
  show ?thesis
  proof (cases "sd_command_len d + 1 = 6")
    case True
    then show ?thesis using assms b by (simp add: sd_commandByte_def Let_def split_beta)
  next
    case False
    then show ?thesis using assms by (simp add: sd_commandByte_def sd_defs)
  qed
qed

lemma sd_ok_transfer:
  assumes "sd_ok d"
  shows "sd_ok (snd (fst (run_prog hp (sd_spiTransfer mosi d) p)))"
proof (cases "sd_phase d")
  case SdCommand
  then show ?thesis using assms by (simp add: sd_spiTransfer_def sd_ok_commandByte)
next
  case SdReply
  then show ?thesis using assms by (auto simp: sd_spiTransfer_def sd_defs)
next
  case SdRead
  then show ?thesis using assms by (auto simp: sd_spiTransfer_def sd_readByte_def sd_defs)
next
  case SdWrite
  then show ?thesis using assms by (auto simp: sd_spiTransfer_def sd_writeByte_def sd_defs)
qed (use assms in \<open>auto simp: sd_spiTransfer_def sd_defs\<close>)

lemma sd_ok_advance: "sd_ok d \<Longrightarrow> sd_ok (sd_advance t d)"
  using block_fits [of "unat (sd_block d)"] by (auto simp: sd_advance_def sd_defs)

lemma length_fill_pattern [simp]: "length (fill_pattern s) = kBlockSize"
  by (simp add: fill_pattern_def)

lemma unat_ucast_8_32 [simp]: "unat (ucast (x :: u8) :: u32) = unat x"
proof -
  have "unat x < 2 ^ 8" using unsigned_less [of x, where 'a = nat] by simp
  then show ?thesis by (simp add: unsigned_ucast_eq take_bit_eq_mod)
qed

lemma sd_ok_fill: "sd_ok d \<Longrightarrow> sd_ok (snd (sd_fill channel data d))"
  using block_fits [of "unat (data ! 0)"] by (auto simp: sd_fill_def sd_defs)

lemma sd_ok_loadBlocks: "sd_ok d \<Longrightarrow> sd_ok (snd (sd_loadBlocks b data d))"
  by (auto simp: sd_loadBlocks_def sd_defs split: option.split)

lemma length_load_runs:
  "length flat = kBlockCount * kBlockSize \<Longrightarrow> length (snd (load_runs runs flat)) = kBlockCount * kBlockSize"
  by (induction runs flat rule: load_runs.induct) simp_all

lemma sd_ok_loadImage: "sd_ok d \<Longrightarrow> sd_ok (snd (sd_loadImage im d))"
  using length_load_runs [of "replicate (kBlockCount * kBlockSize) 0" "im_runs im"]
  by (auto simp: sd_loadImage_def sd_defs split: prod.split)

section \<open>The card as a delayed store\<close>

definition sd_in_flight :: "sdcard \<Rightarrow> (nat \<times> bytes) option" where
  "sd_in_flight d =
     (if sd_phase d = SdBusy then Some (unat (sd_block d) * kBlockSize, sd_staging d) else None)"

interpretation sd_medium: delayed_store sd_ok sd_store sd_in_flight sd_done_us sd_reset sd_advance
proof unfold_locales
  show "sd_ok d \<Longrightarrow> sd_ok (sd_reset d)" for d by (rule sd_ok_reset)
  show "sd_ok d \<Longrightarrow> sd_ok (sd_advance t d)" for d t by (rule sd_ok_advance)
qed (auto simp: sd_in_flight_def sd_advance_def sd_reset_def split: if_splits)

section \<open>Conversations\<close>

text \<open>
  What a driver clocks: the bytes of one command with its checksum, the exchange of a
  sequence of bytes, and the two framed transfers of a block.
\<close>

definition command_bytes :: "u8 \<Rightarrow> u32 \<Rightarrow> u8 \<Rightarrow> bytes" where
  "command_bytes op block crc =
     [op, ucast (drop_bit 24 block), ucast (drop_bit 16 block), ucast (drop_bit 8 block), ucast block, crc]"

definition sd_exchange :: "bytes \<Rightarrow> sdcard \<Rightarrow> ('m, bytes \<times> sdcard) prog" where
  "sd_exchange = prog_map sd_spiTransfer"

definition sd_framed :: "bytes \<Rightarrow> sdcard \<Rightarrow> ('m, bytes \<times> sdcard) prog" where
  "sd_framed bs d =
     andThen (sd_lineIn 0 0 d) (\<lambda>d1. andThen (sd_exchange bs d1)
       (\<lambda>(answers, d2). andThen (sd_lineIn 0 1 d2) (\<lambda>d3. Ret (answers, d3))))"

definition sd_write_block :: "u32 \<Rightarrow> u8 \<Rightarrow> bytes \<Rightarrow> sdcard \<Rightarrow> ('m, bytes \<times> sdcard) prog" where
  "sd_write_block block crc data =
     sd_framed (command_bytes kCmdWriteSingle block crc @ [0xFF, kTokenStart] @ data @ [0xFF, 0xFF])"

definition sd_read_block :: "u32 \<Rightarrow> u8 \<Rightarrow> sdcard \<Rightarrow> ('m, bytes \<times> sdcard) prog" where
  "sd_read_block block crc =
     sd_framed (command_bytes kCmdReadSingle block crc @ replicate (2 + kBlockSize + 2) 0xFF)"

lemma exchange_append:
  "run_prog hp (sd_exchange (xs @ ys) d) p =
     (case run_prog hp (sd_exchange xs d) p of ((bs, d1), p1) \<Rightarrow>
        (case run_prog hp (sd_exchange ys d1) p1 of ((cs, d2), p2) \<Rightarrow> ((bs @ cs, d2), p2)))"
  by (simp add: sd_exchange_def run_prog_map_append)

lemma exchange_then:
  "run_prog hp (sd_exchange xs d) p = ((bs, d1), p1) \<Longrightarrow> run_prog hp (sd_exchange ys d1) p1 = ((cs, d2), p2) \<Longrightarrow>
   run_prog hp (sd_exchange (xs @ ys) d) p = ((bs @ cs, d2), p2)"
  by (simp add: exchange_append)

lemma framed_run:
  "sd_line 0 0 d = s \<Longrightarrow> run_prog hp (sd_exchange bs s) p = ((ans, d1), p1) \<Longrightarrow>
   run_prog hp (sd_framed bs d) p = ((ans, sd_line 0 1 d1), p1)"
  by (simp add: sd_framed_def sd_lineIn_def)

lemma exchange_Nil [simp]: "run_prog hp (sd_exchange [] d) p = (([], d), p)"
  by (simp add: sd_exchange_def)

lemma exchange_Cons:
  "run_prog hp (sd_exchange (x # xs) d) p =
     (case run_prog hp (sd_spiTransfer x d) p of ((b, d1), p1) \<Rightarrow>
        (case run_prog hp (sd_exchange xs d1) p1 of ((bs, d2), p2) \<Rightarrow> ((b # bs, d2), p2)))"
  by (simp add: sd_exchange_def split: prod.split)

lemma block_of_command_bytes [simp]: "block_of (command_bytes op block crc) = block"
proof (rule bit_word_eqI)
  fix n
  assume n: "n < LENGTH(32)"
  have "block_of (command_bytes op block crc) =
      push_bit 24 (ucast (ucast (drop_bit 24 block) :: u8)) OR push_bit 16 (ucast (ucast (drop_bit 16 block) :: u8)) OR
      push_bit 8 (ucast (ucast (drop_bit 8 block) :: u8)) OR ucast (ucast block :: u8)"
    by (simp add: block_of_def command_bytes_def del: push_bit_numeral)
  then show "bit (block_of (command_bytes op block crc)) n = bit block n"
    using n by (cases "n < 8"; cases "n < 16"; cases "n < 24")
      (simp_all del: push_bit_numeral add: bit_or_iff bit_push_bit_iff bit_ucast_iff bit_drop_bit_eq, auto)
qed

lemma length_command_bytes [simp]: "length (command_bytes op block crc) = 6"
  by (simp add: command_bytes_def)

text \<open>Command bytes other than the idle byte are collected until the sixth.\<close>

lemma collect_bytes:
  assumes "sd_selected d" "sd_phase d = SdCommand" "length (sd_command d) = 6"
    and "sd_command_len d + length bs < 6" "0xFF \<notin> set bs"
  shows "run_prog hp (sd_exchange bs d) p =
    ((replicate (length bs) 0xFF,
      d\<lparr>sd_command := take (sd_command_len d) (sd_command d) @ bs @ drop (sd_command_len d + length bs) (sd_command d),
        sd_command_len := sd_command_len d + length bs\<rparr>), p)"
  using assms
proof (induction bs arbitrary: d)
  case (Cons b bs)
  let ?n = "sd_command_len d"
  let ?d1 = "d\<lparr>sd_command := (sd_command d)[?n := b], sd_command_len := ?n + 1\<rparr>"
  have step: "run_prog hp (sd_spiTransfer b d) p = ((0xFF, ?d1), p)"
    using Cons.prems by (simp add: sd_spiTransfer_def sd_commandByte_def Let_def)
  have "take (?n + 1) ((sd_command d)[?n := b]) = take ?n (sd_command d) @ [b]"
    using Cons.prems by (simp add: take_Suc_conv_app_nth)
  then show ?case
    using Cons.IH [of ?d1] Cons.prems by (simp add: exchange_Cons step)
qed simp

text \<open>A whole command: the card takes the six bytes and begins it.\<close>

lemma exchange_command:
  assumes "sd_ok d" "sd_selected d" "sd_phase d = SdCommand" "sd_command_len d = 0"
    and "0xFF \<notin> set (command_bytes op block crc)"
  shows "run_prog hp (sd_exchange (command_bytes op block crc) d) p =
    (case run_prog hp (sd_beginCommand (d\<lparr>sd_command := command_bytes op block crc, sd_command_len := 6\<rparr>)) p of
       (d1, p1) \<Rightarrow> ((replicate 6 0xFF, d1), p1))"
proof -
  obtain five where c: "command_bytes op block crc = five @ [crc]" and five: "length five = 5"
    by (simp add: command_bytes_def)
  have len: "length (sd_command d) = 6" using assms(1) by (simp add: sd_ok_def)
  let ?d5 = "d\<lparr>sd_command := five @ drop 5 (sd_command d), sd_command_len := 5\<rparr>"
  have "run_prog hp (sd_exchange five d) p = ((replicate 5 0xFF, ?d5), p)"
    using collect_bytes [of d five] assms len c five by simp
  moreover obtain y where "drop 5 (sd_command d) = [y]"
    using len length_drop [of 5 "sd_command d"] length_Suc_conv [of "drop 5 (sd_command d)" 0] by auto
  then have "(five @ drop 5 (sd_command d))[5 := crc] = five @ [crc]"
    using five list_update_append_last [of five y crc] by simp
  ultimately show ?thesis
    unfolding c exchange_append using assms c
    by (simp add: exchange_Cons sd_spiTransfer_def sd_commandByte_def Let_def split_beta numeral_eq_Suc)
qed

lemma read_run:
  assumes "sd_selected d" "sd_phase d = SdRead" "sd_offset d = Suc k" "k + n \<le> kBlockSize"
    and "unat (sd_block d) * kBlockSize + kBlockSize \<le> length (sd_store d)"
  shows "run_prog hp (sd_exchange (replicate n 0xFF) d) p =
    ((take n (drop (unat (sd_block d) * kBlockSize + k) (sd_store d)), d\<lparr>sd_offset := Suc (k + n)\<rparr>), p)"
  using assms
proof (induction n arbitrary: d k)
  case (Suc n)
  let ?d1 = "d\<lparr>sd_offset := Suc (Suc k)\<rparr>"
  let ?i = "unat (sd_block d) * kBlockSize + k"
  have "run_prog hp (sd_spiTransfer 0xFF d) p = ((sd_store d ! ?i, ?d1), p)"
    using Suc.prems by (simp add: sd_spiTransfer_def sd_readByte_def Let_def)
  moreover have "sd_store d ! ?i # take n (drop (Suc ?i) (sd_store d)) = take (Suc n) (drop ?i (sd_store d))"
    using Suc.prems by (simp add: Cons_nth_drop_Suc [symmetric])
  ultimately show ?case
    using Suc.IH [of ?d1 "Suc k"] Suc.prems by (simp add: exchange_Cons)
qed simp

lemma write_run:
  assumes "sd_selected d" "sd_phase d = SdWrite" "sd_offset d + length bs \<le> kBlockSize" "length (sd_staging d) = kBlockSize"
  shows "run_prog hp (sd_exchange bs d) p =
    ((replicate (length bs) 0xFF,
      d\<lparr>sd_staging := take (sd_offset d) (sd_staging d) @ bs @ drop (sd_offset d + length bs) (sd_staging d),
        sd_offset := sd_offset d + length bs\<rparr>), p)"
  using assms
proof (induction bs arbitrary: d)
  case (Cons b bs)
  let ?n = "sd_offset d"
  let ?d1 = "d\<lparr>sd_staging := (sd_staging d)[?n := b], sd_offset := ?n + 1\<rparr>"
  have step: "run_prog hp (sd_spiTransfer b d) p = ((0xFF, ?d1), p)"
    using Cons.prems by (simp add: sd_spiTransfer_def sd_writeByte_def)
  have "take (?n + 1) ((sd_staging d)[?n := b]) = take ?n (sd_staging d) @ [b]"
    using Cons.prems by (simp add: take_Suc_conv_app_nth)
  then show ?case
    using Cons.IH [of ?d1] Cons.prems by (simp add: exchange_Cons step)
qed simp

text \<open>A block number in range is four command bytes, none of them the idle byte.\<close>

lemma no_idle_byte:
  assumes "unat block < kBlockCount" "crc \<noteq> 0xFF" "op \<noteq> 0xFF"
  shows "0xFF \<notin> set (command_bytes op block crc)"
proof -
  have b: "unat block < 8" using assms(1) by (simp add: kBlockCount_def)
  have "drop_bit n block = 0" if "8 \<le> n" for n
  proof -
    have "unat (drop_bit n block) = unat block div 2 ^ n"
      by (subst unat_drop_bit_eq) (simp only: drop_bit_eq_div)
    then have "unat (drop_bit n block) = 0" using b that power_increasing [of 8 n "2 :: nat"] by simp
    then show ?thesis by (simp add: word_unat_eq_iff)
  qed
  moreover have "unat (ucast block :: u8) < 8"
    using b by (simp add: unsigned_ucast_eq take_bit_eq_mod)
  then have "ucast block \<noteq> (0xFF :: u8)" by auto
  ultimately show ?thesis using assms(2,3) by (simp add: command_bytes_def)
qed

lemma exchange_transfer_command:
  assumes "sd_ok d" "sd_selected d" "sd_phase d = SdCommand" "sd_command_len d = 0" "sd_initialised d"
    and "unat block < kBlockCount" "crc \<noteq> 0xFF" "op = kCmdReadSingle \<or> op = kCmdWriteSingle"
  shows "run_prog hp (sd_exchange (command_bytes op block crc @ [0xFF]) d) p =
    ((replicate 6 0xFF @ [kR1Ok],
      d\<lparr>sd_command := command_bytes op block crc, sd_command_len := 0, sd_block := block, sd_offset := 0, sd_pending := 0xFF,
        sd_after := if op = kCmdReadSingle then SdRead else SdWriteWait,
        sd_phase := if op = kCmdReadSingle then SdRead else SdWriteWait\<rparr>), p)"
proof -
  have ne: "op \<noteq> 0xFF" "op \<noteq> kCmdGoIdle" "op \<noteq> kCmdSendIfCond" using assms(8) by (auto simp: sd_constants)
  have op: "command_bytes op block crc ! 0 = op" by (simp add: command_bytes_def)
  note cmd = exchange_command [OF assms(1-4) no_idle_byte [OF assms(6,7) ne(1)], of hp p]
  show ?thesis
    unfolding exchange_append cmd sd_beginCommand_def
    using assms ne by (simp add: op Let_def sd_reply_def exchange_Cons sd_spiTransfer_def)
qed

text \<open>What the two framed transfers leave behind.\<close>

definition sd_ready :: "sdcard \<Rightarrow> bool" where
  "sd_ready d \<longleftrightarrow> sd_ok d \<and> sd_initialised d \<and> \<not> sd_selected d \<and> sd_phase d \<noteq> SdBusy"

lemma write_block_run:
  assumes "sd_ready d" "unat block < kBlockCount" "crc \<noteq> 0xFF" "length data = kBlockSize"
  shows "\<exists>ans d1 p1. run_prog hp (sd_write_block block crc data d) p = ((ans @ [kDataAccepted], d1), p1) \<and>
    sd_ok d1 \<and> sd_initialised d1 \<and> \<not> sd_selected d1 \<and> sd_store d1 = sd_store d \<and>
    sd_in_flight d1 = Some (unat block * kBlockSize, data) \<and> sd_done_us d1 = hp_now hp p + kWriteUs"
proof -
  let ?s = "d\<lparr>sd_selected := True, sd_phase := SdCommand, sd_command_len := 0\<rparr>"
  let ?w = "?s\<lparr>sd_command := command_bytes kCmdWriteSingle block crc, sd_block := block, sd_offset := 0,
      sd_pending := 0xFF, sd_after := SdWriteWait, sd_phase := SdWriteWait\<rparr>"
  have ok: "sd_ok ?s" "sd_selected ?s" "sd_phase ?s = SdCommand" "sd_command_len ?s = 0" "sd_initialised ?s"
    using assms(1) by (simp_all add: sd_ready_def sd_defs)
  have ne: "kCmdWriteSingle \<noteq> kCmdReadSingle" by (simp add: sd_constants)
  have cmd: "run_prog hp (sd_exchange (command_bytes kCmdWriteSingle block crc @ [0xFF]) ?s) p =
      ((replicate 6 0xFF @ [kR1Ok], ?w), p)"
    using exchange_transfer_command [OF ok assms(2,3), of kCmdWriteSingle hp p] ne by simp
  let ?t = "?w\<lparr>sd_phase := SdWrite\<rparr>"
  have token: "run_prog hp (sd_exchange [kTokenStart] ?w) p = (([0xFF], ?t), p)"
    by (simp add: exchange_Cons sd_spiTransfer_def)
  have stage: "length (sd_staging d) = kBlockSize" using assms(1) by (simp add: sd_ready_def sd_ok_def)
  have body: "run_prog hp (sd_exchange data ?t) p =
      ((replicate kBlockSize 0xFF, ?t\<lparr>sd_staging := data, sd_offset := kBlockSize\<rparr>), p)"
    using write_run [of ?t data] assms(4) stage by simp
  let ?b = "?t\<lparr>sd_staging := data, sd_offset := kBlockSize + 2, sd_phase := SdBusy, sd_done_us := hp_now hp p + kWriteUs\<rparr>"
  have crcs: "run_prog hp (sd_exchange [0xFF, 0xFF] (?t\<lparr>sd_staging := data, sd_offset := kBlockSize\<rparr>)) p =
      (([0xFF, kDataAccepted], ?b), snd (hp_request_wake hp (hp_now hp p + kWriteUs) p))"
    by (simp add: exchange_Cons sd_spiTransfer_def sd_writeByte_def)
  have split: "command_bytes kCmdWriteSingle block crc @ [0xFF, kTokenStart] @ data @ [0xFF, 0xFF] =
      (command_bytes kCmdWriteSingle block crc @ [0xFF]) @ [kTokenStart] @ data @ [0xFF, 0xFF]" by simp
  have line: "sd_line 0 0 d = ?s" using assms(1) by (simp add: sd_line_def sd_ready_def)
  have "sd_ok (sd_line 0 1 ?b)"
    by (rule sd_ok_line) (use ok(1) assms(2,4) in \<open>simp add: sd_defs\<close>)
  moreover have "sd_in_flight (sd_line 0 1 ?b) = Some (unat block * kBlockSize, data)"
    by (simp add: sd_line_def sd_in_flight_def)
  moreover have "sd_line 0 1 ?b = ?b\<lparr>sd_selected := False, sd_command_len := 0\<rparr>" by (simp add: sd_line_def)
  moreover note framed_run [OF line exchange_then [OF cmd exchange_then [OF token exchange_then [OF body crcs]]]]
  ultimately show ?thesis
    unfolding sd_write_block_def split
    by (intro exI [of _ "replicate 6 0xFF @ [kR1Ok] @ [0xFF] @ replicate kBlockSize 0xFF @ [0xFF]"]
        exI [of _ "sd_line 0 1 ?b"] exI conjI) (use ok(5) in simp_all)
qed

lemma read_block_run:
  assumes "sd_ready d" "unat block < kBlockCount" "crc \<noteq> 0xFF"
  shows "fst (fst (run_prog hp (sd_read_block block crc d) p)) =
    replicate 6 0xFF @ [kR1Ok, kTokenStart] @ take kBlockSize (drop (unat block * kBlockSize) (sd_store d)) @ [0xFF, 0xFF]"
proof -
  let ?s = "d\<lparr>sd_selected := True, sd_phase := SdCommand, sd_command_len := 0\<rparr>"
  let ?r = "?s\<lparr>sd_command := command_bytes kCmdReadSingle block crc, sd_block := block, sd_offset := 0,
      sd_pending := 0xFF, sd_after := SdRead, sd_phase := SdRead\<rparr>"
  have ok: "sd_ok ?s" "sd_selected ?s" "sd_phase ?s = SdCommand" "sd_command_len ?s = 0" "sd_initialised ?s"
    using assms(1) by (simp_all add: sd_ready_def sd_defs)
  have cmd: "run_prog hp (sd_exchange (command_bytes kCmdReadSingle block crc @ [0xFF]) ?s) p =
      ((replicate 6 0xFF @ [kR1Ok], ?r), p)"
    using exchange_transfer_command [OF ok assms(2,3), of kCmdReadSingle hp p] by simp
  have token: "run_prog hp (sd_exchange [0xFF] ?r) p = (([kTokenStart], ?r\<lparr>sd_offset := 1\<rparr>), p)"
    by (simp add: exchange_Cons sd_spiTransfer_def sd_readByte_def)
  have fits: "unat block * kBlockSize + kBlockSize \<le> length (sd_store d)"
    using block_fits [OF assms(2)] assms(1) by (simp add: sd_ready_def sd_ok_def)
  have body: "run_prog hp (sd_exchange (replicate kBlockSize 0xFF) (?r\<lparr>sd_offset := 1\<rparr>)) p =
      ((take kBlockSize (drop (unat block * kBlockSize) (sd_store d)), ?r\<lparr>sd_offset := Suc kBlockSize\<rparr>), p)"
    using read_run [of "?r\<lparr>sd_offset := 1\<rparr>" 0 kBlockSize hp p] fits by simp
  have crcs: "run_prog hp (sd_exchange [0xFF, 0xFF] (?r\<lparr>sd_offset := Suc kBlockSize\<rparr>)) p =
      (([0xFF, 0xFF], ?r\<lparr>sd_offset := kBlockSize + 3, sd_reads := sd_reads d + 1, sd_phase := SdCommand\<rparr>), p)"
    by (simp add: exchange_Cons sd_spiTransfer_def sd_readByte_def Let_def)
  have split: "command_bytes kCmdReadSingle block crc @ replicate (2 + kBlockSize + 2) 0xFF =
      (command_bytes kCmdReadSingle block crc @ [0xFF]) @ [0xFF] @ replicate kBlockSize 0xFF @ [0xFF, 0xFF]"
    by (simp add: replicate_add [symmetric] numeral_2_eq_2 replicate_append_same [symmetric])
  have line: "sd_line 0 0 d = ?s" using assms(1) by (simp add: sd_line_def sd_ready_def)
  show ?thesis
    unfolding sd_read_block_def split
      framed_run [OF line exchange_then [OF cmd exchange_then [OF token exchange_then [OF body crcs]]]]
    by simp
qed

end
