(* ===== verification/Storage_Properties.thy ===== *)
theory Storage_Properties
  imports Flash_Model SdCard_Model
begin

text \<open>
  Properties of the storage parts: what a driver reads back after a write, what a power cut
  leaves, and how the card treats the bytes that open a command.
\<close>

section \<open>Reachable states of the card\<close>

text \<open>
  Every method of the card, called in any order with any arguments. What a call does to the
  card depends on its port only through the time, which is arbitrary here.
\<close>

inductive sd_reachable :: "sdcard \<Rightarrow> bool" where
  new: "sd_reachable new_sdcard"
| power_cycle: "sd_reachable d \<Longrightarrow> sd_reachable (sd_reset d)"
| line: "sd_reachable d \<Longrightarrow> sd_reachable (sd_line l v d)"
| transfer: "sd_reachable d \<Longrightarrow> sd_reachable (snd (fst (run_prog (bench_port c) (sd_spiTransfer mosi d) p)))"
| advance: "sd_reachable d \<Longrightarrow> sd_reachable (sd_advance t d)"
| fill: "sd_reachable d \<Longrightarrow> sd_reachable (snd (sd_fill ch bs d))"
| load_blocks: "sd_reachable d \<Longrightarrow> sd_reachable (snd (sd_loadBlocks b data d))"
| load_image: "sd_reachable d \<Longrightarrow> sd_reachable (snd (sd_loadImage im d))"

lemma sd_reachable_ok: "sd_reachable d \<Longrightarrow> sd_ok d"
  by (induction rule: sd_reachable.induct)
    (simp_all add: sd_ok_reset sd_ok_line sd_ok_transfer sd_ok_advance sd_ok_fill sd_ok_loadBlocks sd_ok_loadImage)

lemma sd_reachable_exchange:
  "sd_reachable d \<Longrightarrow> sd_reachable (snd (fst (run_prog (bench_port c) (sd_exchange bs d) p)))"
proof (induction bs arbitrary: d p)
  case (Cons b bs)
  from Cons.IH [OF sd_reachable.transfer [OF Cons.prems, of c b p]] show ?case
    by (simp add: exchange_Cons split_beta)
qed simp

text \<open>CMD0 with its idle byte wakes a selected card.\<close>

definition woken :: "sdcard \<Rightarrow> sdcard" where
  "woken d = d\<lparr>sd_phase := SdCommand, sd_after := SdCommand, sd_initialised := True,
     sd_command := command_bytes kCmdGoIdle 0 0x95, sd_command_len := 0, sd_block := 0, sd_offset := 0, sd_pending := 0xFF\<rparr>"

lemma exchange_wake:
  assumes "sd_ok d" "sd_selected d" "sd_phase d = SdCommand" "sd_command_len d = 0"
  shows "run_prog hp (sd_exchange (command_bytes kCmdGoIdle 0 0x95 @ [0xFF]) d) p =
    ((replicate 6 0xFF @ [kR1Idle], woken d), p)"
proof -
  have "0xFF \<notin> set (command_bytes kCmdGoIdle 0 0x95)" by (simp add: command_bytes_def kCmdGoIdle_def)
  note cmd = exchange_command [OF assms this, of hp p]
  have "command_bytes kCmdGoIdle 0 0x95 ! 0 = kCmdGoIdle" by (simp add: command_bytes_def)
  then show ?thesis
    using assms
    by (simp add: exchange_append cmd sd_beginCommand_def sd_reply_def Let_def exchange_Cons sd_spiTransfer_def woken_def)
qed

text \<open>A card that has been woken and is asked for block 8.\<close>

definition fresh_selected :: sdcard where
  "fresh_selected = sd_line 0 0 (sd_reset new_sdcard)"

definition asked_too_far :: sdcard where
  "asked_too_far = snd (fst (run_prog (bench_port 0)
     (sd_exchange ((command_bytes kCmdGoIdle 0 0x95 @ [0xFF]) @ command_bytes kCmdReadSingle 8 1) fresh_selected)
     (new_bench 0)))"

lemma fresh_selected:
  "sd_ok fresh_selected" "sd_selected fresh_selected" "sd_phase fresh_selected = SdCommand" "sd_command_len fresh_selected = 0"
  using sd_ok_line [OF sd_ok_reset [OF sd_ok_new], of 0 0]
  by (simp_all add: fresh_selected_def sd_line_def sd_reset_def)

lemma asked_too_far_reachable: "sd_reachable asked_too_far"
  unfolding asked_too_far_def fresh_selected_def
  by (intro sd_reachable_exchange sd_reachable.line sd_reachable.power_cycle sd_reachable.new)

lemma sd_ok_woken: "sd_ok d \<Longrightarrow> sd_ok (woken d)"
  by (simp add: woken_def sd_defs)

lemma asked_too_far: "sd_block asked_too_far = 8" "sd_phase asked_too_far = SdReply"
proof -
  have w: "sd_ok (woken fresh_selected)" "sd_selected (woken fresh_selected)"
    "sd_phase (woken fresh_selected) = SdCommand" "sd_command_len (woken fresh_selected) = 0"
    using fresh_selected sd_ok_woken by (simp_all add: woken_def)
  have "0xFF \<notin> set (command_bytes kCmdReadSingle 8 1)"
    by (simp add: command_bytes_def kCmdReadSingle_def)
  note cmd = exchange_command [OF w this, of "bench_port 0" "new_bench 0"]
  have op: "command_bytes kCmdReadSingle 8 1 ! 0 = kCmdReadSingle"
    by (simp add: command_bytes_def)
  show "sd_block asked_too_far = 8" "sd_phase asked_too_far = SdReply"
    unfolding asked_too_far_def exchange_append [of _ "_ @ _"] exchange_wake [OF fresh_selected] prod.case cmd
    by (simp_all add: sd_beginCommand_def op Let_def sd_reply_def sd_reject_def woken_def sd_constants kBlockCount_def)
qed

section \<open>Properties\<close>

text \<open>C23: in every state the card can reach its buffers keep their sizes, the command buffer has
  room for the next byte, and whenever the phase will read or write a block the number is
  one of the eight; the exception is the peek of the world, \<open>channelRead\<close> and \<open>dump\<close>: a
  command refused for its block number has left that number behind, so that they read
  past the end of the store.\<close>

theorem sd_indices_stay_in_bounds:
  "(sd_reachable d \<longrightarrow> sd_ok d) \<and>
   sd_reachable asked_too_far \<and> sd_phase asked_too_far = SdReply \<and>
   length (sd_store asked_too_far) \<le> unat (sd_block asked_too_far) * kBlockSize"
  using sd_reachable_ok [of d] asked_too_far_reachable asked_too_far sd_reachable_ok [OF asked_too_far_reachable]
  by (simp add: sd_ok_def kBlockCount_def)

theorem sd_indices_stay_in_bounds_witness:
  "sd_ok asked_too_far \<and> \<not> unat (sd_block asked_too_far) < kBlockCount"
  using sd_indices_stay_in_bounds [of asked_too_far] by (auto simp: sd_ok_def kBlockSize_def)

text \<open>C22: what is written to a block is what is read from it. A woken, deselected card that is not
  busy accepts a block written with any checksum byte but the idle byte; until the write
  time has passed its store is unchanged and a poll is answered by the busy byte; from
  then on the block holds exactly the 512 bytes sent, every other block what it held,
  and the read command answers its status, the start token, the bytes and two checksum
  bytes.\<close>

theorem sd_write_read_round_trip:
  "sd_ready d \<Longrightarrow> unat block < kBlockCount \<Longrightarrow> crc \<noteq> 0xFF \<Longrightarrow> length data = kBlockSize \<Longrightarrow>
   d1 = snd (fst (run_prog hp (sd_write_block block crc data d) p)) \<Longrightarrow> due = hp_now hp p + kWriteUs \<Longrightarrow>
   last (fst (fst (run_prog hp (sd_write_block block crc data d) p))) = kDataAccepted \<and>
   (\<forall>t. t < due \<longrightarrow> sd_advance t d1 = d1 \<and> sd_store d1 = sd_store d \<and>
      fst (fst (run_prog hp' (sd_framed [x] d1) p')) = [0x00]) \<and>
   (\<forall>t. due \<le> t \<longrightarrow> sd_ready (sd_advance t d1) \<and>
      fst (fst (run_prog hp' (sd_read_block block crc (sd_advance t d1)) p')) =
        replicate 6 0xFF @ [kR1Ok, kTokenStart] @ data @ [0xFF, 0xFF]) \<and>
   (\<forall>t other. due \<le> t \<longrightarrow> unat other < kBlockCount \<longrightarrow> other \<noteq> block \<longrightarrow>
      fst (fst (run_prog hp' (sd_read_block other crc (sd_advance t d1)) p')) =
        fst (fst (run_prog hp' (sd_read_block other crc d) p')))"
proof -
  assume ready: "sd_ready d" and b: "unat block < kBlockCount" and crc: "crc \<noteq> 0xFF" and len: "length data = kBlockSize"
    and d1: "d1 = snd (fst (run_prog hp (sd_write_block block crc data d) p))" and due: "due = hp_now hp p + kWriteUs"
  from write_block_run [OF ready b crc len, of hp p] d1 due obtain ans p1 where
    run: "run_prog hp (sd_write_block block crc data d) p = ((ans @ [kDataAccepted], d1), p1)"
    and s: "sd_ok d1" "sd_initialised d1" "\<not> sd_selected d1" "sd_store d1 = sd_store d"
      "sd_in_flight d1 = Some (unat block * kBlockSize, data)" "sd_done_us d1 = due" by auto
  have size: "length (sd_store d) = kBlockCount * kBlockSize" using ready by (simp add: sd_ready_def sd_ok_def)
  have fits: "unat block * kBlockSize + length data \<le> length (sd_store d)"
    using block_fits [OF b] size len by simp
  have busy: "sd_phase d1 = SdBusy" using s(5) by (simp add: sd_in_flight_def split: if_splits)
  have poll: "fst (fst (run_prog hp' (sd_framed [x] d1) p')) = [0x00]"
    using s(3) busy by (simp add: sd_framed_def sd_lineIn_def sd_line_def exchange_Cons sd_spiTransfer_def)
  have after: "sd_ready (sd_advance t d1)"
    "sd_store (sd_advance t d1) = overwrite (unat block * kBlockSize) data (sd_store d)" if "due \<le> t" for t
    using that s busy sd_ok_advance [OF s(1), of t] sd_medium.commit [OF s(1,5), of t]
    by (auto simp: sd_ready_def sd_advance_def)
  have same: "take kBlockSize (drop (unat other * kBlockSize) (overwrite (unat block * kBlockSize) data (sd_store d))) =
      take kBlockSize (drop (unat other * kBlockSize) (sd_store d))"
    if o: "unat other < kBlockCount" and ne: "other \<noteq> block" for other :: u32
  proof (rule overwrite_elsewhere [OF fits])
    show "unat other * kBlockSize + kBlockSize \<le> length (sd_store d)" using block_fits [OF o] size by simp
    have "unat other \<noteq> unat block" using ne by (simp add: word_unat_eq_iff)
    then show "unat other * kBlockSize + kBlockSize \<le> unat block * kBlockSize \<or>
        unat block * kBlockSize + length data \<le> unat other * kBlockSize"
      using len by (auto simp: kBlockSize_def)
  qed
  have early: "sd_advance t d1 = d1" if "t < due" for t
    using that s(6) by (simp add: sd_advance_def)
  have reads: "fst (fst (run_prog hp' (sd_read_block block crc (sd_advance t d1)) p')) =
      replicate 6 0xFF @ [kR1Ok, kTokenStart] @ data @ [0xFF, 0xFF]" if "due \<le> t" for t
    using read_block_run [OF after(1) b crc, of t hp' p'] that overwrite_read_back [OF fits] len by (simp add: after(2))
  have others: "fst (fst (run_prog hp' (sd_read_block other crc (sd_advance t d1)) p')) =
      fst (fst (run_prog hp' (sd_read_block other crc d) p'))"
    if "due \<le> t" "unat other < kBlockCount" "other \<noteq> block" for t and other :: u32
    using read_block_run [OF after(1) that(2) crc, of t hp' p'] read_block_run [OF ready that(2) crc, of hp' p'] that
    by (simp add: after(2) same)
  show ?thesis using run s(4) poll early after(1) reads others by simp
qed

theorem sd_write_read_round_trip_witness:
  "fst (fst (run_prog (bench_port 0) (sd_read_block 3 1 (sd_advance 4000 (snd (fst
      (run_prog (bench_port 0) (sd_write_block 3 1 (replicate 512 0x5A) (woken (sd_reset new_sdcard))) (new_bench 0))))))
      (new_bench 4000))) =
   replicate 6 0xFF @ [kR1Ok, kTokenStart] @ replicate 512 0x5A @ [0xFF, 0xFF]"
proof -
  have "sd_ready (woken (sd_reset new_sdcard))"
    using sd_ok_woken [OF sd_ok_reset [OF sd_ok_new]] by (simp add: sd_ready_def woken_def sd_reset_def)
  note rt = sd_write_read_round_trip [OF this _ _ _ refl refl, of 3 1 "replicate 512 0x5A" "bench_port 0"
      "new_bench 0" "bench_port 0" 0 "new_bench 4000"]
  show ?thesis using rt by (simp add: kBlockCount_def kBlockSize_def kWriteUs_def new_bench_def)
qed

text \<open>C24: a write is committed as a whole when its time has passed or not at all, on the flash and
  on the card alike: after any sequence of times the array is the abstract commit of the
  write in flight, and after a power cut the array is what it was at the cut, however
  long the part runs on.\<close>

theorem storage_commits_whole_or_never:
  "(flash_ok f \<longrightarrow> fl_memory (fold flash_advance ts f) = committed (flash_in_flight f) (fl_done_us f) ts (fl_memory f)) \<and>
   fl_memory (fold flash_advance ts (flash_reset f)) = fl_memory f \<and>
   (sd_ok c \<longrightarrow> sd_store (fold sd_advance ts c) = committed (sd_in_flight c) (sd_done_us c) ts (sd_store c)) \<and>
   sd_store (fold sd_advance ts (sd_reset c)) = sd_store c"
  by (simp add: flash_medium.committed_once_or_not_at_all flash_medium.power_cut_loses_the_write
      sd_medium.committed_once_or_not_at_all sd_medium.power_cut_loses_the_write)

theorem storage_commits_whole_or_never_witness:
  "fl_memory (fold flash_advance [1, 8000, 9000] (new_flash\<lparr>fl_busy := True, fl_pending := FlErasePending,
      fl_done_us := 8000, fl_memory := replicate 64 0\<rparr>)) = replicate 64 0xFF"
proof -
  let ?f = "new_flash\<lparr>fl_busy := True, fl_pending := FlErasePending, fl_done_us := 8000, fl_memory := replicate 64 0\<rparr>"
  have "flash_ok ?f" by (simp add: flash_ok_def new_flash_def flash_size_def)
  then have "fl_memory (fold flash_advance [1, 8000, 9000] ?f) =
      committed (flash_in_flight ?f) (fl_done_us ?f) [1, 8000, 9000] (fl_memory ?f)"
    using storage_commits_whole_or_never [of ?f "[1, 8000, 9000]" new_sdcard] by blast
  also have "\<dots> = replicate 64 0xFF"
    by (simp add: committed_def flash_in_flight_def overwrite_def flash_size_def)
  finally show ?thesis .
qed

text \<open>The fill channel of the card redirects a write in flight. While the card is busy with a
  block, filling another block also makes it the target: when the write time has passed the
  bytes of the write stand in the filled block, the pattern is gone, and the block the
  driver wrote has kept its old contents.\<close>

theorem sd_fill_redirects_write_in_flight:
  "sd_ok d \<Longrightarrow> sd_phase d = SdBusy \<Longrightarrow> sd_done_us d \<le> t \<Longrightarrow> unat b < kBlockCount \<Longrightarrow>
   unat b \<noteq> unat (sd_block d) \<Longrightarrow> d1 = sd_advance t (snd (sd_fill 0 [b, seed] d)) \<Longrightarrow>
   take kBlockSize (drop (unat b * kBlockSize) (sd_store d1)) = sd_staging d \<and>
   take kBlockSize (drop (unat (sd_block d) * kBlockSize) (sd_store d1)) =
     take kBlockSize (drop (unat (sd_block d) * kBlockSize) (sd_store d))"
proof -
  assume ok: "sd_ok d" and busy: "sd_phase d = SdBusy" and due: "sd_done_us d \<le> t" and b: "unat b < kBlockCount"
    and ne: "unat b \<noteq> unat (sd_block d)" and d1: "d1 = sd_advance t (snd (sd_fill 0 [b, seed] d))"
  have own: "unat (sd_block d) < kBlockCount" using ok busy by (simp add: sd_ok_def touches_block_def)
  have size: "length (sd_store d) = kBlockCount * kBlockSize" "length (sd_staging d) = kBlockSize"
    using ok by (simp_all add: sd_ok_def)
  have st: "sd_store d1 = overwrite (unat b * kBlockSize) (sd_staging d)
      (overwrite (unat b * kBlockSize) (fill_pattern seed) (sd_store d))"
    using busy leD [OF due] b by (simp add: d1 sd_fill_def sd_advance_def)
  have apart: "unat (sd_block d) * kBlockSize + kBlockSize \<le> unat b * kBlockSize \<or>
      unat b * kBlockSize + kBlockSize \<le> unat (sd_block d) * kBlockSize"
    using ne by (auto simp: kBlockSize_def)
  show ?thesis
    using overwrite_read_back [of "unat b * kBlockSize" "sd_staging d"
        "overwrite (unat b * kBlockSize) (fill_pattern seed) (sd_store d)"]
      block_fits [OF b] block_fits [OF own] apart size
    by (simp add: st overwrite_elsewhere)
qed

theorem sd_fill_redirects_write_in_flight_witness:
  "take kBlockSize (drop (1 * kBlockSize) (sd_store (sd_advance 4000 (snd (sd_fill 0 [1, 9]
      (new_sdcard\<lparr>sd_phase := SdBusy, sd_done_us := 4000\<rparr>)))))) = replicate 512 0"
proof -
  let ?d = "new_sdcard\<lparr>sd_phase := SdBusy, sd_done_us := 4000\<rparr>"
  have "sd_ok ?d" by (simp add: sd_defs new_sdcard_def kBlockCount_def)
  note r = sd_fill_redirects_write_in_flight [OF this _ _ _ _ refl, of 4000 1 9]
  show ?thesis using r by (simp add: new_sdcard_def kBlockCount_def) (simp add: kBlockSize_def)
qed

text \<open>C26: a driver that sends the idle byte as the checksum of a command is never answered. The card
  drops every idle byte between commands, the sixth byte of the command among them, so
  however long the driver clocks idle bytes for the status, it is answered idle bytes, and
  nothing is reported.\<close>

theorem sd_idle_checksum_never_answered:
  "sd_ok d \<Longrightarrow> sd_selected d \<Longrightarrow> sd_phase d = SdCommand \<Longrightarrow> sd_command_len d = 0 \<Longrightarrow>
   op \<noteq> 0xFF \<Longrightarrow> unat block < kBlockCount \<Longrightarrow>
   \<exists>d1. run_prog hp (sd_exchange (command_bytes op block 0xFF @ replicate n 0xFF) d) p =
        ((replicate (6 + n) 0xFF, d1), p) \<and> sd_phase d1 = SdCommand \<and> sd_command_len d1 = 5"
proof -
  assume ok: "sd_ok d" and at: "sd_selected d" "sd_phase d = SdCommand" "sd_command_len d = 0"
    and op: "op \<noteq> 0xFF" and b: "unat block < kBlockCount"
  obtain five where c: "command_bytes op block 0xFF = five @ [0xFF]" "command_bytes op block 0 = five @ [0]"
    and five: "length five = 5" by (simp add: command_bytes_def)
  have none: "0xFF \<notin> set five" using no_idle_byte [OF b _ op, of 0] c by simp
  let ?d5 = "d\<lparr>sd_command := five @ drop 5 (sd_command d), sd_command_len := 5\<rparr>"
  have first: "run_prog hp (sd_exchange five d) p = ((replicate 5 0xFF, ?d5), p)"
    using collect_bytes [of d five] ok at none five by (simp add: sd_ok_def)
  have idle: "run_prog hp (sd_exchange (replicate m 0xFF) ?d5) p = ((replicate m 0xFF, ?d5), p)" for m
    using at by (induction m) (simp_all add: exchange_Cons sd_spiTransfer_def sd_commandByte_def)
  have "command_bytes op block 0xFF @ replicate n 0xFF = five @ replicate (Suc n) 0xFF" by (simp add: c)
  moreover have "replicate 5 (0xFF :: u8) @ replicate (Suc n) 0xFF = replicate (6 + n) 0xFF"
    by (simp only: replicate_add [symmetric]) simp
  ultimately have "run_prog hp (sd_exchange (command_bytes op block 0xFF @ replicate n 0xFF) d) p =
      ((replicate (6 + n) 0xFF, ?d5), p)"
    using exchange_then [OF first idle [of "Suc n"]] by metis
  then show ?thesis using at by auto
qed

theorem sd_idle_checksum_never_answered_witness:
  "fst (fst (run_prog (bench_port 0) (sd_exchange (command_bytes kCmdReadSingle 0 0xFF @ replicate 1000 0xFF)
     (woken fresh_selected)) (new_bench 0))) = replicate 1006 0xFF"
proof -
  have w: "sd_ok (woken fresh_selected)" "sd_selected (woken fresh_selected)"
    "sd_phase (woken fresh_selected) = SdCommand" "sd_command_len (woken fresh_selected) = 0"
    using fresh_selected sd_ok_woken by (simp_all add: woken_def)
  obtain d1 where "run_prog (bench_port 0) (sd_exchange (command_bytes kCmdReadSingle 0 0xFF @ replicate 1000 0xFF)
      (woken fresh_selected)) (new_bench 0) = ((replicate (6 + 1000) 0xFF, d1), new_bench 0)"
    using sd_idle_checksum_never_answered [OF w, of kCmdReadSingle 0 "bench_port 0" 1000 "new_bench 0"]
    by (auto simp: kCmdReadSingle_def kBlockCount_def)
  then show ?thesis by simp
qed

end
