(* ===== verification/Chunk_Model.thy ===== *)
theory Chunk_Model
  imports Device_Calls
begin

text \<open>
  The chunking node of \<open>src/devices/src/unit_chunk_model.h\<close> and \<open>.cpp\<close>: a message is split
  into numbered pieces that fit the frames of a link, sent one per gap, and put together
  again at the far end.
\<close>

section \<open>State\<close>

record chunk =
  ck_format :: u16
  ck_resolved :: bool
  ck_assembled :: bytes
  ck_assembled_len :: nat
  ck_expect_seq :: u8
  ck_sent_frames :: u32
  ck_sent_messages :: u32
  ck_received :: u32
  ck_refused :: u32
  ck_out_of_order :: u32
  ck_pending :: bytes
  ck_pending_len :: nat
  ck_pending_sent :: nat
  ck_per_frame :: nat
  ck_send_bus :: u8
  ck_send_seq :: u8
  ck_next_frame_us :: u64
  ck_sending :: bool

definition kHeaderBytes :: nat where "kHeaderBytes = 2"
definition kMaxMessage :: nat where "kMaxMessage = 32"
definition kChunkGapUs :: u64 where "kChunkGapUs = 500"

section \<open>Methods\<close>

text \<open>A node as it is constructed, which is also what \<open>reset\<close> leaves.\<close>

definition new_chunk :: chunk where
  "new_chunk = \<lparr>ck_format = 0, ck_resolved = False, ck_assembled = replicate kMaxMessage 0, ck_assembled_len = 0,
     ck_expect_seq = 0, ck_sent_frames = 0, ck_sent_messages = 0, ck_received = 0, ck_refused = 0,
     ck_out_of_order = 0, ck_pending = replicate kMaxMessage 0, ck_pending_len = 0, ck_pending_sent = 0,
     ck_per_frame = 0, ck_send_bus = 0, ck_send_seq = 0, ck_next_frame_us = 0, ck_sending = False\<rparr>"

definition chunk_reset :: "chunk \<Rightarrow> chunk" where
  "chunk_reset d = new_chunk"

definition chunk_resolve :: "chunk \<Rightarrow> ('m, chunk) prog" where
  "chunk_resolve d =
     (if ck_resolved d then Ret d
      else Attached (\<lambda>att. if \<not> att then Ret d
             else FormatId ''m5.chunk.1'' (schemaFingerprint (Some ''u8 seq,u8 more,u8 body[]''))
               (\<lambda>i. Ret (d\<lparr>ck_format := i, ck_resolved := True\<rparr>))))"

text \<open>\<open>emitNext\<close>: one piece, \<open>[seq, more, payload...]\<close>.\<close>

definition next_piece :: "chunk \<Rightarrow> bytes" where
  "next_piece d = take (min (ck_pending_len d - ck_pending_sent d) (ck_per_frame d)) (drop (ck_pending_sent d) (ck_pending d))"

definition piece_frame :: "chunk \<Rightarrow> bytes" where
  "piece_frame d =
     [ck_send_seq d, if ck_pending_sent d + length (next_piece d) < ck_pending_len d then 1 else 0] @ next_piece d"

definition chunk_emitNext :: "chunk \<Rightarrow> ('m, bool \<times> chunk) prog" where
  "chunk_emitNext d = Attached (\<lambda>att.
     if \<not> ck_sending d \<or> \<not> att then Ret (False, d)
     else let n = length (next_piece d); frame = piece_frame d; d1 = d\<lparr>ck_send_seq := ck_send_seq d + 1\<rparr>
          in FrameOut (ck_send_bus d) (ck_format d) (Some frame) ((kHeaderBytes + n) * 8) (\<lambda>ok.
               if \<not> ok then
                 Diagnose ''link refused a chunk within its stated capacity''
                   (\<lambda>_. Ret (False, d1\<lparr>ck_refused := ck_refused d + 1, ck_sending := False\<rparr>))
               else let d2 = d1\<lparr>ck_sent_frames := ck_sent_frames d + 1, ck_pending_sent := ck_pending_sent d + n\<rparr>
                    in if ck_pending_len d2 \<le> ck_pending_sent d2 then Ret (True, d2\<lparr>ck_sending := False\<rparr>)
                       else Now (\<lambda>now. let d3 = d2\<lparr>ck_next_frame_us := now + kChunkGapUs\<rparr>
                                       in RequestWake (ck_next_frame_us d3) (\<lambda>_. Ret (True, d3)))))"

definition chunk_load :: "u8 \<Rightarrow> bytes \<Rightarrow> nat \<Rightarrow> chunk \<Rightarrow> chunk" where
  "chunk_load bus body per d = d\<lparr>ck_per_frame := per, ck_send_bus := bus, ck_pending_len := length body,
     ck_pending := body @ drop (length body) (ck_pending d), ck_pending_sent := 0, ck_send_seq := 0, ck_sending := True\<rparr>"

definition chunk_channelWrite :: "u8 \<Rightarrow> bytes \<Rightarrow> chunk \<Rightarrow> ('m, bool \<times> chunk) prog" where
  "chunk_channelWrite channel data d =
     (if channel \<noteq> 0 \<or> length data < 2 then Ret (False, d)
      else andThen (chunk_resolve d) (\<lambda>d1. Attached (\<lambda>att.
        if \<not> att \<or> ck_format d1 = 0 then Ret (False, d1)
        else let bus = data ! 0; body = drop 1 data
             in MaxFrameBits bus (\<lambda>capacityBits.
                  let capacityBytes = unat capacityBits div 8
                  in if capacityBytes \<le> kHeaderBytes then
                       Diagnose ''link too small for a chunk header''
                         (\<lambda>_. Ret (False, d1\<lparr>ck_refused := ck_refused d1 + 1\<rparr>))
                     else let per = capacityBytes - kHeaderBytes
                          in if length body > kMaxMessage then Ret (False, d1\<lparr>ck_per_frame := per\<rparr>)
                             else andThen (chunk_emitNext (chunk_load bus body per d1)) (\<lambda>(ok, d2).
                               Ret (if \<not> ok then (False, d2)
                                    else (True, d2\<lparr>ck_sent_messages := ck_sent_messages d2 + 1\<rparr>)))))))"

text \<open>
  The loop of \<open>advanceTo\<close>. Each turn that goes on has sent at least one byte of a message of
  at most \<open>kMaxMessage\<close>, so that many turns are enough (\<open>chunk_loop_enough\<close>).
\<close>

fun chunk_loop :: "nat \<Rightarrow> u64 \<Rightarrow> chunk \<Rightarrow> ('m, chunk) prog" where
  "chunk_loop 0 nowUs d = Ret d"
| "chunk_loop (Suc fuel) nowUs d =
     (if ck_sending d \<and> ck_next_frame_us d \<le> nowUs
      then andThen (chunk_emitNext d) (\<lambda>(ok, d1). if \<not> ok then Ret d1 else chunk_loop fuel nowUs d1)
      else Ret d)"

definition chunk_advanceTo :: "u64 \<Rightarrow> chunk \<Rightarrow> ('m, chunk) prog" where
  "chunk_advanceTo nowUs d = chunk_loop kMaxMessage nowUs d"

definition chunk_take :: "bytes \<Rightarrow> chunk \<Rightarrow> chunk" where
  "chunk_take data d =
     (let d1 = if data ! 0 = 0 then d\<lparr>ck_assembled_len := 0\<rparr> else d;
          at = ck_assembled_len d1;
          body = take (kMaxMessage - at) (drop kHeaderBytes data);
          d2 = d1\<lparr>ck_assembled := take at (ck_assembled d1) @ body @ drop (at + length body) (ck_assembled d1),
                  ck_assembled_len := at + length body\<rparr>
      in if data ! 1 \<noteq> 0 then d2\<lparr>ck_expect_seq := ck_expect_seq d2 + 1\<rparr>
         else d2\<lparr>ck_expect_seq := 0, ck_received := ck_received d2 + 1\<rparr>)"

text \<open>The interface gives a frame of \<open>bits\<close> bits with \<open>frameBytes bits\<close> bytes.\<close>

definition chunk_frameIn :: "u8 \<Rightarrow> u16 \<Rightarrow> bytes \<Rightarrow> nat \<Rightarrow> chunk \<Rightarrow> ('m, chunk) prog" where
  "chunk_frameIn bus format data bits d =
     andThen (chunk_resolve d) (\<lambda>d1.
       if format \<noteq> ck_format d1 \<or> bits < kHeaderBytes * 8 then Ret d1
       else if data ! 0 \<noteq> ck_expect_seq d1 then
         (let d2 = d1\<lparr>ck_out_of_order := ck_out_of_order d1 + 1\<rparr>
          in note_then ''chunk out of order'' (Ret (d2\<lparr>ck_expect_seq := 0, ck_assembled_len := 0\<rparr>)))
       else Ret (chunk_take (take (frameBytes bits) data) d1))"

definition chunk_channelRead :: "u8 \<Rightarrow> nat \<Rightarrow> chunk \<Rightarrow> channel_answer" where
  "chunk_channelRead channel cap d =
     (if channel \<noteq> 1 then Some (0, [])
      else Some (ck_assembled_len d, take (min (ck_assembled_len d) cap) (ck_assembled d)))"

definition chunk_dump :: "chunk \<Rightarrow> string" where
  "chunk_dump d = ''chunk sent='' @ decw (ck_sent_messages d) @ '' fr='' @ decw (ck_sent_frames d) @
     '' rx='' @ decw (ck_received d) @ '' len='' @ decu (ck_assembled_len d) @ '' no='' @ decw (ck_refused d) @
     '' bad='' @ decw (ck_out_of_order d)"

definition chunk_device :: "('m, chunk) device" where
  "chunk_device = (base_device chunk_reset)\<lparr>
     dv_frame_in := chunk_frameIn, dv_advance_to := chunk_advanceTo,
     dv_channel_write := chunk_channelWrite, dv_channel_read := chunk_channelRead, dv_dump := chunk_dump\<rparr>"

section \<open>The format, abstractly\<close>

text \<open>The pieces of a message with \<open>k + 1\<close> payload bytes to a frame, numbered from \<open>seq\<close>.\<close>

function pieces :: "nat \<Rightarrow> u8 \<Rightarrow> bytes \<Rightarrow> bytes list" where
  "pieces k seq body =
     (if length body \<le> Suc k then [[seq, 0] @ body]
      else ([seq, 1] @ take (Suc k) body) # pieces k (seq + 1) (drop (Suc k) body))"
  by auto
termination by (relation "measure (\<lambda>(k, seq, body). length body)") auto

declare pieces.simps [simp del]

lemma length_pieces_le: "body \<noteq> [] \<Longrightarrow> length (pieces k seq body) \<le> length body"
proof (induction k seq body rule: pieces.induct)
  case (1 k seq body)
  show ?case
  proof (cases "length body \<le> Suc k")
    case True
    then show ?thesis using 1(2) by (simp add: pieces.simps [of k seq body] Suc_le_eq)
  next
    case False
    then have "length (pieces k (seq + 1) (drop (Suc k) body)) \<le> length body - Suc k"
      using 1(1) by auto
    then show ?thesis using False by (simp add: pieces.simps [of k seq body])
  qed
qed

section \<open>The loop of \<open>advanceTo\<close> ends\<close>

text \<open>A message on its way: there is something left, and a piece takes some of it.\<close>

definition chunk_wf :: "chunk \<Rightarrow> bool" where
  "chunk_wf d \<longleftrightarrow> length (ck_pending d) = kMaxMessage \<and>
     (ck_sending d \<longrightarrow> 0 < ck_per_frame d \<and> ck_pending_sent d < ck_pending_len d \<and> ck_pending_len d \<le> kMaxMessage)"

definition left :: "chunk \<Rightarrow> nat" where
  "left d = (if ck_sending d then ck_pending_len d - ck_pending_sent d else 0)"

lemma length_next_piece:
  "chunk_wf d \<Longrightarrow> ck_sending d \<Longrightarrow> length (next_piece d) = min (ck_pending_len d - ck_pending_sent d) (ck_per_frame d)"
  by (auto simp: next_piece_def chunk_wf_def)

lemma emit_progress:
  assumes "chunk_wf d" "run_prog hp (chunk_emitNext d) p = ((True, d1), p1)"
  shows "chunk_wf d1 \<and> left d1 < left d"
proof (cases "ck_sending d")
  case True
  have len: "length (next_piece d) = min (ck_pending_len d - ck_pending_sent d) (ck_per_frame d)"
    using length_next_piece assms(1) True .
  show ?thesis
    using assms True len
    by (auto simp: chunk_emitNext_def chunk_wf_def left_def Let_def split: prod.splits if_splits)
qed (use assms in \<open>simp add: chunk_emitNext_def\<close>)

lemma chunk_loop_enough:
  "chunk_wf d \<Longrightarrow> left d \<le> f \<Longrightarrow> run_prog hp (chunk_loop (f + k) t d) p = run_prog hp (chunk_loop f t d) p"
proof (induction f arbitrary: d p)
  case 0
  then have "\<not> ck_sending d" by (auto simp: left_def chunk_wf_def split: if_splits)
  then show ?case by (cases k) simp_all
next
  case (Suc f)
  obtain ok d1 p1 where e: "run_prog hp (chunk_emitNext d) p = ((ok, d1), p1)"
    by (metis surj_pair)
  show ?case
  proof (cases ok)
    case True
    then have "chunk_wf d1" "left d1 \<le> f" using emit_progress [OF Suc.prems(1)] e Suc.prems(2) by fastforce+
    then show ?thesis using Suc.IH e by simp
  qed (simp add: e)
qed

section \<open>Sending over a link\<close>

text \<open>What of the message is still to come, in pieces, and the link being wide enough for them.\<close>

definition remaining :: "chunk \<Rightarrow> bytes" where
  "remaining d = drop (ck_pending_sent d) (take (ck_pending_len d) (ck_pending d))"

definition to_come :: "chunk \<Rightarrow> bytes list" where
  "to_come d = (if ck_sending d then pieces (ck_per_frame d - 1) (ck_send_seq d) (remaining d) else [])"

definition link_fits :: "u32 \<Rightarrow> chunk \<Rightarrow> bool" where
  "link_fits c d \<longleftrightarrow> (kHeaderBytes + ck_per_frame d) * 8 \<le> unat c"

definition on_link :: "chunk \<Rightarrow> bytes \<Rightarrow> u8 \<times> u16 \<times> bytes \<times> nat" where
  "on_link d frame = (ck_send_bus d, ck_format d, frame, 8 * length frame)"

lemma next_piece_remaining: "next_piece d = take (ck_per_frame d) (remaining d)"
  by (simp add: next_piece_def remaining_def drop_take min.commute)

lemma length_remaining: "chunk_wf d \<Longrightarrow> ck_sending d \<Longrightarrow> length (remaining d) = ck_pending_len d - ck_pending_sent d"
  by (simp add: remaining_def chunk_wf_def)

lemma to_come_split:
  assumes "chunk_wf d" "ck_sending d"
  shows "to_come d = piece_frame d #
      (if ck_pending_len d \<le> ck_pending_sent d + length (next_piece d) then []
       else pieces (ck_per_frame d - 1) (ck_send_seq d + 1) (drop (length (next_piece d)) (remaining d)))"
proof -
  obtain k where k: "ck_per_frame d = Suc k" using assms by (auto simp: chunk_wf_def gr0_conv_Suc)
  have n: "length (next_piece d) = min (length (remaining d)) (Suc k)" by (simp add: next_piece_remaining k)
  show ?thesis
  proof (cases "length (remaining d) \<le> Suc k")
    case True
    then have "ck_pending_len d \<le> ck_pending_sent d + length (next_piece d)"
      using n length_remaining [OF assms] by simp
    then show ?thesis
      using True assms(2)
      by (simp add: to_come_def piece_frame_def k pieces.simps [of k "ck_send_seq d"] next_piece_remaining)
  next
    case False
    then have "\<not> ck_pending_len d \<le> ck_pending_sent d + length (next_piece d)"
      using n length_remaining [OF assms] by simp
    then show ?thesis
      using False assms(2) n
      by (simp add: to_come_def piece_frame_def k pieces.simps [of k "ck_send_seq d"] next_piece_remaining)
  qed
qed

lemma drop_remaining:
  "drop n (remaining d) = drop (ck_pending_sent d + n) (take (ck_pending_len d) (ck_pending d))"
  by (simp add: remaining_def add.commute)

lemma emit_on_link:
  assumes "chunk_wf d" "ck_sending d" "link_fits c d"
  obtains d1 b1 where "run_prog (bench_port c) (chunk_emitNext d) b = ((True, d1), b1)"
    and "bn_frames b1 = bn_frames b @ [on_link d (hd (to_come d))]" "bn_notes b1 = bn_notes b"
    and "to_come d1 = tl (to_come d)" "link_fits c d1" "on_link d1 = on_link d"
proof -
  note split = to_come_split [OF assms(1,2)]
  have "length (next_piece d) \<le> ck_per_frame d" by (simp add: next_piece_remaining)
  then have "(kHeaderBytes + length (next_piece d)) * 8 \<le> (kHeaderBytes + ck_per_frame d) * 8"
    by simp
  then have fits: "(kHeaderBytes + length (next_piece d)) * 8 \<le> unat c"
    using assms(3) unfolding link_fits_def by linarith
  have frame: "length (piece_frame d) = kHeaderBytes + length (next_piece d)"
    by (simp add: piece_frame_def kHeaderBytes_def)
  obtain d1 b1 where run: "run_prog (bench_port c) (chunk_emitNext d) b = ((True, d1), b1)"
      "bn_frames b1 = bn_frames b @ [on_link d (piece_frame d)]" "bn_notes b1 = bn_notes b"
    and d1: "ck_send_bus d1 = ck_send_bus d" "ck_format d1 = ck_format d" "ck_per_frame d1 = ck_per_frame d"
      "ck_sending d1 \<longleftrightarrow> \<not> ck_pending_len d \<le> ck_pending_sent d + length (next_piece d)"
      "ck_send_seq d1 = ck_send_seq d + 1" "ck_pending_sent d1 = ck_pending_sent d + length (next_piece d)"
      "ck_pending_len d1 = ck_pending_len d" "ck_pending d1 = ck_pending d"
    using assms(2) fits frame frameBytes_mult8(2) [of "kHeaderBytes + length (next_piece d)"]
    by (cases "ck_pending_len d \<le> ck_pending_sent d + length (next_piece d)")
       (simp_all add: chunk_emitNext_def Let_def on_link_def algebra_simps)
  have "to_come d1 = tl (to_come d)"
    unfolding to_come_def [of d1] remaining_def [of d1] d1 split by (simp add: drop_remaining)
  moreover have "on_link d1 = on_link d" by (rule ext) (simp add: on_link_def d1)
  moreover have "hd (to_come d) = piece_frame d" by (simp add: split)
  ultimately show ?thesis
    using that [OF run(1)] run(2,3) assms(3) by (simp add: link_fits_def d1(3))
qed

text \<open>One call of \<open>advanceTo\<close> sends some of the pieces, at least one when its time has come.\<close>

lemma loop_on_link:
  assumes "chunk_wf d" "link_fits c d"
  shows "\<exists>j d1 b1. run_prog (bench_port c) (chunk_loop f t d) b = (d1, b1) \<and>
    bn_frames b1 = bn_frames b @ map (on_link d) (take j (to_come d)) \<and> bn_notes b1 = bn_notes b \<and>
    to_come d1 = drop j (to_come d) \<and> chunk_wf d1 \<and> link_fits c d1 \<and> on_link d1 = on_link d \<and>
    (0 < f \<and> ck_sending d \<and> ck_next_frame_us d \<le> t \<longrightarrow> 0 < j)"
  using assms
proof (induction f arbitrary: d b)
  case 0
  then show ?case by (auto intro!: exI [of _ "0 :: nat"])
next
  case (Suc f)
  show ?case
  proof (cases "ck_sending d \<and> ck_next_frame_us d \<le> t")
    case True
    obtain d1 b1 where e: "run_prog (bench_port c) (chunk_emitNext d) b = ((True, d1), b1)"
      and f1: "bn_frames b1 = bn_frames b @ [on_link d (hd (to_come d))]" "bn_notes b1 = bn_notes b"
      and t1: "to_come d1 = tl (to_come d)" "link_fits c d1" "on_link d1 = on_link d"
      using emit_on_link [OF Suc.prems(1) _ Suc.prems(2)] True by blast
    have wf: "chunk_wf d1" using emit_progress [OF Suc.prems(1) e] by simp
    from Suc.IH [OF wf t1(2), of b1] obtain j d2 b2 where
      r: "run_prog (bench_port c) (chunk_loop f t d1) b1 = (d2, b2)"
        "bn_frames b2 = bn_frames b1 @ map (on_link d1) (take j (to_come d1))" "bn_notes b2 = bn_notes b1"
        "to_come d2 = drop j (to_come d1)" "chunk_wf d2" "link_fits c d2" "on_link d2 = on_link d1" by blast
    have "hd (to_come d) # take j (tl (to_come d)) = take (Suc j) (to_come d)"
      using to_come_split [OF Suc.prems(1)] True by simp
    then have "map (on_link d) (take (Suc j) (to_come d)) = on_link d (hd (to_come d)) # map (on_link d) (take j (tl (to_come d)))"
      by (metis list.simps(9))
    then show ?thesis
      using True e f1 t1 r by (intro exI [of _ "Suc j"] exI [of _ d2] exI [of _ b2]) (simp add: drop_Suc)
  next
    case False
    then show ?thesis using Suc.prems by (auto intro!: exI [of _ "0 :: nat"])
  qed
qed

text \<open>The environment wakes the node when it asked to be woken.\<close>

fun chunk_drive :: "u32 \<Rightarrow> nat \<Rightarrow> chunk \<Rightarrow> bench \<Rightarrow> chunk \<times> bench" where
  "chunk_drive c 0 d b = (d, b)"
| "chunk_drive c (Suc n) d b =
     (let t = ck_next_frame_us d
      in case run_prog (bench_port c) (chunk_advanceTo t d) (b\<lparr>bn_now := t\<rparr>) of (d1, b1) \<Rightarrow> chunk_drive c n d1 b1)"

lemma drive_on_link:
  assumes "chunk_wf d" "link_fits c d" "length (to_come d) \<le> n"
  shows "bn_frames (snd (chunk_drive c n d b)) = bn_frames b @ map (on_link d) (to_come d) \<and>
    bn_notes (snd (chunk_drive c n d b)) = bn_notes b \<and> to_come (fst (chunk_drive c n d b)) = []"
  using assms
proof (induction n arbitrary: d b)
  case 0
  then show ?case by simp
next
  case (Suc n)
  let ?t = "ck_next_frame_us d"
  from loop_on_link [OF Suc.prems(1,2), of kMaxMessage ?t "b\<lparr>bn_now := ?t\<rparr>"] obtain j d1 b1 where
    r: "run_prog (bench_port c) (chunk_loop kMaxMessage ?t d) (b\<lparr>bn_now := ?t\<rparr>) = (d1, b1)"
      "bn_frames b1 = bn_frames b @ map (on_link d) (take j (to_come d))" "bn_notes b1 = bn_notes b"
      "to_come d1 = drop j (to_come d)" "chunk_wf d1" "link_fits c d1" "on_link d1 = on_link d"
      "ck_sending d \<longrightarrow> 0 < j" by (auto simp: kMaxMessage_def)
  have "length (to_come d1) \<le> n"
    using r(4,8) Suc.prems(3) by (cases "ck_sending d") (simp_all add: to_come_def [of d])
  from Suc.IH [OF r(5,6) this, of b1] show ?case
    using r by (simp add: chunk_advanceTo_def Let_def)
       (metis append_take_drop_id map_append)
qed

lemma send_on_link:
  assumes "length (ck_pending d) = kMaxMessage" "ck_resolved d \<longrightarrow> ck_format d \<noteq> 0"
    and "body \<noteq> []" "length body \<le> kMaxMessage" "kHeaderBytes < unat c div 8"
  obtains fmt d1 b1 where "run_prog (bench_port c) (chunk_channelWrite 0 (bus # body) d) b = ((True, d1), b1)"
    and "fmt = (if ck_resolved d then ck_format d else 1)"
    and "chunk_wf d1" "link_fits c d1" "bn_notes b1 = bn_notes b" "length (to_come d1) \<le> kMaxMessage"
    and "bn_frames b1 @ map (on_link d1) (to_come d1) =
      bn_frames b @ map (\<lambda>frame. (bus, fmt, frame, 8 * length frame)) (pieces (unat c div 8 - 3) 0 body)"
proof -
  define fmt where "fmt = (if ck_resolved d then ck_format d else 1)"
  define r where "r = (if ck_resolved d then d else d\<lparr>ck_format := 1, ck_resolved := True\<rparr>)"
  let ?per = "unat c div 8 - kHeaderBytes"
  define s where "s = chunk_load bus body ?per r"
  have res: "run_prog (bench_port c) (chunk_resolve d) b = (r, b)"
    by (simp add: chunk_resolve_def r_def)
  have fmt: "ck_format r = fmt" "fmt \<noteq> 0" using assms(2) by (simp_all add: fmt_def r_def)
  have wf: "chunk_wf s" "ck_sending s"
    using assms by (simp_all add: s_def chunk_load_def chunk_wf_def r_def)
  have fits: "link_fits c s" using assms(5) by (simp add: s_def chunk_load_def link_fits_def)
  have rem: "to_come s = pieces (unat c div 8 - 3) 0 body"
    by (simp add: s_def chunk_load_def to_come_def remaining_def kHeaderBytes_def)
  obtain d1 b1 where e: "run_prog (bench_port c) (chunk_emitNext s) b = ((True, d1), b1)"
    and f: "bn_frames b1 = bn_frames b @ [on_link s (hd (to_come s))]" "bn_notes b1 = bn_notes b"
      "to_come d1 = tl (to_come s)" "link_fits c d1" "on_link d1 = on_link s"
    using emit_on_link [OF wf fits] by blast
  let ?d2 = "d1\<lparr>ck_sent_messages := ck_sent_messages d1 + 1\<rparr>"
  have same: "chunk_wf ?d2" "link_fits c ?d2" "to_come ?d2 = to_come d1" "on_link ?d2 = on_link d1"
    using emit_progress [OF wf(1) e] f(4)
    by (simp_all add: chunk_wf_def link_fits_def to_come_def remaining_def on_link_def fun_eq_iff)
  have "run_prog (bench_port c) (chunk_channelWrite 0 (bus # body) d) b = ((True, ?d2), b1)"
    using assms(3-5) fmt e by (simp add: chunk_channelWrite_def res Let_def s_def [symmetric] Suc_le_eq)
  moreover have "hd (to_come s) # tl (to_come s) = to_come s" using to_come_split [OF wf] by simp
  then have "map (on_link s) (to_come s) = on_link s (hd (to_come s)) # map (on_link s) (tl (to_come s))"
    by (metis list.simps(9))
  moreover have "length (to_come s) \<le> kMaxMessage"
    using length_pieces_le [OF assms(3), of "unat c div 8 - 3" 0] assms(4) rem by simp
  moreover have "on_link s = (\<lambda>frame. (bus, fmt, frame, 8 * length frame))"
    using fmt(1) by (auto simp: on_link_def s_def chunk_load_def)
  ultimately show ?thesis
    using same f rem by (intro that [of ?d2 b1, OF _ fmt_def]) simp_all
qed

section \<open>Receiving\<close>

fun chunk_deliver :: "('p, 'm) host_port \<Rightarrow> (u8 \<times> u16 \<times> bytes \<times> nat) list \<Rightarrow> chunk \<Rightarrow> 'p \<Rightarrow> chunk \<times> 'p" where
  "chunk_deliver hp [] d p = (d, p)"
| "chunk_deliver hp ((bus, fmt, frame, bits) # fs) d p =
     (case run_prog hp (chunk_frameIn bus fmt frame bits d) p of (d1, p1) \<Rightarrow> chunk_deliver hp fs d1 p1)"

lemma frameIn_expected:
  assumes "ck_resolved d" "ck_format d = fmt" "2 \<le> length frame" "frame ! 0 = ck_expect_seq d"
  shows "run_prog hp (chunk_frameIn bus fmt frame (8 * length frame) d) p = (chunk_take frame d, p)"
  using assms by (simp add: chunk_frameIn_def chunk_resolve_def kHeaderBytes_def)

lemma chunk_take_piece:
  assumes "length (ck_assembled d) = kMaxMessage" "n = (if seq = 0 then 0 else ck_assembled_len d)"
    and "n + length bs \<le> kMaxMessage"
  shows "chunk_take (seq # mr # bs) d =
    d\<lparr>ck_assembled_len := n + length bs, ck_assembled := take n (ck_assembled d) @ bs @ drop (n + length bs) (ck_assembled d),
      ck_expect_seq := if mr \<noteq> 0 then ck_expect_seq d + 1 else 0,
      ck_received := if mr \<noteq> 0 then ck_received d else ck_received d + 1\<rparr>"
  by (rule chunk.equality) (use assms in \<open>auto simp: chunk_take_def Let_def kHeaderBytes_def numeral_2_eq_2 min_def split: if_splits\<close>)

lemma deliver_pieces:
  assumes "ck_resolved d" "ck_format d = fmt" "length (ck_assembled d) = kMaxMessage" "ck_expect_seq d = seq"
    and "n = (if seq = 0 then 0 else ck_assembled_len d)" "n + length body \<le> kMaxMessage"
    and "body \<noteq> []" "unat seq + length body < 256"
  shows "\<exists>d1. chunk_deliver hp (map (\<lambda>frame. (bus, fmt, frame, 8 * length frame)) (pieces k seq body)) d p = (d1, p) \<and>
    take (n + length body) (ck_assembled d1) = take n (ck_assembled d) @ body \<and> ck_assembled_len d1 = n + length body \<and>
    ck_expect_seq d1 = 0 \<and> ck_received d1 = ck_received d + 1 \<and> ck_out_of_order d1 = ck_out_of_order d"
  using assms
proof (induction k seq body arbitrary: d n rule: pieces.induct)
  case (1 k seq body)
  note prems = 1(2-9)
  show ?case
  proof (cases "length body \<le> Suc k")
    case True
    have "run_prog hp (chunk_frameIn bus fmt (seq # 0 # body) (8 * length (seq # 0 # body)) d) p =
        (chunk_take (seq # 0 # body) d, p)"
      by (rule frameIn_expected) (use prems in simp_all)
    then show ?thesis
      using True chunk_take_piece [OF prems(3,5,6), of 0] prems(3,6) by (simp add: pieces.simps [of k seq body])
  next
    case False
    let ?bs = "take (Suc k) body" and ?rest = "drop (Suc k) body"
    have len: "length ?bs = Suc k" using False by simp
    let ?d1 = "chunk_take (seq # 1 # ?bs) d"
    have "run_prog hp (chunk_frameIn bus fmt (seq # 1 # ?bs) (8 * length (seq # 1 # ?bs)) d) p = (?d1, p)"
      by (rule frameIn_expected) (use prems in simp_all)
    moreover have d1: "?d1 = d\<lparr>ck_assembled_len := n + Suc k,
        ck_assembled := take n (ck_assembled d) @ ?bs @ drop (n + Suc k) (ck_assembled d), ck_expect_seq := seq + 1\<rparr>"
      using chunk_take_piece [OF prems(3,5), of ?bs 1] prems(4,6) False by simp
    have seq: "unat (seq + 1) = unat seq + 1"
      using prems(8) False unat_add_no_overflow [of seq 1] by simp
    then have ne: "seq + 1 \<noteq> 0" by (metis add_is_0 unat_0 zero_neq_one)
    have pre: "ck_resolved ?d1" "ck_format ?d1 = fmt" "length (ck_assembled ?d1) = kMaxMessage"
        "ck_expect_seq ?d1 = seq + 1" "n + Suc k = (if seq + 1 = 0 then 0 else ck_assembled_len ?d1)"
        "n + Suc k + length ?rest \<le> kMaxMessage" "?rest \<noteq> []" "unat (seq + 1) + length ?rest < 256"
      using prems(1-3,6,8) False seq ne by (simp_all add: d1)
    have sum: "n + Suc k + length ?rest = n + length body" using False by simp
    obtain d2 where
      "chunk_deliver hp (map (\<lambda>frame. (bus, fmt, frame, 8 * length frame)) (pieces k (seq + 1) ?rest)) ?d1 p = (d2, p)"
      "take (n + length body) (ck_assembled d2) = take (n + Suc k) (ck_assembled ?d1) @ ?rest"
      "ck_assembled_len d2 = n + length body" "ck_expect_seq d2 = 0" "ck_received d2 = ck_received ?d1 + 1"
      "ck_out_of_order d2 = ck_out_of_order ?d1"
      using 1(1) [OF False pre] unfolding sum by blast
    moreover have "ck_received ?d1 = ck_received d" "ck_out_of_order ?d1 = ck_out_of_order d" by (simp_all add: d1)
    moreover have "take (n + Suc k) (ck_assembled ?d1) = take n (ck_assembled d) @ ?bs"
      unfolding d1 using prems(3,6) False by simp
    ultimately show ?thesis
      using False by (intro exI [of _ d2]) (simp add: pieces.simps [of k seq body])
  qed
qed

lemma pieces_fit: "frame \<in> set (pieces k seq body) \<Longrightarrow> length frame \<le> k + 3"
proof (induction k seq body rule: pieces.induct)
  case (1 k seq body)
  then show ?case by (cases "length body \<le> Suc k") (auto simp: pieces.simps [of k seq body])
qed

section \<open>Properties\<close>

text \<open>C27: what is split is put together again. A message of up to 32 bytes that a node accepts for a link
  goes out complete once the environment has woken it as often as it asked: the frames are
  the numbered pieces of the format, all within the capacity of the link and nothing else;
  delivered in order to a node that expects a message, they leave it with exactly that
  message, one more message received, none out of order and no diagnostic on either side.\<close>

theorem chunk_split_reassemble_round_trip:
  "length (ck_pending d) = kMaxMessage \<Longrightarrow> ck_resolved d \<longrightarrow> ck_format d = 1 \<Longrightarrow> body \<noteq> [] \<Longrightarrow>
   length body \<le> kMaxMessage \<Longrightarrow> kHeaderBytes < unat c div 8 \<Longrightarrow>
   ck_resolved r \<Longrightarrow> ck_format r = 1 \<Longrightarrow> length (ck_assembled r) = kMaxMessage \<Longrightarrow> ck_expect_seq r = 0 \<Longrightarrow>
   sent = (case run_prog (bench_port c) (chunk_channelWrite 0 (bus # body) d) b of
             ((ok, d1), b1) \<Rightarrow> snd (chunk_drive c kMaxMessage d1 b1)) \<Longrightarrow>
   frames = drop (length (bn_frames b)) (bn_frames sent) \<Longrightarrow>
   take (length (bn_frames b)) (bn_frames sent) = bn_frames b \<and> bn_notes sent = bn_notes b \<and>
   (\<forall>(_, _, _, bits) \<in> set frames. bits \<le> unat c) \<and>
   (\<exists>r1. chunk_deliver hp frames r p = (r1, p) \<and> chunk_channelRead 1 kMaxMessage r1 = Some (length body, body) \<and>
      ck_received r1 = ck_received r + 1 \<and> ck_out_of_order r1 = ck_out_of_order r)"
proof -
  let ?tag = "\<lambda>frame. (bus, 1 :: u16, frame, 8 * length frame)" and ?k = "unat c div 8 - 3"
  assume pend: "length (ck_pending d) = kMaxMessage" and res: "ck_resolved d \<longrightarrow> ck_format d = 1" and body: "body \<noteq> []"
    "length body \<le> kMaxMessage" and c: "kHeaderBytes < unat c div 8"
    and r: "ck_resolved r" "ck_format r = 1" "length (ck_assembled r) = kMaxMessage" "ck_expect_seq r = 0"
    and sent: "sent = (case run_prog (bench_port c) (chunk_channelWrite 0 (bus # body) d) b of
             ((ok, d1), b1) \<Rightarrow> snd (chunk_drive c kMaxMessage d1 b1))"
    and frames: "frames = drop (length (bn_frames b)) (bn_frames sent)"
  have res': "ck_resolved d \<longrightarrow> ck_format d \<noteq> 0" using res by simp
  obtain fmt d1 b1 where run: "run_prog (bench_port c) (chunk_channelWrite 0 (bus # body) d) b = ((True, d1), b1)"
    and fmt: "fmt = (if ck_resolved d then ck_format d else 1)"
    and d1: "chunk_wf d1" "link_fits c d1" "bn_notes b1 = bn_notes b" "length (to_come d1) \<le> kMaxMessage"
    and all: "bn_frames b1 @ map (on_link d1) (to_come d1) =
      bn_frames b @ map (\<lambda>frame. (bus, fmt, frame, 8 * length frame)) (pieces ?k 0 body)"
    using send_on_link [OF pend res' body c] by blast
  have fmt1: "fmt = 1" using fmt res by simp
  have s: "bn_frames sent = bn_frames b @ map ?tag (pieces ?k 0 body)" "bn_notes sent = bn_notes b"
    using drive_on_link [OF d1(1,2,4), of b1] d1(3) all unfolding sent run fmt1 by simp_all
  have f: "frames = map ?tag (pieces ?k 0 body)" by (simp add: frames s)
  have room: "0 + length body \<le> kMaxMessage" "unat (0 :: u8) + length body < 256"
    using body(2) by (simp_all add: kMaxMessage_def)
  have small: "\<forall>(_, _, _, bits) \<in> set frames. bits \<le> unat c"
    using pieces_fit [of _ ?k 0 body] c by (fastforce simp: f kHeaderBytes_def)
  obtain r1 where "chunk_deliver hp frames r p = (r1, p)" "take (0 + length body) (ck_assembled r1) = take 0 (ck_assembled r) @ body"
    "ck_assembled_len r1 = 0 + length body" "ck_received r1 = ck_received r + 1" "ck_out_of_order r1 = ck_out_of_order r"
    using deliver_pieces [OF r(1-4) _ room(1) body(1) room(2), of hp bus ?k p] unfolding f by auto
  then show ?thesis using s small body(2) by (auto simp: chunk_channelRead_def min_def)
qed

theorem chunk_split_reassemble_round_trip_witness:
  "\<exists>r1. chunk_deliver (bench_port 0)
      (drop 0 (bn_frames (case run_prog (bench_port 40) (chunk_channelWrite 0 (7 # [1, 2, 3, 4, 5, 6, 7]) new_chunk) (new_bench 0) of
             ((ok, d1), b1) \<Rightarrow> snd (chunk_drive 40 kMaxMessage d1 b1))))
      (new_chunk\<lparr>ck_resolved := True, ck_format := 1\<rparr>) (new_bench 0) = (r1, new_bench 0) \<and>
    chunk_channelRead 1 kMaxMessage r1 = Some (7, [1, 2, 3, 4, 5, 6, 7])"
proof -
  have "length (bn_frames (new_bench 0)) = 0" by (simp add: new_bench_def)
  then show ?thesis
    using chunk_split_reassemble_round_trip [of new_chunk "[1, 2, 3, 4, 5, 6, 7]" 40
        "new_chunk\<lparr>ck_resolved := True, ck_format := 1\<rparr>" _ 7 "new_bench 0" _ "bench_port 0" "new_bench 0", OF _ _ _ _ _ _ _ _ _ refl refl]
    by (auto simp: new_chunk_def kMaxMessage_def kHeaderBytes_def)
qed

end
