(* ===== verification/Tape_Model.thy ===== *)
theory Tape_Model
  imports Device_Calls
begin

text \<open>
  The tape of \<open>src/devices/src/tape_model.h\<close> and \<open>.cpp\<close>: a device that answers each request of
  the application from the next step of a recording and reports where the application
  leaves it.
\<close>

section \<open>State\<close>

record tape_step =
  ts_kind :: u8
  ts_status :: u8
  ts_stop :: u8
  ts_length :: u8
  ts_request :: u8
  ts_data :: bytes
  ts_delay_us :: u32

text \<open>The model with the steps of its \<open>TapeSpec\<close>.\<close>

record tape =
  tp_steps :: "tape_step list"
  tp_step :: nat
  tp_armed :: bool
  tp_due_us :: u64
  tp_progress :: nat
  tp_step_bad :: bool
  tp_exhausted_said :: bool
  tp_mismatches :: u32
  tp_busy_refusals :: u32

definition kWrite :: u8 where "kWrite = 1"
definition kRead :: u8 where "kRead = 2"
definition kSerialIn :: u8 where "kSerialIn = 3"
definition kSerialOut :: u8 where "kSerialOut = 4"
definition kSpi :: u8 where "kSpi = 5"
definition kBusy :: u8 where "kBusy = 6"

lemmas tape_kinds = kWrite_def kRead_def kSerialIn_def kSerialOut_def kSpi_def kBusy_def

lemma tape_kinds_differ [simp]:
  "kBusy \<noteq> kSerialOut" "kBusy \<noteq> kWrite" "kBusy \<noteq> kRead" "kSerialOut \<noteq> kBusy" "kWrite \<noteq> kBusy" "kRead \<noteq> kBusy"
  "kRead \<noteq> kWrite" "kWrite \<noteq> kRead"
  by (simp_all add: tape_kinds)

definition new_tape :: "tape_step list \<Rightarrow> tape" where
  "new_tape spec = \<lparr>tp_steps = spec, tp_step = 0, tp_armed = False, tp_due_us = 0, tp_progress = 0,
     tp_step_bad = False, tp_exhausted_said = False, tp_mismatches = 0, tp_busy_refusals = 0\<rparr>"

section \<open>Methods\<close>

fun hex_text :: "nat \<Rightarrow> nat \<Rightarrow> bytes \<Rightarrow> string" where
  "hex_text cap pos [] = []"
| "hex_text cap pos (b # bs) = (if pos + 3 \<le> cap then hex2 b @ hex_text cap (pos + 2) bs else [])"

definition kindName :: "u8 \<Rightarrow> string" where
  "kindName kind =
     (if kind = kWrite then ''write'' else if kind = kRead then ''read''
      else if kind = kSerialIn then ''serial in'' else if kind = kSerialOut then ''serial out''
      else if kind = kSpi then ''spi'' else if kind = kBusy then ''busy'' else ''?'')"

definition tape_reset :: "tape \<Rightarrow> tape" where
  "tape_reset d = d\<lparr>tp_step := 0, tp_armed := False, tp_due_us := 0, tp_progress := 0, tp_step_bad := False,
     tp_exhausted_said := False, tp_mismatches := 0, tp_busy_refusals := 0\<rparr>"

definition tape_current :: "tape \<Rightarrow> tape_step option" where
  "tape_current d = (if tp_step d < length (tp_steps d) then Some (tp_steps d ! tp_step d) else None)"

text \<open>\<open>mismatch\<close> formats into a buffer of 64 characters.\<close>

definition tape_mismatch :: "string \<Rightarrow> (tape \<Rightarrow> ('m, 'r) prog) \<Rightarrow> tape \<Rightarrow> ('m, 'r) prog" where
  "tape_mismatch t k d = (let d1 = d\<lparr>tp_mismatches := tp_mismatches d + 1\<rparr> in note_then (clip 64 t) (k d1))"

definition tape_arm :: "tape \<Rightarrow> ('m, tape) prog" where
  "tape_arm d =
     (case tape_current d of
        None \<Rightarrow> Ret d
      | Some s \<Rightarrow> Attached (\<lambda>att.
          if tp_armed d \<or> \<not> att then Ret d
          else if ts_kind s \<noteq> kSerialOut \<and> ts_kind s \<noteq> kBusy then Ret d
          else Now (\<lambda>now.
            let d1 = d\<lparr>tp_armed := True, tp_due_us := now + ucast (ts_delay_us s)\<rparr>
            in if ts_kind s = kSerialOut then RequestWake (tp_due_us d1) (\<lambda>_. Ret d1) else Ret d1)))"

definition tape_finishStep :: "tape \<Rightarrow> ('m, tape) prog" where
  "tape_finishStep d = tape_arm (d\<lparr>tp_step := tp_step d + 1, tp_progress := 0, tp_step_bad := False, tp_armed := False\<rparr>)"

definition tape_busy :: "tape \<Rightarrow> ('m, bool \<times> tape) prog" where
  "tape_busy d =
     (case tape_current d of
        None \<Rightarrow> Ret (False, d)
      | Some s \<Rightarrow>
          if ts_kind s \<noteq> kBusy then Ret (False, d)
          else andThen (tape_arm d) (\<lambda>d1. Attached (\<lambda>att.
            let judge = (\<lambda>now.
              if now < tp_due_us d1 then Ret (True, d1\<lparr>tp_busy_refusals := tp_busy_refusals d1 + 1\<rparr>)
              else andThen (tape_finishStep d1) (\<lambda>d2. Ret (False, d2)))
            in if att then Now judge else judge (tp_due_us d1))))"

definition stop_bit :: "i2c_transfer \<Rightarrow> u8" where
  "stop_bit xfer = (if xstop xfer then 1 else 0)"

text \<open>The report of a STOP bit that is not the recorded one.\<close>

definition tape_check_stop :: "tape_step \<Rightarrow> i2c_transfer \<Rightarrow> (tape \<Rightarrow> ('m, 'r) prog) \<Rightarrow> tape \<Rightarrow> ('m, 'r) prog" where
  "tape_check_stop s xfer k d =
     (if stop_bit xfer \<noteq> ts_stop s
      then tape_mismatch (''tape '' @ decu (tp_step d) @ '': stop='' @ decw (stop_bit xfer) @ '', recorded '' @
             decw (ts_stop s)) k d
      else k d)"

text \<open>What is said once when the tape has ended.\<close>

definition tape_ended :: "string \<Rightarrow> (tape \<Rightarrow> ('m, 'r) prog) \<Rightarrow> tape \<Rightarrow> ('m, 'r) prog" where
  "tape_ended t k d =
     (let k1 = (\<lambda>d. k (d\<lparr>tp_exhausted_said := True\<rparr>))
      in if \<not> tp_exhausted_said d then tape_mismatch t k1 d else k1 d)"

definition tape_write_now :: "bytes \<Rightarrow> i2c_transfer \<Rightarrow> tape \<Rightarrow> ('m, u8 \<times> tape) prog" where
  "tape_write_now data xfer d =
     (let got = hex_text 24 0 data
      in case tape_current d of
           None \<Rightarrow> tape_ended (''tape ended: write '' @ got) (\<lambda>d. Ret (kI2cAddressNack, d)) d
         | Some s \<Rightarrow>
             if ts_kind s \<noteq> kWrite then
               tape_mismatch (''tape '' @ decu (tp_step d) @ '': want '' @ kindName (ts_kind s) @ '', got write '' @ got)
                 (\<lambda>d. Ret (kI2cDataNack, d)) d
             else let same = (length data = unat (ts_length s) \<and> data = take (length data) (ts_data s));
                      finish = (\<lambda>d. andThen (tape_finishStep d) (\<lambda>d. Ret (ts_status s, d)));
                      check = tape_check_stop s xfer finish
                  in if same then check d
                     else tape_mismatch (''tape '' @ decu (tp_step d) @ '': want write '' @
                            hex_text 24 0 (take (unat (ts_length s)) (ts_data s)) @ '', got '' @ got) check d)"

definition tape_i2cWrite :: "bytes \<Rightarrow> i2c_transfer \<Rightarrow> tape \<Rightarrow> ('m, u8 \<times> tape) prog" where
  "tape_i2cWrite data xfer d0 = andThen (tape_busy d0) (\<lambda>(busy, d).
     if busy then Ret (kI2cAddressNack, d) else tape_write_now data xfer d)"

definition tape_read_now :: "nat \<Rightarrow> i2c_transfer \<Rightarrow> tape \<Rightarrow> ('m, nat \<times> bytes \<times> tape) prog" where
  "tape_read_now len xfer d =
     (case tape_current d of
        None \<Rightarrow> tape_ended (''tape ended: read of '' @ decu len) (\<lambda>d. Ret (0, [], d)) d
      | Some s \<Rightarrow>
          if ts_kind s \<noteq> kRead then
            tape_mismatch (''tape '' @ decu (tp_step d) @ '': want '' @ kindName (ts_kind s) @ '', got read of '' @ decu len)
              (\<lambda>d. Ret (0, [], d)) d
          else let count = min len (unat (ts_length s));
                   finish = (\<lambda>d. andThen (tape_finishStep d) (\<lambda>d. Ret (count, take count (ts_data s), d)));
                   check = tape_check_stop s xfer finish
               in if ts_request s \<noteq> 0 \<and> len \<noteq> unat (ts_request s) then
                    tape_mismatch (''tape '' @ decu (tp_step d) @ '': read of '' @ decu len @ '', recorded '' @
                      decw (ts_request s)) check d
                  else check d)"

definition tape_i2cRead :: "nat \<Rightarrow> i2c_transfer \<Rightarrow> tape \<Rightarrow> ('m, nat \<times> bytes \<times> tape) prog" where
  "tape_i2cRead len xfer d0 = andThen (tape_busy d0) (\<lambda>(busy, d).
     if busy then Ret (0, [], d) else tape_read_now len xfer d)"

text \<open>One byte of a serial step; the loop returns when the tape has ended.\<close>

fun tape_serialIn :: "bytes \<Rightarrow> tape \<Rightarrow> ('m, tape) prog" where
  "tape_serialIn [] d = Ret d"
| "tape_serialIn (b # bs) d =
     (case tape_current d of
        None \<Rightarrow> tape_ended (''tape ended: serial byte '' @ hex2 b) Ret d
      | Some s \<Rightarrow>
          if ts_kind s \<noteq> kSerialIn then
            (let go_on = (\<lambda>d. tape_serialIn bs (d\<lparr>tp_step_bad := True\<rparr>))
             in if \<not> tp_step_bad d then
                  tape_mismatch (''tape '' @ decu (tp_step d) @ '': want '' @ kindName (ts_kind s) @ '', got serial byte '' @ hex2 b)
                    go_on d
                else go_on d)
          else
            (let matched = (\<lambda>d. let d1 = d\<lparr>tp_progress := tp_progress d + 1\<rparr>
                                in if unat (ts_length s) \<le> tp_progress d1
                                   then andThen (tape_finishStep d1) (tape_serialIn bs)
                                   else tape_serialIn bs d1)
             in if b \<noteq> ts_data s ! tp_progress d \<and> \<not> tp_step_bad d then
                  tape_mismatch (''tape '' @ decu (tp_step d) @ '': serial byte '' @ decu (tp_progress d) @ '' want '' @
                    hex2 (ts_data s ! tp_progress d) @ '', got '' @ hex2 b) (\<lambda>d. matched (d\<lparr>tp_step_bad := True\<rparr>)) d
                else matched d))"

definition tape_spiTransfer :: "u8 \<Rightarrow> tape \<Rightarrow> ('m, u8 \<times> tape) prog" where
  "tape_spiTransfer mosi d =
     (case tape_current d of
        None \<Rightarrow> tape_ended (''tape ended: spi byte '' @ hex2 mosi) (\<lambda>d. Ret (0xFF, d)) d
      | Some s \<Rightarrow>
          if ts_kind s \<noteq> kSpi then
            (let go_on = (\<lambda>d. Ret (0xFF, d\<lparr>tp_step_bad := True\<rparr>))
             in if \<not> tp_step_bad d then
                  tape_mismatch (''tape '' @ decu (tp_step d) @ '': want '' @ kindName (ts_kind s) @ '', got spi byte '' @ hex2 mosi)
                    go_on d
                else go_on d)
          else
            (let miso = ts_data s ! (unat (ts_length s) + tp_progress d);
                 matched = (\<lambda>d. let d1 = d\<lparr>tp_progress := tp_progress d + 1\<rparr>
                                in if unat (ts_length s) \<le> tp_progress d1
                                   then andThen (tape_finishStep d1) (\<lambda>d. Ret (miso, d))
                                   else Ret (miso, d1))
             in if mosi \<noteq> ts_data s ! tp_progress d \<and> \<not> tp_step_bad d then
                  tape_mismatch (''tape '' @ decu (tp_step d) @ '': spi byte '' @ decu (tp_progress d) @ '' want '' @
                    hex2 (ts_data s ! tp_progress d) @ '', got '' @ hex2 mosi) (\<lambda>d. matched (d\<lparr>tp_step_bad := True\<rparr>)) d
                else matched d))"

text \<open>
  The loop of \<open>advanceTo\<close>: each turn that goes on finishes a step, so as many turns as there
  are steps left are enough.
\<close>

fun tape_play_due :: "nat \<Rightarrow> u64 \<Rightarrow> tape \<Rightarrow> ('m, tape) prog" where
  "tape_play_due 0 nowUs d = Ret d"
| "tape_play_due (Suc fuel) nowUs d =
     (case tape_current d of
        None \<Rightarrow> Ret d
      | Some s \<Rightarrow>
          if ts_kind s \<noteq> kSerialOut \<or> \<not> tp_armed d \<or> nowUs < tp_due_us d then Ret d
          else let next = andThen (tape_finishStep d) (tape_play_due fuel nowUs)
               in Attached (\<lambda>att. if att then SerialOut (take (unat (ts_length s)) (ts_data s)) (\<lambda>_. next) else next))"

definition tape_advanceTo :: "u64 \<Rightarrow> tape \<Rightarrow> ('m, tape) prog" where
  "tape_advanceTo nowUs d = andThen (tape_arm d) (\<lambda>d1. tape_play_due (length (tp_steps d1) - tp_step d1) nowUs d1)"

definition tape_dump :: "tape \<Rightarrow> string" where
  "tape_dump d = ''tape step='' @ decu (tp_step d) @ ''/'' @ decu (length (tp_steps d)) @ '' mismatch='' @
     decw (tp_mismatches d) @ (if tp_busy_refusals d = 0 then [] else '' busy='' @ decw (tp_busy_refusals d))"

definition tape_finished :: "tape \<Rightarrow> bool" where
  "tape_finished d \<longleftrightarrow> length (tp_steps d) \<le> tp_step d"

definition tape_device :: "('m, tape) device" where
  "tape_device = (base_device tape_reset)\<lparr>
     dv_i2c_write := tape_i2cWrite, dv_i2c_read := tape_i2cRead, dv_serial_in := tape_serialIn,
     dv_spi_transfer := tape_spiTransfer, dv_advance_to := tape_advanceTo, dv_dump := tape_dump\<rparr>"

section \<open>The loop of \<open>advanceTo\<close> ends\<close>

lemma tape_arm_step: "run_prog hp (tape_arm d) p = (d1, p1) \<Longrightarrow> tp_step d1 = tp_step d \<and> tp_steps d1 = tp_steps d"
  by (auto simp: tape_arm_def Let_def split: option.splits if_splits prod.splits)

lemma tape_finish_step:
  "run_prog hp (tape_finishStep d) p = (d1, p1) \<Longrightarrow> tp_step d1 = tp_step d + 1 \<and> tp_steps d1 = tp_steps d"
  unfolding tape_finishStep_def by (drule tape_arm_step) simp

lemma tape_play_due_enough:
  "length (tp_steps d) - tp_step d \<le> f \<Longrightarrow> run_prog hp (tape_play_due (f + k) t d) p = run_prog hp (tape_play_due f t d) p"
proof (induction f arbitrary: d p)
  case 0
  then show ?case by (cases k) (simp_all add: tape_current_def)
next
  case (Suc f)
  have "run_prog hp (andThen (tape_finishStep d) (tape_play_due (f + k) t)) p0 =
      run_prog hp (andThen (tape_finishStep d) (tape_play_due f t)) p0" for p0
  proof -
    obtain d1 p1 where e: "run_prog hp (tape_finishStep d) p0 = (d1, p1)"
      by (cases "run_prog hp (tape_finishStep d) p0")
    from Suc.IH [of d1 p1] tape_finish_step [OF e] Suc.prems show ?thesis by (simp add: e)
  qed
  then show ?case by (simp add: Let_def split: option.split prod.split)
qed

section \<open>The recording, abstractly\<close>

text \<open>
  A session on the I2C bus: requests, each at a time, and what comes back. The reference says
  what a recording answers, or nothing from the request on that leaves it; \<open>due\<close> is the
  time until which a busy step that has been asked refuses.
\<close>

datatype i2c_request = WriteReq bytes i2c_transfer | ReadReq nat i2c_transfer
datatype i2c_answer = WroteAns u8 | ReadAns nat bytes

definition in_step :: "tape_step \<Rightarrow> i2c_request \<Rightarrow> i2c_answer option" where
  "in_step s r =
     (case r of
        WriteReq data xfer \<Rightarrow>
          if ts_kind s = kWrite \<and> length data = unat (ts_length s) \<and> data = take (length data) (ts_data s) \<and>
             stop_bit xfer = ts_stop s
          then Some (WroteAns (ts_status s)) else None
      | ReadReq len xfer \<Rightarrow>
          if ts_kind s = kRead \<and> (ts_request s = 0 \<or> len = unat (ts_request s)) \<and> stop_bit xfer = ts_stop s
          then let n = min len (unat (ts_length s)) in Some (ReadAns n (take n (ts_data s))) else None)"

definition refusal :: "i2c_request \<Rightarrow> i2c_answer" where
  "refusal r = (case r of WriteReq _ _ \<Rightarrow> WroteAns kI2cAddressNack | ReadReq _ _ \<Rightarrow> ReadAns 0 [])"

definition due_next :: "u64 \<Rightarrow> tape_step list \<Rightarrow> u64 option" where
  "due_next t ss = (case ss of [] \<Rightarrow> None
     | s # _ \<Rightarrow> if ts_kind s = kSerialOut \<or> ts_kind s = kBusy then Some (t + ucast (ts_delay_us s)) else None)"

fun recorded :: "tape_step list \<Rightarrow> u64 option \<Rightarrow> (u64 \<times> i2c_request) list \<Rightarrow> i2c_answer list option" where
  "recorded ss due [] = Some []"
| "recorded [] due (r # rs) = None"
| "recorded (s # ss) due ((t, r) # rs) =
     (if ts_kind s = kBusy then
        (let u = (case due of None \<Rightarrow> t + ucast (ts_delay_us s) | Some u \<Rightarrow> u)
         in if t < u then map_option (Cons (refusal r)) (recorded (s # ss) (Some u) rs)
            else case ss of [] \<Rightarrow> None
              | s2 # ss2 \<Rightarrow> Option.bind (in_step s2 r) (\<lambda>a. map_option (Cons a) (recorded ss2 (due_next t ss2) rs)))
      else Option.bind (in_step s r) (\<lambda>a. map_option (Cons a) (recorded ss (due_next t ss) rs)))"

text \<open>The same session held with the tape.\<close>

definition ask :: "i2c_request \<Rightarrow> tape \<Rightarrow> ('m, i2c_answer \<times> tape) prog" where
  "ask r d = (case r of
      WriteReq data xfer \<Rightarrow> andThen (tape_i2cWrite data xfer d) (\<lambda>(st, d1). Ret (WroteAns st, d1))
    | ReadReq len xfer \<Rightarrow> andThen (tape_i2cRead len xfer d) (\<lambda>(n, bs, d1). Ret (ReadAns n bs, d1)))"

fun play :: "(u64 \<times> i2c_request) list \<Rightarrow> tape \<Rightarrow> bench \<Rightarrow> i2c_answer list \<times> tape \<times> bench" where
  "play [] d b = ([], d, b)"
| "play ((t, r) # rs) d b =
     (case run_prog (bench_port 0) (ask r d) (b\<lparr>bn_now := t\<rparr>) of
        ((a, d1), b1) \<Rightarrow> (case play rs d1 b1 of (as, d2, b2) \<Rightarrow> (a # as, d2, b2)))"

text \<open>Where the tape stands in the recording.\<close>

definition at :: "tape \<Rightarrow> tape_step list \<Rightarrow> u64 option \<Rightarrow> bool" where
  "at d ss due \<longleftrightarrow> drop (tp_step d) (tp_steps d) = ss \<and> \<not> tp_exhausted_said d \<and>
     (\<forall>s rest. ss = s # rest \<longrightarrow> ts_kind s = kBusy \<longrightarrow> due = (if tp_armed d then Some (tp_due_us d) else None))"

lemma at_current: "at d ss due \<Longrightarrow> tape_current d = (case ss of [] \<Rightarrow> None | s # _ \<Rightarrow> Some s)"
proof -
  assume "at d ss due"
  then have ss: "drop (tp_step d) (tp_steps d) = ss" by (simp add: at_def)
  show ?thesis
  proof (cases ss)
    case Nil
    then show ?thesis using ss by (simp add: tape_current_def)
  next
    case (Cons s rest)
    then have "tp_step d < length (tp_steps d)" using ss by (metis drop_all list.distinct(1) not_less)
    moreover from this have "tp_steps d ! tp_step d = s" using ss Cons by (metis Cons_nth_drop_Suc list.inject)
    ultimately show ?thesis using Cons by (simp add: tape_current_def)
  qed
qed

lemma at_finish:
  assumes "at d (s # ss) due" "run_prog (bench_port 0) (tape_finishStep d) b = (d1, b1)"
  shows "at d1 ss (due_next (bn_now b) ss)" "bn_notes b1 = bn_notes b"
proof -
  let ?d = "d\<lparr>tp_step := Suc (tp_step d), tp_progress := 0, tp_step_bad := False, tp_armed := False\<rparr>"
  have ss: "drop (Suc (tp_step d)) (tp_steps d) = ss"
    and said: "\<not> tp_exhausted_said d"
    using assms(1) by (simp_all add: at_def) (metis drop_Suc drop_tl list.sel(3))
  then have new: "at ?d ss None" using said by (simp add: at_def)
  have "at d1 ss (due_next (bn_now b) ss) \<and> bn_notes b1 = bn_notes b"
  proof (cases ss)
    case Nil
    then show ?thesis
      using assms(2) new at_current [OF new] by (auto simp: tape_finishStep_def tape_arm_def due_next_def at_def)
  next
    case (Cons s2 rest)
    have cur: "tape_current ?d = Some s2" using at_current [OF new] Cons by simp
    show ?thesis
    proof (cases "ts_kind s2 = kSerialOut \<or> ts_kind s2 = kBusy")
      case True
      then show ?thesis
        using assms(2) ss said Cons by (auto simp: tape_finishStep_def tape_arm_def cur due_next_def at_def Let_def)
    next
      case False
      then show ?thesis
        using assms(2) ss said Cons by (auto simp: tape_finishStep_def tape_arm_def cur due_next_def at_def)
    qed
  qed
  then show "at d1 ss (due_next (bn_now b) ss)" "bn_notes b1 = bn_notes b" by simp_all
qed

lemma finish_run:
  assumes "at d (s # ss) due"
  obtains d1 b1 where "run_prog (bench_port 0) (tape_finishStep d) b = (d1, b1)"
    and "at d1 ss (due_next (bn_now b) ss)" "bn_notes b1 = bn_notes b"
proof -
  obtain d1 b1 where e: "run_prog (bench_port 0) (tape_finishStep d) b = (d1, b1)" by (metis surj_pair)
  show ?thesis by (rule that [OF e at_finish [OF assms e]])
qed

text \<open>What a busy step makes of a request.\<close>

lemma busy_refuses:
  assumes "at d (s # ss) due" "ts_kind s = kBusy"
    and "u = (case due of None \<Rightarrow> bn_now b + ucast (ts_delay_us s) | Some u \<Rightarrow> u)" "bn_now b < u"
  obtains d1 where "run_prog (bench_port 0) (tape_busy d) b = ((True, d1), b)" "at d1 (s # ss) (Some u)"
proof -
  have cur: "tape_current d = Some s" using at_current [OF assms(1)] by simp
  have due: "due = (if tp_armed d then Some (tp_due_us d) else None)" using assms(1,2) by (simp add: at_def)
  show ?thesis
    using assms due
    by (intro that [of "d\<lparr>tp_armed := True, tp_due_us := u, tp_busy_refusals := tp_busy_refusals d + 1\<rparr>"])
       (auto simp: tape_busy_def cur tape_arm_def at_def Let_def)
qed

lemma busy_passes:
  assumes "at d (s # ss) due" "ts_kind s = kBusy"
    and "\<not> bn_now b < (case due of None \<Rightarrow> bn_now b + ucast (ts_delay_us s) | Some u \<Rightarrow> u)"
  obtains d1 b1 where "run_prog (bench_port 0) (tape_busy d) b = ((False, d1), b1)"
    and "at d1 ss (due_next (bn_now b) ss)" "bn_notes b1 = bn_notes b"
proof -
  have cur: "tape_current d = Some s" using at_current [OF assms(1)] by simp
  have due: "due = (if tp_armed d then Some (tp_due_us d) else None)" using assms(1,2) by (simp add: at_def)
  let ?d = "if tp_armed d then d else d\<lparr>tp_armed := True, tp_due_us := bn_now b + ucast (ts_delay_us s)\<rparr>"
  have "at ?d (s # ss) (Some (tp_due_us ?d))" using assms(1) by (auto simp: at_def)
  from finish_run [OF this, of b] obtain d1 b1 where f: "run_prog (bench_port 0) (tape_finishStep ?d) b = (d1, b1)"
    "at d1 ss (due_next (bn_now b) ss)" "bn_notes b1 = bn_notes b" .
  show ?thesis
    using assms due f
    by (intro that [of d1 b1]) (auto simp: tape_busy_def cur tape_arm_def Let_def split: if_splits)
qed

lemma not_busy:
  "tape_current d = None \<or> (\<exists>s. tape_current d = Some s \<and> ts_kind s \<noteq> kBusy) \<Longrightarrow>
   run_prog (bench_port 0) (tape_busy d) b = ((False, d), b)"
  by (auto simp: tape_busy_def)

section \<open>A request answered from the step\<close>

definition ask_now :: "i2c_request \<Rightarrow> tape \<Rightarrow> ('m, i2c_answer \<times> tape) prog" where
  "ask_now r d = (case r of
      WriteReq data xfer \<Rightarrow> andThen (tape_write_now data xfer d) (\<lambda>(st, d1). Ret (WroteAns st, d1))
    | ReadReq len xfer \<Rightarrow> andThen (tape_read_now len xfer d) (\<lambda>(n, bs, d1). Ret (ReadAns n bs, d1)))"

lemma ask_run:
  "run_prog hp (ask r d) b = (case run_prog hp (tape_busy d) b of
     ((busy, d1), b1) \<Rightarrow> if busy then ((refusal r, d1), b1) else run_prog hp (ask_now r d1) b1)"
  by (simp add: ask_def ask_now_def refusal_def tape_i2cWrite_def tape_i2cRead_def split: i2c_request.split prod.split)

lemma answered_from_step:
  assumes "at d (s # ss) due" "in_step s r = Some a"
  obtains d1 b1 where "run_prog (bench_port 0) (ask_now r d) b = ((a, d1), b1)"
    and "at d1 ss (due_next (bn_now b) ss)" "bn_notes b1 = bn_notes b"
proof -
  have cur: "tape_current d = Some s" using at_current [OF assms(1)] by simp
  obtain d1 b1 where f: "run_prog (bench_port 0) (tape_finishStep d) b = (d1, b1)"
    "at d1 ss (due_next (bn_now b) ss)" "bn_notes b1 = bn_notes b" by (rule finish_run [OF assms(1)])
  have "run_prog (bench_port 0) (ask_now r d) b = ((a, d1), b1)"
  proof (cases r)
    case (WriteReq data xfer)
    then show ?thesis
      using assms(2) f(1)
      by (auto simp: in_step_def ask_now_def tape_write_now_def tape_check_stop_def cur Let_def split: if_splits)
  next
    case (ReadReq len xfer)
    then show ?thesis
      using assms(2) f(1)
      by (auto simp: in_step_def ask_now_def tape_read_now_def tape_check_stop_def cur Let_def split: if_splits)
  qed
  then show ?thesis using f(2,3) by (rule that)
qed

lemma mismatch_heard: "length (bn_notes b) < length (bn_notes (snd (run_prog (bench_port c) (tape_mismatch t k d) b)))"
  using bench_notes_at_least [of "Suc (length (bn_notes b))" "b\<lparr>bn_notes := bn_notes b @ [clip 64 t]\<rparr>" c]
  by (simp add: tape_mismatch_def Let_def Suc_le_eq)

lemma deviation_heard:
  assumes "at d ss due" "case ss of [] \<Rightarrow> True | s # _ \<Rightarrow> in_step s r = None"
  shows "length (bn_notes b) < length (bn_notes (snd (run_prog (bench_port 0) (ask_now r d) b)))"
proof -
  note cur = at_current [OF assms(1)]
  have said: "\<not> tp_exhausted_said d" using assms(1) by (simp add: at_def)
  show ?thesis
  proof (cases r)
    case (WriteReq data xfer)
    have "\<exists>t k d1. (tape_write_now data xfer d :: (unit, u8 \<times> tape) prog) = tape_mismatch t k d1"
      using assms(2) WriteReq said
      by (cases ss) (auto simp: in_step_def tape_write_now_def tape_ended_def tape_check_stop_def cur Let_def split: if_splits)
    then show ?thesis using WriteReq by (auto simp: ask_now_def split_beta mismatch_heard)
  next
    case (ReadReq len xfer)
    have "\<exists>t k d1. (tape_read_now len xfer d :: (unit, nat \<times> bytes \<times> tape) prog) = tape_mismatch t k d1"
      using assms(2) ReadReq said
      by (cases ss) (auto simp: in_step_def tape_read_now_def tape_ended_def tape_check_stop_def cur Let_def split: if_splits)
    then show ?thesis using ReadReq by (auto simp: ask_now_def split_beta mismatch_heard)
  qed
qed

lemma play_notes_grow: "length (bn_notes b) \<le> length (bn_notes (snd (snd (play rs d b))))"
proof (induction rs d b rule: play.induct)
  case (2 t r rs d b)
  obtain a d1 b1 where e: "run_prog (bench_port 0) (ask r d) (b\<lparr>bn_now := t\<rparr>) = ((a, d1), b1)" by (metis surj_pair)
  have "length (bn_notes b) \<le> length (bn_notes b1)"
    using bench_notes_grow [of "b\<lparr>bn_now := t\<rparr>" 0 "ask r d"] e by simp
  then show ?case using 2 e by (fastforce simp: split_beta)
qed simp

section \<open>Properties\<close>

definition tape_verdict :: "i2c_answer list option \<Rightarrow> bench \<Rightarrow> i2c_answer list \<times> tape \<times> bench \<Rightarrow> bool" where
  "tape_verdict expected b outcome =
     (case outcome of (as, d1, b1) \<Rightarrow>
        (case expected of Some es \<Rightarrow> as = es \<and> bn_notes b1 = bn_notes b
         | None \<Rightarrow> length (bn_notes b) < length (bn_notes b1)))"

lemma verdict_later:
  assumes "run_prog (bench_port 0) (ask r d) (b\<lparr>bn_now := t\<rparr>) = ((a, d1), b1)" "bn_notes b1 = bn_notes b"
    and "tape_verdict expected b1 (play rs d1 b1)"
  shows "tape_verdict (map_option (Cons a) expected) b (play ((t, r) # rs) d b)"
  using assms by (cases expected) (auto simp: tape_verdict_def split: prod.splits)

lemma verdict_heard:
  assumes "run_prog (bench_port 0) (ask r d) (b\<lparr>bn_now := t\<rparr>) = ((a, d1), b1)" "length (bn_notes b) < length (bn_notes b1)"
  shows "tape_verdict None b (play ((t, r) # rs) d b)"
  using assms play_notes_grow [of b1 rs d1] by (auto simp: tape_verdict_def split: prod.splits)

text \<open>A request that reaches a step is answered from it or heard.\<close>

lemma verdict_step:
  assumes at: "at d0 ss due" and busy: "run_prog (bench_port 0) (tape_busy d) (b\<lparr>bn_now := t\<rparr>) = ((False, d0), b0)"
    and b0: "bn_notes b0 = bn_notes b" "bn_now b0 = t"
    and later: "\<And>s rest d1 b1. ss = s # rest \<Longrightarrow> at d1 rest (due_next t rest) \<Longrightarrow>
      tape_verdict (recorded rest (due_next t rest) rs) b1 (play rs d1 b1)"
  shows "tape_verdict (case ss of [] \<Rightarrow> None
      | s # rest \<Rightarrow> Option.bind (in_step s r) (\<lambda>a. map_option (Cons a) (recorded rest (due_next t rest) rs)))
    b (play ((t, r) # rs) d b)"
proof (cases "case ss of [] \<Rightarrow> None | s # _ \<Rightarrow> in_step s r")
  case None
  obtain a d1 b1 where e: "run_prog (bench_port 0) (ask_now r d0) b0 = ((a, d1), b1)" by (metis surj_pair)
  have "length (bn_notes b) < length (bn_notes b1)"
    using deviation_heard [OF at, of r b0] None e b0 by (auto split: list.splits)
  moreover have "run_prog (bench_port 0) (ask r d) (b\<lparr>bn_now := t\<rparr>) = ((a, d1), b1)" by (simp add: ask_run busy e)
  ultimately show ?thesis using None verdict_heard by (auto split: list.splits)
next
  case (Some a)
  then obtain s rest where ss: "ss = s # rest" and s: "in_step s r = Some a" by (auto split: list.splits)
  obtain d1 b1 where e: "run_prog (bench_port 0) (ask_now r d0) b0 = ((a, d1), b1)"
    and d1: "at d1 rest (due_next t rest)" "bn_notes b1 = bn_notes b"
    using answered_from_step [OF at [unfolded ss] s, of b0] b0 by metis
  have "run_prog (bench_port 0) (ask r d) (b\<lparr>bn_now := t\<rparr>) = ((a, d1), b1)" by (simp add: ask_run busy e)
  from verdict_later [OF this d1(2) later [OF ss d1(1)]] show ?thesis by (simp add: ss s)
qed

lemma play_verdict: "at d ss due \<Longrightarrow> tape_verdict (recorded ss due rs) b (play rs d b)"
proof (induction rs arbitrary: d ss due b)
  case Nil
  then show ?case by (cases ss) (simp_all add: tape_verdict_def)
next
  case (Cons x rs)
  obtain t r where x: "x = (t, r)" by (cases x)
  let ?b = "b\<lparr>bn_now := t\<rparr>"
  note cur = at_current [OF Cons.prems]
  show ?case
  proof (cases ss)
    case Nil
    then have "run_prog (bench_port 0) (tape_busy d) ?b = ((False, d), ?b)" by (simp add: not_busy cur)
    from verdict_step [OF Cons.prems this] show ?thesis by (simp add: x Nil)
  next
    case ss: (Cons s rest)
    show ?thesis
    proof (cases "ts_kind s = kBusy")
      case False
      then have "run_prog (bench_port 0) (tape_busy d) ?b = ((False, d), ?b)" by (simp add: not_busy cur ss)
      from verdict_step [OF Cons.prems this, of rs r] Cons.IH show ?thesis using False by (simp add: x ss)
    next
      case True
      define u where "u = (case due of None \<Rightarrow> t + ucast (ts_delay_us s) | Some u \<Rightarrow> u)"
      show ?thesis
      proof (cases "t < u")
        case early: True
        obtain d1 where d1: "run_prog (bench_port 0) (tape_busy d) ?b = ((True, d1), ?b)" "at d1 (s # rest) (Some u)"
        proof (rule busy_refuses [OF Cons.prems [unfolded ss] True])
          show "u = (case due of None \<Rightarrow> bn_now ?b + ucast (ts_delay_us s) | Some u \<Rightarrow> u)" by (cases due) (simp_all add: u_def)
          show "bn_now ?b < u" using early by simp
        qed
        have "run_prog (bench_port 0) (ask r d) ?b = ((refusal r, d1), ?b)" by (simp add: ask_run d1)
        from verdict_later [OF this _ Cons.IH [OF d1(2)]] show ?thesis
          using True early by (simp add: x ss u_def [symmetric] Let_def)
      next
        case late: False
        obtain d1 b1 where d1: "run_prog (bench_port 0) (tape_busy d) ?b = ((False, d1), b1)"
            "at d1 rest (due_next t rest)" "bn_notes b1 = bn_notes b"
        proof (rule busy_passes [OF Cons.prems [unfolded ss] True, of ?b])
          show "\<not> bn_now ?b < (case due of None \<Rightarrow> bn_now ?b + ucast (ts_delay_us s) | Some u \<Rightarrow> u)"
            using late by (cases due) (simp_all add: u_def)
        qed simp_all
        have now: "bn_now b1 = t" using bench_now_kept [of 0 "tape_busy d" ?b] d1(1) by simp
        from verdict_step [OF d1(2,1,3) now, of rs r] Cons.IH show ?thesis
          using True late by (simp add: x ss u_def [symmetric] Let_def split: list.splits)
      qed
    qed
  qed
qed

text \<open>C28: the tape is a faithful judge of a session. For every recording and every sequence of timed I2C
  requests: when the reference reading of the recording (the writes and reads in order,
  with payload, length and STOP bit, and refusals while a busy step lasts) allows the
  session, the tape answers each request exactly as recorded and reports nothing; when it
  does not, the tape reports a mismatch.\<close>

theorem tape_answers_as_recorded:
  "case (recorded spec None rs, play rs (tape_reset (new_tape spec)) b) of
     (Some expected, as, d1, b1) \<Rightarrow> as = expected \<and> bn_notes b1 = bn_notes b
   | (None, as, d1, b1) \<Rightarrow> length (bn_notes b) < length (bn_notes b1)"
proof -
  have "at (tape_reset (new_tape spec)) spec None" by (simp add: at_def tape_reset_def new_tape_def)
  from play_verdict [OF this, of rs b] show ?thesis
    by (cases "recorded spec None rs"; cases "play rs (tape_reset (new_tape spec)) b") (simp_all add: tape_verdict_def)
qed

end
