(* ===== verification/Sht30_Model.thy ===== *)
theory Sht30_Model
  imports Device_Calls
begin

text \<open>
  The humidity and temperature sensor of \<open>src/devices/src/sht30_model.h\<close> and \<open>.cpp\<close>: a
  command part on the I2C bus that refuses its address while it measures, answers words
  with checksums, and hands every result out once.
\<close>

section \<open>State\<close>

datatype repeatability = ShtHigh | ShtMedium | ShtLow
datatype sht_pending = ShtNothing | ShtMeasurement | ShtStatus | ShtReset

record sht30 =
  sh_status :: u16
  sh_pending :: sht_pending
  sh_stretch :: bool
  sh_ready_at_us :: u64
  sh_samples :: bytes
  sh_sample_count :: nat
  sh_next_sample :: nat
  sh_result :: bytes
  sh_held :: bytes
  sh_holding :: bool
  sh_after_reset :: bool
  sh_stretch_limit_us :: u32
  sh_measurements :: u32
  sh_refused :: u32
  sh_stretched :: u32
  sh_gave_up :: u32

definition kMaxSamples :: nat where "kMaxSamples = 16"
definition kHighUs :: u64 where "kHighUs = 12400"
definition kMediumUs :: u64 where "kMediumUs = 4500"
definition kLowUs :: u64 where "kLowUs = 2500"
definition kSoftResetUs :: u64 where "kSoftResetUs = 1500"
definition kStatusAlert :: u16 where "kStatusAlert = 0x8000"
definition kStatusHeater :: u16 where "kStatusHeater = 0x2000"
definition kStatusReset :: u16 where "kStatusReset = 0x0010"
definition kStatusCommand :: u16 where "kStatusCommand = 0x0002"

text \<open>The array of samples is not initialised; \<open>samples\<close> is what memory held.\<close>

definition new_sht30 :: "bytes \<Rightarrow> sht30" where
  "new_sht30 samples = \<lparr>sh_status = kStatusAlert OR kStatusReset, sh_pending = ShtNothing, sh_stretch = False,
     sh_ready_at_us = 0, sh_samples = samples, sh_sample_count = 0, sh_next_sample = 0, sh_result = replicate 4 0,
     sh_held = replicate 4 0, sh_holding = False, sh_after_reset = False, sh_stretch_limit_us = 0,
     sh_measurements = 0, sh_refused = 0, sh_stretched = 0, sh_gave_up = 0\<rparr>"

section \<open>Methods\<close>

definition sht_crc_bit :: "u8 \<Rightarrow> u8" where
  "sht_crc_bit crc = (if crc AND 0x80 \<noteq> 0 then push_bit 1 crc XOR 0x31 else push_bit 1 crc)"

definition sht_crc_byte :: "u8 \<Rightarrow> u8 \<Rightarrow> u8" where
  "sht_crc_byte crc b = (sht_crc_bit ^^ 8) (crc XOR b)"

definition sht_crc8 :: "bytes \<Rightarrow> u8" where
  "sht_crc8 bs = foldl sht_crc_byte 0xFF bs"

definition sht_reset :: "sht30 \<Rightarrow> sht30" where
  "sht_reset d = d\<lparr>sh_status := kStatusAlert OR kStatusReset, sh_pending := ShtNothing, sh_holding := False,
     sh_after_reset := False, sh_stretch := False, sh_ready_at_us := 0, sh_next_sample := 0,
     sh_measurements := 0, sh_refused := 0, sh_stretched := 0, sh_gave_up := 0\<rparr>"

definition sht_busy :: "u64 \<Rightarrow> sht30 \<Rightarrow> bool" where
  "sht_busy t d \<longleftrightarrow> t < sh_ready_at_us d"

definition duration_us :: "repeatability \<Rightarrow> u64" where
  "duration_us r = (case r of ShtHigh \<Rightarrow> kHighUs | ShtMedium \<Rightarrow> kMediumUs | ShtLow \<Rightarrow> kLowUs)"

definition sht_keep :: "sht30 \<Rightarrow> sht30" where
  "sht_keep d = (if sh_pending d = ShtMeasurement then d\<lparr>sh_held := sh_result d, sh_holding := True\<rparr> else d)"

definition sht_start :: "repeatability \<Rightarrow> bool \<Rightarrow> sht30 \<Rightarrow> ('m, sht30) prog" where
  "sht_start r stretch d =
     (let d1 = sht_keep d;
          d2 = if sh_sample_count d1 > 0
               then d1\<lparr>sh_result := take 4 (drop (sh_next_sample d1 * 4) (sh_samples d1)),
                       sh_next_sample := (sh_next_sample d1 + 1) mod sh_sample_count d1\<rparr>
               else d1
      in now_then (\<lambda>now. Ret (d2\<lparr>sh_pending := ShtMeasurement, sh_stretch := stretch,
           sh_ready_at_us := now + duration_us r, sh_measurements := sh_measurements d2 + 1\<rparr>)))"

definition sht_command :: "u16 \<Rightarrow> u64 \<Rightarrow> sht30 \<Rightarrow> ('m, u8 \<times> sht30) prog" where
  "sht_command command t d =
     (let ack = (\<lambda>d. Ret (kI2cAck, d)); measure = (\<lambda>r s. andThen (sht_start r s d) ack)
      in if command = 0x2400 then measure ShtHigh False
         else if command = 0x240B then measure ShtMedium False
         else if command = 0x2416 then measure ShtLow False
         else if command = 0x2C06 then measure ShtHigh True
         else if command = 0x2C0D then measure ShtMedium True
         else if command = 0x2C10 then measure ShtLow True
         else if command = 0xF32D then ack (d\<lparr>sh_pending := ShtStatus\<rparr>)
         else if command = 0x3041 then ack (d\<lparr>sh_status := sh_status d AND NOT (kStatusAlert OR kStatusReset)\<rparr>)
         else if command = 0x306D then ack (d\<lparr>sh_status := sh_status d OR kStatusHeater\<rparr>)
         else if command = 0x3066 then ack (d\<lparr>sh_status := sh_status d AND NOT kStatusHeater\<rparr>)
         else if command = 0x3093 then ack (d\<lparr>sh_pending := ShtNothing\<rparr>)
         else if command = 0x30A2 then
           ack ((sht_keep d)\<lparr>sh_status := kStatusAlert OR kStatusReset, sh_pending := ShtReset,
                  sh_after_reset := True, sh_ready_at_us := t + kSoftResetUs\<rparr>)
         else note_then (''command '' @ hex4 command @ '' not modelled'')
                (Ret (kI2cDataNack, d\<lparr>sh_status := sh_status d OR kStatusCommand\<rparr>)))"

definition sht_i2cWrite :: "bytes \<Rightarrow> i2c_transfer \<Rightarrow> sht30 \<Rightarrow> ('m, u8 \<times> sht30) prog" where
  "sht_i2cWrite data xfer d0 = now_then (\<lambda>t.
     let d = d0\<lparr>sh_after_reset := False\<rparr>
     in if sht_busy t d then
          Ret (if sh_pending d = ShtReset then kI2cDataNack else kI2cAddressNack, d\<lparr>sh_refused := sh_refused d + 1\<rparr>)
        else if length data = 0 then Ret (kI2cAck, d)
        else if length data \<noteq> 2 then Ret (kI2cDataNack, d\<lparr>sh_status := sh_status d OR kStatusCommand\<rparr>)
        else sht_command (push_bit 8 (ucast (data ! 0)) OR ucast (data ! 1)) t
               (d\<lparr>sh_status := sh_status d AND NOT kStatusCommand\<rparr>))"

fun sht_answer :: "nat \<Rightarrow> bytes \<Rightarrow> bytes" where
  "sht_answer len (hi # lo # words) = take len [hi, lo, sht_crc8 [hi, lo]] @ sht_answer (len - 3) words"
| "sht_answer len _ = []"

definition read_of :: "bytes \<Rightarrow> sht30 \<Rightarrow> nat \<times> bytes \<times> sht30" where
  "read_of bs d = (length bs, bs, d)"

definition sht_read :: "nat \<Rightarrow> u64 \<Rightarrow> sht30 \<Rightarrow> nat \<times> bytes \<times> sht30" where
  "sht_read len t d =
     (if sht_busy t d \<and> sh_holding d \<and> len > 0 then read_of (sht_answer len (sh_held d)) (d\<lparr>sh_holding := False\<rparr>)
      else if sht_busy t d \<and> (sh_pending d \<noteq> ShtMeasurement \<or> \<not> sh_stretch d) then
        read_of [] (d\<lparr>sh_refused := sh_refused d + 1\<rparr>)
      else if sht_busy t d \<and> sh_stretch_limit_us d \<noteq> 0 \<and> sh_ready_at_us d - t > ucast (sh_stretch_limit_us d) then
        read_of [] (d\<lparr>sh_gave_up := sh_gave_up d + 1\<rparr>)
      else let d1 = if sht_busy t d then d\<lparr>sh_stretched := sh_stretched d + 1\<rparr> else d
           in if len = 0 then read_of [] d1
              else if sh_after_reset d1 then
                (let bs = sht_answer len [0, 0] in read_of (bs @ replicate (len - length bs) 0xFF) d1)
              else if sh_pending d1 = ShtMeasurement then
                read_of (sht_answer len (sh_result d1)) (d1\<lparr>sh_pending := ShtNothing, sh_holding := False\<rparr>)
              else if sh_pending d1 = ShtStatus then
                read_of (sht_answer len [ucast (drop_bit 8 (sh_status d1)), ucast (sh_status d1)])
                  (d1\<lparr>sh_pending := ShtNothing\<rparr>)
              else read_of [] d1)"

definition sht_i2cRead :: "nat \<Rightarrow> i2c_transfer \<Rightarrow> sht30 \<Rightarrow> ('m, nat \<times> bytes \<times> sht30) prog" where
  "sht_i2cRead len xfer d = now_then (\<lambda>t. Ret (sht_read len t d))"

definition sht_set :: "u8 \<Rightarrow> bytes \<Rightarrow> sht30 \<Rightarrow> bool \<times> sht30" where
  "sht_set channel data d =
     (if channel = 0 then
        if length data = 0 \<or> length data mod 4 \<noteq> 0 \<or> length data > kMaxSamples * 4 then (False, d)
        else (True, d\<lparr>sh_samples := data @ drop (length data) (sh_samples d), sh_sample_count := length data div 4,
                     sh_next_sample := 0\<rparr>)
      else if channel = 1 then
        if length data \<noteq> 4 then (False, d)
        else (True, d\<lparr>sh_stretch_limit_us := push_bit 24 (ucast (data ! 0)) OR push_bit 16 (ucast (data ! 1)) OR
                       push_bit 8 (ucast (data ! 2)) OR ucast (data ! 3)\<rparr>)
      else (False, d))"

definition sht_channelWrite :: "u8 \<Rightarrow> bytes \<Rightarrow> sht30 \<Rightarrow> ('m, bool \<times> sht30) prog" where
  "sht_channelWrite channel data d = Ret (sht_set channel data d)"

definition sht_channelRead :: "u8 \<Rightarrow> nat \<Rightarrow> sht30 \<Rightarrow> channel_answer" where
  "sht_channelRead channel cap d =
     (if channel = 0 then
        (let need = sh_sample_count d * 4 in Some (need, take (min need cap) (sh_samples d)))
      else if channel = 1 then
        (let v = sh_stretch_limit_us d
         in Some (4, take (min cap 4) [ucast (drop_bit 24 v), ucast (drop_bit 16 v), ucast (drop_bit 8 v), ucast v]))
      else None)"

definition sht_dump :: "sht30 \<Rightarrow> string" where
  "sht_dump d = ''sht30 status='' @ hex4 (sh_status d) @ '' measurements='' @ decw (sh_measurements d) @
     '' refused='' @ decw (sh_refused d) @ '' stretched='' @ decw (sh_stretched d) @ '' gave_up='' @ decw (sh_gave_up d)"

definition sht30_device :: "('m, sht30) device" where
  "sht30_device = (base_device sht_reset)\<lparr>
     dv_i2c_write := sht_i2cWrite, dv_i2c_read := sht_i2cRead,
     dv_channel_write := sht_channelWrite, dv_channel_read := sht_channelRead, dv_dump := sht_dump\<rparr>"

section \<open>Checksums\<close>

lemma sht_crc_self: "sht_crc8 (bs @ [sht_crc8 bs]) = 0"
proof -
  have "(sht_crc_bit ^^ n) 0 = 0" for n by (induction n) (simp_all add: sht_crc_bit_def)
  then show ?thesis by (simp add: sht_crc8_def sht_crc_byte_def del: funpow.simps)
qed

section \<open>Conversations\<close>

definition measure_command :: "repeatability \<Rightarrow> bool \<Rightarrow> bytes" where
  "measure_command r stretch =
     (case r of
        ShtHigh \<Rightarrow> if stretch then [0x2C, 0x06] else [0x24, 0x00]
      | ShtMedium \<Rightarrow> if stretch then [0x2C, 0x0D] else [0x24, 0x0B]
      | ShtLow \<Rightarrow> if stretch then [0x2C, 0x10] else [0x24, 0x16])"

lemma measure_run:
  assumes "\<not> sht_busy (hp_now hp p) d"
  shows "run_prog hp (sht_i2cWrite (measure_command r stretch) xfer d) p =
    (case run_prog hp (sht_start r stretch (d\<lparr>sh_after_reset := False, sh_status := sh_status d AND NOT kStatusCommand\<rparr>)) p of
       (d1, p1) \<Rightarrow> ((kI2cAck, d1), p1))"
  using assms
  by (cases r; cases stretch) (simp_all add: sht_i2cWrite_def measure_command_def sht_command_def sht_busy_def Let_def)

definition word_reply :: "bytes \<Rightarrow> bytes" where
  "word_reply pair = [pair ! 0, pair ! 1, sht_crc8 [pair ! 0, pair ! 1], pair ! 2, pair ! 3, sht_crc8 [pair ! 2, pair ! 3]]"

lemma answer_pair: "length pair = 4 \<Longrightarrow> sht_answer 6 pair = word_reply pair"
  by (auto simp: length_Suc_conv numeral_eq_Suc word_reply_def)

lemma word_reply_checks:
  "sht_crc8 (take 3 (word_reply pair)) = 0" "sht_crc8 (drop 3 (word_reply pair)) = 0"
  using sht_crc_self [of "[pair ! 0, pair ! 1]"] sht_crc_self [of "[pair ! 2, pair ! 3]"]
  by (simp_all add: word_reply_def)

section \<open>Properties\<close>

text \<open>C30: a measurement is refused until it is ready, read once, and checks. A single-shot command to an
  idle sensor is acknowledged and takes the duration of its repeatability. Until then a read
  gets nothing and any command an address refusal, unless the command asked for clock
  stretching and the master waits, which gives the result at once; from then on a read of
  six bytes gets the current sample as two words, each with a checksum that makes the
  whole check to zero, and a further read gets nothing.\<close>

theorem sht30_measurement_read_once:
  "\<not> sht_busy (hp_now hp p) d \<Longrightarrow> sh_pending d \<noteq> ShtMeasurement \<Longrightarrow> \<not> sh_holding d \<Longrightarrow> 0 < sh_sample_count d \<Longrightarrow>
   pair = take 4 (drop (sh_next_sample d * 4) (sh_samples d)) \<Longrightarrow> length pair = 4 \<Longrightarrow>
   run_prog hp (sht_i2cWrite (measure_command r stretch) xfer d) p = ((st, d1), p1) \<Longrightarrow>
   st = kI2cAck \<and> p1 = p \<and> sh_ready_at_us d1 = hp_now hp p + duration_us r \<and>
   (\<forall>t len. t < sh_ready_at_us d1 \<longrightarrow> \<not> stretch \<longrightarrow>
      sht_read len t d1 = (0, [], d1\<lparr>sh_refused := sh_refused d1 + 1\<rparr>)) \<and>
   (\<forall>hp' p' data. hp_now hp' p' < sh_ready_at_us d1 \<longrightarrow>
      run_prog hp' (sht_i2cWrite data xfer d1) p' = ((kI2cAddressNack, d1\<lparr>sh_refused := sh_refused d1 + 1\<rparr>), (p' :: 'q))) \<and>
   (\<forall>t. sh_ready_at_us d1 \<le> t \<or> stretch \<and> sh_stretch_limit_us d1 = 0 \<longrightarrow>
      (\<exists>d2. sht_read 6 t d1 = (6, word_reply pair, d2) \<and>
         (\<forall>t' len. sh_ready_at_us d1 \<le> t' \<longrightarrow> sht_read len t' d2 = (0, [], d2)))) \<and>
   sht_crc8 (take 3 (word_reply pair)) = 0 \<and> sht_crc8 (drop 3 (word_reply pair)) = 0"
proof -
  assume idle: "\<not> sht_busy (hp_now hp p) d" and d: "sh_pending d \<noteq> ShtMeasurement" "\<not> sh_holding d" "0 < sh_sample_count d"
    and pair: "pair = take 4 (drop (sh_next_sample d * 4) (sh_samples d))" "length pair = 4"
    and run: "run_prog hp (sht_i2cWrite (measure_command r stretch) xfer d) p = ((st, d1), p1)"
  have d1: "st = kI2cAck" "p1 = p" "sh_ready_at_us d1 = hp_now hp p + duration_us r" "sh_pending d1 = ShtMeasurement"
    "sh_stretch d1 = stretch" "sh_result d1 = pair" "\<not> sh_holding d1" "\<not> sh_after_reset d1"
    using run measure_run [OF idle, of r stretch xfer] d pair
    by (auto simp: sht_start_def sht_keep_def Let_def)
  have early: "sht_read len t d1 = (0, [], d1\<lparr>sh_refused := sh_refused d1 + 1\<rparr>)"
    if "t < sh_ready_at_us d1" "\<not> stretch" for t len
    using that d1(4-8) by (simp add: sht_read_def sht_busy_def read_of_def)
  have nack: "run_prog hp' (sht_i2cWrite data xfer d1) p' = ((kI2cAddressNack, d1\<lparr>sh_refused := sh_refused d1 + 1\<rparr>), p')"
    if "hp_now hp' p' < sh_ready_at_us d1" for hp' :: "('q, 'c) host_port" and p' data
  proof -
    have "d1\<lparr>sh_after_reset := False\<rparr> = d1" using d1(8) by simp
    then show ?thesis using that d1(4) by (simp add: sht_i2cWrite_def sht_busy_def)
  qed
  define d2 where "d2 t = (if sht_busy t d1 then d1\<lparr>sh_stretched := sh_stretched d1 + 1\<rparr> else d1)
      \<lparr>sh_pending := ShtNothing, sh_holding := False\<rparr>" for t
  have len: "length (word_reply pair) = 6" by (simp add: word_reply_def)
  have got: "sht_read 6 t d1 = (6, word_reply pair, d2 t)"
    if "sh_ready_at_us d1 \<le> t \<or> stretch \<and> sh_stretch_limit_us d1 = 0" for t
    using that d1(4-8) answer_pair [OF pair(2)] len
    by (auto simp: sht_read_def sht_busy_def read_of_def d2_def Let_def)
  have once: "sht_read len t' (d2 t) = (0, [], d2 t)" if "sh_ready_at_us d1 \<le> t'" for t t' len
    using that d1(8) by (auto simp: sht_read_def sht_busy_def read_of_def d2_def Let_def)
  show ?thesis using d1(1-3) early nack got once word_reply_checks by blast
qed

theorem sht30_measurement_read_once_witness:
  "\<exists>d1 d2. run_prog (bench_port 0) (sht_i2cWrite (measure_command ShtLow False) \<lparr>xstop = True, xcontinued = False\<rparr>
      (snd (sht_set 0 [0x66, 0x12, 0x80, 0x34] (new_sht30 (replicate 64 0))))) (new_bench 10) = ((kI2cAck, d1), new_bench 10) \<and>
    sht_read 6 2510 d1 = (6, word_reply [0x66, 0x12, 0x80, 0x34], d2) \<and> sht_read 6 2511 d2 = (0, [], d2)"
proof -
  let ?d = "snd (sht_set 0 [0x66, 0x12, 0x80, 0x34] (new_sht30 (replicate 64 0)))"
  let ?x = "\<lparr>xstop = True, xcontinued = False\<rparr>"
  let ?pair = "[0x66, 0x12, 0x80, 0x34] :: bytes"
  have d: "\<not> sht_busy (hp_now (bench_port 0) (new_bench 10)) ?d" "sh_pending ?d \<noteq> ShtMeasurement" "\<not> sh_holding ?d"
    "0 < sh_sample_count ?d" "?pair = take 4 (drop (sh_next_sample ?d * 4) (sh_samples ?d))" "length ?pair = 4"
    by (simp_all add: sht_set_def new_sht30_def sht_busy_def kMaxSamples_def)
  obtain st d1 p1 where run: "run_prog (bench_port 0) (sht_i2cWrite (measure_command ShtLow False) ?x ?d) (new_bench 10) = ((st, d1), p1)"
    by (metis surj_pair)
  note m = sht30_measurement_read_once [OF d run]
  have "sh_ready_at_us d1 = hp_now (bench_port 0) (new_bench 10) + duration_us ShtLow" using m by blast
  then have ready: "sh_ready_at_us d1 = 2510" by (simp add: new_bench_def duration_us_def kLowUs_def)
  have "\<exists>d2. sht_read 6 t d1 = (6, word_reply ?pair, d2) \<and> (\<forall>t' len. sh_ready_at_us d1 \<le> t' \<longrightarrow> sht_read len t' d2 = (0, [], d2))"
    if "sh_ready_at_us d1 \<le> t" for t
    using m that by blast
  from this [unfolded ready] obtain d2 where "sht_read 6 2510 d1 = (6, word_reply ?pair, d2)" "\<forall>t' len. 2510 \<le> t' \<longrightarrow> sht_read len t' d2 = (0, [], d2)"
    by (metis order_refl)
  moreover have "st = kI2cAck" "p1 = new_bench 10" using m by blast+
  ultimately show ?thesis using run by (intro exI [of _ d1] exI [of _ d2]) simp
qed

text \<open>
  The windows in which an unread result goes another way than the comments of the code say: a
  read just after a soft reset is handed the kept result before any command, and a status
  request throws an unread result away.
\<close>

lemma sht30_reset_window_hands_out_result:
  assumes "\<not> sht_busy t d" "sh_pending d = ShtMeasurement" "length (sh_result d) = 4"
    and "hp_now hp p = t" "unat t + unat kSoftResetUs < 2 ^ 64" "t' < t + kSoftResetUs"
  shows "\<exists>d1. run_prog hp (sht_i2cWrite [0x30, 0xA2] xfer d) p = ((kI2cAck, d1), p) \<and>
    fst (snd (sht_read 6 t' d1)) = word_reply (sh_result d)"
  using assms answer_pair [of "sh_result d"]
  by (simp add: sht_i2cWrite_def sht_command_def sht_busy_def sht_keep_def sht_read_def read_of_def Let_def)

lemma sht30_status_discards_result:
  assumes "\<not> sht_busy t d" "sh_pending d = ShtMeasurement" "\<not> sh_holding d" "hp_now hp p = t"
  shows "\<exists>d1. run_prog hp (sht_i2cWrite [0xF3, 0x2D] xfer d) p = ((kI2cAck, d1), p) \<and>
    sh_pending d1 = ShtStatus \<and> \<not> sh_holding d1"
  using assms by (simp add: sht_i2cWrite_def sht_command_def sht_busy_def Let_def)

end
