(* ===== verification/Modbus_Model.thy ===== *)
theory Modbus_Model
  imports Device_Calls
begin

text \<open>
  The Modbus RTU slave of \<open>src/devices/src/unit_modbus_model.h\<close> and \<open>.cpp\<close>: binary frames on
  a serial line, framed by silence, with an address and a CRC, and four registers.
\<close>

section \<open>State\<close>

record modbus =
  mb_frame :: bytes
  mb_frame_length :: nat
  mb_idle_at_us :: u64
  mb_pending :: bool
  mb_registers :: "u16 list"
  mb_answered :: u32
  mb_bad_crc :: u32
  mb_foreign :: u32

definition kAddress :: u8 where "kAddress = 0x11"
definition kFuncReadHolding :: u8 where "kFuncReadHolding = 0x03"
definition kRegisterCount :: nat where "kRegisterCount = 4"
definition kFrameGapUs :: u64 where "kFrameGapUs = 1500"
definition kFrameBuffer :: nat where "kFrameBuffer = 16"

definition new_modbus :: modbus where
  "new_modbus = \<lparr>mb_frame = replicate kFrameBuffer 0, mb_frame_length = 0, mb_idle_at_us = 0, mb_pending = False,
     mb_registers = replicate kRegisterCount 0, mb_answered = 0, mb_bad_crc = 0, mb_foreign = 0\<rparr>"

section \<open>Methods\<close>

definition crc16_bit :: "u16 \<Rightarrow> u16" where
  "crc16_bit crc = (if crc AND 1 \<noteq> 0 then drop_bit 1 crc XOR 0xA001 else drop_bit 1 crc)"

definition crc16_byte :: "u16 \<Rightarrow> u8 \<Rightarrow> u16" where
  "crc16_byte crc b = (crc16_bit ^^ 8) (crc XOR ucast b)"

definition crc16 :: "bytes \<Rightarrow> u16" where
  "crc16 data = foldl crc16_byte 0xFFFF data"

definition modbus_reset :: "modbus \<Rightarrow> modbus" where
  "modbus_reset d = d\<lparr>mb_frame_length := 0, mb_idle_at_us := 0, mb_pending := False,
     mb_registers := map (\<lambda>i. 0x1000 + of_nat i) [0..<kRegisterCount],
     mb_answered := 0, mb_bad_crc := 0, mb_foreign := 0\<rparr>"

text \<open>Bytes beyond the buffer are dropped.\<close>

definition modbus_take :: "bytes \<Rightarrow> modbus \<Rightarrow> modbus" where
  "modbus_take data d =
     (let n = mb_frame_length d; bs = take (kFrameBuffer - n) data
      in d\<lparr>mb_frame := take n (mb_frame d) @ bs @ drop (n + length bs) (mb_frame d), mb_frame_length := n + length bs\<rparr>)"

definition modbus_serialIn :: "bytes \<Rightarrow> modbus \<Rightarrow> ('m, modbus) prog" where
  "modbus_serialIn data d = Attached (\<lambda>att.
     if \<not> att then Ret d
     else let d1 = modbus_take data d
          in Now (\<lambda>now. let d2 = d1\<lparr>mb_idle_at_us := now + kFrameGapUs, mb_pending := True\<rparr>
                        in RequestWake (mb_idle_at_us d2) (\<lambda>_. Ret d2)))"

definition be16 :: "u8 \<Rightarrow> u8 \<Rightarrow> u16" where
  "be16 hi lo = push_bit 8 (ucast hi) OR ucast lo"

definition reply_head :: "modbus \<Rightarrow> nat \<Rightarrow> nat \<Rightarrow> bytes" where
  "reply_head d first count = [kAddress, kFuncReadHolding, of_nat (count * 2)] @
     concat (map (\<lambda>i. let v = mb_registers d ! (first + i) in [ucast (drop_bit 8 v), ucast (v AND 0xFF)]) [0..<count])"

definition modbus_reply :: "modbus \<Rightarrow> nat \<Rightarrow> nat \<Rightarrow> bytes" where
  "modbus_reply d first count =
     (let body = reply_head d first count; crc = crc16 body in body @ [ucast (crc AND 0xFF), ucast (drop_bit 8 crc)])"

text \<open>\<open>first + count\<close> is a sum of integers, wider than the two half words.\<close>

definition modbus_handleFrame :: "modbus \<Rightarrow> ('m, modbus) prog" where
  "modbus_handleFrame d = Attached (\<lambda>att.
     let n = mb_frame_length d; f = mb_frame d
     in if n < 4 \<or> \<not> att then Ret d
        else if be16 (f ! (n - 1)) (f ! (n - 2)) \<noteq> crc16 (take (n - 2) f) then
          Diagnose ''frame dropped: bad crc'' (\<lambda>_. Ret (d\<lparr>mb_bad_crc := mb_bad_crc d + 1\<rparr>))
        else if f ! 0 \<noteq> kAddress then Ret (d\<lparr>mb_foreign := mb_foreign d + 1\<rparr>)
        else if f ! 1 \<noteq> kFuncReadHolding \<or> n \<noteq> 8 then Diagnose ''unsupported function'' (\<lambda>_. Ret d)
        else let first = unat (be16 (f ! 2) (f ! 3)); count = unat (be16 (f ! 4) (f ! 5))
             in if first + count > kRegisterCount \<or> count = 0 then Diagnose ''register out of range'' (\<lambda>_. Ret d)
                else SerialOut (modbus_reply d first count) (\<lambda>_. Ret (d\<lparr>mb_answered := mb_answered d + 1\<rparr>)))"

definition modbus_advanceTo :: "u64 \<Rightarrow> modbus \<Rightarrow> ('m, modbus) prog" where
  "modbus_advanceTo nowUs d =
     (if \<not> mb_pending d \<or> nowUs < mb_idle_at_us d then Ret d
      else andThen (modbus_handleFrame (d\<lparr>mb_pending := False\<rparr>)) (\<lambda>d1. Ret (d1\<lparr>mb_frame_length := 0\<rparr>)))"

definition modbus_set :: "u8 \<Rightarrow> bytes \<Rightarrow> modbus \<Rightarrow> bool \<times> modbus" where
  "modbus_set channel data d =
     (if channel \<noteq> 0 \<or> length data \<noteq> 3 then (False, d)
      else if unat (data ! 0) \<ge> kRegisterCount then (False, d)
      else (True, d\<lparr>mb_registers := (mb_registers d)[unat (data ! 0) := be16 (data ! 1) (data ! 2)]\<rparr>))"

definition modbus_channelWrite :: "u8 \<Rightarrow> bytes \<Rightarrow> modbus \<Rightarrow> ('m, bool \<times> modbus) prog" where
  "modbus_channelWrite channel data d = Ret (modbus_set channel data d)"

definition modbus_dump :: "modbus \<Rightarrow> string" where
  "modbus_dump d = ''modbus answered='' @ decw (mb_answered d) @ '' bad_crc='' @ decw (mb_bad_crc d) @
     '' foreign='' @ decw (mb_foreign d) @ '' r0='' @ hex4 (mb_registers d ! 0)"

definition modbus_device :: "('m, modbus) device" where
  "modbus_device = (base_device modbus_reset)\<lparr>
     dv_serial_in := modbus_serialIn, dv_advance_to := modbus_advanceTo,
     dv_channel_write := modbus_channelWrite, dv_dump := modbus_dump\<rparr>"

section \<open>Bytes and half words\<close>

lemma be16_split [simp]: "be16 (ucast (drop_bit 8 w)) (ucast (w AND 0xFF)) = w"
proof (rule bit_word_eqI)
  fix n
  assume n: "n < LENGTH(16)"
  have mask: "(0xFF :: u16) = mask 8" by (simp add: mask_eq_exp_minus_1)
  show "bit (be16 (ucast (drop_bit 8 w)) (ucast (w AND 0xFF))) n = bit w n"
    unfolding be16_def mask using n
    by (cases "n < 8") (simp_all del: push_bit_numeral
        add: bit_or_iff bit_push_bit_iff bit_ucast_iff bit_drop_bit_eq bit_and_iff bit_mask_iff, auto)
qed

lemma bit_be16: "bit (be16 x y) n \<longleftrightarrow> (if n < 8 then bit y n else bit x (n - 8) \<and> n < 16)"
  unfolding be16_def
  by (cases "n < 8") (auto simp del: push_bit_numeral simp: bit_or_iff bit_push_bit_iff bit_ucast_iff dest: bit_imp_le_length)

lemma be16_inject:
  assumes "be16 a b = be16 c d"
  shows "a = c \<and> b = d"
proof -
  have "bit a n = bit c n" if "n < LENGTH(8)" for n
    using bit_be16 [of a b "n + 8"] bit_be16 [of c d "n + 8"] assms that by simp
  moreover have "bit b n = bit d n" if "n < LENGTH(8)" for n
    using bit_be16 [of a b n] bit_be16 [of c d n] assms that by simp
  ultimately show ?thesis by (auto intro: bit_word_eqI)
qed

section \<open>The checksum\<close>

lemma crc16_bit_alt: "crc16_bit x = drop_bit 1 x XOR (if bit x 0 then 0xA001 else 0)"
  by (simp add: crc16_bit_def and_one_eq bit_0 odd_iff_mod_2_eq_one)

lemma crc16_bit_inject: "crc16_bit x = crc16_bit y \<longleftrightarrow> x = y"
proof
  assume eq: "crc16_bit x = crc16_bit y"
  have top: "bit (crc16_bit x) 15 \<longleftrightarrow> bit x 0" for x
    by (simp add: crc16_bit_alt bit_xor_iff bit_drop_bit_eq) (auto dest: bit_imp_le_length)
  have low: "bit x 0 = bit y 0" using top [of x] top [of y] eq by simp
  then have "drop_bit 1 x = drop_bit 1 y"
    using eq by (auto simp: crc16_bit_alt xor_cancel split: if_splits)
  then have "bit x (Suc n) = bit y (Suc n)" for n by (metis bit_drop_bit_eq add.commute comp_apply plus_1_eq_Suc)
  with low have "bit x n = bit y n" for n by (cases n) auto
  then show "x = y" by (auto intro: bit_eqI)
qed simp

lemma crc16_bits_inject: "(crc16_bit ^^ n) x = (crc16_bit ^^ n) y \<longleftrightarrow> x = y"
  by (induction n) (simp_all add: crc16_bit_inject)

lemma crc16_byte_inject:
  "crc16_byte c v = crc16_byte d v \<longleftrightarrow> c = d" "crc16_byte c v = crc16_byte c w \<longleftrightarrow> v = w"
proof -
  show "crc16_byte c v = crc16_byte d v \<longleftrightarrow> c = d" by (simp only: crc16_byte_def crc16_bits_inject xor_cancel)
  have "v = w" if "ucast v = (ucast w :: u16)"
  proof (rule bit_word_eqI)
    fix n
    assume "n < LENGTH(8)"
    moreover have "bit (ucast v :: u16) n = bit (ucast w :: u16) n" by (simp add: that)
    ultimately show "bit v n = bit w n" by (simp add: bit_ucast_iff)
  qed
  then have "ucast v = (ucast w :: u16) \<longleftrightarrow> v = w" by auto
  then show "crc16_byte c v = crc16_byte c w \<longleftrightarrow> v = w"
    by (simp only: crc16_byte_def crc16_bits_inject xor_cancel xor.commute [of c])
qed

lemma crc16_fold_inject: "foldl crc16_byte c xs = foldl crc16_byte d xs \<longleftrightarrow> c = d"
  by (induction xs arbitrary: c d) (simp_all add: crc16_byte_inject)

text \<open>A change of one byte changes the checksum.\<close>

lemma crc16_one_byte:
  assumes "i < length xs" "x \<noteq> xs ! i"
  shows "crc16 (xs[i := x]) \<noteq> crc16 xs"
proof -
  let ?c = "foldl crc16_byte 0xFFFF (take i xs)"
  have "crc16 (xs[i := x]) = foldl crc16_byte (crc16_byte ?c x) (drop (Suc i) xs)"
    using assms(1) by (simp add: crc16_def upd_conv_take_nth_drop)
  moreover have "crc16 xs = foldl crc16_byte (crc16_byte ?c (xs ! i)) (drop (Suc i) xs)"
    by (subst id_take_nth_drop [OF assms(1)]) (simp add: crc16_def)
  ultimately show ?thesis using assms(2) by (simp add: crc16_fold_inject crc16_byte_inject)
qed

text \<open>A frame followed by its own checksum, low byte first, makes the whole check to zero.\<close>

definition with_crc :: "bytes \<Rightarrow> bytes" where
  "with_crc body = (let crc = crc16 body in body @ [ucast (crc AND 0xFF), ucast (drop_bit 8 crc)])"

lemma modbus_reply_with_crc: "modbus_reply d first count = with_crc (reply_head d first count)"
  by (simp add: modbus_reply_def with_crc_def Let_def)

section \<open>A line that falls silent\<close>

text \<open>The bytes of a frame arrive in pieces, each at its time.\<close>

fun modbus_hear :: "(u64 \<times> bytes) list \<Rightarrow> modbus \<Rightarrow> bench \<Rightarrow> modbus \<times> bench" where
  "modbus_hear [] d b = (d, b)"
| "modbus_hear ((t, bs) # pieces) d b =
     (case run_prog (bench_port 0) (modbus_serialIn bs d) (b\<lparr>bn_now := t\<rparr>) of (d1, b1) \<Rightarrow> modbus_hear pieces d1 b1)"

definition heard :: "(u64 \<times> bytes) list \<Rightarrow> bytes" where
  "heard pieces = concat (map snd pieces)"

lemma hear_pieces:
  assumes "length (mb_frame d) = kFrameBuffer" "mb_frame_length d + length (heard pieces) \<le> kFrameBuffer"
    and "modbus_hear pieces d b = (d1, b1)"
  shows "mb_frame d1 = take (mb_frame_length d) (mb_frame d) @ heard pieces @ drop (mb_frame_length d + length (heard pieces)) (mb_frame d) \<and>
    mb_frame_length d1 = mb_frame_length d + length (heard pieces) \<and> mb_registers d1 = mb_registers d \<and>
    mb_bad_crc d1 = mb_bad_crc d \<and> bn_serial b1 = bn_serial b \<and> bn_notes b1 = bn_notes b \<and>
    (pieces \<noteq> [] \<longrightarrow> mb_pending d1 \<and> mb_idle_at_us d1 = fst (last pieces) + kFrameGapUs)"
  using assms
proof (induction pieces d b rule: modbus_hear.induct)
  case (1 d b)
  then show ?case by (simp add: heard_def)
next
  case (2 t bs pieces d b)
  let ?n = "mb_frame_length d"
  let ?d = "d\<lparr>mb_frame := take ?n (mb_frame d) @ bs @ drop (?n + length bs) (mb_frame d), mb_frame_length := ?n + length bs,
      mb_idle_at_us := t + kFrameGapUs, mb_pending := True\<rparr>"
  let ?b = "b\<lparr>bn_now := t, bn_wakes := bn_wakes b @ [t + kFrameGapUs]\<rparr>"
  have fits: "?n + length bs \<le> kFrameBuffer" using 2(3) by (simp add: heard_def)
  then have run: "run_prog (bench_port 0) (modbus_serialIn bs d) (b\<lparr>bn_now := t\<rparr>) = (?d, ?b)"
    by (simp add: modbus_serialIn_def modbus_take_def Let_def)
  have rest: "modbus_hear pieces ?d ?b = (d1, b1)" using 2(4) run by simp
  have len: "length (mb_frame ?d) = kFrameBuffer" "mb_frame_length ?d + length (heard pieces) \<le> kFrameBuffer"
    using 2(2,3) fits by (simp_all add: heard_def)
  from 2(1) [OF run [symmetric] len rest] show ?case
    using 2(2) fits rest by (cases "pieces = []") (auto simp: heard_def add.assoc add.commute add.left_commute)
qed

definition read_request :: "nat \<Rightarrow> nat \<Rightarrow> bytes" where
  "read_request first count = with_crc [kAddress, kFuncReadHolding, 0, of_nat first, 0, of_nat count]"

lemma length_read_request [simp]: "length (read_request first count) = 8"
  by (simp add: read_request_def with_crc_def Let_def)

text \<open>What the slave checks of the bytes it heard.\<close>

definition crc_ok :: "bytes \<Rightarrow> bool" where
  "crc_ok f \<longleftrightarrow> be16 (f ! (length f - 1)) (f ! (length f - 2)) = crc16 (take (length f - 2) f)"

lemma crc_ok_with_crc [simp]: "crc_ok (with_crc body)"
  by (simp add: crc_ok_def with_crc_def Let_def nth_append)

lemma crc_one_byte:
  assumes "i < length (with_crc body)" "x \<noteq> with_crc body ! i"
  shows "\<not> crc_ok ((with_crc body)[i := x])"
proof
  let ?c = "crc16 body" and ?f = "(with_crc body)[i := x]"
  let ?lo = "ucast (?c AND 0xFF) :: u8" and ?hi = "ucast (drop_bit 8 ?c) :: u8"
  assume ok: "crc_ok ?f"
  have f: "with_crc body = body @ [?lo, ?hi]" by (simp add: with_crc_def Let_def)
  have c: "be16 ?hi ?lo = ?c" by (rule be16_split)
  consider "i < length body" | "i = length body" | "i = Suc (length body)" using assms(1) f by force
  then show False
  proof cases
    case 1
    then have g: "?f = body[i := x] @ [?lo, ?hi]" by (simp add: f list_update_append)
    have "crc16 (body[i := x]) = ?c" using ok c by (simp add: crc_ok_def g nth_append)
    moreover have "x \<noteq> body ! i" using 1 assms(2) by (simp add: f nth_append)
    ultimately show False using crc16_one_byte [OF 1] by blast
  next
    case 2
    then have g: "?f = body @ [x, ?hi]" by (simp add: f list_update_append)
    have "be16 ?hi x = be16 ?hi ?lo" using ok unfolding c by (simp add: crc_ok_def g nth_append)
    then show False using be16_inject assms(2) 2 by (fastforce simp: f nth_append)
  next
    case 3
    then have g: "?f = body @ [?lo, x]" by (simp add: f list_update_append)
    have "be16 x ?lo = be16 ?hi ?lo" using ok unfolding c by (simp add: crc_ok_def g nth_append)
    then show False using be16_inject assms(2) 3 by (fastforce simp: f nth_append)
  qed
qed

lemma handleFrame_bad_crc:
  assumes "mb_frame_length d = length f" "take (length f) (mb_frame d) = f" "4 \<le> length f" "\<not> crc_ok f"
  shows "run_prog (bench_port 0) (modbus_handleFrame d) b =
    (d\<lparr>mb_bad_crc := mb_bad_crc d + 1\<rparr>, b\<lparr>bn_notes := bn_notes b @ [''frame dropped: bad crc'']\<rparr>)"
proof -
  have nth: "mb_frame d ! i = f ! i" if "i < length f" for i using that assms(2) nth_take by metis
  have "take (length f - 2) (mb_frame d) = take (length f - 2) f"
    using arg_cong [OF assms(2), of "take (length f - 2)"] by simp
  then show ?thesis
    using assms nth [of "length f - 1"] nth [of "length f - 2"]
    by (simp add: modbus_handleFrame_def crc_ok_def Let_def)
qed

lemma handleFrame_read:
  assumes "mb_frame_length d = 8" "take 8 (mb_frame d) = read_request first count"
    and "first + count \<le> kRegisterCount" "0 < count"
  shows "run_prog (bench_port 0) (modbus_handleFrame d) b =
    (d\<lparr>mb_answered := mb_answered d + 1\<rparr>, b\<lparr>bn_serial := bn_serial b @ [modbus_reply d first count]\<rparr>)"
proof -
  let ?f = "read_request first count"
  have nth: "mb_frame d ! i = ?f ! i" if "i < 8" for i using that assms(2) nth_take by metis
  have take6: "take 6 (mb_frame d) = take 6 ?f" using arg_cong [OF assms(2), of "take 6"] by simp
  have crc: "be16 (?f ! 7) (?f ! 6) = crc16 (take 6 ?f)"
    using crc_ok_with_crc [of "[kAddress, kFuncReadHolding, 0, of_nat first, 0, of_nat count]"]
    unfolding crc_ok_def read_request_def [symmetric] by simp
  have small: "first \<le> 3" "count \<le> 4" using assms(3,4) by (simp_all add: kRegisterCount_def)
  have parts: "?f ! 0 = kAddress" "?f ! 1 = kFuncReadHolding" "?f ! 2 = 0" "?f ! 3 = of_nat first" "?f ! 4 = 0"
      "?f ! 5 = of_nat count" by (simp_all add: read_request_def with_crc_def Let_def)
  have word: "unat (be16 0 (of_nat n)) = n" if "n < 256" for n
    using that by (simp add: be16_def unat_of_nat unsigned_ucast_eq take_bit_eq_mod)
  show ?thesis
    using assms nth [of 0] nth [of 1] nth [of 2] nth [of 3] nth [of 4] nth [of 5] nth [of 6] nth [of 7] take6 crc parts small
    by (simp add: modbus_handleFrame_def Let_def word)
qed

section \<open>Properties\<close>

text \<open>C31: a register read over the line answers the registers, and a request damaged in one byte is
  never answered. The bytes of a frame may arrive in any pieces; once the line has been
  silent for the gap the slave answers the intact request with exactly one reply, the
  address, the function, the byte count and the registers in big endian order, followed
  by a checksum that holds; any change of any single byte of the request, the checksum
  bytes included, gets no reply, is counted and is reported.\<close>

theorem modbus_answers_intact_requests_only:
  "length (mb_frame d) = kFrameBuffer \<Longrightarrow> mb_frame_length d = 0 \<Longrightarrow> first + count \<le> kRegisterCount \<Longrightarrow> 0 < count \<Longrightarrow>
   pieces \<noteq> [] \<Longrightarrow> modbus_hear pieces d b = (d1, b1) \<Longrightarrow> fst (last pieces) + kFrameGapUs \<le> t \<Longrightarrow>
   run_prog (bench_port 0) (modbus_advanceTo t d1) b1 = (d2, b2) \<Longrightarrow>
   (heard pieces = read_request first count \<longrightarrow>
      bn_serial b2 = bn_serial b @ [with_crc ([kAddress, kFuncReadHolding, of_nat (2 * count)] @
        concat (map (\<lambda>r. [ucast (drop_bit 8 r), ucast (r AND 0xFF)]) (map (\<lambda>i. mb_registers d ! (first + i)) [0..<count])))] \<and>
      crc_ok (last (bn_serial b2)) \<and> bn_notes b2 = bn_notes b \<and> mb_frame_length d2 = 0) \<and>
   (\<forall>i x. i < 8 \<longrightarrow> x \<noteq> read_request first count ! i \<longrightarrow> heard pieces = (read_request first count)[i := x] \<longrightarrow>
      bn_serial b2 = bn_serial b \<and> mb_bad_crc d2 = mb_bad_crc d + 1 \<and>
      bn_notes b2 = bn_notes b @ [''frame dropped: bad crc''] \<and> mb_frame_length d2 = 0)"
proof -
  assume buf: "length (mb_frame d) = kFrameBuffer" "mb_frame_length d = 0" and range: "first + count \<le> kRegisterCount" "0 < count"
    and ne: "pieces \<noteq> []" and hear: "modbus_hear pieces d b = (d1, b1)" and t: "fst (last pieces) + kFrameGapUs \<le> t"
    and run: "run_prog (bench_port 0) (modbus_advanceTo t d1) b1 = (d2, b2)"
  let ?q = "read_request first count"
  have state: "mb_frame_length d1 = length f" "take (length f) (mb_frame d1) = f" "mb_registers d1 = mb_registers d"
      "mb_bad_crc d1 = mb_bad_crc d" "bn_serial b1 = bn_serial b" "bn_notes b1 = bn_notes b"
      "mb_pending d1" "\<not> t < mb_idle_at_us d1"
    if "heard pieces = f" "length f = 8" for f
    using hear_pieces [OF buf(1) _ hear] buf that ne t by (auto simp: kFrameBuffer_def not_less)
  have silent: "bn_serial b2 = bn_serial b \<and> mb_bad_crc d2 = mb_bad_crc d + 1 \<and>
      bn_notes b2 = bn_notes b @ [''frame dropped: bad crc''] \<and> mb_frame_length d2 = 0"
    if i: "i < 8" "x \<noteq> ?q ! i" and h: "heard pieces = ?q[i := x]" for i x
  proof -
    note s = state [OF h]
    have "\<not> crc_ok (?q[i := x])" using crc_one_byte [of i "[kAddress, kFuncReadHolding, 0, of_nat first, 0, of_nat count]" x, folded read_request_def] i
      by simp
    then show ?thesis
      using handleFrame_bad_crc [of "d1\<lparr>mb_pending := False\<rparr>" "?q[i := x]" b1] run s by (auto simp: modbus_advanceTo_def)
  qed
  have answered: "bn_serial b2 = bn_serial b @ [modbus_reply d first count] \<and> bn_notes b2 = bn_notes b \<and> mb_frame_length d2 = 0"
    if h: "heard pieces = ?q"
  proof -
    note s = state [OF h]
    have "modbus_reply (d1\<lparr>mb_pending := False\<rparr>) first count = modbus_reply d first count"
      using s(3) by (simp add: modbus_reply_def reply_head_def)
    then show ?thesis
      using handleFrame_read [of "d1\<lparr>mb_pending := False\<rparr>" first count b1] range run s by (auto simp: modbus_advanceTo_def)
  qed
  show ?thesis
    using silent answered
    by (simp add: modbus_reply_with_crc reply_head_def Let_def mult.commute comp_def)
qed

theorem modbus_answers_intact_requests_only_witness:
  "bn_serial (snd (run_prog (bench_port 0) (modbus_advanceTo 2000
      (fst (modbus_hear [(100, take 3 (read_request 1 2)), (400, drop 3 (read_request 1 2))] (modbus_reset new_modbus) (new_bench 0))))
      (snd (modbus_hear [(100, take 3 (read_request 1 2)), (400, drop 3 (read_request 1 2))] (modbus_reset new_modbus) (new_bench 0))))) =
   [with_crc [0x11, 0x03, 4, 0x10, 0x01, 0x10, 0x02]]"
proof -
  let ?d = "modbus_reset new_modbus" and ?ps = "[(100, take 3 (read_request 1 2)), (400, drop 3 (read_request 1 2))]"
  obtain d1 b1 where h: "modbus_hear ?ps ?d (new_bench 0) = (d1, b1)" by (metis surj_pair)
  obtain d2 b2 where r: "run_prog (bench_port 0) (modbus_advanceTo 2000 d1) b1 = (d2, b2)" by (metis surj_pair)
  have pre: "length (mb_frame ?d) = kFrameBuffer" "mb_frame_length ?d = 0" "1 + 2 \<le> kRegisterCount" "(0 :: nat) < 2"
    "?ps \<noteq> []" by (simp_all add: modbus_reset_def new_modbus_def kRegisterCount_def)
  have late: "fst (last ?ps) + kFrameGapUs \<le> 2000" by (simp add: kFrameGapUs_def)
  have "heard ?ps = read_request 1 2" by (simp add: heard_def)
  then have "bn_serial b2 = bn_serial (new_bench 0) @ [with_crc ([kAddress, kFuncReadHolding, of_nat (2 * 2)] @
        concat (map (\<lambda>r. [ucast (drop_bit 8 r), ucast (r AND 0xFF)]) (map (\<lambda>i. mb_registers ?d ! (1 + i)) [0..<2])))]"
    using modbus_answers_intact_requests_only [OF pre h late r] by blast
  then show ?thesis
    unfolding h fst_conv snd_conv r
    by (simp add: new_bench_def kAddress_def kFuncReadHolding_def modbus_reset_def kRegisterCount_def upt_rec)
qed

end
