(* ===== verification/Imu_Model.thy ===== *)
theory Imu_Model
  imports Device_Calls Bounded_Queue
begin

text \<open>
  The motion sensor with a sample buffer of \<open>src/devices/src/unit_imu_model.h\<close> and \<open>.cpp\<close>: it
  samples on its own schedule, loses samples aloud when the application is late, and drives
  an interrupt line by a watermark.
\<close>

section \<open>State\<close>

record imu =
  im_reg :: u8
  im_sampling :: bool
  im_next_sample_us :: u64
  im_value :: u16
  im_fifo :: "u16 list"
  im_count :: nat
  im_flags :: u8
  im_irq :: u8
  im_taken :: u32
  im_lost :: u32

definition kRegStatus :: u8 where "kRegStatus = 0x00"
definition kRegFifo :: u8 where "kRegFifo = 0x10"
definition kRegControl :: u8 where "kRegControl = 0x20"
definition kFlagOverflow :: u8 where "kFlagOverflow = 0x01"
definition kFifoDepth :: nat where "kFifoDepth = 16"
definition kWatermark :: nat where "kWatermark = 8"
definition kSampleUs :: u64 where "kSampleUs = 2500"

definition new_imu :: imu where
  "new_imu = \<lparr>im_reg = 0, im_sampling = False, im_next_sample_us = 0, im_value = 0, im_fifo = replicate kFifoDepth 0,
     im_count = 0, im_flags = 0, im_irq = 0, im_taken = 0, im_lost = 0\<rparr>"

section \<open>Methods\<close>

definition imu_reset :: "imu \<Rightarrow> imu" where
  "imu_reset d = new_imu"

definition imu_updateIrq :: "imu \<Rightarrow> ('m, imu) prog" where
  "imu_updateIrq d =
     (let want = if kWatermark \<le> im_count d then 1 else 0
      in if want = im_irq d then Ret d
         else let d1 = d\<lparr>im_irq := want\<rparr>
              in Attached (\<lambda>att. if att then LineOut 0 (im_irq d1) (Ret d1) else Ret d1))"

definition imu_i2cWrite :: "bytes \<Rightarrow> i2c_transfer \<Rightarrow> imu \<Rightarrow> ('m, u8 \<times> imu) prog" where
  "imu_i2cWrite data xfer d =
     (if data = [] then Ret (kI2cAddressNack, d)
      else let d1 = d\<lparr>im_reg := data ! 0\<rparr>
           in if im_reg d1 = kRegControl \<and> length data \<ge> 2 then
                (let wanted = (data ! 1 \<noteq> 0); done = (\<lambda>d. Ret (kI2cAck, d\<lparr>im_sampling := wanted\<rparr>))
                 in Attached (\<lambda>att. if wanted \<and> \<not> im_sampling d1 \<and> att
                      then Now (\<lambda>now. let d2 = d1\<lparr>im_next_sample_us := now + kSampleUs\<rparr>
                                      in RequestWake (im_next_sample_us d2) (\<lambda>_. done d2))
                      else done d1))
              else if im_reg d1 \<noteq> kRegStatus \<and> im_reg d1 \<noteq> kRegFifo \<and> im_reg d1 \<noteq> kRegControl then
                note_then ''write to unmapped register'' (Ret (kI2cDataNack, d1))
              else Ret (kI2cAck, d1))"

definition sample_bytes :: "u16 \<Rightarrow> bytes" where
  "sample_bytes v = [ucast (drop_bit 8 v), ucast (v AND 0xFF)]"

text \<open>The samples that stay move to the front of the array.\<close>

definition imu_drain :: "nat \<Rightarrow> imu \<Rightarrow> imu" where
  "imu_drain n d = d\<lparr>im_fifo := take (im_count d - n) (drop n (im_fifo d)) @ drop (im_count d - n) (im_fifo d),
     im_count := im_count d - n, im_taken := im_taken d + of_nat n\<rparr>"

definition imu_i2cRead :: "nat \<Rightarrow> i2c_transfer \<Rightarrow> imu \<Rightarrow> ('m, nat \<times> bytes \<times> imu) prog" where
  "imu_i2cRead len xfer d =
     (if im_reg d = kRegStatus then
        (if len < 2 then Ret (0, [], d)
         else Ret (2, [of_nat (im_count d), im_flags d], d\<lparr>im_flags := 0\<rparr>))
      else if im_reg d \<noteq> kRegFifo then Ret (0, [], d)
      else let samples = min (len div 2) (im_count d);
               out = concat (map sample_bytes (take samples (im_fifo d)))
           in andThen (imu_updateIrq (imu_drain samples d)) (\<lambda>d1. Ret (samples * 2, out, d1)))"

text \<open>One sample: kept if the buffer has room, counted as lost otherwise.\<close>

definition imu_store :: "u16 \<Rightarrow> imu \<Rightarrow> imu" where
  "imu_store v d =
     (if im_count d < kFifoDepth then d\<lparr>im_fifo := (im_fifo d)[im_count d := v], im_count := im_count d + 1\<rparr>
      else d\<lparr>im_lost := im_lost d + 1\<rparr>)"

definition imu_sample :: "imu \<Rightarrow> ('m, imu) prog" where
  "imu_sample d =
     (let d1 = imu_store (im_value d) d;
          later = (\<lambda>d. Ret (d\<lparr>im_next_sample_us := im_next_sample_us d + kSampleUs\<rparr>))
      in if \<not> im_count d < kFifoDepth \<and> im_flags d AND kFlagOverflow = 0 then
           (let d2 = d1\<lparr>im_flags := im_flags d1 OR kFlagOverflow\<rparr> in note_then ''fifo overflow: samples lost'' (later d2))
         else later d1)"

text \<open>
  The loop of \<open>advanceTo\<close>, with as many turns as samples fell due; they are enough while the
  time stays clear of the end of its 64-bit range (\<open>imu_loop_enough\<close>).
\<close>

definition imu_loop :: "nat \<Rightarrow> u64 \<Rightarrow> imu \<Rightarrow> ('m, imu) prog" where
  "imu_loop fuel nowUs = repeat_while (\<lambda>d. im_next_sample_us d \<le> nowUs) imu_sample fuel"

definition samples_due :: "u64 \<Rightarrow> imu \<Rightarrow> nat" where
  "samples_due nowUs d =
     (if im_next_sample_us d \<le> nowUs then unat (nowUs - im_next_sample_us d) div unat kSampleUs + 1 else 0)"

definition imu_advanceTo :: "u64 \<Rightarrow> imu \<Rightarrow> ('m, imu) prog" where
  "imu_advanceTo nowUs d =
     (if \<not> im_sampling d then Ret d
      else andThen (imu_loop (samples_due nowUs d) nowUs d) (\<lambda>d1.
             andThen (imu_updateIrq d1) (\<lambda>d2. wake_then (im_next_sample_us d2) (Ret d2))))"

definition imu_set :: "u8 \<Rightarrow> bytes \<Rightarrow> imu \<Rightarrow> bool \<times> imu" where
  "imu_set channel data d =
     (if channel \<noteq> 0 \<or> length data < 2 then (False, d)
      else (True, d\<lparr>im_value := push_bit 8 (ucast (data ! 0)) OR ucast (data ! 1)\<rparr>))"

definition imu_channelWrite :: "u8 \<Rightarrow> bytes \<Rightarrow> imu \<Rightarrow> ('m, bool \<times> imu) prog" where
  "imu_channelWrite channel data d = Ret (imu_set channel data d)"

definition imu_dump :: "imu \<Rightarrow> string" where
  "imu_dump d = ''imu on='' @ bool_dec (im_sampling d) @ '' count='' @ decu (im_count d) @ '' taken='' @ decw (im_taken d) @
     '' lost='' @ decw (im_lost d) @ '' irq='' @ decw (im_irq d)"

definition imu_device :: "('m, imu) device" where
  "imu_device = (base_device imu_reset)\<lparr>
     dv_i2c_write := imu_i2cWrite, dv_i2c_read := imu_i2cRead, dv_advance_to := imu_advanceTo,
     dv_channel_write := imu_channelWrite, dv_dump := imu_dump\<rparr>"

section \<open>The sample buffer is a bounded queue\<close>

definition imu_ok :: "imu \<Rightarrow> bool" where
  "imu_ok d \<longleftrightarrow> length (im_fifo d) = kFifoDepth \<and> im_count d \<le> kFifoDepth"

definition imu_items :: "imu \<Rightarrow> u16 list" where
  "imu_items d = take (im_count d) (im_fifo d)"

lemma length_imu_items: "imu_ok d \<Longrightarrow> length (imu_items d) = im_count d"
  by (simp add: imu_ok_def imu_items_def)

interpretation imu_buffer: bounded_queue imu_ok imu_items imu_store im_lost kFifoDepth
proof unfold_locales
  show "imu_ok (imu_store v d)" if "imu_ok d" for v d using that by (simp add: imu_ok_def imu_store_def)
  show "imu_items (imu_store v d) = imu_items d @ [v] \<and> im_lost (imu_store v d) = im_lost d"
    if "imu_ok d" "length (imu_items d) < kFifoDepth" for v d
    using that length_imu_items [OF that(1)]
    by (simp add: imu_items_def imu_store_def imu_ok_def take_Suc_conv_app_nth)
  show "imu_items (imu_store v d) = imu_items d \<and> im_lost (imu_store v d) = im_lost d + 1"
    if "imu_ok d" "\<not> length (imu_items d) < kFifoDepth" for v d
    using that length_imu_items [OF that(1)] by (simp add: imu_items_def imu_store_def)
qed

section \<open>One turn and the whole loop\<close>

lemma imu_store_fields [simp]:
  "im_sampling (imu_store v d) = im_sampling d" "im_value (imu_store v d) = im_value d"
  "im_next_sample_us (imu_store v d) = im_next_sample_us d" "im_flags (imu_store v d) = im_flags d"
  "im_irq (imu_store v d) = im_irq d" "im_taken (imu_store v d) = im_taken d" "im_reg (imu_store v d) = im_reg d"
  by (simp_all add: imu_store_def)

definition overflow_bit :: "bool \<Rightarrow> u8" where
  "overflow_bit full = (if full then kFlagOverflow else 0)"

definition overflow_note :: "bool \<Rightarrow> u8 \<Rightarrow> string list" where
  "overflow_note full flags = (if full \<and> flags AND kFlagOverflow = 0 then [''fifo overflow: samples lost''] else [])"

lemma flag_already_set: "flags AND kFlagOverflow \<noteq> 0 \<Longrightarrow> flags OR kFlagOverflow = flags"
  by (rule bit_word_eqI) (auto simp: kFlagOverflow_def and_one_eq bit_or_iff bit_1_iff bit_0 odd_iff_mod_2_eq_one)

lemma sample_run:
  "run_prog (bench_port 0) (imu_sample d) b =
     ((imu_store (im_value d) d)\<lparr>im_flags := im_flags d OR overflow_bit (\<not> im_count d < kFifoDepth),
        im_next_sample_us := im_next_sample_us d + kSampleUs\<rparr>,
      b\<lparr>bn_notes := bn_notes b @ overflow_note (\<not> im_count d < kFifoDepth) (im_flags d)\<rparr>)"
  using flag_already_set [of "im_flags d"]
  by (auto simp: imu_sample_def overflow_bit_def overflow_note_def Let_def)

lemma store_cong:
  "imu_items (fold imu_store vs (d\<lparr>im_flags := fl, im_next_sample_us := t\<rparr>)) = imu_items (fold imu_store vs d) \<and>
   im_lost (fold imu_store vs (d\<lparr>im_flags := fl, im_next_sample_us := t\<rparr>)) = im_lost (fold imu_store vs d)"
proof -
  have one: "imu_store v (d\<lparr>im_flags := fl, im_next_sample_us := t\<rparr>) = (imu_store v d)\<lparr>im_flags := fl, im_next_sample_us := t\<rparr>"
    for v and d :: imu by (simp add: imu_store_def)
  have "fold imu_store vs (d\<lparr>im_flags := fl, im_next_sample_us := t\<rparr>) = (fold imu_store vs d)\<lparr>im_flags := fl, im_next_sample_us := t\<rparr>"
    by (induction vs arbitrary: d) (simp_all add: one)
  then show ?thesis by (simp add: imu_items_def)
qed

lemma imu_loop_simps [simp]:
  "imu_loop 0 nowUs d = Ret d"
  "imu_loop (Suc fuel) nowUs d =
     (if im_next_sample_us d \<le> nowUs then andThen (imu_sample d) (imu_loop fuel nowUs) else Ret d)"
  by (simp_all add: imu_loop_def)

lemma loop_run:
  assumes "imu_ok d" "n = 0 \<or> unat (im_next_sample_us d) + 2500 * (n - 1) \<le> unat t" "unat t + 2500 < 2 ^ 64"
  shows "\<exists>d1. run_prog (bench_port 0) (imu_loop n t d) b =
      (d1, b\<lparr>bn_notes := bn_notes b @ overflow_note (kFifoDepth < im_count d + n) (im_flags d)\<rparr>) \<and> imu_ok d1 \<and>
    imu_items d1 = imu_items (fold imu_store (replicate n (im_value d)) d) \<and>
    im_lost d1 = im_lost (fold imu_store (replicate n (im_value d)) d) \<and>
    im_next_sample_us d1 = im_next_sample_us d + of_nat n * kSampleUs \<and>
    im_flags d1 = im_flags d OR overflow_bit (kFifoDepth < im_count d + n) \<and>
    im_irq d1 = im_irq d \<and> im_sampling d1 = im_sampling d \<and> im_value d1 = im_value d"
  using assms(1,2)
proof (induction n arbitrary: d b)
  case 0
  then show ?case by (auto simp: imu_ok_def overflow_note_def overflow_bit_def)
next
  case (Suc n)
  have due: "im_next_sample_us d \<le> t" using Suc.prems(2) by (simp add: word_le_nat_alt)
  let ?full = "\<not> im_count d < kFifoDepth"
  let ?d = "(imu_store (im_value d) d)\<lparr>im_flags := im_flags d OR overflow_bit ?full,
      im_next_sample_us := im_next_sample_us d + kSampleUs\<rparr>"
  have ok: "imu_ok ?d" using imu_buffer.keeps [OF Suc.prems(1), of "im_value d"] by (simp add: imu_ok_def)
  have "unat (im_next_sample_us d) + 2500 < 2 ^ 64" using Suc.prems(2) assms(3) by simp
  then have nxt: "unat (im_next_sample_us d + kSampleUs) = unat (im_next_sample_us d) + 2500"
    using unat_add_no_overflow [of "im_next_sample_us d" kSampleUs] by (simp add: kSampleUs_def)
  have later: "n = 0 \<or> unat (im_next_sample_us ?d) + 2500 * (n - 1) \<le> unat t"
    using Suc.prems(2) nxt by (cases n) simp_all
  have count: "im_count ?d = (if ?full then im_count d else im_count d + 1)" by (simp add: imu_store_def)
  have ovf: "kFifoDepth < im_count ?d + n \<or> ?full \<longleftrightarrow> kFifoDepth < im_count d + Suc n"
    using Suc.prems(1) by (auto simp: count imu_ok_def)
  have bits: "(fl OR overflow_bit a) OR overflow_bit c = fl OR overflow_bit (c \<or> a)" for fl a c
    by (cases a; cases c) (simp_all add: overflow_bit_def or.assoc)
  have said: "overflow_note a fl @ overflow_note c (fl OR overflow_bit a) = overflow_note (c \<or> a) fl" for fl a c
  proof -
    have "(fl OR kFlagOverflow) AND kFlagOverflow = kFlagOverflow"
      by (rule bit_word_eqI) (auto simp: bit_and_iff bit_or_iff)
    then have "(fl OR kFlagOverflow) AND kFlagOverflow \<noteq> 0" by (simp add: kFlagOverflow_def)
    then show ?thesis by (cases a; cases c) (simp_all add: overflow_note_def overflow_bit_def)
  qed
  let ?b = "b\<lparr>bn_notes := bn_notes b @ overflow_note ?full (im_flags d)\<rparr>"
  let ?all = "kFifoDepth < im_count d + Suc n"
  from Suc.IH [OF ok later, of ?b] obtain d1 where
    r: "run_prog (bench_port 0) (imu_loop n t ?d) ?b =
      (d1, ?b\<lparr>bn_notes := bn_notes ?b @ overflow_note (kFifoDepth < im_count ?d + n) (im_flags ?d)\<rparr>)"
    and d1: "imu_ok d1" "imu_items d1 = imu_items (fold imu_store (replicate n (im_value ?d)) ?d)"
      "im_lost d1 = im_lost (fold imu_store (replicate n (im_value ?d)) ?d)"
      "im_next_sample_us d1 = im_next_sample_us ?d + of_nat n * kSampleUs"
      "im_flags d1 = im_flags ?d OR overflow_bit (kFifoDepth < im_count ?d + n)"
      "im_irq d1 = im_irq ?d" "im_sampling d1 = im_sampling ?d" "im_value d1 = im_value ?d"
    by blast
  have flags: "im_flags d1 = im_flags d OR overflow_bit ?all"
    using d1(5) bits [of "im_flags d" ?full "kFifoDepth < im_count ?d + n"] ovf by simp
  have notes_all: "bn_notes ?b @ overflow_note (kFifoDepth < im_count ?d + n) (im_flags ?d) =
      bn_notes b @ overflow_note ?all (im_flags d)"
    using said [of ?full "im_flags d" "kFifoDepth < im_count ?d + n"] ovf by simp
  have "run_prog (bench_port 0) (imu_loop (Suc n) t d) b =
      (d1, b\<lparr>bn_notes := bn_notes b @ overflow_note ?all (im_flags d)\<rparr>)"
    using r notes_all due by (simp add: sample_run)
  moreover have "imu_items d1 = imu_items (fold imu_store (replicate (Suc n) (im_value d)) d)"
      "im_lost d1 = im_lost (fold imu_store (replicate (Suc n) (im_value d)) d)"
    using d1(2,3) store_cong [where vs = "replicate n (im_value d)" and fl = "im_flags d OR overflow_bit ?full"
        and t = "im_next_sample_us d + kSampleUs" and d = "imu_store (im_value d) d"]
    by (simp_all del: fold_replicate)
  ultimately show ?case
    using d1 flags by (intro exI [of _ d1]) (simp add: algebra_simps)
qed

lemma samples_due_bounds:
  assumes "im_next_sample_us d \<le> t"
  shows "samples_due t d = (unat t - unat (im_next_sample_us d)) div 2500 + 1"
    and "unat (im_next_sample_us d) + 2500 * (samples_due t d - 1) \<le> unat t"
    and "unat t < unat (im_next_sample_us d) + 2500 * samples_due t d"
proof -
  have diff: "unat (t - im_next_sample_us d) = unat t - unat (im_next_sample_us d)"
    using assms by (rule unat_sub)
  then show n: "samples_due t d = (unat t - unat (im_next_sample_us d)) div 2500 + 1"
    using assms by (simp add: samples_due_def kSampleUs_def)
  have le: "unat (im_next_sample_us d) \<le> unat t" using assms by (simp add: word_le_nat_alt)
  show "unat (im_next_sample_us d) + 2500 * (samples_due t d - 1) \<le> unat t" using le unfolding n by simp
  show "unat t < unat (im_next_sample_us d) + 2500 * samples_due t d" using le unfolding n by simp
qed

text \<open>The schedule does not wrap.\<close>

lemma imu_schedule:
  assumes "2500 * n + unat s < 2 ^ 64"
  shows "unat (s + of_nat n * kSampleUs) = unat s + 2500 * n"
proof -
  have "unat (of_nat n * kSampleUs) = 2500 * n"
    using assms of_nat_inverse [of "n * 2500" "of_nat n * kSampleUs :: u64"] by (simp add: kSampleUs_def)
  then show ?thesis using assms unat_add_no_overflow [of s "of_nat n * kSampleUs"] by simp
qed

text \<open>The fuel is enough: with more turns the loop does the same.\<close>

lemma imu_loop_enough:
  assumes "imu_ok d" "unat t + 2500 < 2 ^ 64"
  shows "run_prog (bench_port 0) (imu_loop (samples_due t d + k) t d) b = run_prog (bench_port 0) (imu_loop (samples_due t d) t d) b"
proof (cases "im_next_sample_us d \<le> t")
  case True
  note n = samples_due_bounds [OF True]
  from loop_run [OF assms(1) disjI2 [OF n(2)] assms(2), of b] obtain d1 b1 where
    r: "run_prog (bench_port 0) (imu_loop (samples_due t d) t d) b = (d1, b1)"
    and nxt: "im_next_sample_us d1 = im_next_sample_us d + of_nat (samples_due t d) * kSampleUs"
    by blast
  have "unat (im_next_sample_us d1) = unat (im_next_sample_us d) + 2500 * samples_due t d"
    unfolding nxt by (rule imu_schedule) (use n(2) assms(2) in simp)
  then have "\<not> im_next_sample_us d1 \<le> t" using n(3) by (simp add: word_le_nat_alt)
  then show ?thesis using repeat_while_enough [OF r [unfolded imu_loop_def], of k] r by (simp add: imu_loop_def)
next
  case False
  then show ?thesis by (simp add: imu_loop_def samples_due_def repeat_while_stops)
qed

section \<open>The interrupt line and the burst read\<close>

definition watermark_level :: "imu \<Rightarrow> u8" where
  "watermark_level d = (if kWatermark \<le> im_count d then 1 else 0)"

lemma updateIrq_run:
  "run_prog (bench_port 0) (imu_updateIrq d) b =
     (d\<lparr>im_irq := watermark_level d\<rparr>,
      b\<lparr>bn_lines := bn_lines b @ (if watermark_level d = im_irq d then [] else [(0, watermark_level d)])\<rparr>)"
  by (simp add: imu_updateIrq_def watermark_level_def Let_def)

lemma imu_drain_items:
  assumes "imu_ok d" "n \<le> im_count d"
  shows "imu_items (imu_drain n d) = drop n (imu_items d) \<and> imu_ok (imu_drain n d)"
  using assms by (auto simp: imu_items_def imu_drain_def imu_ok_def drop_take)

lemma imu_items_irq [simp]: "imu_items (d\<lparr>im_irq := x\<rparr>) = imu_items d"
  by (simp add: imu_items_def)

lemma imu_burst_read:
  assumes "imu_ok d" "im_reg d = kRegFifo" "samples = min (len div 2) (im_count d)"
  shows "\<exists>d1 b1. run_prog (bench_port 0) (imu_i2cRead len xfer d) b =
      ((2 * samples, concat (map sample_bytes (take samples (imu_items d))), d1), b1) \<and>
    imu_items d1 = drop samples (imu_items d) \<and> im_irq d1 = watermark_level d1 \<and> imu_ok d1"
proof -
  have le: "samples \<le> im_count d" using assms(3) by simp
  have "take samples (im_fifo d) = take samples (imu_items d)" using le by (simp add: imu_items_def min_def)
  moreover have "kRegFifo \<noteq> kRegStatus" by (simp add: kRegFifo_def kRegStatus_def)
  ultimately show ?thesis
    using imu_drain_items [OF assms(1) le] assms(2)
    by (simp add: imu_i2cRead_def updateIrq_run watermark_level_def Let_def imu_ok_def mult.commute flip: assms(3))
qed

section \<open>Properties\<close>

text \<open>C32: a reader that is late loses only the newest samples, and is told. Bringing the sensor
  to a time \<open>t\<close> takes one sample per period that fell due, keeps the old ones and the new ones
  that fit in the buffer of sixteen, counts the rest as lost and reports the overflow once, drives the
  interrupt line exactly when the watermark is crossed, and asks to be woken at the next
  sample, which lies after \<open>t\<close>.\<close>

theorem imu_late_reader_loses_only_newest:
  assumes "imu_ok d" "im_sampling d" "im_next_sample_us d \<le> t" "unat t + 2500 < 2 ^ 64"
  shows "\<exists>d1 b1. run_prog (bench_port 0) (imu_advanceTo t d) b = (d1, b1) \<and>
    imu_items d1 = imu_items d @ replicate (min (samples_due t d) (kFifoDepth - im_count d)) (im_value d) \<and>
    im_lost d1 = im_lost d + of_nat (samples_due t d - (kFifoDepth - im_count d)) \<and>
    bn_notes b1 = bn_notes b @ overflow_note (kFifoDepth < im_count d + samples_due t d) (im_flags d) \<and>
    im_irq d1 = watermark_level d1 \<and>
    bn_lines b1 = bn_lines b @ (if im_irq d1 = im_irq d then [] else [(0, im_irq d1)]) \<and>
    unat t < unat (im_next_sample_us d1) \<and> unat (im_next_sample_us d1) \<le> unat t + 2500 \<and>
    bn_wakes b1 = bn_wakes b @ [im_next_sample_us d1] \<and> imu_ok d1"
proof -
  let ?n = "samples_due t d"
  note n = samples_due_bounds [OF assms(3)]
  from loop_run [OF assms(1) disjI2 [OF n(2)] assms(4), of b] obtain d1 where
    r: "run_prog (bench_port 0) (imu_loop ?n t d) b =
      (d1, b\<lparr>bn_notes := bn_notes b @ overflow_note (kFifoDepth < im_count d + ?n) (im_flags d)\<rparr>)"
    and d1: "imu_ok d1" "imu_items d1 = imu_items (fold imu_store (replicate ?n (im_value d)) d)"
      "im_lost d1 = im_lost (fold imu_store (replicate ?n (im_value d)) d)"
      "im_next_sample_us d1 = im_next_sample_us d + of_nat ?n * kSampleUs" "im_irq d1 = im_irq d"
    by blast
  have "length (imu_items d) \<le> kFifoDepth" using assms(1) length_imu_items [of d] by (simp add: imu_ok_def)
  note q = imu_buffer.sequence [OF assms(1) this, of "replicate ?n (im_value d)"]
  have "unat (im_next_sample_us d1) = unat (im_next_sample_us d) + 2500 * ?n"
    unfolding d1(4) by (rule imu_schedule) (use n(2) assms(4) in simp)
  moreover have "0 < ?n" by (simp add: n(1))
  ultimately show ?thesis
    using assms(2) d1 q n(2,3) length_imu_items [OF assms(1)]
    by (simp add: imu_advanceTo_def r updateIrq_run imu_ok_def watermark_level_def min.commute del: fold_replicate)
qed

theorem imu_late_reader_loses_only_newest_witness:
  "\<exists>d1 b1. run_prog (bench_port 0) (imu_advanceTo 50000 (new_imu\<lparr>im_sampling := True, im_next_sample_us := 2500, im_value := 7\<rparr>))
      (new_bench 0) = (d1, b1) \<and>
    imu_items d1 = replicate 16 7 \<and> im_lost d1 = 4 \<and> bn_notes b1 = [''fifo overflow: samples lost''] \<and>
    im_irq d1 = 1 \<and> bn_lines b1 = [(0, 1)] \<and> 50000 < unat (im_next_sample_us d1)"
proof -
  let ?d = "new_imu\<lparr>im_sampling := True, im_next_sample_us := 2500, im_value := 7\<rparr>"
  have ok: "imu_ok ?d" "im_sampling ?d" "im_next_sample_us ?d \<le> 50000" "unat (50000 :: u64) + 2500 < 2 ^ 64"
    by (simp_all add: imu_ok_def new_imu_def kFifoDepth_def)
  have due: "samples_due 50000 ?d = 20" by (simp add: samples_due_def kSampleUs_def)
  have [simp]: "im_count ?d = 0" "im_flags ?d = 0" "im_irq ?d = 0" "im_lost ?d = 0" "imu_items ?d = []"
    by (simp_all add: new_imu_def imu_items_def)
  obtain d1 b1 where w: "run_prog (bench_port 0) (imu_advanceTo 50000 ?d) (new_bench 0) = (d1, b1)"
    "imu_items d1 = replicate 16 7" "im_lost d1 = 4" "bn_notes b1 = [''fifo overflow: samples lost'']"
    "im_irq d1 = watermark_level d1" "bn_lines b1 = (if im_irq d1 = 0 then [] else [(0, im_irq d1)])"
    "50000 < unat (im_next_sample_us d1)" "imu_ok d1"
    using imu_late_reader_loses_only_newest [OF ok, of "new_bench 0"]
    by (auto simp: due kFifoDepth_def overflow_note_def new_bench_def kFlagOverflow_def)
  moreover have "im_count d1 = 16" using length_imu_items [OF w(8)] w(2) by simp
  ultimately show ?thesis by (simp add: watermark_level_def kWatermark_def)
qed

end
