(* ===== verification/Conformance_Probe.thy ===== *)
theory Conformance_Probe
  imports Device_Port Device_Calls
begin

text \<open>
  The conformance probe of \<open>devices/src/conformance_probe.h\<close> and \<open>.cpp\<close>: a device model that
  checks the environment hosting it against the contracts of the interface, from the
  device side. A locale states what the probe relies on; the modelled environment
  provides it.
\<close>

section \<open>State\<close>

record probe =
  pb_in_call :: bool
  pb_wake_asked :: bool
  pb_wake_due_us :: u64
  pb_time_seen :: bool
  pb_last_advance :: u64
  pb_copy :: bytes
  pb_copy_len :: nat
  pb_checks :: u32
  pb_violations :: u32
  pb_calls :: u32

definition kCheckNoReentry :: u32 where "kCheckNoReentry = push_bit 0 1"
definition kCheckTimeMonotonic :: u32 where "kCheckTimeMonotonic = push_bit 1 1"
definition kCheckTimeRepeat :: u32 where "kCheckTimeRepeat = push_bit 2 1"
definition kCheckNowAgrees :: u32 where "kCheckNowAgrees = push_bit 3 1"
definition kCheckBorrowedBuffer :: u32 where "kCheckBorrowedBuffer = push_bit 4 1"
definition kCheckFrameAccepted :: u32 where "kCheckFrameAccepted = push_bit 5 1"
definition kCheckFrameOversizeRefused :: u32 where "kCheckFrameOversizeRefused = push_bit 6 1"
definition kCheckFormatStable :: u32 where "kCheckFormatStable = push_bit 7 1"
definition kCheckFormatNameLimit :: u32 where "kCheckFormatNameLimit = push_bit 8 1"
definition kCheckAnalogRouted :: u32 where "kCheckAnalogRouted = push_bit 9 1"
definition kCheckWakeHonored :: u32 where "kCheckWakeHonored = push_bit 10 1"
definition kCheckNoteRouted :: u32 where "kCheckNoteRouted = push_bit 11 1"

lemmas check_defs =
  kCheckNoReentry_def kCheckTimeMonotonic_def kCheckTimeRepeat_def kCheckNowAgrees_def kCheckBorrowedBuffer_def
  kCheckFrameAccepted_def kCheckFrameOversizeRefused_def kCheckFormatStable_def kCheckFormatNameLimit_def
  kCheckAnalogRouted_def kCheckWakeHonored_def kCheckNoteRouted_def

definition kAllChecks :: u32 where "kAllChecks = push_bit 12 1 - 1"

definition kRequiredChecks :: u32 where
  "kRequiredChecks = kAllChecks AND NOT (kCheckTimeRepeat OR kCheckAnalogRouted OR kCheckWakeHonored OR kCheckNoteRouted)"

definition kAnalogValue :: u16 where "kAnalogValue = 4321"
definition kWakeAheadUs :: u64 where "kWakeAheadUs = 500"

definition new_probe :: probe where
  "new_probe = \<lparr>pb_in_call = False, pb_wake_asked = False, pb_wake_due_us = 0, pb_time_seen = False, pb_last_advance = 0,
     pb_copy = replicate 8 0, pb_copy_len = 0, pb_checks = 0, pb_violations = 0, pb_calls = 0\<rparr>"

definition conforms :: "probe \<Rightarrow> bool" where
  "conforms d \<longleftrightarrow> pb_violations d = 0 \<and> pb_checks d AND kRequiredChecks = kRequiredChecks"

section \<open>Methods\<close>

definition probe_reset :: "probe \<Rightarrow> probe" where
  "probe_reset d = d\<lparr>pb_in_call := False, pb_wake_asked := False, pb_wake_due_us := 0, pb_time_seen := False,
     pb_last_advance := 0, pb_copy_len := 0, pb_checks := 0, pb_violations := 0, pb_calls := 0\<rparr>"

text \<open>A check passed, a contract broken, and the choice between the two.\<close>

definition pass_check :: "u32 \<Rightarrow> probe \<Rightarrow> probe" where
  "pass_check c d = d\<lparr>pb_checks := pb_checks d OR c\<rparr>"

definition violation :: "probe \<Rightarrow> probe" where
  "violation d = d\<lparr>pb_violations := pb_violations d + 1\<rparr>"

definition verdict :: "u32 \<Rightarrow> bool \<Rightarrow> probe \<Rightarrow> probe" where
  "verdict c holds d = (if holds then pass_check c d else violation d)"

text \<open>The copy of a borrowed buffer, and its comparison.\<close>

definition copy_borrowed :: "bytes \<Rightarrow> probe \<Rightarrow> probe" where
  "copy_borrowed borrowed d =
     (let n = min (length borrowed) 8;
          d1 = d\<lparr>pb_copy := take n borrowed @ drop n (pb_copy d), pb_copy_len := n\<rparr>
      in verdict kCheckBorrowedBuffer (list_all (\<lambda>i. pb_copy d1 ! i = borrowed ! i) [0..<pb_copy_len d1]) d1)"

definition probe_enter :: "bytes option \<Rightarrow> probe \<Rightarrow> ('m, probe) prog" where
  "probe_enter borrowed d =
     (let d1 = verdict kCheckNoReentry (\<not> pb_in_call d) d;
          d2 = d1\<lparr>pb_in_call := True, pb_calls := pb_calls d1 + 1, pb_copy_len := 0\<rparr>;
          d3 = (case borrowed of None \<Rightarrow> d2 | Some bs \<Rightarrow> copy_borrowed bs d2)
      in if pb_time_seen d3 then
           Attached (\<lambda>att. if att then Now (\<lambda>now. Ret (verdict kCheckNowAgrees (pb_last_advance d3 \<le> now) d3)) else Ret d3)
         else Ret d3)"

definition probe_leave :: "probe \<Rightarrow> probe" where
  "probe_leave d = d\<lparr>pb_in_call := False\<rparr>"

definition probe_i2cWrite :: "bytes \<Rightarrow> i2c_transfer \<Rightarrow> probe \<Rightarrow> ('m, u8 \<times> probe) prog" where
  "probe_i2cWrite data xfer d = andThen (probe_enter (Some data) d) (\<lambda>d1. Ret (kI2cAck, probe_leave d1))"

definition probe_i2cRead :: "nat \<Rightarrow> i2c_transfer \<Rightarrow> probe \<Rightarrow> ('m, nat \<times> bytes \<times> probe) prog" where
  "probe_i2cRead len xfer d =
     andThen (probe_enter None d) (\<lambda>d1.
       let count = min len 2 in Ret (count, map (\<lambda>i. of_nat (i + 1)) [0..<count], probe_leave d1))"

definition probe_serialIn :: "bytes \<Rightarrow> probe \<Rightarrow> ('m, probe) prog" where
  "probe_serialIn data d = andThen (probe_enter (Some data) d) (\<lambda>d1. Ret (probe_leave d1))"

definition probe_lineIn :: "u8 \<Rightarrow> u8 \<Rightarrow> probe \<Rightarrow> ('m, probe) prog" where
  "probe_lineIn line level d = andThen (probe_enter None d) (\<lambda>d1. Ret (probe_leave d1))"

definition probe_frameIn :: "u8 \<Rightarrow> u16 \<Rightarrow> bytes \<Rightarrow> nat \<Rightarrow> probe \<Rightarrow> ('m, probe) prog" where
  "probe_frameIn bus format data bits d =
     andThen (probe_enter (Some (take (frameBytes bits) data)) d) (\<lambda>d1. Ret (probe_leave d1))"

text \<open>What the environment answers for frames, at the limit it states and beyond it.\<close>

definition over_bits :: "u32 \<Rightarrow> nat" where
  "over_bits limit = (if unat (limit + 8) \<le> 8 * 64 then unat (limit + 8) else 8 * 64)"

definition probe_frames :: "u16 \<Rightarrow> u32 \<Rightarrow> probe \<Rightarrow> ('m, probe) prog" where
  "probe_frames first limit d =
     (if limit = 0 \<or> first = 0 then Ret d
      else FrameOut 0 first (Some (replicate 8 0)) (if limit < 8 then unat limit else 8) (\<lambda>within.
           let d1 = verdict kCheckFrameAccepted within d
           in FrameOut 0 first (Some (replicate 64 0)) (over_bits limit) (\<lambda>over.
                Ret (verdict kCheckFrameOversizeRefused (\<not> over) d1))))"

definition probe_formats :: "probe \<Rightarrow> ('m, probe) prog" where
  "probe_formats d =
     (let schema = schemaFingerprint (Some ''u8 probe'')
      in FormatId ''acme.probe.1'' schema (\<lambda>first.
         FormatId ''acme.probe.1'' schema (\<lambda>again.
           let d1 = verdict kCheckFormatStable (first \<noteq> 0 \<and> first = again) d
           in FormatId (replicate (kFormatNameMaxLength + 1) (CHR ''a'')) schema (\<lambda>long.
                let d2 = verdict kCheckFormatNameLimit (long = 0) d1
                in MaxFrameBits 0 (\<lambda>limit. probe_frames first limit d2)))))"

text \<open>The checks of the port; an answer of \<open>false\<close> to the optional calls is not a violation.\<close>

definition optional_check :: "u32 \<Rightarrow> bool \<Rightarrow> probe \<Rightarrow> probe" where
  "optional_check c routed d = (if routed then pass_check c d else d)"

definition probe_port :: "probe \<Rightarrow> ('m, probe) prog" where
  "probe_port d =
     Attached (\<lambda>att. if \<not> att then Ret d
       else AnalogOut 0 kAnalogValue (\<lambda>analog.
            Diagnose ''conformance probe'' (\<lambda>noted.
              let d1 = optional_check kCheckNoteRouted noted (optional_check kCheckAnalogRouted analog d)
              in Now (\<lambda>now. RequestWake (now + kWakeAheadUs) (\<lambda>asked.
                   probe_formats (d1\<lparr>pb_wake_asked := asked, pb_wake_due_us := (if asked then now + kWakeAheadUs else 0)\<rparr>))))))"

definition probe_channelWrite :: "u8 \<Rightarrow> bytes \<Rightarrow> probe \<Rightarrow> ('m, bool \<times> probe) prog" where
  "probe_channelWrite channel data d =
     andThen (probe_enter (Some data) d) (\<lambda>d1.
       if channel = 0 then andThen (probe_port d1) (\<lambda>d2. Ret (True, probe_leave d2)) else Ret (False, probe_leave d1))"

definition probe_wake :: "u64 \<Rightarrow> probe \<Rightarrow> probe" where
  "probe_wake nowUs d =
     (if pb_wake_asked d \<and> pb_wake_due_us d \<le> nowUs
      then verdict kCheckWakeHonored (nowUs = pb_wake_due_us d) (d\<lparr>pb_wake_asked := False\<rparr>) else d)"

definition probe_time :: "u64 \<Rightarrow> probe \<Rightarrow> probe" where
  "probe_time nowUs d =
     (let d1 = (if \<not> pb_time_seen d then d\<lparr>pb_time_seen := True\<rparr>
                else if pb_last_advance d < nowUs then pass_check kCheckTimeMonotonic d
                else if nowUs = pb_last_advance d then pass_check kCheckTimeRepeat d
                else violation d)
      in d1\<lparr>pb_last_advance := nowUs\<rparr>)"

definition probe_advanceTo :: "u64 \<Rightarrow> probe \<Rightarrow> ('m, probe) prog" where
  "probe_advanceTo nowUs d =
     andThen (probe_enter None d) (\<lambda>d1. Ret (probe_leave (probe_time nowUs (probe_wake nowUs d1))))"

definition probe_dump :: "probe \<Rightarrow> string" where
  "probe_dump d = ''probe checks='' @ hexpad 3 (pb_checks d) @ '' viol='' @ decw (pb_violations d) @
     '' calls='' @ decw (pb_calls d)"

definition probe_device :: "('m, probe) device" where
  "probe_device = (base_device probe_reset)\<lparr>
     dv_i2c_write := probe_i2cWrite, dv_i2c_read := probe_i2cRead, dv_serial_in := probe_serialIn,
     dv_line_in := probe_lineIn, dv_frame_in := probe_frameIn, dv_channel_write := probe_channelWrite,
     dv_advance_to := probe_advanceTo, dv_dump := probe_dump\<rparr>"

section \<open>What has been checked\<close>

definition passed :: "u32 \<Rightarrow> probe \<Rightarrow> bool" where
  "passed c d \<longleftrightarrow> pb_checks d AND c = c"

lemma passed_or: "passed (a OR b) d \<longleftrightarrow> passed a d \<and> passed b d"
  unfolding passed_def by (auto simp: bit_eq_iff bit_and_iff bit_or_iff)

lemma pass_check_fields [simp]:
  "pb_violations (pass_check c d) = pb_violations d" "pb_in_call (pass_check c d) = pb_in_call d"
  "pb_wake_asked (pass_check c d) = pb_wake_asked d" "pb_wake_due_us (pass_check c d) = pb_wake_due_us d"
  "pb_time_seen (pass_check c d) = pb_time_seen d" "pb_last_advance (pass_check c d) = pb_last_advance d"
  "pb_copy (pass_check c d) = pb_copy d" "pb_copy_len (pass_check c d) = pb_copy_len d"
  by (simp_all add: pass_check_def)

lemma passed_pass [simp]: "passed c (pass_check c d)"
  by (rule passed_def [THEN iffD2], rule bit_word_eqI) (auto simp: pass_check_def bit_and_iff bit_or_iff)

lemma passed_keep [simp]: "passed c d \<Longrightarrow> passed c (pass_check c' d)"
  unfolding passed_def pass_check_def by (auto simp: bit_eq_iff bit_and_iff bit_or_iff)

lemma passed_violation [simp]: "passed c (violation d) = passed c d"
  by (simp add: passed_def violation_def)

lemma passed_update [simp]:
  "passed c (d\<lparr>pb_in_call := b\<rparr>) = passed c d" "passed c (d\<lparr>pb_wake_asked := b\<rparr>) = passed c d"
  "passed c (d\<lparr>pb_wake_due_us := t\<rparr>) = passed c d" "passed c (d\<lparr>pb_time_seen := b\<rparr>) = passed c d"
  "passed c (d\<lparr>pb_last_advance := t\<rparr>) = passed c d" "passed c (d\<lparr>pb_copy := x\<rparr>) = passed c d"
  "passed c (d\<lparr>pb_copy_len := n\<rparr>) = passed c d" "passed c (d\<lparr>pb_calls := k\<rparr>) = passed c d"
  by (simp_all add: passed_def)

lemma passed_optional [simp]: "passed c d \<Longrightarrow> passed c (optional_check c' b d)"
  by (simp add: optional_check_def)

lemma optional_fields [simp]:
  "pb_violations (optional_check c b d) = pb_violations d" "pb_in_call (optional_check c b d) = pb_in_call d"
  "pb_time_seen (optional_check c b d) = pb_time_seen d" "pb_last_advance (optional_check c b d) = pb_last_advance d"
  "pb_copy (optional_check c b d) = pb_copy d"
  by (simp_all add: optional_check_def)

lemma violation_fields [simp]:
  "pb_violations (violation d) = pb_violations d + 1" "pb_in_call (violation d) = pb_in_call d"
  "pb_wake_asked (violation d) = pb_wake_asked d" "pb_wake_due_us (violation d) = pb_wake_due_us d"
  "pb_time_seen (violation d) = pb_time_seen d" "pb_last_advance (violation d) = pb_last_advance d"
  "pb_copy (violation d) = pb_copy d"
  by (simp_all add: violation_def)

lemma required_checks:
  "kRequiredChecks = kCheckNoReentry OR kCheckTimeMonotonic OR kCheckNowAgrees OR kCheckBorrowedBuffer OR
     kCheckFrameAccepted OR kCheckFrameOversizeRefused OR kCheckFormatStable OR kCheckFormatNameLimit"
  by (simp add: kRequiredChecks_def kAllChecks_def check_defs)

text \<open>The copy a probe takes of a buffer always agrees with it: nothing runs in between.\<close>

lemma copy_borrowed_agrees:
  "length (pb_copy d) = 8 \<Longrightarrow>
   copy_borrowed bs d = pass_check kCheckBorrowedBuffer
     (d\<lparr>pb_copy := take (min (length bs) 8) bs @ drop (min (length bs) 8) (pb_copy d), pb_copy_len := min (length bs) 8\<rparr>)"
  by (auto simp: copy_borrowed_def Let_def verdict_def list_all_iff nth_append)

section \<open>The contract of the environment\<close>

lemma zeros_padding_clean: "frameBytes bits \<le> n \<Longrightarrow> framePaddingClean (Some (replicate n 0)) bits"
proof (cases "bits = 0")
  case False
  assume "frameBytes bits \<le> n"
  moreover have "0 < frameBytes bits" using False by (auto simp: frameBytes_def)
  ultimately have "replicate n (0 :: u8) ! (frameBytes bits - 1) = 0" by simp
  then show ?thesis by (simp add: framePaddingClean_def Let_def)
qed (simp add: framePaddingClean_def)

lemma over_bits_bytes: "frameBytes (over_bits limit) \<le> 64"
  using frameBytes_bounds [of "over_bits limit"] by (simp add: over_bits_def split: if_splits)

lemma over_bits_fits: "over_bits limit \<le> unat limit \<longleftrightarrow> 512 \<le> unat limit"
proof (cases "unat limit + 8 < 2 ^ 32")
  case True
  then have "unat (limit + 8) = unat limit + 8" using unat_add_no_overflow [of limit 8] by simp
  then show ?thesis by (auto simp: over_bits_def)
next
  case False
  have top: "unat limit < 2 ^ 32" using unsigned_less [of limit] by simp
  have "unat (limit + 8) = (unat limit + 8) mod 2 ^ 32"
    using unat_word_ariths(1) [of limit 8] by simp
  also have "\<dots> = unat limit + 8 - 2 ^ 32"
    using False top le_mod_geq [of "2 ^ 32" "unat limit + 8"] by simp
  finally have e: "unat (limit + 8) = unat limit + 8 - 2 ^ 32" .
  have "unat (limit + 8) \<le> unat limit" "unat (limit + 8) \<le> 8 * 64" "512 \<le> unat limit"
    unfolding e using False top by simp_all
  then show ?thesis by (simp only: over_bits_def if_True simp_thms)
qed

text \<open>
  What the probe relies on: well-formed states (\<open>ok\<close>), names that can be granted (\<open>room\<close>),
  formats granted so far (\<open>known\<close>) and the limit of a bus.
\<close>

locale conforming_port =
  fixes hp :: "('p, 'm) host_port"
    and ok :: "'p \<Rightarrow> bool"
    and room :: "string \<Rightarrow> u32 \<Rightarrow> 'p \<Rightarrow> bool"
    and known :: "u16 \<Rightarrow> 'p \<Rightarrow> bool"
    and limit :: u32
  assumes analog_law: "ok p \<Longrightarrow> room n s p \<Longrightarrow> hp_analog_out hp line raw p = (r, p') \<Longrightarrow> ok p' \<and> room n s p'"
    and note_law: "ok p \<Longrightarrow> room n s p \<Longrightarrow> hp_diagnose hp t p = (r, p') \<Longrightarrow> ok p' \<and> room n s p'"
    and wake_law: "ok p \<Longrightarrow> room n s p \<Longrightarrow> hp_request_wake hp w p = (r, p') \<Longrightarrow> ok p' \<and> room n s p'"
    and limit_law: "ok p \<Longrightarrow> hp_max_frame_bits hp bus p = limit"
    and grant_law: "ok p \<Longrightarrow> room n s p \<Longrightarrow> hp_format_id hp n s p = (i, p') \<Longrightarrow>
      i \<noteq> 0 \<and> ok p' \<and> room n s p' \<and> known i p' \<and> hp_format_id hp n s p' = (i, p')"
    and name_law: "ok p \<Longrightarrow> room m c p \<Longrightarrow> known j p \<Longrightarrow> kFormatNameMaxLength < length n \<Longrightarrow> hp_format_id hp n s p = (i, p') \<Longrightarrow>
      i = 0 \<and> ok p' \<and> room m c p' \<and> known j p'"
    and frame_law: "ok p \<Longrightarrow> room m c p \<Longrightarrow> known i p \<Longrightarrow> framePaddingClean (Some bs) bits \<Longrightarrow>
      hp_frame_out hp bus i (Some bs) bits p = (r, p') \<Longrightarrow> (r \<longleftrightarrow> bits \<le> unat limit) \<and> ok p' \<and> room m c p' \<and> known i p'"
begin

lemma frames_verdict:
  assumes "ok p" "room m c p" "known i p" "i \<noteq> 0" "limit \<noteq> 0"
  shows "\<exists>p'. run_prog hp (probe_frames i limit d) p =
    (verdict kCheckFrameOversizeRefused (unat limit < 512) (pass_check kCheckFrameAccepted d), p') \<and> ok p' \<and> room m c p'"
proof -
  let ?w = "if limit < 8 then unat limit else 8"
  have w: "?w \<le> 8" "?w \<le> unat limit" by (auto simp: word_less_nat_alt)
  have "framePaddingClean (Some (replicate 8 0)) ?w"
    using frameBytes_bounds [of ?w] w(1) by (intro zeros_padding_clean) simp
  moreover obtain r p1 where f: "hp_frame_out hp 0 i (Some (replicate 8 0)) ?w p = (r, p1)" by fastforce
  ultimately have one: "r" "ok p1" "room m c p1" "known i p1" using frame_law [OF assms(1-3)] w(2) by blast+
  obtain r2 p2 where g: "hp_frame_out hp 0 i (Some (replicate 64 0)) (over_bits limit) p1 = (r2, p2)" by fastforce
  have "r2 \<longleftrightarrow> 512 \<le> unat limit" "ok p2" "room m c p2"
    using frame_law [OF one(2-4) zeros_padding_clean [OF over_bits_bytes] g] over_bits_fits by blast+
  then show ?thesis using assms(4,5) f g one(1) by (simp add: probe_frames_def verdict_def Let_def)
qed

lemma formats_verdict:
  assumes "ok p" "room ''acme.probe.1'' (schemaFingerprint (Some ''u8 probe'')) p" "limit \<noteq> 0"
  shows "\<exists>p'. run_prog hp (probe_formats d) p =
    (verdict kCheckFrameOversizeRefused (unat limit < 512)
       (pass_check kCheckFrameAccepted (pass_check kCheckFormatNameLimit (pass_check kCheckFormatStable d))), p') \<and> ok p' \<and>
    room ''acme.probe.1'' (schemaFingerprint (Some ''u8 probe'')) p'"
proof -
  let ?s = "schemaFingerprint (Some ''u8 probe'')"
  let ?long = "replicate (kFormatNameMaxLength + 1) (CHR ''a'')"
  obtain i p1 where f: "hp_format_id hp ''acme.probe.1'' ?s p = (i, p1)" by fastforce
  from grant_law [OF assms(1,2) f]
  have one: "i \<noteq> 0" "ok p1" "room ''acme.probe.1'' ?s p1" "known i p1" and again: "hp_format_id hp ''acme.probe.1'' ?s p1 = (i, p1)" by blast+
  obtain j p2 where g: "hp_format_id hp ?long ?s p1 = (j, p2)" by fastforce
  have two: "j = 0" "ok p2" "room ''acme.probe.1'' ?s p2" "known i p2" using name_law [OF one(2-4) _ g] by simp_all
  from frames_verdict [OF two(2-4) one(1) assms(3)] show ?thesis
    using f again g one two(1) limit_law [OF two(2)] by (simp add: probe_formats_def Let_def verdict_def)
qed

lemma port_verdict:
  assumes "ok p" "room ''acme.probe.1'' (schemaFingerprint (Some ''u8 probe'')) p" "limit \<noteq> 0"
  shows "\<exists>d' p'. run_prog hp (probe_port d) p = (d', p') \<and> ok p' \<and>
    room ''acme.probe.1'' (schemaFingerprint (Some ''u8 probe'')) p' \<and>
    pb_violations d' = pb_violations d + (if unat limit < 512 then 0 else 1) \<and>
    passed (kCheckFrameAccepted OR kCheckFormatStable OR kCheckFormatNameLimit) d' \<and>
    (unat limit < 512 \<longrightarrow> passed kCheckFrameOversizeRefused d') \<and> (\<forall>c. passed c d \<longrightarrow> passed c d') \<and>
    pb_in_call d' = pb_in_call d \<and> pb_time_seen d' = pb_time_seen d \<and> pb_last_advance d' = pb_last_advance d \<and>
    pb_wake_due_us d' = (if pb_wake_asked d' then hp_now hp (snd (hp_diagnose hp ''conformance probe'' (snd (hp_analog_out hp 0 kAnalogValue p)))) + kWakeAheadUs else 0) \<and>
    pb_copy d' = pb_copy d"
proof -
  obtain a p1 where f: "hp_analog_out hp 0 kAnalogValue p = (a, p1)" by fastforce
  note one = analog_law [OF assms(1,2) f]
  obtain b p2 where g: "hp_diagnose hp ''conformance probe'' p1 = (b, p2)" by fastforce
  note two = note_law [OF one [THEN conjunct1] one [THEN conjunct2] g]
  obtain c p3 where h: "hp_request_wake hp (hp_now hp p2 + kWakeAheadUs) p2 = (c, p3)" by fastforce
  note three = wake_law [OF two [THEN conjunct1] two [THEN conjunct2] h]
  let ?d = "(optional_check kCheckNoteRouted b (optional_check kCheckAnalogRouted a d))
      \<lparr>pb_wake_asked := c, pb_wake_due_us := (if c then hp_now hp p2 + kWakeAheadUs else 0)\<rparr>"
  let ?e = "verdict kCheckFrameOversizeRefused (unat limit < 512)
      (pass_check kCheckFrameAccepted (pass_check kCheckFormatNameLimit (pass_check kCheckFormatStable ?d)))"
  from formats_verdict [OF three [THEN conjunct1] three [THEN conjunct2] assms(3), of ?d]
  obtain p' where r: "run_prog hp (probe_formats ?d) p3 = (?e, p')"
    and ok: "ok p'" "room ''acme.probe.1'' (schemaFingerprint (Some ''u8 probe'')) p'" by blast
  then have "run_prog hp (probe_port d) p = (?e, p')" by (simp add: probe_port_def f g h Let_def)
  then show ?thesis using ok
    by (intro exI [of _ ?e] exI [of _ p']) (cases "unat limit < 512"; simp add: verdict_def f g passed_or)
qed

end

section \<open>The environment keeps the contract\<close>

definition host_ready :: "('c, 'm) host option \<Rightarrow> bool" where
  "host_ready s = (case s of None \<Rightarrow> False | Some h \<Rightarrow> device_depth h > 0 \<and> formats_ok (formats h))"

definition name_room :: "('c, 'm) core \<Rightarrow> string \<Rightarrow> u32 \<Rightarrow> ('c, 'm) host option \<Rightarrow> bool" where
  "name_room co n c s = (case s of None \<Rightarrow> False | Some h \<Rightarrow> fst (registerFormat co (Some n) c h) \<noteq> 0)"

definition format_known :: "u16 \<Rightarrow> ('c, 'm) host option \<Rightarrow> bool" where
  "format_known i s = (case s of None \<Rightarrow> False | Some h \<Rightarrow> lookup_format (formats h) i \<noteq> None)"

lemma registerFormat_answer:
  "formats h' = formats h \<Longrightarrow> fst (registerFormat co n c h') = fst (registerFormat co n c h)"
  by (simp add: registerFormat_def split: option.split)

lemma sinks_keep_formats [simp]:
  "formats (snd (DevicePort_analogOut co dp line raw h)) = formats h"
  "formats (deviceNote co t h) = formats h" "formats (snd (requestWake co w h)) = formats h"
  by (auto simp: DevicePort_analogOut_def analogInject_def deviceNote_def requestWake_def Let_def split: option.split)

lemma frameRx_formats:
  assumes "device_depth h > 0" "frameRx co org bus i data bits h = Some (r, h')"
  shows "formats h' = formats h \<and> (r \<longleftrightarrow> fst (frameAccept co bus i data bits h))"
proof -
  obtain a h1 where a: "frameAccept co bus i data bits h = (a, h1)" by fastforce
  then have "formats h1 = formats h" "device_depth h1 = device_depth h"
    by (auto simp: frameAccept_def split: if_splits)
  then show ?thesis
    using assms by (cases a) (auto simp: frameRx_def a Let_def queueDeferred_def split: option.splits)
qed

interpretation environment: conforming_port
  "device_port_calls co dp" host_ready "name_room co" format_known "of_nat kMaxFrameBits"
  for co :: "('c, 'm) core" and dp
proof
  fix s s' :: "('c, 'm) host option" and n c
  assume ready: "host_ready s"
  then obtain h where h: "s = Some h" "device_depth h > 0" "formats_ok (formats h)"
    by (auto simp: host_ready_def split: option.splits)
  {
    assume room: "name_room co n c s"
    show "host_ready s' \<and> name_room co n c s'"
      if "hp_analog_out (device_port_calls co dp) line raw s = (r, s')" for line raw r
      using that h room registerFormat_answer [of "snd (DevicePort_analogOut co dp line raw h)" h co "Some n" c]
      by (auto simp: device_port_calls_def on_env_def host_ready_def name_room_def split_beta)
    show "host_ready s' \<and> name_room co n c s'"
      if "hp_diagnose (device_port_calls co dp) t s = (r, s')" for t r
      using that h room registerFormat_answer [of "deviceNote co t h" h co "Some n" c]
      by (auto simp: device_port_calls_def on_env_def host_ready_def name_room_def)
    show "host_ready s' \<and> name_room co n c s'"
      if "hp_request_wake (device_port_calls co dp) w s = (r, s')" for w r
      using that h room registerFormat_answer [of "snd (requestWake co w h)" h co "Some n" c]
      by (auto simp: device_port_calls_def on_env_def host_ready_def name_room_def split_beta)
    show "i \<noteq> 0 \<and> host_ready s' \<and> name_room co n c s' \<and> format_known i s' \<and> hp_format_id (device_port_calls co dp) n c s' = (i, s')"
      if r: "hp_format_id (device_port_calls co dp) n c s = (i, s')" for i
    proof -
      obtain h1 where g: "registerFormat co (Some n) c h = (i, h1)" "s' = Some h1"
        using r h by (auto simp: device_port_calls_def on_env_def split: prod.splits)
      have i: "i \<noteq> 0" using room h g by (simp add: name_room_def)
      have l: "lookup_format (formats h1) i = Some (n, c)" by (rule formats.granted_law [OF h(3) g(1) i])
      have ok1: "formats_ok (formats h1)" using formats_ok_register [OF h(3), of co n c] g by simp
      have d1: "device_depth h1 > 0" using sinks_depth(6) [of co "Some n" c h] h g by simp
      show ?thesis using i l ok1 d1 g(2) formats.again_law [OF ok1 l, of co]
        by (simp add: host_ready_def name_room_def format_known_def device_port_calls_def on_env_def)
    qed
  }
  show "hp_max_frame_bits (device_port_calls co dp) bus s = of_nat kMaxFrameBits" for bus
    by (simp add: device_port_calls_def)
  show "i = 0 \<and> host_ready s' \<and> name_room co m k s' \<and> format_known j s'"
    if "name_room co m k s" "format_known j s" "kFormatNameMaxLength < length n"
      "hp_format_id (device_port_calls co dp) n c s = (i, s')" for i j m k
  proof -
    have "n \<noteq> []" using that(3) by auto
    then have r: "registerFormat co (Some n) c h = (0, diag co 0 (''diag.fmt_name_long len='' @ decu (length n)) h)"
      using that(3) by (simp add: registerFormat_def)
    show ?thesis
      using that(1,2,4) h r registerFormat_answer [of "diag co 0 (''diag.fmt_name_long len='' @ decu (length n)) h" h co "Some m" k]
      by (auto simp: device_port_calls_def on_env_def host_ready_def name_room_def format_known_def)
  qed
  show "(r \<longleftrightarrow> bits \<le> unat (of_nat kMaxFrameBits :: u32)) \<and> host_ready s' \<and> name_room co m k s' \<and> format_known i s'"
    if room: "name_room co m k s" and known: "format_known i s" and clean: "framePaddingClean (Some bs) bits"
      and f: "hp_frame_out (device_port_calls co dp) bus i (Some bs) bits s = (r, s')" for i bs bits bus r m k
  proof -
    obtain r1 h1 where g: "frameRx co kDev bus i (Some bs) bits h = Some (r1, h1)"
      using frame_of_devices.frameRx_law [OF device_frame_refl h(2), of co kDev bus i "Some bs" bits] by blast
    then have "r1 = r" "s' = Some h1" using f h by (simp_all add: device_port_calls_def on_env_opt_def)
    then show ?thesis
      using frameRx_formats [OF h(2) g] frameRx_depth [OF h(2) g] h room known clean frameAccept_iff [of co bus i "Some bs" bits h]
        registerFormat_answer [of h1 h co "Some m" k]
      by (simp add: host_ready_def name_room_def format_known_def kMaxFrameBits_def)
  qed
qed

text \<open>
  A bus that carries 512 bits or more keeps the contract too, and the probe finds it in
  breach: the frame it sends as too long is capped at 512 bits.
\<close>

definition wide_port :: "(bench, unit) host_port" where
  "wide_port = (bench_port 512)\<lparr>
     hp_format_id := (\<lambda>name schema b. (if length name \<le> kFormatNameMaxLength then 1 else 0, b))\<rparr>"

interpretation wide_bus: conforming_port wide_port "\<lambda>b. True" "\<lambda>n s b. length n \<le> kFormatNameMaxLength" "\<lambda>i b. i = 1" 512
  by unfold_locales (auto simp: wide_port_def bench_port_def split: if_splits)

lemma probe_fails_wide_bus:
  "(fst (hp_frame_out wide_port bus 1 (Some bs) bits b) \<longleftrightarrow> bits \<le> unat (hp_max_frame_bits wide_port bus b)) \<and>
   (\<exists>d' b'. run_prog wide_port (probe_port d) b = (d', b') \<and> pb_violations d' = pb_violations d + 1)"
proof -
  have "\<exists>d' b'. run_prog wide_port (probe_port d) b = (d', b') \<and> pb_violations d' = pb_violations d + 1"
    using wide_bus.port_verdict [where p = b and d = d] by (auto simp: kFormatNameMaxLength_def)
  then show ?thesis by (simp add: wide_port_def bench_port_def)
qed

section \<open>Single calls\<close>

text \<open>The probe between two calls, no violation found so far.\<close>

definition probe_ready :: "u64 \<Rightarrow> probe \<Rightarrow> bool" where
  "probe_ready now d \<longleftrightarrow> \<not> pb_in_call d \<and> pb_violations d = 0 \<and> length (pb_copy d) = 8 \<and>
     (pb_time_seen d \<longrightarrow> pb_last_advance d \<le> now)"

lemma enter_run:
  assumes "probe_ready (hp_now hp p) d"
  shows "\<exists>e. run_prog hp (probe_enter b d) p = (e, p) \<and> pb_violations e = 0 \<and> length (pb_copy e) = 8 \<and>
    passed kCheckNoReentry e \<and> (b \<noteq> None \<longrightarrow> passed kCheckBorrowedBuffer e) \<and>
    (pb_time_seen d \<longrightarrow> passed kCheckNowAgrees e) \<and> (\<forall>c. passed c d \<longrightarrow> passed c e) \<and>
    pb_time_seen e = pb_time_seen d \<and> pb_last_advance e = pb_last_advance d \<and>
    pb_wake_asked e = pb_wake_asked d \<and> pb_wake_due_us e = pb_wake_due_us d"
  using assms
  by (cases b; cases "pb_time_seen d")
     (simp_all add: probe_ready_def probe_enter_def Let_def verdict_def copy_borrowed_agrees)

lemma advance_run:
  assumes "probe_ready t d" "hp_now hp p = t" "pb_wake_asked d \<longrightarrow> t \<le> pb_wake_due_us d"
  shows "\<exists>e. run_prog hp (probe_advanceTo t d) p = (e, p) \<and> probe_ready t e \<and> pb_time_seen e \<and> pb_last_advance e = t \<and>
    (\<forall>c. passed c d \<longrightarrow> passed c e) \<and> passed kCheckNoReentry e \<and> (pb_time_seen d \<longrightarrow> passed kCheckNowAgrees e) \<and>
    (pb_time_seen d \<and> pb_last_advance d < t \<longrightarrow> passed kCheckTimeMonotonic e) \<and>
    (pb_wake_asked e \<longrightarrow> pb_wake_asked d \<and> t < pb_wake_due_us d) \<and> pb_wake_due_us e = pb_wake_due_us d"
proof -
  obtain e where e: "run_prog hp (probe_enter None d) p = (e, p)" "pb_violations e = 0" "length (pb_copy e) = 8"
      "passed kCheckNoReentry e" "pb_time_seen d \<longrightarrow> passed kCheckNowAgrees e" "\<forall>c. passed c d \<longrightarrow> passed c e"
      "pb_time_seen e = pb_time_seen d" "pb_last_advance e = pb_last_advance d"
      "pb_wake_asked e = pb_wake_asked d" "pb_wake_due_us e = pb_wake_due_us d"
    using enter_run [of hp p d None] assms(1,2) by auto
  let ?w = "probe_wake t e"
  have w: "pb_violations ?w = 0" "length (pb_copy ?w) = 8" "pb_time_seen ?w = pb_time_seen d"
      "pb_last_advance ?w = pb_last_advance d" "\<forall>c. passed c e \<longrightarrow> passed c ?w"
      "pb_wake_asked ?w \<longrightarrow> pb_wake_asked d \<and> t < pb_wake_due_us d" "pb_wake_due_us ?w = pb_wake_due_us d"
    using e assms(3) by (auto simp: probe_wake_def verdict_def)
  have "pb_time_seen d \<longrightarrow> pb_last_advance d \<le> t" using assms(1) by (simp add: probe_ready_def)
  then show ?thesis
    using e w by (auto simp: probe_advanceTo_def probe_time_def Let_def probe_leave_def probe_ready_def)
qed

end
