(* ===== verification/Regtable_Model.thy ===== *)
theory Regtable_Model
  imports Device_Calls
begin

text \<open>
  The register-map device driven by a table, \<open>devices/src/regtable_model.h\<close> and \<open>.cpp\<close>. The hooks a
  derived class overrides are arguments of the operations that call them, and the state is
  a record that a derived class extends. The table is the abstract map from register
  addresses to their bytes; every operation is shown to be an operation on that map.
\<close>

section \<open>The table\<close>

record reg_entry =
  re_address :: u8
  re_width :: nat
  re_reset :: "bytes option"
  re_flags :: u8

record reg_channel =
  rc_channel :: u8
  rc_address :: u8

record reg_spec =
  rs_entries :: "reg_entry list"
  rs_channels :: "reg_channel list"
  rs_repeated_start :: bool

definition kWritable :: u8 where "kWritable = 0x01"
definition kVolatile :: u8 where "kVolatile = 0x02"
definition kPartial :: u8 where "kPartial = 0x04"
definition kMaxRegisters :: nat where "kMaxRegisters = 24"
definition kValueBytes :: nat where "kValueBytes = 96"

section \<open>State\<close>

record regtable =
  rt_spec :: reg_spec
  rt_offset :: "nat list"
  rt_values :: bytes
  rt_pointer :: u8
  rt_reads :: u32
  rt_writes :: u32
  rt_unmapped :: u32
  rt_refused :: u32

text \<open>The entries held: as many as fit, each behind the one before it.\<close>

fun rt_layout :: "reg_entry list \<Rightarrow> nat \<Rightarrow> nat \<Rightarrow> nat list" where
  "rt_layout [] used count = []"
| "rt_layout (e # es) used count =
     (if \<not> count < kMaxRegisters then []
      else if re_width e = 0 \<or> kValueBytes < used + re_width e then []
      else used # rt_layout es (used + re_width e) (count + 1))"

definition rt_count :: "'a regtable_scheme \<Rightarrow> nat" where
  "rt_count d = length (rt_offset d)"

definition rt_entry :: "'a regtable_scheme \<Rightarrow> nat \<Rightarrow> reg_entry" where
  "rt_entry d i = rs_entries (rt_spec d) ! i"

fun store_bytes :: "nat \<Rightarrow> bytes \<Rightarrow> bytes \<Rightarrow> bytes" where
  "store_bytes at [] vs = vs"
| "store_bytes at (b # bs) vs = store_bytes (at + 1) bs (vs[at := b])"

definition reset_bytes :: "reg_entry \<Rightarrow> bytes" where
  "reset_bytes e = map (\<lambda>k. case re_reset e of None \<Rightarrow> 0 | Some bs \<Rightarrow> bs ! k) [0..<re_width e]"

definition rt_loadReset :: "'a regtable_scheme \<Rightarrow> 'a regtable_scheme" where
  "rt_loadReset d = d\<lparr>rt_values :=
     fold (\<lambda>i vs. store_bytes (rt_offset d ! i) (reset_bytes (rt_entry d i)) vs) [0..<rt_count d] (rt_values d)\<rparr>"

text \<open>The constructor; the values are not initialised before the reset contents are loaded.\<close>

definition new_regtable :: "reg_spec \<Rightarrow> bytes \<Rightarrow> regtable" where
  "new_regtable spec raw = rt_loadReset
     \<lparr>rt_spec = spec, rt_offset = rt_layout (rs_entries spec) 0 0, rt_values = raw, rt_pointer = 0, rt_reads = 0,
      rt_writes = 0, rt_unmapped = 0, rt_refused = 0\<rparr>"

definition rt_reset :: "'a regtable_scheme \<Rightarrow> 'a regtable_scheme" where
  "rt_reset d = (rt_loadReset d)\<lparr>rt_pointer := 0, rt_reads := 0, rt_writes := 0, rt_unmapped := 0, rt_refused := 0\<rparr>"

definition rt_find :: "'a regtable_scheme \<Rightarrow> u8 \<Rightarrow> nat option" where
  "rt_find d address = List.find (\<lambda>i. re_address (rt_entry d i) = address) [0..<rt_count d]"

definition rt_has :: "'a regtable_scheme \<Rightarrow> u8 \<Rightarrow> bool" where
  "rt_has d address = (rt_find d address \<noteq> None)"

definition rt_width :: "'a regtable_scheme \<Rightarrow> u8 \<Rightarrow> nat" where
  "rt_width d address = (case rt_find d address of None \<Rightarrow> 0 | Some i \<Rightarrow> re_width (rt_entry d i))"

definition rt_get :: "'a regtable_scheme \<Rightarrow> u8 \<Rightarrow> nat \<Rightarrow> u8" where
  "rt_get d address offset =
     (case rt_find d address of None \<Rightarrow> 0
      | Some i \<Rightarrow> if re_width (rt_entry d i) \<le> offset then 0 else rt_values d ! (rt_offset d ! i + offset))"

definition rt_set :: "u8 \<Rightarrow> nat \<Rightarrow> u8 \<Rightarrow> 'a regtable_scheme \<Rightarrow> 'a regtable_scheme" where
  "rt_set address offset v d =
     (case rt_find d address of None \<Rightarrow> d
      | Some i \<Rightarrow> if re_width (rt_entry d i) \<le> offset then d
          else d\<lparr>rt_values := (rt_values d)[rt_offset d ! i + offset := v]\<rparr>)"

definition rt_setBytes :: "u8 \<Rightarrow> bytes \<Rightarrow> 'a regtable_scheme \<Rightarrow> 'a regtable_scheme" where
  "rt_setBytes address bs d = fold (\<lambda>k. rt_set address k (bs ! k)) [0..<length bs] d"

section \<open>Methods\<close>

definition rt_refuse :: "string \<Rightarrow> 'a regtable_scheme \<Rightarrow> ('m, u8 \<times> 'a regtable_scheme) prog" where
  "rt_refuse line d = note_then line (Ret (kI2cDataNack, d\<lparr>rt_refused := rt_refused d + 1\<rparr>))"

definition rt_i2cWrite ::
    "(u8 \<Rightarrow> bytes \<Rightarrow> 'a regtable_scheme \<Rightarrow> ('m, 'a regtable_scheme) prog) \<Rightarrow>
     bytes \<Rightarrow> i2c_transfer \<Rightarrow> 'a regtable_scheme \<Rightarrow> ('m, u8 \<times> 'a regtable_scheme) prog" where
  "rt_i2cWrite afterWrite data xfer d =
     (case data of [] \<Rightarrow> Ret (kI2cAck, d)
      | address # payload \<Rightarrow>
          let d1 = d\<lparr>rt_pointer := address\<rparr>
          in if payload = [] then Ret (kI2cAck, d1)
             else case rt_find d1 address of
               None \<Rightarrow> rt_refuse (''write refused: register '' @ hex2 address @ '' not writable'') d1
             | Some i \<Rightarrow>
                 if re_flags (rt_entry d1 i) AND kWritable = 0 then
                   rt_refuse (''write refused: register '' @ hex2 address @ '' not writable'') d1
                 else if re_width (rt_entry d1 i) < length payload then
                   rt_refuse (''write refused: '' @ decu (length payload) @ '' bytes into '' @ dec (re_width (rt_entry d1 i)) @
                     ''-byte register '' @ hex2 address) d1
                 else let d2 = d1\<lparr>rt_values := store_bytes (rt_offset d1 ! i) payload (rt_values d1),
                                  rt_writes := rt_writes d1 + 1\<rparr>
                      in andThen (afterWrite address payload d2) (\<lambda>d3. Ret (kI2cAck, d3)))"

text \<open>The answer of the read hook: \<open>None\<close> is \<open>kPassThrough\<close>.\<close>

definition rt_table_read :: "nat \<Rightarrow> 'a regtable_scheme \<Rightarrow> ('m, nat \<times> bytes \<times> 'a regtable_scheme) prog" where
  "rt_table_read len d =
     (case rt_find d (rt_pointer d) of
        None \<Rightarrow> note_then (''read of unmapped register '' @ hex2 (rt_pointer d))
                  (Ret (0, [], d\<lparr>rt_unmapped := rt_unmapped d + 1\<rparr>))
      | Some i \<Rightarrow>
          let count = min len (re_width (rt_entry d i))
          in Ret (count, map (\<lambda>k. rt_values d ! (rt_offset d ! i + k)) [0..<count], d\<lparr>rt_reads := rt_reads d + 1\<rparr>))"

definition rt_i2cRead ::
    "(u8 \<Rightarrow> nat \<Rightarrow> 'a regtable_scheme \<Rightarrow> ('m, (nat \<times> bytes) option \<times> 'a regtable_scheme) prog) \<Rightarrow>
     nat \<Rightarrow> i2c_transfer \<Rightarrow> 'a regtable_scheme \<Rightarrow> ('m, nat \<times> bytes \<times> 'a regtable_scheme) prog" where
  "rt_i2cRead onRead len xfer d =
     (if rs_repeated_start (rt_spec d) \<and> \<not> xcontinued xfer then Ret (0, [], d)
      else andThen (onRead (rt_pointer d) len d) (\<lambda>(hooked, d1).
             case hooked of
               Some (n, out) \<Rightarrow> if n \<le> len then Ret (n, out, d1) else Ret (0, out, d1)
             | None \<Rightarrow> rt_table_read len d1))"

definition channel_entry :: "'a regtable_scheme \<Rightarrow> u8 \<Rightarrow> reg_channel option" where
  "channel_entry d channel = List.find (\<lambda>c. rc_channel c = channel) (rs_channels (rt_spec d))"

definition rt_channel_set :: "u8 \<Rightarrow> bytes \<Rightarrow> 'a regtable_scheme \<Rightarrow> bool \<times> 'a regtable_scheme" where
  "rt_channel_set channel data d =
     (case channel_entry d channel of None \<Rightarrow> (False, d)
      | Some c \<Rightarrow> (case rt_find d (rc_address c) of None \<Rightarrow> (False, d)
          | Some i \<Rightarrow> if length data \<noteq> re_width (rt_entry d i) then (False, d)
              else (True, d\<lparr>rt_values := store_bytes (rt_offset d ! i) data (rt_values d)\<rparr>)))"

definition rt_channelWrite :: "u8 \<Rightarrow> bytes \<Rightarrow> 'a regtable_scheme \<Rightarrow> ('m, bool \<times> 'a regtable_scheme) prog" where
  "rt_channelWrite channel data d = Ret (rt_channel_set channel data d)"

definition rt_channelRead :: "u8 \<Rightarrow> nat \<Rightarrow> 'a regtable_scheme \<Rightarrow> channel_answer" where
  "rt_channelRead channel cap d =
     (case channel_entry d channel of None \<Rightarrow> None
      | Some c \<Rightarrow> (case rt_find d (rc_address c) of None \<Rightarrow> None
          | Some i \<Rightarrow> Some (re_width (rt_entry d i),
              map (\<lambda>k. rt_values d ! (rt_offset d ! i + k)) [0..<min (re_width (rt_entry d i)) cap])))"

definition rt_dump :: "'a regtable_scheme \<Rightarrow> string" where
  "rt_dump d = ''regtable ptr='' @ hex2 (rt_pointer d) @ '' regs='' @ decu (rt_count d) @ '' rd='' @ decw (rt_reads d) @
     '' wr='' @ decw (rt_writes d) @ '' unmapped='' @ decw (rt_unmapped d) @ '' refused='' @ decw (rt_refused d)"

text \<open>The hooks a table without a derived class has.\<close>

definition pass_through :: "u8 \<Rightarrow> nat \<Rightarrow> 'd \<Rightarrow> ('m, (nat \<times> bytes) option \<times> 'd) prog" where
  "pass_through address len d = Ret (None, d)"

definition no_after_write :: "u8 \<Rightarrow> bytes \<Rightarrow> 'd \<Rightarrow> ('m, 'd) prog" where
  "no_after_write address bs d = Ret d"

definition regtable_device :: "('m, regtable) device" where
  "regtable_device = (base_device rt_reset)\<lparr>
     dv_i2c_write := rt_i2cWrite no_after_write, dv_i2c_read := rt_i2cRead pass_through,
     dv_channel_write := rt_channelWrite, dv_channel_read := (\<lambda>channel cap d. rt_channelRead channel cap d),
     dv_dump := rt_dump\<rparr>"

section \<open>The layout\<close>

lemma rt_layout_length: "length (rt_layout es used count) \<le> length es"
  by (induction es used count rule: rt_layout.induct) auto

lemma rt_layout_bounds:
  "i < length (rt_layout es used count) \<Longrightarrow>
   used \<le> rt_layout es used count ! i \<and> rt_layout es used count ! i + re_width (es ! i) \<le> kValueBytes \<and>
   count + length (rt_layout es used count) \<le> kMaxRegisters \<and> 0 < re_width (es ! i)"
  by (induction es used count arbitrary: i rule: rt_layout.induct)
     (fastforce simp: less_Suc_eq_0_disj split: if_splits)+

lemma rt_layout_disjoint:
  "i < j \<Longrightarrow> j < length (rt_layout es used count) \<Longrightarrow>
   rt_layout es used count ! i + re_width (es ! i) \<le> rt_layout es used count ! j"
proof (induction es used count arbitrary: i j rule: rt_layout.induct)
  case (2 e es used count)
  then show ?case
    using rt_layout_bounds [of "j - 1" es "used + re_width e" "count + 1"]
    by (cases i; cases j) (auto split: if_splits)
qed simp

text \<open>Well-formed states: the offsets are the layout of the table, the values are all there.\<close>

definition rt_ok :: "'a regtable_scheme \<Rightarrow> bool" where
  "rt_ok d \<longleftrightarrow> rt_offset d = rt_layout (rs_entries (rt_spec d)) 0 0 \<and> length (rt_values d) = kValueBytes"

lemma rt_span:
  assumes "rt_ok d" "i < rt_count d"
  shows "rt_offset d ! i + re_width (rt_entry d i) \<le> length (rt_values d)" "0 < re_width (rt_entry d i)"
  using rt_layout_bounds [of i "rs_entries (rt_spec d)" 0 0] assms
  by (auto simp: rt_ok_def rt_count_def rt_entry_def)

lemma rt_apart:
  assumes "rt_ok d" "i < rt_count d" "j < rt_count d" "i \<noteq> j"
  shows "rt_offset d ! i + re_width (rt_entry d i) \<le> rt_offset d ! j \<or>
    rt_offset d ! j + re_width (rt_entry d j) \<le> rt_offset d ! i"
  using rt_layout_disjoint [of i j "rs_entries (rt_spec d)" 0 0] rt_layout_disjoint [of j i "rs_entries (rt_spec d)" 0 0] assms
  by (auto simp: rt_ok_def rt_count_def rt_entry_def neq_iff)

section \<open>The abstract map\<close>

definition rt_slice :: "'a regtable_scheme \<Rightarrow> nat \<Rightarrow> bytes" where
  "rt_slice d i = take (re_width (rt_entry d i)) (drop (rt_offset d ! i) (rt_values d))"

definition rt_bytes :: "'a regtable_scheme \<Rightarrow> u8 \<Rightarrow> bytes option" where
  "rt_bytes d address = map_option (rt_slice d) (rt_find d address)"

lemma store_bytes_length [simp]: "length (store_bytes at bs vs) = length vs"
  by (induction at bs vs rule: store_bytes.induct) auto

lemma store_bytes_alt:
  "at + length bs \<le> length vs \<Longrightarrow> store_bytes at bs vs = take at vs @ bs @ drop (at + length bs) vs"
proof (induction at bs vs rule: store_bytes.induct)
  case (2 at b bs vs)
  then have "store_bytes (at + 1) bs (vs[at := b]) = take (at + 1) (vs[at := b]) @ bs @ drop (at + 1 + length bs) (vs[at := b])"
    by simp
  moreover have "take (at + 1) (vs[at := b]) = take at vs @ [b]"
    using 2(2) by (simp add: take_Suc_conv_app_nth)
  ultimately show ?case by simp
qed simp

lemma store_slice_same:
  assumes "at + w \<le> length vs" "length bs \<le> w"
  shows "take w (drop at (store_bytes at bs vs)) = bs @ drop (length bs) (take w (drop at vs))"
  using assms by (simp add: store_bytes_alt drop_take add.commute)

lemma store_slice_other:
  assumes "at + length bs \<le> length vs" "at + length bs \<le> from \<or> from + w \<le> at"
  shows "take w (drop from (store_bytes at bs vs)) = take w (drop from vs)"
proof (rule nth_equalityI)
  show "length (take w (drop from (store_bytes at bs vs))) = length (take w (drop from vs))" by simp
  fix i assume i: "i < length (take w (drop from (store_bytes at bs vs)))"
  then show "take w (drop from (store_bytes at bs vs)) ! i = take w (drop from vs) ! i"
    using assms by (auto simp: store_bytes_alt nth_append)
qed

lemma rt_findD: "rt_find d a = Some i \<Longrightarrow> i < rt_count d \<and> re_address (rt_entry d i) = a"
  by (auto simp: rt_find_def find_Some_iff)

lemma rt_slice_length [simp]: "rt_ok d \<Longrightarrow> i < rt_count d \<Longrightarrow> length (rt_slice d i) = re_width (rt_entry d i)"
  using rt_span(1) [of d i] by (simp add: rt_slice_def)

text \<open>What does not depend on the values.\<close>

lemma rt_update_simps [simp]:
  "rt_entry (d\<lparr>rt_values := vs\<rparr>) = rt_entry d" "rt_count (d\<lparr>rt_values := vs\<rparr>) = rt_count d"
  "rt_find (d\<lparr>rt_values := vs\<rparr>) = rt_find d" "rt_width (d\<lparr>rt_values := vs\<rparr>) = rt_width d"
  "rt_has (d\<lparr>rt_values := vs\<rparr>) = rt_has d"
  by (simp_all add: rt_entry_def [abs_def] rt_count_def rt_find_def [abs_def] rt_width_def [abs_def] rt_has_def [abs_def]
      cong: option.case_cong)

lemma rt_counter_simps [simp]:
  "rt_entry (d\<lparr>rt_pointer := a\<rparr>) = rt_entry d" "rt_count (d\<lparr>rt_pointer := a\<rparr>) = rt_count d"
  "rt_find (d\<lparr>rt_pointer := a\<rparr>) = rt_find d" "rt_bytes (d\<lparr>rt_pointer := a\<rparr>) = rt_bytes d" "rt_ok (d\<lparr>rt_pointer := a\<rparr>) = rt_ok d"
  "rt_find (d\<lparr>rt_reads := n\<rparr>) = rt_find d" "rt_bytes (d\<lparr>rt_reads := n\<rparr>) = rt_bytes d" "rt_ok (d\<lparr>rt_reads := n\<rparr>) = rt_ok d"
  "rt_find (d\<lparr>rt_writes := n\<rparr>) = rt_find d" "rt_bytes (d\<lparr>rt_writes := n\<rparr>) = rt_bytes d" "rt_ok (d\<lparr>rt_writes := n\<rparr>) = rt_ok d"
  "rt_find (d\<lparr>rt_unmapped := n\<rparr>) = rt_find d" "rt_bytes (d\<lparr>rt_unmapped := n\<rparr>) = rt_bytes d" "rt_ok (d\<lparr>rt_unmapped := n\<rparr>) = rt_ok d"
  "rt_find (d\<lparr>rt_refused := n\<rparr>) = rt_find d" "rt_bytes (d\<lparr>rt_refused := n\<rparr>) = rt_bytes d" "rt_ok (d\<lparr>rt_refused := n\<rparr>) = rt_ok d"
  by (simp_all add: rt_entry_def [abs_def] rt_count_def rt_find_def [abs_def] rt_bytes_def [abs_def] rt_slice_def [abs_def] rt_ok_def)

lemma rt_ok_values [simp]: "length vs = length (rt_values d) \<Longrightarrow> rt_ok (d\<lparr>rt_values := vs\<rparr>) = rt_ok d"
  by (simp add: rt_ok_def)

text \<open>A store into the bytes of one register is an update of the map.\<close>

definition overwrite_bytes :: "bytes \<Rightarrow> bytes \<Rightarrow> bytes" where
  "overwrite_bytes bs v = bs @ drop (length bs) v"

lemma rt_store_bytes:
  assumes "rt_ok d" "rt_find d a = Some i" "length bs \<le> re_width (rt_entry d i)"
  shows "rt_bytes (d\<lparr>rt_values := store_bytes (rt_offset d ! i) bs (rt_values d)\<rparr>) =
    (rt_bytes d)(a \<mapsto> overwrite_bytes bs (rt_slice d i))"
proof
  fix b
  note i = rt_findD [OF assms(2)]
  note span = rt_span(1) [OF assms(1) i [THEN conjunct1]]
  let ?d = "d\<lparr>rt_values := store_bytes (rt_offset d ! i) bs (rt_values d)\<rparr>"
  have same: "rt_slice ?d i = overwrite_bytes bs (rt_slice d i)"
    using store_slice_same [OF span assms(3)] by (simp add: rt_slice_def overwrite_bytes_def)
  have other: "rt_slice ?d j = rt_slice d j" if "j < rt_count d" "j \<noteq> i" for j
  proof -
    have "rt_offset d ! i + length bs \<le> length (rt_values d)" using span assms(3) by linarith
    moreover have "rt_offset d ! i + length bs \<le> rt_offset d ! j \<or> rt_offset d ! j + re_width (rt_entry d j) \<le> rt_offset d ! i"
      using rt_apart [OF assms(1) that(1) i [THEN conjunct1] that(2)] assms(3) by linarith
    ultimately show ?thesis by (simp add: rt_slice_def store_slice_other)
  qed
  show "rt_bytes ?d b = ((rt_bytes d)(a \<mapsto> overwrite_bytes bs (rt_slice d i))) b"
  proof (cases "rt_find d b")
    case (Some j)
    note j = rt_findD [OF Some]
    show ?thesis
    proof (cases "b = a")
      case True
      then show ?thesis using same assms(2) by (simp add: rt_bytes_def)
    next
      case False
      then have "j \<noteq> i" using i j by blast
      then show ?thesis using False other [OF j [THEN conjunct1]] Some by (simp add: rt_bytes_def)
    qed
  qed (use assms(2) in \<open>auto simp: rt_bytes_def\<close>)
qed

text \<open>The setters for hooks are updates of the map as well.\<close>

lemma rt_get_bytes:
  assumes "rt_ok d"
  shows "rt_get d a k = (case rt_bytes d a of None \<Rightarrow> 0 | Some v \<Rightarrow> if k < length v then v ! k else 0)"
proof (cases "rt_find d a")
  case (Some i)
  note i = rt_findD [OF Some, THEN conjunct1]
  show ?thesis using Some rt_span(1) [OF assms i] by (simp add: rt_get_def rt_bytes_def rt_slice_def)
qed (simp add: rt_get_def rt_bytes_def)

lemma rt_width_bytes: "rt_ok d \<Longrightarrow> rt_width d a = (case rt_bytes d a of None \<Rightarrow> 0 | Some v \<Rightarrow> length v)"
  by (auto simp: rt_width_def rt_bytes_def dest!: rt_findD split: option.split)

lemma rt_has_bytes: "rt_has d a \<longleftrightarrow> rt_bytes d a \<noteq> None"
  by (simp add: rt_has_def rt_bytes_def)

lemma store_bytes_snoc: "store_bytes at (bs @ [b]) vs = (store_bytes at bs vs)[at + length bs := b]"
  by (induction at bs vs rule: store_bytes.induct) simp_all

lemma rt_setBytes_store:
  assumes "rt_find d a = Some i" "length bs \<le> re_width (rt_entry d i)"
  shows "rt_setBytes a bs d = d\<lparr>rt_values := store_bytes (rt_offset d ! i) bs (rt_values d)\<rparr>"
proof -
  have "fold (\<lambda>k. rt_set a k (bs ! k)) [0..<n] d = d\<lparr>rt_values := store_bytes (rt_offset d ! i) (take n bs) (rt_values d)\<rparr>"
    if "n \<le> length bs" for n
    using that
  proof (induction n)
    case (Suc n)
    then show ?case using assms by (simp add: rt_set_def take_Suc_conv_app_nth store_bytes_snoc)
  qed simp
  from this [of "length bs"] show ?thesis by (simp add: rt_setBytes_def)
qed

lemma rt_setBytes_bytes:
  assumes "rt_ok d" "rt_bytes d a = Some v" "length bs \<le> length v"
  shows "rt_bytes (rt_setBytes a bs d) = (rt_bytes d)(a \<mapsto> overwrite_bytes bs v)" "rt_ok (rt_setBytes a bs d)"
proof -
  obtain i where i: "rt_find d a = Some i" "v = rt_slice d i" using assms(2) by (auto simp: rt_bytes_def)
  have w: "length bs \<le> re_width (rt_entry d i)"
    using assms(1,3) i rt_findD [OF i(1)] by simp
  show "rt_bytes (rt_setBytes a bs d) = (rt_bytes d)(a \<mapsto> overwrite_bytes bs v)" "rt_ok (rt_setBytes a bs d)"
    using rt_store_bytes [OF assms(1) i(1) w] assms(1) by (simp_all add: rt_setBytes_store [OF i(1) w] i(2))
qed

lemma rt_set_first: "rt_set a 0 v d = rt_setBytes a [v] d"
  by (simp add: rt_setBytes_def)

lemma rt_loadReset_table [simp]:
  "rt_find (rt_loadReset d) = rt_find d" "rt_entry (rt_loadReset d) = rt_entry d" "rt_count (rt_loadReset d) = rt_count d"
  by (simp_all add: rt_loadReset_def)

text \<open>Loading the reset contents gives every register its own, whatever was there.\<close>

lemma rt_loadReset_bytes:
  assumes "rt_ok d"
  shows "rt_bytes (rt_loadReset d) = (\<lambda>a. map_option (\<lambda>i. reset_bytes (rt_entry d i)) (rt_find d a))" "rt_ok (rt_loadReset d)"
proof -
  let ?load = "\<lambda>n. fold (\<lambda>i vs. store_bytes (rt_offset d ! i) (reset_bytes (rt_entry d i)) vs) [0..<n] (rt_values d)"
  have len: "length (?load n) = length (rt_values d)" for n by (induction n) simp_all
  have slice: "take (re_width (rt_entry d j)) (drop (rt_offset d ! j) (?load n)) = reset_bytes (rt_entry d j)"
    if "n \<le> rt_count d" "j < n" for n j
    using that
  proof (induction n)
    case (Suc n)
    have w: "length (reset_bytes (rt_entry d n)) = re_width (rt_entry d n)" by (simp add: reset_bytes_def)
    have span: "rt_offset d ! n + re_width (rt_entry d n) \<le> length (?load n)"
      using rt_span(1) [OF assms, of n] Suc.prems len by simp
    show ?case
    proof (cases "j = n")
      case True
      then show ?thesis using store_slice_same [OF span, of "reset_bytes (rt_entry d n)"] w by simp
    next
      case False
      then have "take (re_width (rt_entry d j)) (drop (rt_offset d ! j) (?load (Suc n))) =
          take (re_width (rt_entry d j)) (drop (rt_offset d ! j) (?load n))"
        using rt_apart [OF assms, of j n] Suc.prems span w by (simp add: store_slice_other disj_commute)
      then show ?thesis using Suc False by simp
    qed
  qed simp
  have "rt_slice (rt_loadReset d) i = reset_bytes (rt_entry d i)" if "i < rt_count d" for i
    using slice [OF order_refl that] by (simp add: rt_slice_def rt_loadReset_def)
  then show "rt_bytes (rt_loadReset d) = (\<lambda>a. map_option (\<lambda>i. reset_bytes (rt_entry d i)) (rt_find d a))"
    using rt_findD by (fastforce simp: rt_bytes_def rt_loadReset_def intro!: option.map_cong0 split: option.split)
  show "rt_ok (rt_loadReset d)" using assms len by (simp add: rt_ok_def rt_loadReset_def)
qed

text \<open>A read from the table answers the first bytes of the register pointed at.\<close>

lemma rt_table_read_bytes:
  assumes "rt_ok d"
  shows "rt_table_read len d =
    (case rt_bytes d (rt_pointer d) of
       None \<Rightarrow> note_then (''read of unmapped register '' @ hex2 (rt_pointer d)) (Ret (0, [], d\<lparr>rt_unmapped := rt_unmapped d + 1\<rparr>))
     | Some v \<Rightarrow> Ret (min len (length v), take len v, d\<lparr>rt_reads := rt_reads d + 1\<rparr>))"
proof (cases "rt_find d (rt_pointer d)")
  case (Some i)
  note i = rt_findD [OF Some, THEN conjunct1]
  have "map (\<lambda>k. rt_values d ! (rt_offset d ! i + k)) [0..<min len (re_width (rt_entry d i))] = take len (rt_slice d i)"
    by (rule nth_equalityI) (use rt_span(1) [OF assms i] in \<open>auto simp: rt_slice_def\<close>)
  then show ?thesis using Some rt_slice_length [OF assms i] by (simp add: rt_table_read_def rt_bytes_def Let_def)
qed (simp add: rt_table_read_def rt_bytes_def)

definition accepts_write :: "'a regtable_scheme \<Rightarrow> u8 \<Rightarrow> bytes \<Rightarrow> bool" where
  "accepts_write d a bs = (case rt_find d a of None \<Rightarrow> False
     | Some i \<Rightarrow> re_flags (rt_entry d i) AND kWritable \<noteq> 0 \<and> length bs \<le> re_width (rt_entry d i))"

text \<open>A write and a read as operations on the map.\<close>

lemma rt_write_map:
  assumes "rt_ok d" "run_prog hp (rt_i2cWrite no_after_write (a # bs) xfer d) p = ((status, d1), p1)"
  shows "(status = kI2cAck \<longleftrightarrow> bs = [] \<or> accepts_write d a bs) \<and> rt_ok d1 \<and> rt_pointer d1 = a \<and>
    rt_bytes d1 = (if accepts_write d a bs \<and> bs \<noteq> [] then (rt_bytes d)(a \<mapsto> overwrite_bytes bs (the (rt_bytes d a))) else rt_bytes d)"
proof (cases "bs \<noteq> [] \<and> accepts_write d a bs")
  case True
  then obtain i where i: "rt_find d a = Some i" "re_flags (rt_entry d i) AND kWritable \<noteq> 0" "length bs \<le> re_width (rt_entry d i)"
    by (auto simp: accepts_write_def split: option.splits)
  have "rt_ok (d\<lparr>rt_pointer := a\<rparr>)" "rt_find (d\<lparr>rt_pointer := a\<rparr>) a = Some i" using assms(1) i(1) by simp_all
  from rt_store_bytes [OF this] i(3) show ?thesis
    using assms(1,2) True i by (auto simp: rt_i2cWrite_def no_after_write_def Let_def rt_bytes_def [of d] rt_slice_def)
next
  case False
  have "kI2cDataNack \<noteq> kI2cAck" by (simp add: i2c_status_defs)
  with False show ?thesis
    using assms(1,2) by (auto simp: rt_i2cWrite_def rt_refuse_def accepts_write_def Let_def split: option.splits if_splits)
qed

lemma rt_read_map:
  assumes "rt_ok d" "run_prog hp (rt_i2cRead pass_through len xfer d) p = ((n, out, d1), p1)"
    "\<not> rs_repeated_start (rt_spec d) \<or> xcontinued xfer"
  shows "out = (case rt_bytes d (rt_pointer d) of None \<Rightarrow> [] | Some v \<Rightarrow> take len v) \<and> n = length out \<and>
    rt_bytes d1 = rt_bytes d \<and> rt_ok d1"
  using assms
  by (cases "rt_bytes d (rt_pointer d)") (auto simp: rt_i2cRead_def pass_through_def rt_table_read_bytes [OF assms(1)] min.commute)

section \<open>Properties\<close>

text \<open>C34: a register-map device is the map of its table. A write moves the pointer and, when the
  register is there, is writable and is wide enough, replaces the first bytes of that register
  and of no other; otherwise it is refused and the map stays; a read answers the first bytes of
  the register pointed at, and nothing when there is none.\<close>

theorem regtable_refines_register_map:
  assumes "rt_ok d" "run_prog hp (rt_i2cWrite no_after_write (a # bs) xfer d) p = ((status, d1), p1)"
    "run_prog hp (rt_i2cRead pass_through len xfer1 d1) p2 = ((n, out, d2), p3)"
    "\<not> rs_repeated_start (rt_spec d1) \<or> xcontinued xfer1"
  shows "(status = kI2cAck \<longleftrightarrow> bs = [] \<or> accepts_write d a bs) \<and>
    rt_bytes d1 = (if accepts_write d a bs \<and> bs \<noteq> [] then (rt_bytes d)(a \<mapsto> overwrite_bytes bs (the (rt_bytes d a))) else rt_bytes d) \<and>
    out = (case rt_bytes d1 a of None \<Rightarrow> [] | Some v \<Rightarrow> take len v) \<and> n = length out \<and>
    rt_bytes d2 = rt_bytes d1 \<and> rt_ok d2"
proof -
  note wrote = rt_write_map [OF assms(1,2)]
  then show ?thesis using rt_read_map [OF _ assms(3,4)] by auto
qed

text \<open>A part with a read-only measurement and a writable limit of two bytes.\<close>

definition sample_table :: reg_spec where
  "sample_table = \<lparr>rs_entries = [\<lparr>re_address = 0, re_width = 2, re_reset = None, re_flags = kVolatile\<rparr>,
     \<lparr>re_address = 1, re_width = 2, re_reset = Some [0x11, 0x22], re_flags = kWritable\<rparr>], rs_channels = [],
     rs_repeated_start = True\<rparr>"

lemma sample_table_ok:
  "rt_ok (new_regtable sample_table (replicate 96 0))"
  "rt_bytes (new_regtable sample_table (replicate 96 0)) 1 = Some [0x11, 0x22]"
  "accepts_write (new_regtable sample_table (replicate 96 0)) 1 [0xAA]"
proof -
  let ?raw = "\<lparr>rt_spec = sample_table, rt_offset = rt_layout (rs_entries sample_table) 0 0, rt_values = replicate 96 0,
      rt_pointer = 0, rt_reads = 0, rt_writes = 0, rt_unmapped = 0, rt_refused = 0\<rparr>"
  have raw: "rt_ok ?raw" by (simp add: rt_ok_def kValueBytes_def)
  have lay: "rt_layout (rs_entries sample_table) 0 0 = [0, 2]"
    by (simp add: sample_table_def kMaxRegisters_def kValueBytes_def)
  have count: "[0..<rt_count ?raw] = [0, 1]" by (simp add: rt_count_def lay upt_rec)
  have at: "rt_find ?raw 1 = Some 1"
    unfolding rt_find_def count by (simp add: rt_entry_def sample_table_def)
  show "rt_ok (new_regtable sample_table (replicate 96 0))"
    unfolding new_regtable_def by (rule rt_loadReset_bytes(2) [OF raw])
  show "rt_bytes (new_regtable sample_table (replicate 96 0)) 1 = Some [0x11, 0x22]"
    unfolding new_regtable_def rt_loadReset_bytes(1) [OF raw] at
    by (simp add: rt_entry_def sample_table_def reset_bytes_def numeral_2_eq_2)
  show "accepts_write (new_regtable sample_table (replicate 96 0)) 1 [0xAA]"
    unfolding accepts_write_def new_regtable_def rt_loadReset_table at
    by (simp add: rt_entry_def sample_table_def kWritable_def)
qed

theorem regtable_refines_register_map_witness:
  "\<exists>d1 p1 d2 p3. run_prog (bench_port 0) (rt_i2cWrite no_after_write [1, 0xAA] \<lparr>xstop = False, xcontinued = False\<rparr>
      (new_regtable sample_table (replicate 96 0))) (new_bench 0) = ((kI2cAck, d1), p1) \<and>
    run_prog (bench_port 0) (rt_i2cRead pass_through 8 \<lparr>xstop = True, xcontinued = True\<rparr> d1) p1 = ((2, [0xAA, 0x22], d2), p3)"
proof -
  let ?d = "new_regtable sample_table (replicate 96 0)"
  obtain st d1 p1 where w: "run_prog (bench_port 0) (rt_i2cWrite no_after_write (1 # [0xAA]) \<lparr>xstop = False, xcontinued = False\<rparr> ?d)
      (new_bench 0) = ((st, d1), p1)" by (metis prod.exhaust)
  obtain n out d2 p3 where r: "run_prog (bench_port 0) (rt_i2cRead pass_through 8 \<lparr>xstop = True, xcontinued = True\<rparr> d1) p1 =
      ((n, out, d2), p3)" by (metis prod.exhaust)
  from regtable_refines_register_map [OF sample_table_ok(1) w r]
  have "st = kI2cAck" "out = [0xAA, 0x22]" "n = 2"
    using sample_table_ok(2,3) by (simp_all add: overwrite_bytes_def)
  then show ?thesis using w r by auto
qed

end
