(* ===== verification/Qmp6988_Model.thy ===== *)
theory Qmp6988_Model
  imports Regtable_Model
begin

text \<open>
  The barometer of \<open>devices/src/qmp6988_model.h\<close> and \<open>.cpp\<close>: the table device with the hooks that say
  what its registers do in time. Forced and normal conversions, the status bit that follows
  them, byte-addressed reads and the software reset.
\<close>

section \<open>The table\<close>

definition qmp_reset_A0 :: bytes where
  "qmp_reset_A0 = [0x52, 0xDC, 0x0D, 0xA7, 0xF4, 0x82, 0x0D, 0xDC, 0x0C, 0xD2, 0x01, 0xE6, 0xFC, 0x86, 0xF9, 0xC9,
     0xFA, 0xA2, 0xF7, 0x2B, 0x0C, 0xBB, 0x03, 0xD8, 0xBB]"

definition qmp_entry :: "u8 \<Rightarrow> bytes \<Rightarrow> u8 \<Rightarrow> reg_entry" where
  "qmp_entry address contents flags =
     \<lparr>re_address = address, re_width = length contents, re_reset = Some contents, re_flags = flags\<rparr>"

definition qmp_entries :: "reg_entry list" where
  "qmp_entries = [qmp_entry 0xA0 qmp_reset_A0 0, qmp_entry 0xD1 [0x5C] 0, qmp_entry 0xE0 [0] kWritable,
     qmp_entry 0xF1 [0] kWritable, qmp_entry 0xF2 [1] kWritable, qmp_entry 0xF3 [0] kVolatile,
     qmp_entry 0xF4 [0] kWritable, qmp_entry 0xF5 [0] kWritable, qmp_entry 0xF7 [0, 0, 0, 0, 0, 0] kVolatile]"

definition qmp_spec :: reg_spec where
  "qmp_spec = \<lparr>rs_entries = qmp_entries, rs_channels = [], rs_repeated_start = False\<rparr>"

definition qRegReset :: u8 where "qRegReset = 0xE0"
definition qRegStatus :: u8 where "qRegStatus = 0xF3"
definition qRegCtrlMeas :: u8 where "qRegCtrlMeas = 0xF4"
definition qRegIoSetup :: u8 where "qRegIoSetup = 0xF5"
definition qRegData :: u8 where "qRegData = 0xF7"
definition qResetValue :: u8 where "qResetValue = 0xE6"
definition qStatusMeasuring :: u8 where "qStatusMeasuring = 0x08"
definition qSampleBytes :: nat where "qSampleBytes = 6"
definition qMaxSamples :: nat where "qMaxSamples = 32"
definition kConversionBaseUs :: u64 where "kConversionBaseUs = 2970"
definition kConversionPerSampleUs :: u64 where "kConversionPerSampleUs = 855"
definition kStatusDelayUs :: u64 where "kStatusDelayUs = 225"

definition kStandbyUs :: "u64 list" where
  "kStandbyUs = [972, 5391, 45600, 219640, 500000, 1000000, 2000000, 4000000]"

lemmas q_reg_defs = qRegReset_def qRegStatus_def qRegCtrlMeas_def qRegIoSetup_def qRegData_def

section \<open>State\<close>

datatype qmp_mode = QSleep | QForced | QNormal

record qmp = regtable +
  qm_mode :: qmp_mode
  qm_pending :: bool
  qm_start_us :: u64
  qm_due_us :: u64
  qm_samples :: bytes
  qm_sample_count :: nat
  qm_next_sample :: nat
  qm_calibration :: bytes
  qm_calibration_set :: bool
  qm_conversions :: u32

text \<open>The constructor; the sample array is not initialised before samples are set.\<close>

definition new_qmp :: "bytes \<Rightarrow> bytes \<Rightarrow> qmp" where
  "new_qmp raw raw_samples = regtable.extend (new_regtable qmp_spec raw)
     \<lparr>qm_mode = QSleep, qm_pending = False, qm_start_us = 0, qm_due_us = 0, qm_samples = raw_samples, qm_sample_count = 0,
      qm_next_sample = 0, qm_calibration = qmp_reset_A0, qm_calibration_set = False, qm_conversions = 0\<rparr>"

definition qmp_reset :: "qmp \<Rightarrow> qmp" where
  "qmp_reset d =
     (let d1 = rt_reset d;
          d2 = (if qm_calibration_set d1 then rt_setBytes 0xA0 (qm_calibration d1) d1 else d1)
      in d2\<lparr>qm_mode := QSleep, qm_pending := False, qm_start_us := 0, qm_due_us := 0, qm_next_sample := 0,
            qm_conversions := 0\<rparr>)"

section \<open>Time\<close>

definition averaged :: "u8 \<Rightarrow> u32" where
  "averaged field = (if field = 0 then 0 else push_bit (unat (field - 1)) 1)"

definition qmp_conversionUs :: "qmp \<Rightarrow> u64" where
  "qmp_conversionUs d =
     (let ctrl = rt_get d qRegCtrlMeas 0
      in kConversionBaseUs + kConversionPerSampleUs *
           ucast (averaged (drop_bit 5 ctrl AND 7) + averaged (drop_bit 2 ctrl AND 7)))"

definition qmp_normalPeriodUs :: "qmp \<Rightarrow> u64" where
  "qmp_normalPeriodUs d = qmp_conversionUs d + kStandbyUs ! unat (drop_bit 5 (rt_get d qRegIoSetup 0) AND 7)"

text \<open>One conversion completes: the data register takes the next sample of the sequence.\<close>

definition qmp_latch :: "qmp \<Rightarrow> qmp" where
  "qmp_latch d =
     (let d1 = (if qm_sample_count d > 0
                then (rt_setBytes qRegData (take qSampleBytes (drop (qm_next_sample d * qSampleBytes) (qm_samples d))) d)
                       \<lparr>qm_next_sample := (qm_next_sample d + 1) mod qm_sample_count d\<rparr>
                else d)
      in d1\<lparr>qm_conversions := qm_conversions d1 + 1\<rparr>)"

definition qmp_complete :: "qmp \<Rightarrow> ('m, qmp) prog" where
  "qmp_complete d =
     (let d1 = qmp_latch d
      in if qm_mode d1 = QNormal then
           let d2 = d1\<lparr>qm_start_us := qm_due_us d1, qm_due_us := qm_due_us d1 + qmp_normalPeriodUs d1\<rparr>
           in wake_then (qm_due_us d2) (Ret d2)
         else Ret (d1\<lparr>qm_mode := QSleep, qm_pending := False\<rparr>))"

text \<open>
  The loop of \<open>advanceTo\<close>, with as many turns as conversions fell due; they are enough while
  the time stays clear of the end of its 64-bit range.
\<close>

definition qmp_loop :: "nat \<Rightarrow> u64 \<Rightarrow> qmp \<Rightarrow> ('m, qmp) prog" where
  "qmp_loop fuel nowUs = repeat_while (\<lambda>d. qm_pending d \<and> qm_due_us d \<le> nowUs) qmp_complete fuel"

definition conversions_due :: "u64 \<Rightarrow> qmp \<Rightarrow> nat" where
  "conversions_due nowUs d =
     (if qm_pending d \<and> qm_due_us d \<le> nowUs
      then if qm_mode d = QNormal then unat (nowUs - qm_due_us d) div unat (qmp_normalPeriodUs d) + 1 else 1
      else 0)"

definition qmp_advanceTo :: "u64 \<Rightarrow> qmp \<Rightarrow> ('m, qmp) prog" where
  "qmp_advanceTo nowUs d = qmp_loop (conversions_due nowUs d) nowUs d"

section \<open>The hooks\<close>

definition qmp_start :: "qmp_mode \<Rightarrow> u64 \<Rightarrow> qmp \<Rightarrow> qmp" where
  "qmp_start mode now d =
     (let d1 = d\<lparr>qm_mode := mode, qm_pending := True, qm_start_us := now\<rparr>
      in d1\<lparr>qm_due_us := qm_start_us d1 + qmp_conversionUs d1\<rparr>)"

definition qmp_afterWrite :: "u8 \<Rightarrow> bytes \<Rightarrow> qmp \<Rightarrow> ('m, qmp) prog" where
  "qmp_afterWrite address bs d =
     (if length bs \<noteq> 1 then Ret d
      else if address = qRegReset then (if bs ! 0 = qResetValue then Ret (qmp_reset d) else Ret d)
      else if address \<noteq> qRegCtrlMeas then Ret d
      else let bits = bs ! 0 AND 3
           in if bits = 0 then Ret (d\<lparr>qm_mode := QSleep, qm_pending := False\<rparr>)
              else let mode = (if bits = 3 then QNormal else QForced)
                   in if qm_pending d \<and> qm_mode d = QForced \<and> mode = QNormal then Ret (d\<lparr>qm_mode := QNormal\<rparr>)
                      else now_then (\<lambda>now. let d1 = qmp_start mode now d in wake_then (qm_due_us d1) (Ret d1)))"

text \<open>The byte at an address: the register at it, or the one it lies inside of.\<close>

definition qmp_byteAt :: "qmp \<Rightarrow> u8 \<Rightarrow> u8" where
  "qmp_byteAt d address =
     (case List.find (\<lambda>back. rt_has d (of_nat (unat address - back))) [0..<min (unat address + 1) 25] of
        None \<Rightarrow> 0
      | Some back \<Rightarrow>
          let base = of_nat (unat address - back)
          in if back < rt_width d base then rt_get d base back else 0)"

definition conversion_start :: "qmp \<Rightarrow> u64" where
  "conversion_start d =
     (if qm_mode d = QNormal \<and> qm_start_us d < qm_due_us d - qmp_conversionUs d
      then qm_due_us d - qmp_conversionUs d else qm_start_us d)"

definition qmp_measuring :: "u64 \<Rightarrow> qmp \<Rightarrow> bool" where
  "qmp_measuring t d \<longleftrightarrow> qm_pending d \<and> conversion_start d + kStatusDelayUs \<le> t"

definition qmp_show_status :: "u64 \<Rightarrow> qmp \<Rightarrow> qmp" where
  "qmp_show_status t d =
     rt_set qRegStatus 0 ((rt_get d qRegStatus 0 AND NOT qStatusMeasuring) OR
                          (if qmp_measuring t d then qStatusMeasuring else 0)) d"

definition qmp_onRead :: "u8 \<Rightarrow> nat \<Rightarrow> qmp \<Rightarrow> ('m, (nat \<times> bytes) option \<times> qmp) prog" where
  "qmp_onRead address len d =
     now_then (\<lambda>now. andThen (qmp_advanceTo now d) (\<lambda>d1.
       if len = 0 then Ret (None, d1)
       else now_then (\<lambda>t.
         let d2 = qmp_show_status t d1
         in if rt_has d2 address \<and> len \<le> rt_width d2 address then Ret (None, d2)
            else Ret (Some (len, map (\<lambda>k. qmp_byteAt d2 (address + of_nat k)) [0..<len]), d2))))"

section \<open>Methods\<close>

definition qmp_i2cWrite :: "bytes \<Rightarrow> i2c_transfer \<Rightarrow> qmp \<Rightarrow> ('m, u8 \<times> qmp) prog" where
  "qmp_i2cWrite = rt_i2cWrite qmp_afterWrite"

definition qmp_i2cRead :: "nat \<Rightarrow> i2c_transfer \<Rightarrow> qmp \<Rightarrow> ('m, nat \<times> bytes \<times> qmp) prog" where
  "qmp_i2cRead = rt_i2cRead qmp_onRead"

definition qmp_set :: "u8 \<Rightarrow> bytes \<Rightarrow> qmp \<Rightarrow> bool \<times> qmp" where
  "qmp_set channel data d =
     (if channel = 0 then
        if data = [] \<or> length data mod qSampleBytes \<noteq> 0 \<or> qMaxSamples * qSampleBytes < length data then (False, d)
        else (True, d\<lparr>qm_samples := data @ drop (length data) (qm_samples d), qm_sample_count := length data div qSampleBytes,
                      qm_next_sample := 0\<rparr>)
      else if channel = 1 then
        if length data \<noteq> 25 then (False, d)
        else (True, rt_setBytes 0xA0 data (d\<lparr>qm_calibration := data, qm_calibration_set := True\<rparr>))
      else rt_channel_set channel data d)"

definition qmp_channelWrite :: "u8 \<Rightarrow> bytes \<Rightarrow> qmp \<Rightarrow> ('m, bool \<times> qmp) prog" where
  "qmp_channelWrite channel data d = Ret (qmp_set channel data d)"

definition qmp_channelRead :: "u8 \<Rightarrow> nat \<Rightarrow> qmp \<Rightarrow> channel_answer" where
  "qmp_channelRead channel cap d =
     (if channel = 0 then
        let need = qm_sample_count d * qSampleBytes in Some (need, take (min need cap) (qm_samples d))
      else if channel = 1 then Some (25, take (min 25 cap) (qm_calibration d))
      else rt_channelRead channel cap d)"

definition mode_name :: "qmp_mode \<Rightarrow> string" where
  "mode_name m = (case m of QSleep \<Rightarrow> ''sleep'' | QForced \<Rightarrow> ''forced'' | QNormal \<Rightarrow> ''normal'')"

definition qmp_dump :: "qmp \<Rightarrow> string" where
  "qmp_dump d = ''qmp6988 mode='' @ mode_name (qm_mode d) @ '' conversions='' @ decw (qm_conversions d) @ '' '' @
     clip 96 (rt_dump d)"

definition qmp_device :: "('m, qmp) device" where
  "qmp_device = (base_device qmp_reset)\<lparr>
     dv_i2c_write := qmp_i2cWrite, dv_i2c_read := qmp_i2cRead, dv_advance_to := qmp_advanceTo,
     dv_channel_write := qmp_channelWrite, dv_channel_read := (\<lambda>channel cap d. qmp_channelRead channel cap d),
     dv_dump := qmp_dump\<rparr>"

section \<open>The table of this part\<close>

definition qmp_ok :: "qmp \<Rightarrow> bool" where
  "qmp_ok d \<longleftrightarrow> rt_ok d \<and> rt_spec d = qmp_spec \<and> length (qm_samples d) = qMaxSamples * qSampleBytes \<and>
     qm_sample_count d \<le> qMaxSamples \<and> (qm_sample_count d = 0 \<or> qm_next_sample d < qm_sample_count d) \<and>
     length (qm_calibration d) = 25"

lemma qmp_layout: "rt_layout qmp_entries 0 0 = [0, 25, 26, 27, 28, 29, 30, 31, 32]"
  by (simp add: qmp_entries_def qmp_entry_def qmp_reset_A0_def kMaxRegisters_def kValueBytes_def)

lemma qmp_offset: "qmp_ok d \<Longrightarrow> rt_offset d = [0, 25, 26, 27, 28, 29, 30, 31, 32]"
  by (simp add: qmp_ok_def rt_ok_def qmp_spec_def qmp_layout)

lemma qmp_count: "qmp_ok d \<Longrightarrow> rt_count d = 9"
  by (simp add: qmp_ok_def rt_ok_def qmp_spec_def qmp_layout rt_count_def)

lemma qmp_find:
  assumes "qmp_ok d"
  shows "rt_find d a = (if a = 0xA0 then Some 0 else if a = 0xD1 then Some 1 else if a = 0xE0 then Some 2
    else if a = 0xF1 then Some 3 else if a = 0xF2 then Some 4 else if a = 0xF3 then Some 5
    else if a = 0xF4 then Some 6 else if a = 0xF5 then Some 7 else if a = 0xF7 then Some 8 else None)"
proof -
  have "[0..<rt_count d] = [0, 1, 2, 3, 4, 5, 6, 7, 8]" by (simp add: qmp_count [OF assms] upt_rec)
  moreover have "rs_entries (rt_spec d) = qmp_entries" using assms by (simp add: qmp_ok_def qmp_spec_def)
  ultimately show ?thesis
    by (simp add: rt_find_def rt_entry_def qmp_entries_def qmp_entry_def eq_commute [of _ a])
qed

lemma qmp_entry_of: "qmp_ok d \<Longrightarrow> rt_entry d i = qmp_entries ! i"
  by (simp add: qmp_ok_def rt_entry_def qmp_spec_def)

lemma qmp_width:
  assumes "qmp_ok d"
  shows "rt_width d a = (if a = 0xA0 then 25 else if a = 0xF7 then 6
    else if a \<in> {0xD1, 0xE0, 0xF1, 0xF2, 0xF3, 0xF4, 0xF5} then 1 else 0)"
  using qmp_find [OF assms, of a] qmp_entry_of [OF assms]
  by (simp add: rt_width_def qmp_entries_def qmp_entry_def qmp_reset_A0_def split: if_splits)

lemma qmp_bytes:
  assumes "qmp_ok d" "rt_find d a \<noteq> None"
  obtains v where "rt_bytes d a = Some v" "length v = rt_width d a"
  using assms rt_width_bytes [of d a] that by (auto simp: rt_bytes_def qmp_ok_def)

section \<open>Reads are byte-addressed\<close>

text \<open>No register begins inside another.\<close>

lemma qmp_no_inner:
  assumes "qmp_ok d" "0 < j" "j < rt_width d a"
  shows "\<not> rt_has d (a + of_nat j)"
proof -
  have "a = 0xA0 \<or> a = 0xF7" using assms(2,3) qmp_width [OF assms(1), of a] by (auto split: if_splits)
  moreover have "\<forall>j\<in>set [1..<25]. \<not> rt_has d (0xA0 + of_nat j)" "\<forall>j\<in>set [1..<6]. \<not> rt_has d (0xF7 + of_nat j)"
    unfolding rt_has_def qmp_find [OF assms(1)] by (simp_all add: upt_rec)
  ultimately show ?thesis using assms(2,3) qmp_width [OF assms(1), of a] by auto
qed

lemma qmp_byteAt_inside:
  assumes "qmp_ok d" "rt_has d a" "k < rt_width d a"
  shows "qmp_byteAt d (a + of_nat k) = rt_get d a k"
proof -
  have a: "unat a + rt_width d a \<le> 256 \<and> rt_width d a \<le> 25"
    using assms(2) qmp_width [OF assms(1), of a] qmp_find [OF assms(1), of a] by (auto simp: rt_has_def split: if_splits)
  then have u: "unat (a + of_nat k) = unat a + k"
    using assms(3) by (simp add: unat_word_ariths unat_of_nat)
  have at: "(of_nat (unat (a + of_nat k) - b) :: u8) = a + of_nat (k - b)" if "b \<le> k" for b
    using that by (simp add: u of_nat_diff)
  have "List.find (\<lambda>b. rt_has d (of_nat (unat (a + of_nat k) - b))) [0..<min (unat (a + of_nat k) + 1) 25] = Some k"
    unfolding find_upt_Some
  proof (intro conjI allI impI)
    show "k < min (unat (a + of_nat k) + 1) 25" using a assms(3) u by auto
    show "rt_has d (of_nat (unat (a + of_nat k) - k))" using assms(2) at [of k] by simp
    show "\<not> rt_has d (of_nat (unat (a + of_nat k) - b))" if "b < k" for b
      using that assms(3) at [of b] qmp_no_inner [OF assms(1), of "k - b" a] by simp
  qed
  then show ?thesis using at [of k] assms(3) by (simp add: qmp_byteAt_def)
qed

section \<open>Conversions\<close>

lemma averaged_le: "unat (averaged (x AND 7)) \<le> 64"
proof -
  have "x AND 7 \<le> 7" by (rule word_and_le1)
  then have "unat (x AND 7) \<in> set [0..<8]" by (simp add: word_le_nat_alt)
  moreover have "x AND 7 = of_nat (unat (x AND 7))" by simp
  ultimately have "x AND 7 \<in> of_nat ` set [0..<8]" by blast
  then have "x AND 7 \<in> {0, 1, 2, 3, 4, 5, 6, 7}" by (simp add: upt_rec)
  then show ?thesis by (auto simp: averaged_def)
qed

definition conversion_of :: "u8 \<Rightarrow> nat" where
  "conversion_of ctrl = 2970 + 855 * (unat (averaged (drop_bit 5 ctrl AND 7)) + unat (averaged (drop_bit 2 ctrl AND 7)))"

lemma conversion_of_bounds: "2970 \<le> conversion_of ctrl" "conversion_of ctrl \<le> 112410"
  using averaged_le [of "drop_bit 5 ctrl"] averaged_le [of "drop_bit 2 ctrl"] by (simp_all add: conversion_of_def)

lemma unat_conversionUs: "unat (qmp_conversionUs d) = conversion_of (rt_get d qRegCtrlMeas 0)"
proof -
  let ?c = "rt_get d qRegCtrlMeas 0"
  let ?a = "averaged (drop_bit 5 ?c AND 7)" and ?b = "averaged (drop_bit 2 ?c AND 7)"
  have le: "unat ?a \<le> 64" "unat ?b \<le> 64" by (rule averaged_le)+
  have "unat (?a + ?b) = unat ?a + unat ?b" using le by (intro unat_add_no_overflow) simp
  moreover have "unat (ucast (?a + ?b) :: u64) = unat (?a + ?b)"
    by (simp add: unsigned_ucast_eq)
  ultimately have s: "unat (ucast (?a + ?b) :: u64) = unat ?a + unat ?b" by simp
  have "unat (855 * ucast (?a + ?b) :: u64) = 855 * (unat ?a + unat ?b)"
    using le s by (simp add: unat_word_ariths)
  then show ?thesis
    using le by (simp add: qmp_conversionUs_def kConversionBaseUs_def kConversionPerSampleUs_def conversion_of_def Let_def
        unat_word_ariths)
qed

definition standby_of :: "u8 \<Rightarrow> nat" where
  "standby_of setup = unat (kStandbyUs ! unat (drop_bit 5 setup AND 7))"

lemma standby_of_le: "standby_of setup \<le> 4000000"
proof -
  have "drop_bit 5 setup AND 7 \<le> 7" by (rule word_and_le1)
  then have "unat (drop_bit 5 setup AND 7) < length kStandbyUs"
    by (simp add: word_le_nat_alt kStandbyUs_def)
  moreover have "\<forall>s\<in>set kStandbyUs. unat s \<le> 4000000" by (simp add: kStandbyUs_def)
  ultimately show ?thesis by (simp add: standby_of_def)
qed

lemma unat_normalPeriodUs:
  "unat (qmp_normalPeriodUs d) = conversion_of (rt_get d qRegCtrlMeas 0) + standby_of (rt_get d qRegIoSetup 0)"
  using standby_of_le [of "rt_get d qRegIoSetup 0"] conversion_of_bounds [of "rt_get d qRegCtrlMeas 0"]
    unat_add_no_overflow [of "qmp_conversionUs d" "kStandbyUs ! unat (drop_bit 5 (rt_get d qRegIoSetup 0) AND 7)"]
  by (simp add: qmp_normalPeriodUs_def unat_conversionUs standby_of_def)

text \<open>What the registers say does not depend on the rest of the state.\<close>

lemma qmp_update_simps [simp]:
  "rt_find (d\<lparr>qm_mode := x_qm_mode\<rparr>) = rt_find d"
  "rt_entry (d\<lparr>qm_mode := x_qm_mode\<rparr>) = rt_entry d"
  "rt_bytes (d\<lparr>qm_mode := x_qm_mode\<rparr>) = rt_bytes d"
  "rt_get (d\<lparr>qm_mode := x_qm_mode\<rparr>) = rt_get d" "rt_ok (d\<lparr>qm_mode := x_qm_mode\<rparr>) = rt_ok d"
  "rt_find (d\<lparr>qm_pending := x_qm_pending\<rparr>) = rt_find d"
  "rt_entry (d\<lparr>qm_pending := x_qm_pending\<rparr>) = rt_entry d"
  "rt_bytes (d\<lparr>qm_pending := x_qm_pending\<rparr>) = rt_bytes d"
  "rt_get (d\<lparr>qm_pending := x_qm_pending\<rparr>) = rt_get d" "rt_ok (d\<lparr>qm_pending := x_qm_pending\<rparr>) = rt_ok d"
  "rt_find (d\<lparr>qm_start_us := x_qm_start_us\<rparr>) = rt_find d"
  "rt_entry (d\<lparr>qm_start_us := x_qm_start_us\<rparr>) = rt_entry d"
  "rt_bytes (d\<lparr>qm_start_us := x_qm_start_us\<rparr>) = rt_bytes d"
  "rt_get (d\<lparr>qm_start_us := x_qm_start_us\<rparr>) = rt_get d" "rt_ok (d\<lparr>qm_start_us := x_qm_start_us\<rparr>) = rt_ok d"
  "rt_find (d\<lparr>qm_due_us := x_qm_due_us\<rparr>) = rt_find d"
  "rt_entry (d\<lparr>qm_due_us := x_qm_due_us\<rparr>) = rt_entry d"
  "rt_bytes (d\<lparr>qm_due_us := x_qm_due_us\<rparr>) = rt_bytes d"
  "rt_get (d\<lparr>qm_due_us := x_qm_due_us\<rparr>) = rt_get d" "rt_ok (d\<lparr>qm_due_us := x_qm_due_us\<rparr>) = rt_ok d"
  "rt_find (d\<lparr>qm_samples := x_qm_samples\<rparr>) = rt_find d"
  "rt_entry (d\<lparr>qm_samples := x_qm_samples\<rparr>) = rt_entry d"
  "rt_bytes (d\<lparr>qm_samples := x_qm_samples\<rparr>) = rt_bytes d"
  "rt_get (d\<lparr>qm_samples := x_qm_samples\<rparr>) = rt_get d" "rt_ok (d\<lparr>qm_samples := x_qm_samples\<rparr>) = rt_ok d"
  "rt_find (d\<lparr>qm_sample_count := x_qm_sample_count\<rparr>) = rt_find d"
  "rt_entry (d\<lparr>qm_sample_count := x_qm_sample_count\<rparr>) = rt_entry d"
  "rt_bytes (d\<lparr>qm_sample_count := x_qm_sample_count\<rparr>) = rt_bytes d"
  "rt_get (d\<lparr>qm_sample_count := x_qm_sample_count\<rparr>) = rt_get d" "rt_ok (d\<lparr>qm_sample_count := x_qm_sample_count\<rparr>) = rt_ok d"
  "rt_find (d\<lparr>qm_next_sample := x_qm_next_sample\<rparr>) = rt_find d"
  "rt_entry (d\<lparr>qm_next_sample := x_qm_next_sample\<rparr>) = rt_entry d"
  "rt_bytes (d\<lparr>qm_next_sample := x_qm_next_sample\<rparr>) = rt_bytes d"
  "rt_get (d\<lparr>qm_next_sample := x_qm_next_sample\<rparr>) = rt_get d" "rt_ok (d\<lparr>qm_next_sample := x_qm_next_sample\<rparr>) = rt_ok d"
  "rt_find (d\<lparr>qm_calibration := x_qm_calibration\<rparr>) = rt_find d"
  "rt_entry (d\<lparr>qm_calibration := x_qm_calibration\<rparr>) = rt_entry d"
  "rt_bytes (d\<lparr>qm_calibration := x_qm_calibration\<rparr>) = rt_bytes d"
  "rt_get (d\<lparr>qm_calibration := x_qm_calibration\<rparr>) = rt_get d" "rt_ok (d\<lparr>qm_calibration := x_qm_calibration\<rparr>) = rt_ok d"
  "rt_find (d\<lparr>qm_calibration_set := x_qm_calibration_set\<rparr>) = rt_find d"
  "rt_entry (d\<lparr>qm_calibration_set := x_qm_calibration_set\<rparr>) = rt_entry d"
  "rt_bytes (d\<lparr>qm_calibration_set := x_qm_calibration_set\<rparr>) = rt_bytes d"
  "rt_get (d\<lparr>qm_calibration_set := x_qm_calibration_set\<rparr>) = rt_get d" "rt_ok (d\<lparr>qm_calibration_set := x_qm_calibration_set\<rparr>) = rt_ok d"
  "rt_find (d\<lparr>qm_conversions := x_qm_conversions\<rparr>) = rt_find d"
  "rt_entry (d\<lparr>qm_conversions := x_qm_conversions\<rparr>) = rt_entry d"
  "rt_bytes (d\<lparr>qm_conversions := x_qm_conversions\<rparr>) = rt_bytes d"
  "rt_get (d\<lparr>qm_conversions := x_qm_conversions\<rparr>) = rt_get d" "rt_ok (d\<lparr>qm_conversions := x_qm_conversions\<rparr>) = rt_ok d"
  by (simp_all add: rt_find_def [abs_def] rt_entry_def [abs_def] rt_bytes_def [abs_def] rt_slice_def [abs_def] rt_count_def
      rt_get_def [abs_def] rt_ok_def cong: option.case_cong if_cong)

lemma rt_set_pointer:
  "rt_pointer (fold (\<lambda>k. rt_set a k (bs ! k)) ks d) = rt_pointer d"
proof (induction ks arbitrary: d)
  case (Cons k ks)
  then show ?case by (simp add: rt_set_def split: option.split)
qed simp

lemma rt_set_qmp [simp]:
  "qm_mode (rt_set a k v d) = qm_mode d"
  "qm_pending (rt_set a k v d) = qm_pending d"
  "qm_start_us (rt_set a k v d) = qm_start_us d"
  "qm_due_us (rt_set a k v d) = qm_due_us d"
  "qm_samples (rt_set a k v d) = qm_samples d"
  "qm_sample_count (rt_set a k v d) = qm_sample_count d"
  "qm_next_sample (rt_set a k v d) = qm_next_sample d"
  "qm_calibration (rt_set a k v d) = qm_calibration d"
  "qm_calibration_set (rt_set a k v d) = qm_calibration_set d"
  "qm_conversions (rt_set a k v d) = qm_conversions d"
  "rt_spec (rt_set a k v d) = rt_spec d"
  by (simp_all add: rt_set_def split: option.split)

lemma rt_setBytes_qmp [simp]:
  "qm_mode (rt_setBytes a bs d) = qm_mode d"
  "qm_pending (rt_setBytes a bs d) = qm_pending d"
  "qm_start_us (rt_setBytes a bs d) = qm_start_us d"
  "qm_due_us (rt_setBytes a bs d) = qm_due_us d"
  "qm_samples (rt_setBytes a bs d) = qm_samples d"
  "qm_sample_count (rt_setBytes a bs d) = qm_sample_count d"
  "qm_next_sample (rt_setBytes a bs d) = qm_next_sample d"
  "qm_calibration (rt_setBytes a bs d) = qm_calibration d"
  "qm_calibration_set (rt_setBytes a bs d) = qm_calibration_set d"
  "qm_conversions (rt_setBytes a bs d) = qm_conversions d"
  "rt_spec (rt_setBytes a bs d) = rt_spec d"
proof -
  have "qm_mode (fold (\<lambda>k. rt_set a k (bs ! k)) ks d) = qm_mode d \<and>
    qm_pending (fold (\<lambda>k. rt_set a k (bs ! k)) ks d) = qm_pending d \<and>
    qm_start_us (fold (\<lambda>k. rt_set a k (bs ! k)) ks d) = qm_start_us d \<and>
    qm_due_us (fold (\<lambda>k. rt_set a k (bs ! k)) ks d) = qm_due_us d \<and>
    qm_samples (fold (\<lambda>k. rt_set a k (bs ! k)) ks d) = qm_samples d \<and>
    qm_sample_count (fold (\<lambda>k. rt_set a k (bs ! k)) ks d) = qm_sample_count d \<and>
    qm_next_sample (fold (\<lambda>k. rt_set a k (bs ! k)) ks d) = qm_next_sample d \<and>
    qm_calibration (fold (\<lambda>k. rt_set a k (bs ! k)) ks d) = qm_calibration d \<and>
    qm_calibration_set (fold (\<lambda>k. rt_set a k (bs ! k)) ks d) = qm_calibration_set d \<and>
    qm_conversions (fold (\<lambda>k. rt_set a k (bs ! k)) ks d) = qm_conversions d \<and>
    rt_spec (fold (\<lambda>k. rt_set a k (bs ! k)) ks d) = rt_spec d" for ks
    by (induction ks arbitrary: d) simp_all
  then show "qm_mode (rt_setBytes a bs d) = qm_mode d" "qm_pending (rt_setBytes a bs d) = qm_pending d" "qm_start_us (rt_setBytes a bs d) = qm_start_us d" "qm_due_us (rt_setBytes a bs d) = qm_due_us d" "qm_samples (rt_setBytes a bs d) = qm_samples d" "qm_sample_count (rt_setBytes a bs d) = qm_sample_count d" "qm_next_sample (rt_setBytes a bs d) = qm_next_sample d" "qm_calibration (rt_setBytes a bs d) = qm_calibration d" "qm_calibration_set (rt_setBytes a bs d) = qm_calibration_set d" "qm_conversions (rt_setBytes a bs d) = qm_conversions d" "rt_spec (rt_setBytes a bs d) = rt_spec d"
    by (simp_all add: rt_setBytes_def)
qed

section \<open>One conversion and the whole loop\<close>

definition qmp_sample :: "qmp \<Rightarrow> nat \<Rightarrow> bytes" where
  "qmp_sample d i = take qSampleBytes (drop (i * qSampleBytes) (qm_samples d))"

lemma qmp_data: "qmp_ok d \<Longrightarrow> \<exists>v. rt_bytes d qRegData = Some v \<and> length v = 6"
  using qmp_bytes [of d qRegData] qmp_find [of d qRegData] qmp_width [of d qRegData]
  by (auto simp: qRegData_def)

lemma qmp_sample_length:
  assumes "qmp_ok d" "i < qm_sample_count d"
  shows "length (qmp_sample d i) = 6"
proof -
  have "i < 32" using assms by (simp add: qmp_ok_def qMaxSamples_def)
  then show ?thesis using assms(1) by (simp add: qmp_ok_def qmp_sample_def qSampleBytes_def qMaxSamples_def)
qed

lemma qmp_latch_facts:
  assumes "qmp_ok d"
  shows "rt_bytes (qmp_latch d) = (if qm_sample_count d = 0 then rt_bytes d
      else (rt_bytes d)(qRegData \<mapsto> qmp_sample d (qm_next_sample d)))" (is ?bytes)
    and "qm_next_sample (qmp_latch d) = (if qm_sample_count d = 0 then qm_next_sample d
      else (qm_next_sample d + 1) mod qm_sample_count d)"
    and "qmp_ok (qmp_latch d)" (is ?ok)
proof -
  obtain v where v: "rt_bytes d qRegData = Some v" "length v = 6" using qmp_data [OF assms] by blast
  have ok: "rt_ok d" using assms by (simp add: qmp_ok_def)
  show "qm_next_sample (qmp_latch d) = (if qm_sample_count d = 0 then qm_next_sample d
      else (qm_next_sample d + 1) mod qm_sample_count d)"
    by (simp add: qmp_latch_def Let_def)
  have "?bytes \<and> ?ok"
  proof (cases "qm_sample_count d = 0")
    case True
    then show ?thesis using assms by (simp add: qmp_latch_def qmp_ok_def)
  next
    case False
    then have "qm_next_sample d < qm_sample_count d" using assms by (simp add: qmp_ok_def)
    then have l: "length (qmp_sample d (qm_next_sample d)) = 6" by (rule qmp_sample_length [OF assms])
    have "length (qmp_sample d (qm_next_sample d)) \<le> length v" by (simp add: l v(2))
    note set = rt_setBytes_bytes [OF ok v(1) this]
    have "overwrite_bytes (qmp_sample d (qm_next_sample d)) v = qmp_sample d (qm_next_sample d)"
      by (simp add: overwrite_bytes_def l v(2))
    then show ?thesis
      using False set assms by (simp add: qmp_latch_def qmp_sample_def qmp_ok_def Let_def)
  qed
  then show ?bytes ?ok by blast+
qed

lemma qmp_latch_fields [simp]:
  "qm_mode (qmp_latch d) = qm_mode d" "qm_pending (qmp_latch d) = qm_pending d" "qm_due_us (qmp_latch d) = qm_due_us d"
  "qm_samples (qmp_latch d) = qm_samples d" "qm_sample_count (qmp_latch d) = qm_sample_count d"
  "qm_start_us (qmp_latch d) = qm_start_us d" "qm_conversions (qmp_latch d) = qm_conversions d + 1"
  by (simp_all add: qmp_latch_def Let_def)

text \<open>The period depends on the control registers only.\<close>

lemma qmp_times_cong:
  assumes "rt_ok d" "rt_ok e" "rt_bytes e qRegCtrlMeas = rt_bytes d qRegCtrlMeas" "rt_bytes e qRegIoSetup = rt_bytes d qRegIoSetup"
  shows "qmp_conversionUs e = qmp_conversionUs d" "qmp_normalPeriodUs e = qmp_normalPeriodUs d"
  using assms by (simp_all add: qmp_normalPeriodUs_def qmp_conversionUs_def rt_get_bytes)

lemma qmp_loop_simps [simp]:
  "qmp_loop 0 t d = Ret d"
  "qmp_loop (Suc fuel) t d = (if qm_pending d \<and> qm_due_us d \<le> t then andThen (qmp_complete d) (qmp_loop fuel t) else Ret d)"
  by (simp_all add: qmp_loop_def)

lemma control_not_data [simp]: "qRegCtrlMeas \<noteq> qRegData" "qRegIoSetup \<noteq> qRegData" "qRegStatus \<noteq> qRegData" "qRegData \<noteq> qRegStatus"
  by (simp_all add: q_reg_defs)

text \<open>The state after \<open>n\<close> conversions in normal mode.\<close>

definition after_conversions :: "nat \<Rightarrow> qmp \<Rightarrow> qmp \<Rightarrow> bool" where
  "after_conversions n d e \<longleftrightarrow> qmp_ok e \<and> qm_mode e = QNormal \<and> qm_pending e \<and>
     qm_due_us e = qm_due_us d + of_nat n * qmp_normalPeriodUs d \<and>
     qm_start_us e = (if n = 0 then qm_start_us d else qm_due_us d + of_nat (n - 1) * qmp_normalPeriodUs d) \<and>
     qm_conversions e = qm_conversions d + of_nat n \<and> qm_sample_count e = qm_sample_count d \<and> qm_samples e = qm_samples d \<and>
     qm_next_sample e = (if n = 0 \<or> qm_sample_count d = 0 then qm_next_sample d else (qm_next_sample d + n) mod qm_sample_count d) \<and>
     rt_bytes e = (if n = 0 \<or> qm_sample_count d = 0 then rt_bytes d
       else (rt_bytes d)(qRegData \<mapsto> qmp_sample d ((qm_next_sample d + n - 1) mod qm_sample_count d)))"

lemma after_conversions_period:
  assumes "qmp_ok d" "after_conversions n d e"
  shows "qmp_normalPeriodUs e = qmp_normalPeriodUs d"
  by (rule qmp_times_cong) (use assms in \<open>auto simp: after_conversions_def qmp_ok_def\<close>)

lemma after_conversions_step:
  assumes "qmp_ok d" "after_conversions n d e"
  shows "after_conversions (Suc n) d ((qmp_latch e)\<lparr>qm_start_us := qm_due_us e, qm_due_us := qm_due_us e + qmp_normalPeriodUs (qmp_latch e)\<rparr>)"
proof -
  have e: "qmp_ok e" "qm_sample_count e = qm_sample_count d" "qm_samples e = qm_samples d"
    using assms(2) by (simp_all add: after_conversions_def)
  note l = qmp_latch_facts [OF e(1)]
  have "qmp_normalPeriodUs (qmp_latch e) = qmp_normalPeriodUs e"
    by (rule qmp_times_cong) (use e(1) l in \<open>simp_all add: qmp_ok_def\<close>)
  then have period: "qmp_normalPeriodUs (qmp_latch e) = qmp_normalPeriodUs d"
    using after_conversions_period [OF assms] by simp
  have index: "qm_sample_count d \<noteq> 0 \<Longrightarrow> qm_next_sample e = (qm_next_sample d + n) mod qm_sample_count d"
    using assms by (auto simp: after_conversions_def qmp_ok_def)
  show ?thesis
    using assms(2) e l index unfolding after_conversions_def period
    by (simp add: qmp_sample_def mod_Suc_eq algebra_simps qmp_ok_def)
qed

lemma normal_loop_run:
  assumes "qmp_ok d" "qm_mode d = QNormal" "qm_pending d"
    "n = 0 \<or> unat (qm_due_us d) + (n - 1) * unat (qmp_normalPeriodUs d) \<le> unat t"
  shows "\<exists>e. run_prog (bench_port 0) (qmp_loop n t d) b =
      (e, b\<lparr>bn_wakes := bn_wakes b @ map (\<lambda>k. qm_due_us d + of_nat (k + 1) * qmp_normalPeriodUs d) [0..<n]\<rparr>) \<and>
    after_conversions n d e"
  using assms(4)
proof (induction n)
  case 0
  then show ?case using assms by (auto simp: after_conversions_def)
next
  case (Suc n)
  let ?p = "qmp_normalPeriodUs d"
  have before: "n = 0 \<or> unat (qm_due_us d) + (n - 1) * unat ?p \<le> unat t"
    using Suc.prems by (cases n) auto
  from Suc.IH [OF before] obtain e where
    r: "run_prog (bench_port 0) (qmp_loop n t d) b =
      (e, b\<lparr>bn_wakes := bn_wakes b @ map (\<lambda>k. qm_due_us d + of_nat (k + 1) * ?p) [0..<n]\<rparr>)"
    and e: "after_conversions n d e" by blast
  have "unat t < 2 ^ 64" using unsigned_less [of t] by simp
  then have "unat (qm_due_us d) + n * unat ?p < 2 ^ 64" using Suc.prems by simp
  then have "unat (of_nat n * ?p) = n * unat ?p" "unat (qm_due_us d + of_nat n * ?p) = unat (qm_due_us d) + n * unat ?p"
    using of_nat_inverse [of "n * unat ?p" "of_nat n * ?p"] unat_add_no_overflow [of "qm_due_us d" "of_nat n * ?p"] by simp_all
  then have due: "qm_due_us e \<le> t" "qm_pending e" "qm_mode e = QNormal"
    using e Suc.prems by (simp_all add: after_conversions_def word_le_nat_alt)
  let ?e = "(qmp_latch e)\<lparr>qm_start_us := qm_due_us e, qm_due_us := qm_due_us e + qmp_normalPeriodUs (qmp_latch e)\<rparr>"
  have step: "after_conversions (Suc n) d ?e" by (rule after_conversions_step [OF assms(1) e])
  have "qm_due_us ?e = qm_due_us d + of_nat (Suc n) * ?p"
    using step unfolding after_conversions_def by (elim conjE)
  then have w: "qm_due_us e + qmp_normalPeriodUs (qmp_latch e) = qm_due_us d + of_nat (n + 1) * ?p" by simp
  have "run_prog (bench_port 0) (qmp_loop (Suc n) t d) b =
      run_prog (bench_port 0) (qmp_loop 1 t e) (b\<lparr>bn_wakes := bn_wakes b @ map (\<lambda>k. qm_due_us d + of_nat (k + 1) * ?p) [0..<n]\<rparr>)"
    using repeat_while_split [of "bench_port 0" "\<lambda>d. qm_pending d \<and> qm_due_us d \<le> t" qmp_complete n 1 d b] r
    by (simp add: qmp_loop_def)
  also have "\<dots> = (?e, b\<lparr>bn_wakes := bn_wakes b @ map (\<lambda>k. qm_due_us d + of_nat (k + 1) * ?p) [0..<n] @
      [qm_due_us e + qmp_normalPeriodUs (qmp_latch e)]\<rparr>)"
    using due by (simp add: qmp_complete_def Let_def)
  finally have "run_prog (bench_port 0) (qmp_loop (Suc n) t d) b =
      (?e, b\<lparr>bn_wakes := bn_wakes b @ map (\<lambda>k. qm_due_us d + of_nat (k + 1) * ?p) [0..<Suc n]\<rparr>)"
    unfolding w by simp
  then show ?case using step by blast
qed

section \<open>Reads\<close>

lemma qmp_onRead_run:
  "run_prog (bench_port 0) (qmp_onRead a len d) b =
     (case run_prog (bench_port 0) (qmp_advanceTo (bn_now b) d) b of (d1, b1) \<Rightarrow>
        if len = 0 then ((None, d1), b1)
        else let d2 = qmp_show_status (bn_now b) d1
             in if rt_has d2 a \<and> len \<le> rt_width d2 a then ((None, d2), b1)
                else ((Some (len, map (\<lambda>k. qmp_byteAt d2 (a + of_nat k)) [0..<len]), d2), b1))"
  using bench_now_kept [of 0 "qmp_advanceTo (bn_now b) d" b]
  by (auto simp: qmp_onRead_def Let_def split: prod.split)

lemma qmp_status: "qmp_ok d \<Longrightarrow> \<exists>v. rt_bytes d qRegStatus = Some [v]"
  using qmp_bytes [of d qRegStatus] qmp_find [of d qRegStatus] qmp_width [of d qRegStatus]
  by (auto simp: qRegStatus_def length_Suc_conv)

lemma qmp_show_status_facts:
  assumes "qmp_ok d"
  shows "qmp_ok (qmp_show_status t d)"
    "rt_bytes (qmp_show_status t d) = (rt_bytes d)(qRegStatus \<mapsto>
       [(rt_get d qRegStatus 0 AND NOT qStatusMeasuring) OR (if qmp_measuring t d then qStatusMeasuring else 0)])"
proof -
  obtain v where v: "rt_bytes d qRegStatus = Some [v]" using qmp_status [OF assms] by blast
  have ok: "rt_ok d" using assms by (simp add: qmp_ok_def)
  note set = rt_setBytes_bytes [OF ok v, of "[x]" for x]
  show "qmp_ok (qmp_show_status t d)" using assms set by (simp add: qmp_show_status_def qmp_ok_def rt_set_first)
  show "rt_bytes (qmp_show_status t d) = (rt_bytes d)(qRegStatus \<mapsto>
       [(rt_get d qRegStatus 0 AND NOT qStatusMeasuring) OR (if qmp_measuring t d then qStatusMeasuring else 0)])"
    using set by (simp add: qmp_show_status_def rt_set_first overwrite_bytes_def)
qed

text \<open>An answered read, whatever the register.\<close>

lemma qmp_read_run:
  assumes "qmp_ok d" "run_prog (bench_port 0) (qmp_advanceTo (bn_now b) d) b = (d1, b1)" "qmp_ok d1"
    "rt_pointer d1 = rt_pointer d" "0 < len"
  shows "\<exists>d2. run_prog (bench_port 0) (qmp_i2cRead len xfer d) b =
      ((len, map (\<lambda>k. qmp_byteAt d2 (rt_pointer d + of_nat k)) [0..<len], d2), b1) \<and>
    (d2 = qmp_show_status (bn_now b) d1 \<or> d2 = (qmp_show_status (bn_now b) d1)\<lparr>rt_reads := rt_reads d1 + 1\<rparr>)"
proof -
  let ?a = "rt_pointer d"
  let ?d = "qmp_show_status (bn_now b) d1"
  have ok: "qmp_ok ?d" "rt_ok ?d" using qmp_show_status_facts(1) [OF assms(3), of "bn_now b"] by (simp_all add: qmp_ok_def)
  have same: "rt_pointer ?d = ?a" "rt_reads ?d = rt_reads d1"
    using assms(4) by (simp_all add: qmp_show_status_def rt_set_def split: option.split)
  have spec: "\<not> rs_repeated_start (rt_spec d)" using assms(1) by (simp add: qmp_ok_def qmp_spec_def)
  show ?thesis
  proof (cases "rt_has ?d ?a \<and> len \<le> rt_width ?d ?a")
    case True
    then obtain v where v: "rt_bytes ?d ?a = Some v" "length v = rt_width ?d ?a"
      using qmp_bytes [OF ok(1), of ?a] by (auto simp: rt_has_def)
    let ?e = "?d\<lparr>rt_reads := rt_reads d1 + 1\<rparr>"
    have eok: "qmp_ok ?e" using ok(1) by (simp add: qmp_ok_def)
    have has: "rt_has ?e ?a" "rt_width ?e ?a = rt_width ?d ?a" "rt_bytes ?e = rt_bytes ?d"
      using True by (simp_all add: rt_has_def rt_width_def rt_entry_def split: option.split)
    have "qmp_byteAt ?e (?a + of_nat k) = v ! k" if "k < len" for k
      using qmp_byteAt_inside [OF eok has(1), of k] rt_get_bytes [of ?e ?a k] that True v eok has(2,3)
      by (simp add: qmp_ok_def)
    then have "map (\<lambda>k. qmp_byteAt ?e (?a + of_nat k)) [0..<len] = take len v"
      using True v(2) by (intro nth_equalityI) simp_all
    then show ?thesis
      using True v assms(2,5) spec same
      by (intro exI [of _ ?e]) (simp add: qmp_i2cRead_def rt_i2cRead_def qmp_onRead_run Let_def rt_table_read_bytes [OF ok(2)])
  next
    case False
    then show ?thesis using assms(2,5) spec
      by (intro exI [of _ ?d]) (auto simp: qmp_i2cRead_def rt_i2cRead_def qmp_onRead_run Let_def)
  qed
qed

section \<open>Starting a conversion\<close>

definition qmp_ask :: "u8 \<Rightarrow> nat \<Rightarrow> i2c_transfer \<Rightarrow> qmp \<Rightarrow> ('m, nat \<times> bytes \<times> qmp) prog" where
  "qmp_ask address len xfer d =
     andThen (qmp_i2cWrite [address] xfer d) (\<lambda>(status, d1). qmp_i2cRead len xfer d1)"

lemma qmp_ask_points: "qmp_ask address len xfer d = qmp_i2cRead len xfer (d\<lparr>rt_pointer := address\<rparr>)"
  by (simp add: qmp_ask_def qmp_i2cWrite_def rt_i2cWrite_def)

lemma qmp_ok_pointer [simp]: "qmp_ok (d\<lparr>rt_pointer := a\<rparr>) = qmp_ok d"
  by (simp add: qmp_ok_def)

definition ctrl_written :: "u8 \<Rightarrow> qmp \<Rightarrow> qmp" where
  "ctrl_written ctrl d = (let d1 = d\<lparr>rt_pointer := qRegCtrlMeas\<rparr>
     in d1\<lparr>rt_values := store_bytes 30 [ctrl] (rt_values d), rt_writes := rt_writes d + 1\<rparr>)"

lemma ctrl_written_facts:
  assumes "qmp_ok d"
  shows "qmp_ok (ctrl_written ctrl d)" "rt_bytes (ctrl_written ctrl d) = (rt_bytes d)(qRegCtrlMeas \<mapsto> [ctrl])"
    "rt_get (ctrl_written ctrl d) qRegCtrlMeas 0 = ctrl"
proof -
  let ?d = "d\<lparr>rt_pointer := qRegCtrlMeas\<rparr>"
  have ok: "rt_ok ?d" using assms by (simp add: qmp_ok_def)
  have f: "rt_find ?d qRegCtrlMeas = Some 6" using qmp_find [of ?d qRegCtrlMeas] assms by (simp add: qRegCtrlMeas_def)
  have w: "re_width (rt_entry ?d 6) = 1" and o30: "rt_offset ?d ! 6 = 30"
    using qmp_offset [OF assms] qmp_entry_of [OF assms, of 6] by (simp_all add: qmp_entries_def qmp_entry_def)
  have "rt_bytes (?d\<lparr>rt_values := store_bytes 30 [ctrl] (rt_values d)\<rparr>) = (rt_bytes d)(qRegCtrlMeas \<mapsto> overwrite_bytes [ctrl] (rt_slice ?d 6))"
    using rt_store_bytes [OF ok f, of "[ctrl]"] w o30 by simp
  moreover have "length (rt_slice ?d 6) = 1" using rt_slice_length [OF ok, of 6] rt_findD [OF f] w by simp
  ultimately show b: "rt_bytes (ctrl_written ctrl d) = (rt_bytes d)(qRegCtrlMeas \<mapsto> [ctrl])"
    by (simp add: ctrl_written_def overwrite_bytes_def Let_def)
  show okw: "qmp_ok (ctrl_written ctrl d)" using assms by (simp add: qmp_ok_def ctrl_written_def Let_def rt_ok_def)
  then have "rt_ok (ctrl_written ctrl d)" by (simp add: qmp_ok_def)
  then show "rt_get (ctrl_written ctrl d) qRegCtrlMeas 0 = ctrl" by (simp add: rt_get_bytes b)
qed

lemma qmp_write_ctrl_run:
  assumes "qmp_ok d"
  shows "run_prog hp (qmp_i2cWrite [qRegCtrlMeas, ctrl] xfer d) p =
    (case run_prog hp (qmp_afterWrite qRegCtrlMeas [ctrl] (ctrl_written ctrl d)) p of (d1, p1) \<Rightarrow> ((kI2cAck, d1), p1))"
proof -
  let ?d = "d\<lparr>rt_pointer := qRegCtrlMeas\<rparr>"
  have "rt_find ?d qRegCtrlMeas = Some 6" using qmp_find [of ?d qRegCtrlMeas] assms by (simp add: qRegCtrlMeas_def)
  moreover have "rt_entry ?d 6 = qmp_entry 0xF4 [0] kWritable" "rt_offset d ! 6 = 30"
    using qmp_offset [OF assms] qmp_entry_of [OF assms, of 6] by (simp_all add: qmp_entries_def)
  ultimately show ?thesis
    by (simp add: qmp_i2cWrite_def rt_i2cWrite_def ctrl_written_def qmp_entry_def kWritable_def Let_def)
qed

text \<open>Starting at \<open>now\<close>, a conversion is due after the time its control byte asks for.\<close>

lemma qmp_start_facts:
  assumes "qmp_ok d" "rt_get d qRegCtrlMeas 0 = ctrl" "unat now + 200000 < 2 ^ 64"
  shows "qmp_ok (qmp_start mode now d)" "qm_mode (qmp_start mode now d) = mode" "qm_pending (qmp_start mode now d)"
    "qm_start_us (qmp_start mode now d) = now" "unat (qm_due_us (qmp_start mode now d)) = unat now + conversion_of ctrl"
    "rt_bytes (qmp_start mode now d) = rt_bytes d" "qm_sample_count (qmp_start mode now d) = qm_sample_count d"
    "qm_next_sample (qmp_start mode now d) = qm_next_sample d" "qm_samples (qmp_start mode now d) = qm_samples d"
    "qm_conversions (qmp_start mode now d) = qm_conversions d"
proof -
  have c: "qmp_conversionUs (d\<lparr>qm_mode := mode, qm_pending := True, qm_start_us := now\<rparr>) = qmp_conversionUs d"
    by (simp add: qmp_conversionUs_def)
  have "unat (now + qmp_conversionUs d) = unat now + unat (qmp_conversionUs d)"
    using assms(2,3) conversion_of_bounds(2) [of ctrl] unat_conversionUs [of d] by (intro unat_add_no_overflow) simp
  then show "unat (qm_due_us (qmp_start mode now d)) = unat now + conversion_of ctrl"
    using unat_conversionUs [of d] assms(2) c by (simp add: qmp_start_def Let_def)
qed (use assms(1) in \<open>simp_all add: qmp_start_def Let_def qmp_ok_def\<close>)

text \<open>A forced conversion in progress: a status read before it ends, a data read after.\<close>

lemma forced_status_run:
  assumes "qmp_ok d" "qm_mode d = QForced" "qm_pending d" "bn_now b < qm_due_us d" "unat (qm_start_us d) + 200000 < 2 ^ 64"
  shows "\<exists>v d2. run_prog (bench_port 0) (qmp_ask qRegStatus 1 xfer d) b = ((1, [v], d2), b) \<and>
    (v AND qStatusMeasuring \<noteq> 0 \<longleftrightarrow> unat (qm_start_us d) + 225 \<le> unat (bn_now b)) \<and> qm_pending d2"
proof -
  let ?d = "d\<lparr>rt_pointer := qRegStatus\<rparr>"
  have "\<not> qm_due_us d \<le> bn_now b" using assms(4) by simp
  then have adv: "run_prog (bench_port 0) (qmp_advanceTo (bn_now b) ?d) b = (?d, b)"
    by (simp add: qmp_advanceTo_def conversions_due_def)
  have ok: "qmp_ok ?d" using assms(1) by simp
  let ?s = "qmp_show_status (bn_now b) ?d"
  from qmp_read_run [OF ok adv ok refl, of 1 xfer] obtain d2 where
    r: "run_prog (bench_port 0) (qmp_ask qRegStatus 1 xfer d) b = ((1, [qmp_byteAt d2 qRegStatus], d2), b)"
    and d2: "d2 = ?s \<or> d2 = ?s\<lparr>rt_reads := rt_reads d + 1\<rparr>"
    by (auto simp: qmp_ask_points)
  note sh = qmp_show_status_facts [OF ok, of "bn_now b"]
  have d2ok: "qmp_ok d2" "rt_bytes d2 = rt_bytes ?s" "qm_pending d2"
    using d2 sh(1) assms(3) by (auto simp: qmp_ok_def qmp_show_status_def)
  have "rt_has d2 qRegStatus" "0 < rt_width d2 qRegStatus"
    using qmp_find [OF d2ok(1), of qRegStatus] qmp_width [OF d2ok(1), of qRegStatus] by (simp_all add: rt_has_def qRegStatus_def)
  from qmp_byteAt_inside [OF d2ok(1) this] have "qmp_byteAt d2 qRegStatus = rt_get d2 qRegStatus 0" by simp
  then have v: "qmp_byteAt d2 qRegStatus =
      (rt_get ?d qRegStatus 0 AND NOT qStatusMeasuring) OR (if qmp_measuring (bn_now b) ?d then qStatusMeasuring else 0)"
    using d2ok(1,2) sh(2) by (simp add: rt_get_bytes [of d2] qmp_ok_def)
  have bits: "((x AND NOT m) OR (if c then m else 0)) AND m = (if c then m else 0)" for x m :: u8 and c
    by (rule bit_word_eqI) (auto simp: bit_and_iff bit_or_iff bit_not_iff)
  have "unat (qm_start_us d + kStatusDelayUs) = unat (qm_start_us d) + 225"
    using assms(5) unat_add_no_overflow [of "qm_start_us d" kStatusDelayUs] by (simp add: kStatusDelayUs_def)
  then have "qmp_measuring (bn_now b) ?d \<longleftrightarrow> unat (qm_start_us d) + 225 \<le> unat (bn_now b)"
    using assms(2,3) by (simp add: qmp_measuring_def conversion_start_def word_le_nat_alt)
  then have "qmp_byteAt d2 qRegStatus AND qStatusMeasuring \<noteq> 0 \<longleftrightarrow> unat (qm_start_us d) + 225 \<le> unat (bn_now b)"
    unfolding v bits by (simp add: qStatusMeasuring_def)
  then show ?thesis using r d2ok(3) by blast
qed

lemma forced_data_run:
  assumes "qmp_ok d" "qm_mode d = QForced" "qm_pending d" "qm_due_us d \<le> bn_now b" "qm_sample_count d \<noteq> 0"
  shows "\<exists>d2. run_prog (bench_port 0) (qmp_ask qRegData 6 xfer d) b = ((6, qmp_sample d (qm_next_sample d), d2), b) \<and>
    qm_mode d2 = QSleep \<and> \<not> qm_pending d2 \<and> qm_conversions d2 = qm_conversions d + 1 \<and>
    qm_next_sample d2 = (qm_next_sample d + 1) mod qm_sample_count d"
proof -
  let ?d = "d\<lparr>rt_pointer := qRegData\<rparr>"
  let ?e = "(qmp_latch ?d)\<lparr>qm_mode := QSleep, qm_pending := False\<rparr>"
  have adv: "run_prog (bench_port 0) (qmp_advanceTo (bn_now b) ?d) b = (?e, b)"
    using assms(2-4) by (simp add: qmp_advanceTo_def conversions_due_def qmp_complete_def Let_def)
  have ok: "qmp_ok ?d" using assms(1) by simp
  note l = qmp_latch_facts [OF ok]
  have eok: "qmp_ok ?e" using l(3) by (simp add: qmp_ok_def)
  have ptr: "rt_pointer ?e = rt_pointer ?d"
    by (simp add: qmp_latch_def Let_def rt_setBytes_def) (simp add: rt_set_pointer)
  let ?s = "qmp_show_status (bn_now b) ?e"
  from qmp_read_run [OF ok adv eok ptr, of 6 xfer] obtain d2 where
    r: "run_prog (bench_port 0) (qmp_ask qRegData 6 xfer d) b =
      ((6, map (\<lambda>k. qmp_byteAt d2 (qRegData + of_nat k)) [0..<6], d2), b)"
    and d2: "d2 = ?s \<or> d2 = ?s\<lparr>rt_reads := rt_reads ?e + 1\<rparr>"
    by (auto simp: qmp_ask_points)
  note sh = qmp_show_status_facts [OF eok, of "bn_now b"]
  have d2ok: "qmp_ok d2" "rt_bytes d2 = rt_bytes ?s" "qm_mode d2 = QSleep" "\<not> qm_pending d2"
      "qm_conversions d2 = qm_conversions d + 1" "qm_next_sample d2 = (qm_next_sample d + 1) mod qm_sample_count d"
    using d2 sh(1) assms(5) l(2) by (auto simp: qmp_ok_def qmp_show_status_def)
  let ?v = "qmp_sample d (qm_next_sample d)"
  have v: "rt_bytes d2 qRegData = Some ?v"
    using d2ok(2) sh(2) l(1) assms(5) by (simp add: qmp_sample_def)
  have len: "length ?v = 6"
    using assms(1,5) by (intro qmp_sample_length) (auto simp: qmp_ok_def)
  have "rt_has d2 qRegData" "rt_width d2 qRegData = 6"
    using qmp_find [OF d2ok(1), of qRegData] qmp_width [OF d2ok(1), of qRegData] by (simp_all add: rt_has_def qRegData_def)
  then have "qmp_byteAt d2 (qRegData + of_nat k) = ?v ! k" if "k < 6" for k
    using qmp_byteAt_inside [OF d2ok(1), of qRegData k] that d2ok(1) len by (simp add: rt_get_bytes qmp_ok_def v)
  then have "map (\<lambda>k. qmp_byteAt d2 (qRegData + of_nat k)) [0..<6] = ?v"
    using len by (intro nth_equalityI) simp_all
  then show ?thesis using r d2ok by auto
qed

section \<open>Properties\<close>

text \<open>Reads are byte-addressed. Once the conversions that fell due are latched, a read of
  any length from any address answers that many bytes, the byte at each consecutive address
  in turn, whether the table or the hook supplies them.\<close>

theorem qmp_reads_are_byte_addressed:
  assumes "qmp_ok d" "\<not> qm_pending d" "0 < len"
  shows "\<exists>d1. run_prog (bench_port 0) (qmp_i2cRead len xfer d) b =
      ((len, map (\<lambda>k. qmp_byteAt d1 (rt_pointer d + of_nat k)) [0..<len], d1), b) \<and>
    rt_bytes d1 = (rt_bytes d)(qRegStatus \<mapsto> [rt_get d qRegStatus 0 AND NOT qStatusMeasuring])"
proof -
  have "run_prog (bench_port 0) (qmp_advanceTo (bn_now b) d) b = (d, b)"
    using assms(2) by (simp add: qmp_advanceTo_def conversions_due_def)
  from qmp_read_run [OF assms(1) this assms(1) refl assms(3), of xfer] show ?thesis
    using qmp_show_status_facts(2) [OF assms(1), of "bn_now b"] assms(2) by (auto simp: qmp_measuring_def)
qed

text \<open>C36: a forced conversion takes the time its control byte asks for. Started at some moment by
  a write of the control register, it asks for a wake at its end; until then the status reads
  busy from 225 us on and clear before; from then on a read of the data answers the next raw
  sample of the sequence, once, and the part is asleep.\<close>

theorem qmp_forced_conversion:
  assumes "qmp_ok d" "\<not> qm_pending d" "ctrl AND 3 \<noteq> 0" "ctrl AND 3 \<noteq> 3" "unat (bn_now b) + 200000 < 2 ^ 64"
    "qm_sample_count d \<noteq> 0"
    "run_prog (bench_port 0) (qmp_i2cWrite [qRegCtrlMeas, ctrl] xfer d) b = ((status, d1), b1)" "bn_now b \<le> bn_now b2"
  shows "status = kI2cAck \<and> bn_wakes b1 = bn_wakes b @ [qm_due_us d1] \<and>
    unat (qm_due_us d1) = unat (bn_now b) + conversion_of ctrl \<and>
    (if bn_now b2 < qm_due_us d1
     then \<exists>v d2. run_prog (bench_port 0) (qmp_ask qRegStatus 1 xfer d1) b2 = ((1, [v], d2), b2) \<and>
       (v AND qStatusMeasuring \<noteq> 0 \<longleftrightarrow> unat (bn_now b) + 225 \<le> unat (bn_now b2)) \<and> qm_pending d2
     else \<exists>d2. run_prog (bench_port 0) (qmp_ask qRegData 6 xfer d1) b2 = ((6, qmp_sample d (qm_next_sample d), d2), b2) \<and>
       qm_mode d2 = QSleep \<and> \<not> qm_pending d2 \<and> qm_conversions d2 = qm_conversions d + 1 \<and>
       qm_next_sample d2 = (qm_next_sample d + 1) mod qm_sample_count d)"
proof -
  let ?w = "ctrl_written ctrl d"
  note w = ctrl_written_facts [OF assms(1), of ctrl]
  have wf: "qm_pending ?w = qm_pending d" "qm_sample_count ?w = qm_sample_count d" "qm_next_sample ?w = qm_next_sample d"
      "qm_samples ?w = qm_samples d" "qm_conversions ?w = qm_conversions d"
    by (simp_all add: ctrl_written_def Let_def)
  note st = qmp_start_facts [OF w(1,3) assms(5), of QForced]
  have ctrl_reg: "qRegCtrlMeas \<noteq> qRegReset" by (simp add: q_reg_defs)
  have run: "status = kI2cAck \<and> d1 = qmp_start QForced (bn_now b) ?w \<and> bn_wakes b1 = bn_wakes b @ [qm_due_us d1]"
    using assms(2-4,7) wf(1) ctrl_reg by (auto simp: qmp_write_ctrl_run [OF assms(1)] qmp_afterWrite_def Let_def)
  have d1: "qmp_ok d1" "qm_mode d1 = QForced" "qm_pending d1" "qm_start_us d1 = bn_now b" "qm_sample_count d1 \<noteq> 0"
      "qmp_sample d1 (qm_next_sample d1) = qmp_sample d (qm_next_sample d)" "qm_next_sample d1 = qm_next_sample d"
      "qm_sample_count d1 = qm_sample_count d" "qm_conversions d1 = qm_conversions d"
      "unat (qm_due_us d1) = unat (bn_now b) + conversion_of ctrl"
    using run st wf assms(6) by (simp_all add: qmp_sample_def)
  show ?thesis
  proof (cases "bn_now b2 < qm_due_us d1")
    case True
    from forced_status_run [OF d1(1-3) True, of xfer] show ?thesis
      using run True d1(4,10) assms(5) by auto
  next
    case False
    then have "qm_due_us d1 \<le> bn_now b2" by simp
    from forced_data_run [OF d1(1-3) this d1(5), of xfer] show ?thesis
      using run False d1 by auto
  qed
qed

text \<open>C37: in normal mode the part keeps its schedule however late it is brought up to date. It
  converts once per period that has passed, the data register holds the sample of the last
  conversion, the next one is due after the present, at most a period away and on the grid of
  the first, and the environment has been asked to wake it then; more turns of the loop
  than the model's bound would change nothing.\<close>

theorem qmp_normal_mode_keeps_schedule:
  assumes "qmp_ok d" "qm_mode d = QNormal" "qm_pending d" "qm_due_us d \<le> t" "unat t + 5000000 < 2 ^ 64"
    "n = conversions_due t d"
  shows "\<exists>e b1. run_prog (bench_port 0) (qmp_advanceTo t d) b = (e, b1) \<and>
    qm_conversions e = qm_conversions d + of_nat n \<and>
    unat (qm_due_us e) = unat (qm_due_us d) + n * unat (qmp_normalPeriodUs d) \<and>
    unat t < unat (qm_due_us e) \<and> unat (qm_due_us e) \<le> unat t + unat (qmp_normalPeriodUs d) \<and>
    last (bn_wakes b1) = qm_due_us e \<and>
    (qm_sample_count d \<noteq> 0 \<longrightarrow>
       rt_bytes e qRegData = Some (qmp_sample d ((qm_next_sample d + n - 1) mod qm_sample_count d))) \<and>
    (\<forall>k. run_prog (bench_port 0) (qmp_loop (n + k) t d) b = (e, b1))"
proof -
  let ?p = "qmp_normalPeriodUs d"
  have p: "0 < unat ?p" "unat ?p \<le> 4112410"
    using conversion_of_bounds [of "rt_get d qRegCtrlMeas 0"] standby_of_le [of "rt_get d qRegIoSetup 0"]
    by (simp_all add: unat_normalPeriodUs)
  have le: "unat (qm_due_us d) \<le> unat t" using assms(4) by (simp add: word_le_nat_alt)
  have "unat (t - qm_due_us d) = unat t - unat (qm_due_us d)" using assms(4) by (rule unat_sub)
  then have n: "n = (unat t - unat (qm_due_us d)) div unat ?p + 1"
    using assms(2-4,6) by (simp add: conversions_due_def)
  have "(n - 1) * unat ?p \<le> unat t - unat (qm_due_us d)" by (simp add: n)
  then have from_below: "unat (qm_due_us d) + (n - 1) * unat ?p \<le> unat t" using le by simp
  have "unat t - unat (qm_due_us d) < n * unat ?p"
    using p(1) dividend_less_div_times [of "unat ?p" "unat t - unat (qm_due_us d)"] by (simp add: n)
  then have above: "unat t < unat (qm_due_us d) + n * unat ?p" by simp
  have close: "unat (qm_due_us d) + n * unat ?p \<le> unat t + unat ?p"
    using from_below by (simp add: n)
  from normal_loop_run [OF assms(1-3), of n t b] from_below obtain e where
    r: "run_prog (bench_port 0) (qmp_loop n t d) b =
      (e, b\<lparr>bn_wakes := bn_wakes b @ map (\<lambda>k. qm_due_us d + of_nat (k + 1) * ?p) [0..<n]\<rparr>)"
    and e: "after_conversions n d e" by blast
  have "unat (qm_due_us d) + n * unat ?p < 2 ^ 64" using close p(2) assms(5) by simp
  then have "unat (of_nat n * ?p) = n * unat ?p" "unat (qm_due_us d + of_nat n * ?p) = unat (qm_due_us d) + n * unat ?p"
    using of_nat_inverse [of "n * unat ?p" "of_nat n * ?p"] unat_add_no_overflow [of "qm_due_us d" "of_nat n * ?p"] by simp_all
  then have due: "unat (qm_due_us e) = unat (qm_due_us d) + n * unat ?p" using e by (simp add: after_conversions_def)
  then have "\<not> (qm_pending e \<and> qm_due_us e \<le> t)" using above by (simp add: word_le_nat_alt)
  then have enough: "run_prog (bench_port 0) (qmp_loop (n + k) t d) b =
      (e, b\<lparr>bn_wakes := bn_wakes b @ map (\<lambda>k. qm_due_us d + of_nat (k + 1) * ?p) [0..<n]\<rparr>)" for k
    using repeat_while_enough [OF r [unfolded qmp_loop_def]] by (simp add: qmp_loop_def)
  obtain m where m: "n = Suc m" by (simp add: n)
  have "last (bn_wakes b @ map (\<lambda>k. qm_due_us d + of_nat (k + 1) * ?p) [0..<n]) = qm_due_us d + of_nat n * ?p"
    unfolding m by simp
  moreover have "qm_due_us e = qm_due_us d + of_nat n * ?p" using e by (simp add: after_conversions_def)
  ultimately have "last (bn_wakes b @ map (\<lambda>k. qm_due_us d + of_nat (k + 1) * ?p) [0..<n]) = qm_due_us e" by simp
  then show ?thesis
    using r e due above close enough assms(6) m
    by (auto simp: qmp_advanceTo_def after_conversions_def)
qed

section \<open>Witnesses\<close>

text \<open>A part with two samples to show.\<close>

definition shown_part :: qmp where
  "shown_part = snd (qmp_set 0 [1, 2, 3, 4, 5, 6, 7, 8, 9, 10, 11, 12] (new_qmp (replicate 96 0) (replicate 192 0)))"

lemma shown_part_facts:
  "qmp_ok shown_part" "\<not> qm_pending shown_part" "qm_sample_count shown_part = 2" "qm_next_sample shown_part = 0"
  "qmp_sample shown_part 0 = [1, 2, 3, 4, 5, 6]" "qmp_sample shown_part 1 = [7, 8, 9, 10, 11, 12]"
  "qm_mode shown_part = QSleep" "qm_due_us shown_part = 0"
proof -
  let ?raw = "\<lparr>rt_spec = qmp_spec, rt_offset = rt_layout (rs_entries qmp_spec) 0 0, rt_values = replicate 96 0,
      rt_pointer = 0, rt_reads = 0, rt_writes = 0, rt_unmapped = 0, rt_refused = 0\<rparr>"
  have raw: "rt_ok ?raw" by (simp add: rt_ok_def kValueBytes_def)
  have ok: "rt_ok (new_regtable qmp_spec (replicate 96 0))"
    unfolding new_regtable_def by (rule rt_loadReset_bytes(2) [OF raw])
  have spec: "rt_spec (new_regtable qmp_spec (replicate 96 0)) = qmp_spec"
    by (simp add: new_regtable_def rt_loadReset_def)
  have len: "length qmp_reset_A0 = 25" by (simp add: qmp_reset_A0_def)
  show "qmp_ok shown_part"
    using ok spec len
    by (simp add: shown_part_def qmp_set_def new_qmp_def qmp_ok_def rt_ok_def regtable.defs qSampleBytes_def qMaxSamples_def)
qed (simp_all add: shown_part_def qmp_set_def new_qmp_def regtable.defs qSampleBytes_def qMaxSamples_def qmp_sample_def)

theorem qmp_reads_are_byte_addressed_witness:
  "\<exists>d1. run_prog (bench_port 0) (qmp_i2cRead 3 \<lparr>xstop = True, xcontinued = False\<rparr> shown_part) (new_bench 0) =
     ((3, map (\<lambda>k. qmp_byteAt d1 (rt_pointer shown_part + of_nat k)) [0..<3], d1), new_bench 0)"
  using qmp_reads_are_byte_addressed [OF shown_part_facts(1,2), of 3 "\<lparr>xstop = True, xcontinued = False\<rparr>" "new_bench 0"]
  by auto

theorem qmp_forced_conversion_witness:
  "\<exists>d1 b1 d2 b2. run_prog (bench_port 0) (qmp_i2cWrite [qRegCtrlMeas, 0x25] \<lparr>xstop = True, xcontinued = False\<rparr> shown_part)
      (new_bench 1000) = ((kI2cAck, d1), b1) \<and>
    run_prog (bench_port 0) (qmp_ask qRegData 6 \<lparr>xstop = True, xcontinued = False\<rparr> d1) (new_bench 5680) =
      ((6, [1, 2, 3, 4, 5, 6], d2), b2)"
proof -
  let ?x = "\<lparr>xstop = True, xcontinued = False\<rparr>"
  obtain st d1 b1 where r: "run_prog (bench_port 0) (qmp_i2cWrite [qRegCtrlMeas, 0x25] ?x shown_part) (new_bench 1000) = ((st, d1), b1)"
    by (metis prod.exhaust)
  have pre: "(0x25 :: u8) AND 3 \<noteq> 0" "(0x25 :: u8) AND 3 \<noteq> 3" "unat (bn_now (new_bench 1000)) + 200000 < 2 ^ 64"
      "qm_sample_count shown_part \<noteq> 0" "bn_now (new_bench 1000) \<le> bn_now (new_bench 5680)"
    by (simp_all add: shown_part_facts new_bench_def)
  have "conversion_of 0x25 = 4680" by (simp add: conversion_of_def averaged_def)
  then have late: "\<not> bn_now (new_bench 5680) < qm_due_us d1"
    using qmp_forced_conversion [OF shown_part_facts(1,2) pre(1-4) r pre(5)]
    by (auto simp: word_less_nat_alt new_bench_def)
  then show ?thesis
    using qmp_forced_conversion [OF shown_part_facts(1,2) pre(1-4) r pre(5)] r
    by (auto simp: shown_part_facts)
qed

theorem qmp_normal_mode_keeps_schedule_witness:
  "\<exists>e b1. run_prog (bench_port 0) (qmp_advanceTo 10000 (shown_part\<lparr>qm_mode := QNormal, qm_pending := True, qm_due_us := 100\<rparr>))
      (new_bench 10000) = (e, b1) \<and> 10000 < unat (qm_due_us e)"
proof -
  let ?d = "shown_part\<lparr>qm_mode := QNormal, qm_pending := True, qm_due_us := 100\<rparr>"
  have pre: "qmp_ok ?d" "qm_mode ?d = QNormal" "qm_pending ?d" "qm_due_us ?d \<le> 10000" "unat (10000 :: u64) + 5000000 < 2 ^ 64"
    using shown_part_facts(1) by (simp_all add: qmp_ok_def)
  show ?thesis
    using qmp_normal_mode_keeps_schedule [OF pre refl, of "new_bench 10000"] by auto
qed

end
