(* ===== verification/Serial_Units.thy ===== *)
theory Serial_Units
  imports Device_Calls
begin

text \<open>
  The devices on a serial port that take line-based commands: the GPS receiver of
  \<open>devices/src/gps_model.h\<close> and \<open>.cpp\<close> and the AT modem of \<open>modem_model.h\<close> and \<open>.cpp\<close>. The byte stream has
  no call boundaries; the locale of the stream says so and both devices keep it.
\<close>

section \<open>Byte streams\<close>

text \<open>A method called once per byte, the state threaded through.\<close>

fun prog_fold :: "('a \<Rightarrow> 'd \<Rightarrow> ('m, 'd) prog) \<Rightarrow> 'a list \<Rightarrow> 'd \<Rightarrow> ('m, 'd) prog" where
  "prog_fold f [] d = Ret d"
| "prog_fold f (x # xs) d = andThen (f x d) (prog_fold f xs)"

lemma run_prog_fold_append:
  "run_prog hp (prog_fold f (xs @ ys) d) p =
     (case run_prog hp (prog_fold f xs d) p of (d1, p1) \<Rightarrow> run_prog hp (prog_fold f ys d1) p1)"
  by (induction xs arbitrary: d p) (simp_all split: prod.split)

text \<open>The contract of a byte stream, and what its users rely on.\<close>

locale byte_stream =
  fixes feed :: "bytes \<Rightarrow> 's \<Rightarrow> 's"
  assumes nothing_law: "feed [] s = s"
    and append_law: "feed (xs @ ys) s = feed ys (feed xs s)"
begin

lemma any_pieces: "fold feed pieces s = feed (concat pieces) s"
  by (induction pieces arbitrary: s) (simp_all add: nothing_law append_law)

lemma same_stream: "concat pieces = concat pieces1 \<Longrightarrow> fold feed pieces s = fold feed pieces1 s"
  by (simp add: any_pieces)

end

definition str_bytes :: "string \<Rightarrow> bytes" where
  "str_bytes s = map char_byte s"

section \<open>GPS receiver\<close>

record gps =
  gp_line :: bytes
  gp_running :: bool
  gp_period_us :: u64
  gp_next_us :: u64
  gp_fix :: u8
  gp_sentences :: u32
  gp_rejected :: u32

definition kGpsTerminator :: u8 where "kGpsTerminator = 10"
definition kDefaultPeriodUs :: u64 where "kDefaultPeriodUs = 2000"
definition kGpsLine :: nat where "kGpsLine = 24"

definition new_gps :: gps where
  "new_gps = \<lparr>gp_line = [], gp_running = False, gp_period_us = kDefaultPeriodUs, gp_next_us = 0, gp_fix = 1,
     gp_sentences = 0, gp_rejected = 0\<rparr>"

definition gps_reset :: "gps \<Rightarrow> gps" where "gps_reset d = new_gps"

definition gps_arm :: "u64 \<Rightarrow> gps \<Rightarrow> ('m, gps) prog" where
  "gps_arm nowUs d =
     (let d1 = d\<lparr>gp_next_us := nowUs + gp_period_us d\<rparr> in wake_then (gp_next_us d1) (Ret d1))"

text \<open>\<open>strcmp\<close> reads the line up to its first NUL.\<close>

definition c_string :: "bytes \<Rightarrow> bytes" where
  "c_string line = takeWhile (\<lambda>b. b \<noteq> 0) line"

definition gps_dispatch :: "gps \<Rightarrow> ('m, gps) prog" where
  "gps_dispatch d =
     (let cleared = (\<lambda>d. Ret (d\<lparr>gp_line := []\<rparr>))
      in if c_string (gp_line d) = str_bytes ''START'' then
           let d1 = d\<lparr>gp_running := True\<rparr>
           in Attached (\<lambda>att. if att then Now (\<lambda>now. andThen (gps_arm now d1) cleared) else cleared d1)
         else if c_string (gp_line d) = str_bytes ''STOP'' then cleared (d\<lparr>gp_running := False\<rparr>)
         else note_then ''unknown command'' (cleared (d\<lparr>gp_rejected := gp_rejected d + 1\<rparr>)))"

definition gps_byte :: "u8 \<Rightarrow> gps \<Rightarrow> ('m, gps) prog" where
  "gps_byte c d =
     (if c = kGpsTerminator then gps_dispatch d
      else if length (gp_line d) < kGpsLine - 1 then Ret (d\<lparr>gp_line := gp_line d @ [c]\<rparr>)
      else note_then ''command too long'' (Ret (d\<lparr>gp_rejected := gp_rejected d + 1, gp_line := []\<rparr>)))"

definition gps_serialIn :: "bytes \<Rightarrow> gps \<Rightarrow> ('m, gps) prog" where
  "gps_serialIn data d = prog_fold gps_byte data d"

text \<open>
  The sentence. The buffer of the body holds 23 characters; the checksum runs over the length
  the format asked for, and what lies behind the buffer is unspecified, as it is in the code.
\<close>

definition gps_body_text :: "u64 \<Rightarrow> u8 \<Rightarrow> string" where
  "gps_body_text nowUs quality = ''GPGGA,'' @ dec (unat (nowUs div 1000)) @ '','' @ decw quality"

definition xor_bytes :: "bytes \<Rightarrow> u8" where
  "xor_bytes bs = fold (\<lambda>b sum. sum XOR b) bs 0"

definition gps_sentence :: "u64 \<Rightarrow> u8 \<Rightarrow> bytes" where
  "gps_sentence nowUs quality =
     (let asked = gps_body_text nowUs quality;
          body = clip 24 asked;
          checksum = xor_bytes (map (\<lambda>i. (str_bytes body @ [0]) ! i) [0..<length asked])
      in str_bytes (clip 40 (''$'' @ body @ ''*'' @ hex2 checksum @ [CHR 0x0D, CHR 0x0A])))"

definition gps_emit :: "u64 \<Rightarrow> gps \<Rightarrow> ('m, gps) prog" where
  "gps_emit nowUs d =
     (let counted = Ret (d\<lparr>gp_sentences := gp_sentences d + 1\<rparr>)
      in Attached (\<lambda>att. if att then SerialOut (gps_sentence nowUs (gp_fix d)) (\<lambda>_. counted) else counted))"

definition gps_set :: "u8 \<Rightarrow> bytes \<Rightarrow> gps \<Rightarrow> bool \<times> gps" where
  "gps_set channel data d =
     (if channel \<noteq> 0 \<or> length data \<noteq> 1 then (False, d) else (True, d\<lparr>gp_fix := data ! 0\<rparr>))"

definition gps_channelWrite :: "u8 \<Rightarrow> bytes \<Rightarrow> gps \<Rightarrow> ('m, bool \<times> gps) prog" where
  "gps_channelWrite channel data d = Ret (gps_set channel data d)"

text \<open>
  The loop of \<open>advanceTo\<close>: it re-arms from the present, so one turn is enough until the time
  comes within a period of the end of its range (\<open>gps_one_turn\<close>); there it never ends.
\<close>

definition gps_loop :: "nat \<Rightarrow> u64 \<Rightarrow> gps \<Rightarrow> ('m, gps) prog" where
  "gps_loop fuel nowUs = repeat_while (\<lambda>d. gp_next_us d \<le> nowUs) (\<lambda>d. andThen (gps_emit nowUs d) (gps_arm nowUs)) fuel"

definition gps_advanceTo :: "u64 \<Rightarrow> gps \<Rightarrow> ('m, gps) prog" where
  "gps_advanceTo nowUs d = (if \<not> gp_running d then Ret d else gps_loop 1 nowUs d)"

definition gps_dump :: "gps \<Rightarrow> string" where
  "gps_dump d = ''gps run='' @ bool_dec (gp_running d) @ '' fix='' @ decw (gp_fix d) @ '' sent='' @ decw (gp_sentences d) @
     '' rejected='' @ decw (gp_rejected d)"

definition gps_device :: "('m, gps) device" where
  "gps_device = (base_device gps_reset)\<lparr>dv_serial_in := gps_serialIn, dv_channel_write := gps_channelWrite,
     dv_advance_to := gps_advanceTo, dv_dump := gps_dump\<rparr>"

section \<open>AT modem\<close>

record modem =
  mo_line :: bytes
  mo_overflows :: u32
  mo_unknown :: u32
  mo_has_pending :: bool
  mo_reply_due_us :: u64
  mo_pending :: string
  mo_replies :: u32

definition kModemTerminator :: u8 where "kModemTerminator = char_byte (CHR '';'')"
definition kModemLine :: nat where "kModemLine = 16"

definition new_modem :: modem where
  "new_modem = \<lparr>mo_line = [], mo_overflows = 0, mo_unknown = 0, mo_has_pending = False, mo_reply_due_us = 0,
     mo_pending = [], mo_replies = 0\<rparr>"

definition modem_reset :: "modem \<Rightarrow> modem" where "modem_reset d = new_modem"

definition modem_send_bytes :: "bytes \<Rightarrow> modem \<Rightarrow> ('m, modem) prog" where
  "modem_send_bytes bs d =
     (let counted = Ret (d\<lparr>mo_replies := mo_replies d + 1\<rparr>)
      in Attached (\<lambda>att. if att then SerialOut bs (\<lambda>_. counted) else counted))"

definition modem_send :: "string \<Rightarrow> modem \<Rightarrow> ('m, modem) prog" where
  "modem_send s d = modem_send_bytes (str_bytes s) d"

definition modem_dispatch :: "modem \<Rightarrow> ('m, modem) prog" where
  "modem_dispatch d =
     (let cleared = (\<lambda>d. Ret (d\<lparr>mo_line := []\<rparr>))
      in if mo_line d = str_bytes ''AT'' then andThen (modem_send ''OK'' d) cleared
         else if mo_line d = str_bytes ''AT+B'' then andThen (modem_send_bytes [0x41, 0x00, 0x42] d) cleared
         else if length (mo_line d) > 2 \<and> take 2 (mo_line d) = str_bytes ''AT'' then
           now_then (\<lambda>now. cleared (d\<lparr>mo_pending := clip 8 ''OK'', mo_reply_due_us := now + 1000, mo_has_pending := True\<rparr>))
         else cleared (d\<lparr>mo_unknown := mo_unknown d + 1\<rparr>))"

definition modem_byte :: "u8 \<Rightarrow> modem \<Rightarrow> ('m, modem) prog" where
  "modem_byte c d =
     (if c = kModemTerminator then modem_dispatch d
      else if length (mo_line d) < kModemLine then Ret (d\<lparr>mo_line := mo_line d @ [c]\<rparr>)
      else Ret (d\<lparr>mo_overflows := mo_overflows d + 1, mo_line := []\<rparr>))"

definition modem_serialIn :: "bytes \<Rightarrow> modem \<Rightarrow> ('m, modem) prog" where
  "modem_serialIn data d = prog_fold modem_byte data d"

definition modem_advanceTo :: "u64 \<Rightarrow> modem \<Rightarrow> ('m, modem) prog" where
  "modem_advanceTo nowUs d =
     (if mo_has_pending d \<and> mo_reply_due_us d \<le> nowUs
      then modem_send (mo_pending d) (d\<lparr>mo_has_pending := False\<rparr>) else Ret d)"

definition modem_dump :: "modem \<Rightarrow> string" where
  "modem_dump d = ''modem replies='' @ decw (mo_replies d) @ '' pending='' @ bool_dec (mo_has_pending d)"

definition modem_device :: "('m, modem) device" where
  "modem_device = (base_device modem_reset)\<lparr>dv_serial_in := modem_serialIn, dv_advance_to := modem_advanceTo,
     dv_dump := modem_dump\<rparr>"

section \<open>Both keep the stream\<close>

interpretation gps_stream: byte_stream "\<lambda>data s. case s of (d, p) \<Rightarrow> run_prog hp (gps_serialIn data d) p" for hp
  by unfold_locales (auto simp: gps_serialIn_def run_prog_fold_append split: prod.split)

interpretation modem_stream: byte_stream "\<lambda>data s. case s of (d, p) \<Rightarrow> run_prog hp (modem_serialIn data d) p" for hp
  by unfold_locales (auto simp: modem_serialIn_def run_prog_fold_append split: prod.split)

section \<open>Commands\<close>

lemma gps_fill:
  "length (gp_line d) + length cs \<le> kGpsLine - 1 \<Longrightarrow> kGpsTerminator \<notin> set cs \<Longrightarrow>
   run_prog hp (gps_serialIn cs d) p = (d\<lparr>gp_line := gp_line d @ cs\<rparr>, p)"
  by (induction cs arbitrary: d) (auto simp: gps_serialIn_def gps_byte_def)

lemma modem_fill:
  "length (mo_line d) + length cs \<le> kModemLine \<Longrightarrow> kModemTerminator \<notin> set cs \<Longrightarrow>
   run_prog hp (modem_serialIn cs d) p = (d\<lparr>mo_line := mo_line d @ cs\<rparr>, p)"
  by (induction cs arbitrary: d) (auto simp: modem_serialIn_def modem_byte_def)

lemma gps_command_run:
  assumes "gp_line d = []" "length cs \<le> kGpsLine - 1" "kGpsTerminator \<notin> set cs"
  shows "run_prog hp (gps_serialIn (cs @ [kGpsTerminator]) d) p = run_prog hp (gps_dispatch (d\<lparr>gp_line := cs\<rparr>)) p"
  using gps_fill [of d cs hp p] assms
  by (simp add: gps_serialIn_def run_prog_fold_append gps_byte_def)

lemma modem_command_run:
  assumes "mo_line d = []" "length cs \<le> kModemLine" "kModemTerminator \<notin> set cs"
  shows "run_prog hp (modem_serialIn (cs @ [kModemTerminator]) d) p = run_prog hp (modem_dispatch (d\<lparr>mo_line := cs\<rparr>)) p"
  using modem_fill [of d cs hp p] assms
  by (simp add: modem_serialIn_def run_prog_fold_append modem_byte_def)

text \<open>
  A command too long for the buffer is discarded up to the byte that did not fit; what follows
  it is taken for a command of its own, where the comment has the command dropped.
\<close>

lemma gps_long_command_tail_runs:
  assumes "gp_line d = []" "length junk = kGpsLine - 1" "kGpsTerminator \<notin> set junk" "c \<noteq> kGpsTerminator"
    "length cs \<le> kGpsLine - 1" "kGpsTerminator \<notin> set cs"
  shows "run_prog (bench_port 0) (gps_serialIn (junk @ [c] @ cs @ [kGpsTerminator]) d) b =
    run_prog (bench_port 0) (gps_dispatch (d\<lparr>gp_rejected := gp_rejected d + 1, gp_line := cs\<rparr>))
      (b\<lparr>bn_notes := bn_notes b @ [''command too long'']\<rparr>)"
proof -
  let ?hp = "bench_port 0"
  have "run_prog ?hp (gps_serialIn (junk @ [c]) d) b =
      (d\<lparr>gp_line := [], gp_rejected := gp_rejected d + 1\<rparr>, b\<lparr>bn_notes := bn_notes b @ [''command too long'']\<rparr>)"
    using gps_fill [of d junk ?hp b] assms(1-4)
    by (simp add: gps_serialIn_def run_prog_fold_append gps_byte_def)
  then have "run_prog ?hp (gps_serialIn ((junk @ [c]) @ cs @ [kGpsTerminator]) d) b =
      run_prog ?hp (gps_serialIn (cs @ [kGpsTerminator]) (d\<lparr>gp_line := [], gp_rejected := gp_rejected d + 1\<rparr>))
        (b\<lparr>bn_notes := bn_notes b @ [''command too long'']\<rparr>)"
    unfolding gps_serialIn_def by (subst run_prog_fold_append) simp
  then show ?thesis
    using gps_command_run [of "d\<lparr>gp_line := [], gp_rejected := gp_rejected d + 1\<rparr>" cs ?hp] assms(5,6) by simp
qed

lemma modem_long_command_tail_runs:
  assumes "mo_line d = []" "length junk = kModemLine" "kModemTerminator \<notin> set junk" "c \<noteq> kModemTerminator"
    "length cs \<le> kModemLine" "kModemTerminator \<notin> set cs"
  shows "run_prog hp (modem_serialIn (junk @ [c] @ cs @ [kModemTerminator]) d) p =
    run_prog hp (modem_dispatch (d\<lparr>mo_overflows := mo_overflows d + 1, mo_line := cs\<rparr>)) p"
proof -
  have "run_prog hp (modem_serialIn (junk @ [c]) d) p = (d\<lparr>mo_line := [], mo_overflows := mo_overflows d + 1\<rparr>, p)"
    using modem_fill [of d junk hp p] assms(1-4)
    by (simp add: modem_serialIn_def run_prog_fold_append modem_byte_def)
  then have "run_prog hp (modem_serialIn ((junk @ [c]) @ cs @ [kModemTerminator]) d) p =
      run_prog hp (modem_serialIn (cs @ [kModemTerminator]) (d\<lparr>mo_line := [], mo_overflows := mo_overflows d + 1\<rparr>)) p"
    unfolding modem_serialIn_def by (subst run_prog_fold_append) simp
  then show ?thesis
    using modem_command_run [of "d\<lparr>mo_line := [], mo_overflows := mo_overflows d + 1\<rparr>" cs hp p] assms(5,6) by simp
qed

section \<open>Time\<close>

text \<open>One turn of the loop is enough: the next sentence is due after the present.\<close>

lemma gps_turn:
  "run_prog (bench_port 0) (andThen (gps_emit t d) (gps_arm t)) b =
     (d\<lparr>gp_sentences := gp_sentences d + 1, gp_next_us := t + gp_period_us d\<rparr>,
      b\<lparr>bn_serial := bn_serial b @ [gps_sentence t (gp_fix d)], bn_wakes := bn_wakes b @ [t + gp_period_us d]\<rparr>)"
  by (simp add: gps_emit_def gps_arm_def Let_def)

lemma gps_one_turn:
  assumes "0 < gp_period_us d" "unat t + unat (gp_period_us d) < 2 ^ 64"
  shows "run_prog (bench_port 0) (gps_loop (1 + k) t d) b = run_prog (bench_port 0) (gps_loop 1 t d) b"
proof (cases "gp_next_us d \<le> t")
  case True
  have "unat (t + gp_period_us d) = unat t + unat (gp_period_us d)"
    using assms(2) unat_add_no_overflow [of t "gp_period_us d"] by simp
  then have "\<not> t + gp_period_us d \<le> t" using assms(1) by (simp add: word_le_nat_alt word_less_nat_alt)
  then show ?thesis using True gps_turn [of t d b]
    by (simp add: gps_loop_def repeat_while_stops)
next
  case False
  then show ?thesis by (simp add: gps_loop_def repeat_while_stops)
qed

text \<open>However late the receiver is served, it emits one sentence and starts its period anew.\<close>

lemma gps_late_run:
  assumes "gp_running d" "gp_next_us d \<le> t"
  shows "run_prog (bench_port 0) (gps_advanceTo t d) b =
     (d\<lparr>gp_sentences := gp_sentences d + 1, gp_next_us := t + gp_period_us d\<rparr>,
      b\<lparr>bn_serial := bn_serial b @ [gps_sentence t (gp_fix d)], bn_wakes := bn_wakes b @ [t + gp_period_us d]\<rparr>)"
  using assms gps_turn [of t d b] by (simp add: gps_advanceTo_def gps_loop_def)

section \<open>The sentence an application reads\<close>

text \<open>
  A reader of the sentence that trusts nothing: the frame, the checksum over the body, the time
  in milliseconds and the quality of the fix.
\<close>

definition read_sentence :: "bytes \<Rightarrow> (nat \<times> nat) option" where
  "read_sentence bs =
     (let s = map byte_char bs;
          body = takeWhile (\<lambda>c. c \<noteq> CHR ''*'') (tl s);
          fields = drop 6 body
      in if s = ''$'' @ body @ ''*'' @ hex2 (xor_bytes (str_bytes body)) @ [CHR 0x0D, CHR 0x0A] \<and> take 6 body = ''GPGGA,''
         then Some (read_dec (takeWhile (\<lambda>c. c \<noteq> CHR '','') fields), read_dec (drop 1 (dropWhile (\<lambda>c. c \<noteq> CHR '','') fields)))
         else None)"

lemma byte_char_of [simp]: "byte_char (char_byte c) = c"
  by (simp add: byte_char_def char_byte_def unat_of_nat)

lemma str_bytes_back [simp]: "map byte_char (str_bytes s) = s"
  by (simp add: str_bytes_def comp_def)

lemma digits_free: "c \<in> set (dec n) \<Longrightarrow> c \<noteq> CHR '','' \<and> c \<noteq> CHR ''*''"
  using dec_digits [of c n] by (auto simp: dec_digit_def)

lemma gps_body_short:
  assumes "unat t div 1000 < 10 ^ 13"
  shows "length (gps_body_text t quality) \<le> 23"
proof -
  have "unat quality < 256" using unsigned_less [of quality] by simp
  then have "unat quality < 10 ^ 3" by simp
  then have "length (decw quality) \<le> 3" by (simp add: decw_def length_dec)
  moreover have "length (dec (unat t div 1000)) \<le> 13" using assms by (intro length_dec) simp_all
  ultimately show ?thesis by (simp add: gps_body_text_def unat_div)
qed

lemma gps_sentence_whole:
  assumes "unat t div 1000 < 10 ^ 13"
  shows "gps_sentence t quality = str_bytes (''$'' @ gps_body_text t quality @ ''*'' @
    hex2 (xor_bytes (str_bytes (gps_body_text t quality))) @ [CHR 0x0D, CHR 0x0A])"
proof -
  let ?b = "gps_body_text t quality"
  have short: "length ?b \<le> 23" using assms by (rule gps_body_short)
  have "map (\<lambda>i. (str_bytes ?b @ [0]) ! i) [0..<length ?b] = str_bytes ?b"
    by (rule nth_equalityI) (simp_all add: str_bytes_def nth_append)
  then show ?thesis using short by (simp add: gps_sentence_def clip_def Let_def hex2_def)
qed

section \<open>Properties\<close>

text \<open>C38: every sentence can be read back. Until the clock reaches ten billion seconds the sentence
  of the receiver has the frame and the checksum of its protocol and carries the time in
  milliseconds and the quality of the fix.\<close>

theorem gps_sentence_round_trip:
  assumes "unat t div 1000 < 10 ^ 13"
  shows "read_sentence (gps_sentence t quality) = Some (unat t div 1000, unat quality)"
proof -
  let ?b = "gps_body_text t quality"
  have body: "?b = ''GPGGA,'' @ dec (unat t div 1000) @ CHR '','' # dec (unat quality)"
    by (simp add: gps_body_text_def decw_def unat_div)
  have "\<forall>c\<in>set ?b. c \<noteq> CHR ''*''" unfolding body using digits_free by auto
  then have cut: "takeWhile (\<lambda>c. c \<noteq> CHR ''*'') (?b @ CHR ''*'' # rest) = ?b" for rest
    by (simp add: takeWhile_append)
  have "takeWhile (\<lambda>c. c \<noteq> CHR '','') (dec n @ CHR '','' # rest) = dec n \<and>
      dropWhile (\<lambda>c. c \<noteq> CHR '','') (dec n @ CHR '','' # rest) = CHR '','' # rest" for n rest
    using digits_free by (auto simp: takeWhile_append dropWhile_append)
  then have "read_sentence (str_bytes (''$'' @ ?b @ ''*'' @ hex2 (xor_bytes (str_bytes ?b)) @ [CHR 0x0D, CHR 0x0A])) =
      Some (unat t div 1000, unat quality)"
    unfolding read_sentence_def str_bytes_back by (simp add: cut Let_def) (simp add: body read_dec_dec)
  then show ?thesis by (simp add: gps_sentence_whole [OF assms])
qed

theorem gps_sentence_round_trip_witness:
  "read_sentence (gps_sentence 4321000 2) = Some (4321, 2)"
  using gps_sentence_round_trip [of 4321000 2] by simp

text \<open>C39: command lines have no call boundaries. In whatever pieces the bytes of a command and its
  terminator arrive at an idle parser, the device does what it does for the whole command, at
  the terminator and not before; this holds for the GPS receiver and for the modem.\<close>

theorem commands_in_any_pieces:
  assumes "gp_line g = []" "length cs \<le> kGpsLine - 1" "kGpsTerminator \<notin> set cs" "concat pieces = cs @ [kGpsTerminator]"
    "mo_line m = []" "length ds \<le> kModemLine" "kModemTerminator \<notin> set ds" "concat pieces1 = ds @ [kModemTerminator]"
  shows "fold (\<lambda>data s. case s of (d, p) \<Rightarrow> run_prog hp (gps_serialIn data d) p) pieces (g, p) =
      run_prog hp (gps_dispatch (g\<lparr>gp_line := cs\<rparr>)) p \<and>
    fold (\<lambda>data s. case s of (d, p) \<Rightarrow> run_prog hp (modem_serialIn data d) p) pieces1 (m, p) =
      run_prog hp (modem_dispatch (m\<lparr>mo_line := ds\<rparr>)) p"
  using gps_command_run [OF assms(1-3), of hp p] modem_command_run [OF assms(5-7), of hp p]
  by (simp add: gps_stream.any_pieces modem_stream.any_pieces assms(4,8))

theorem commands_in_any_pieces_witness:
  "fold (\<lambda>data s. case s of (d, p) \<Rightarrow> run_prog (bench_port 0) (gps_serialIn data d) p) [str_bytes ''STA'', str_bytes ''RT'', [10]]
      (new_gps, new_bench 5) =
    run_prog (bench_port 0) (gps_dispatch (new_gps\<lparr>gp_line := str_bytes ''START''\<rparr>)) (new_bench 5) \<and>
   bn_serial (snd (fold (\<lambda>data s. case s of (d, p) \<Rightarrow> run_prog (bench_port 0) (modem_serialIn data d) p) [str_bytes ''A'', str_bytes ''T;'']
      (new_modem, new_bench 5))) = [str_bytes ''OK'']"
proof -
  have g: "gp_line new_gps = []" "length (str_bytes ''START'') \<le> kGpsLine - 1" "kGpsTerminator \<notin> set (str_bytes ''START'')"
      "concat [str_bytes ''STA'', str_bytes ''RT'', [10]] = str_bytes ''START'' @ [kGpsTerminator]"
    by (simp_all add: new_gps_def kGpsLine_def kGpsTerminator_def str_bytes_def char_byte_def)
  have m: "mo_line new_modem = []" "length (str_bytes ''AT'') \<le> kModemLine" "kModemTerminator \<notin> set (str_bytes ''AT'')"
      "concat [str_bytes ''A'', str_bytes ''T;''] = str_bytes ''AT'' @ [kModemTerminator]"
    by (simp_all add: new_modem_def kModemLine_def kModemTerminator_def str_bytes_def char_byte_def)
  note both = commands_in_any_pieces [OF g m, of "bench_port 0" "new_bench 5"]
  have "bn_serial (snd (run_prog (bench_port 0) (modem_dispatch (new_modem\<lparr>mo_line := str_bytes ''AT''\<rparr>)) (new_bench 5))) =
      [str_bytes ''OK'']"
    by (simp add: modem_dispatch_def modem_send_def modem_send_bytes_def new_bench_def Let_def)
  then show ?thesis unfolding both [THEN conjunct2] using both [THEN conjunct1] by blast
qed

end
