(* ===== verification/Line_Units.thy ===== *)
theory Line_Units
  imports Device_Calls
begin

text \<open>
  The units without a bus, a few lines and the world: potentiometer, button, light sensor,
  motion sensor, relay and ultrasonic ranger (\<open>devices/src/unit_angle_model\<close>,
  \<open>unit_button_model\<close>, \<open>unit_light_model\<close>, \<open>unit_pir_model\<close>, \<open>unit_relay_model\<close>,
  \<open>unit_sonic_model\<close>, each a \<open>.h\<close> and a \<open>.cpp\<close>).
\<close>

text \<open>Two bytes of a world channel as a number, the high byte first.\<close>

definition world16 :: "bytes \<Rightarrow> u16" where
  "world16 data = push_bit 8 (ucast (data ! 0)) OR ucast (data ! 1)"

section \<open>Angle\<close>

record angle =
  an_position :: u16
  an_updates :: u32

definition kFullScale :: u16 where "kFullScale = 4095"
definition kFullScaleMv :: u32 where "kFullScaleMv = 3300"

definition new_angle :: angle where "new_angle = \<lparr>an_position = 0, an_updates = 0\<rparr>"

definition angle_present :: "angle \<Rightarrow> ('m, angle) prog" where
  "angle_present d =
     Attached (\<lambda>att. if \<not> att then Ret d
       else AnalogOut 0 (an_position d) (\<lambda>_. AnalogOutMv 0 (ucast (an_position d) * kFullScaleMv div ucast kFullScale) (\<lambda>_. Ret d)))"

text \<open>\<open>reset\<close> presents the position, so it makes calls; the interface has no place for them.\<close>

definition angle_cleared :: "angle \<Rightarrow> angle" where "angle_cleared d = new_angle"

definition angle_reset :: "angle \<Rightarrow> ('m, angle) prog" where
  "angle_reset d = angle_present (angle_cleared d)"

definition angle_channelWrite :: "u8 \<Rightarrow> bytes \<Rightarrow> angle \<Rightarrow> ('m, bool \<times> angle) prog" where
  "angle_channelWrite channel data d =
     (if channel \<noteq> 0 \<or> length data \<noteq> 2 then Ret (False, d)
      else let wanted = world16 data;
               d1 = d\<lparr>an_position := (if kFullScale < wanted then kFullScale else wanted), an_updates := an_updates d + 1\<rparr>
           in andThen (angle_present d1) (\<lambda>d2. Ret (True, d2)))"

definition angle_channelRead :: "u8 \<Rightarrow> nat \<Rightarrow> angle \<Rightarrow> channel_answer" where
  "angle_channelRead channel cap d =
     (if channel \<noteq> 0 then None
      else Some (2, take cap [ucast (drop_bit 8 (an_position d)), ucast (an_position d AND 0xFF)]))"

definition angle_dump :: "angle \<Rightarrow> string" where
  "angle_dump d = ''angle pos='' @ decw (an_position d) @ '' updates='' @ decw (an_updates d)"

definition angle_device :: "('m, angle) device" where
  "angle_device = (base_device angle_cleared)\<lparr>dv_channel_write := angle_channelWrite,
     dv_channel_read := angle_channelRead, dv_dump := angle_dump\<rparr>"

section \<open>Button\<close>

record button =
  bt_pressed :: bool
  bt_presses :: u32

definition new_button :: button where "new_button = \<lparr>bt_pressed = False, bt_presses = 0\<rparr>"

definition button_reset :: "button \<Rightarrow> button" where "button_reset d = new_button"

definition button_channelWrite :: "u8 \<Rightarrow> bytes \<Rightarrow> button \<Rightarrow> ('m, bool \<times> button) prog" where
  "button_channelWrite channel data d =
     (if channel \<noteq> 0 \<or> length data \<noteq> 1 then Ret (False, d)
      else let now = (data ! 0 \<noteq> 0);
               d1 = d\<lparr>bt_presses := (if now \<and> \<not> bt_pressed d then bt_presses d + 1 else bt_presses d), bt_pressed := now\<rparr>
           in line_then 0 (if bt_pressed d1 then 0 else 1) (Ret (True, d1)))"

definition button_channelRead :: "u8 \<Rightarrow> nat \<Rightarrow> button \<Rightarrow> channel_answer" where
  "button_channelRead channel cap d =
     (if channel \<noteq> 0 then None else Some (1, take cap [if bt_pressed d then 1 else 0]))"

definition button_dump :: "button \<Rightarrow> string" where
  "button_dump d = ''button pressed='' @ bool_dec (bt_pressed d) @ '' presses='' @ decw (bt_presses d)"

definition button_device :: "('m, button) device" where
  "button_device = (base_device button_reset)\<lparr>dv_channel_write := button_channelWrite,
     dv_channel_read := button_channelRead, dv_dump := button_dump\<rparr>"

section \<open>Light\<close>

record light =
  lg_brightness :: u16
  lg_threshold :: u16
  lg_dark :: bool
  lg_trips :: u32

definition kDefaultThreshold :: u16 where "kDefaultThreshold = 2000"

definition new_light :: light where
  "new_light = \<lparr>lg_brightness = 0, lg_threshold = kDefaultThreshold, lg_dark = False, lg_trips = 0\<rparr>"

definition light_present :: "light \<Rightarrow> ('m, light) prog" where
  "light_present d =
     Attached (\<lambda>att. if \<not> att then Ret d
       else AnalogOut 0 (lg_brightness d) (\<lambda>_.
         let dark = (lg_brightness d < lg_threshold d)
         in if dark \<noteq> lg_dark d then
              let d1 = d\<lparr>lg_dark := dark, lg_trips := lg_trips d + 1\<rparr>
              in LineOut 0 (if lg_dark d1 then 1 else 0) (Ret d1)
            else Ret d))"

definition light_cleared :: "light \<Rightarrow> light" where "light_cleared d = new_light"

definition light_reset :: "light \<Rightarrow> ('m, light) prog" where
  "light_reset d = light_present (light_cleared d)"

definition light_channelWrite :: "u8 \<Rightarrow> bytes \<Rightarrow> light \<Rightarrow> ('m, bool \<times> light) prog" where
  "light_channelWrite channel data d =
     (if length data \<noteq> 2 then Ret (False, d)
      else if channel = 0 then andThen (light_present (d\<lparr>lg_brightness := world16 data\<rparr>)) (\<lambda>d1. Ret (True, d1))
      else if channel = 1 then andThen (light_present (d\<lparr>lg_threshold := world16 data\<rparr>)) (\<lambda>d1. Ret (True, d1))
      else Ret (False, d))"

definition light_dump :: "light \<Rightarrow> string" where
  "light_dump d = ''light lux='' @ decw (lg_brightness d) @ '' thr='' @ decw (lg_threshold d) @ '' dark='' @
     bool_dec (lg_dark d) @ '' trips='' @ decw (lg_trips d)"

definition light_device :: "('m, light) device" where
  "light_device = (base_device light_cleared)\<lparr>dv_channel_write := light_channelWrite, dv_dump := light_dump\<rparr>"

section \<open>Motion\<close>

record pir =
  pr_asserted :: bool
  pr_release_us :: u64
  pr_triggers :: u32

definition kHoldUs :: u64 where "kHoldUs = 2500"

definition new_pir :: pir where "new_pir = \<lparr>pr_asserted = False, pr_release_us = 0, pr_triggers = 0\<rparr>"

definition pir_reset :: "pir \<Rightarrow> pir" where "pir_reset d = new_pir"

definition pir_channelWrite :: "u8 \<Rightarrow> bytes \<Rightarrow> pir \<Rightarrow> ('m, bool \<times> pir) prog" where
  "pir_channelWrite channel data d =
     (if channel \<noteq> 0 \<or> length data \<noteq> 1 then Ret (False, d)
      else Attached (\<lambda>att. if \<not> att then Ret (False, d)
        else if data ! 0 = 0 then Ret (True, d)
        else Now (\<lambda>now.
          let d1 = d\<lparr>pr_triggers := pr_triggers d + 1, pr_release_us := now + kHoldUs\<rparr>
          in RequestWake (pr_release_us d1) (\<lambda>_.
               if \<not> pr_asserted d1 then LineOut 0 1 (Ret (True, d1\<lparr>pr_asserted := True\<rparr>)) else Ret (True, d1)))))"

definition pir_advanceTo :: "u64 \<Rightarrow> pir \<Rightarrow> ('m, pir) prog" where
  "pir_advanceTo nowUs d =
     (if pr_asserted d \<and> pr_release_us d \<le> nowUs then line_then 0 0 (Ret (d\<lparr>pr_asserted := False\<rparr>)) else Ret d)"

definition pir_dump :: "pir \<Rightarrow> string" where
  "pir_dump d = ''pir asserted='' @ bool_dec (pr_asserted d) @ '' triggers='' @ decw (pr_triggers d)"

definition pir_device :: "('m, pir) device" where
  "pir_device = (base_device pir_reset)\<lparr>dv_channel_write := pir_channelWrite, dv_advance_to := pir_advanceTo,
     dv_dump := pir_dump\<rparr>"

section \<open>Relay\<close>

record relay =
  rl_closed :: bool
  rl_ever_switched :: bool
  rl_last_switch_us :: u64
  rl_switches :: u32
  rl_chatter :: u32

definition kSettleUs :: u64 where "kSettleUs = 5000"

definition new_relay :: relay where
  "new_relay = \<lparr>rl_closed = False, rl_ever_switched = False, rl_last_switch_us = 0, rl_switches = 0, rl_chatter = 0\<rparr>"

definition relay_reset :: "relay \<Rightarrow> relay" where "relay_reset d = new_relay"

definition relay_switch :: "bool \<Rightarrow> u64 \<Rightarrow> relay \<Rightarrow> relay" where
  "relay_switch wanted now d = d\<lparr>rl_closed := wanted, rl_ever_switched := True, rl_last_switch_us := now,
     rl_switches := rl_switches d + 1\<rparr>"

definition relay_lineIn :: "u8 \<Rightarrow> u8 \<Rightarrow> relay \<Rightarrow> ('m, relay) prog" where
  "relay_lineIn line level d =
     (let wanted = (level \<noteq> 0)
      in if line \<noteq> 0 \<or> wanted = rl_closed d then Ret d
         else now_then (\<lambda>now.
           if rl_ever_switched d \<and> now - rl_last_switch_us d < kSettleUs then
             note_then ''switched before contacts settled'' (Ret (relay_switch wanted now (d\<lparr>rl_chatter := rl_chatter d + 1\<rparr>)))
           else Ret (relay_switch wanted now d)))"

definition relay_channelRead :: "u8 \<Rightarrow> nat \<Rightarrow> relay \<Rightarrow> channel_answer" where
  "relay_channelRead channel cap d =
     (if channel \<noteq> 0 then None else Some (1, take cap [if rl_closed d then 1 else 0]))"

definition relay_dump :: "relay \<Rightarrow> string" where
  "relay_dump d = ''relay closed='' @ bool_dec (rl_closed d) @ '' switches='' @ decw (rl_switches d) @ '' chatter='' @
     decw (rl_chatter d)"

definition relay_device :: "('m, relay) device" where
  "relay_device = (base_device relay_reset)\<lparr>dv_line_in := relay_lineIn, dv_channel_read := relay_channelRead,
     dv_dump := relay_dump\<rparr>"

section \<open>Ultrasonic ranger\<close>

datatype sonic_phase = SonicIdle | SonicWaiting | SonicEchoing

record sonic =
  sn_range_mm :: u16
  sn_phase :: sonic_phase
  sn_due_us :: u64
  sn_pulses :: u32
  sn_ignored :: u32

definition kStartDelayUs :: u64 where "kStartDelayUs = 450"
definition kUsPerMm :: u64 where "kUsPerMm = 6"

definition new_sonic :: sonic where
  "new_sonic = \<lparr>sn_range_mm = 0, sn_phase = SonicIdle, sn_due_us = 0, sn_pulses = 0, sn_ignored = 0\<rparr>"

definition sonic_reset :: "sonic \<Rightarrow> sonic" where "sonic_reset d = new_sonic"

definition sonic_set :: "u8 \<Rightarrow> bytes \<Rightarrow> sonic \<Rightarrow> bool \<times> sonic" where
  "sonic_set channel data d =
     (if channel \<noteq> 0 \<or> length data \<noteq> 2 then (False, d) else (True, d\<lparr>sn_range_mm := world16 data\<rparr>))"

definition sonic_channelWrite :: "u8 \<Rightarrow> bytes \<Rightarrow> sonic \<Rightarrow> ('m, bool \<times> sonic) prog" where
  "sonic_channelWrite channel data d = Ret (sonic_set channel data d)"

definition sonic_lineIn :: "u8 \<Rightarrow> u8 \<Rightarrow> sonic \<Rightarrow> ('m, sonic) prog" where
  "sonic_lineIn line level d =
     (if line \<noteq> 0 \<or> level = 0 then Ret d
      else Attached (\<lambda>att. if \<not> att then Ret d
        else if sn_phase d \<noteq> SonicIdle then
          Diagnose ''trigger during measurement'' (\<lambda>_. Ret (d\<lparr>sn_ignored := sn_ignored d + 1\<rparr>))
        else Now (\<lambda>now.
          let d1 = d\<lparr>sn_pulses := sn_pulses d + 1, sn_phase := SonicWaiting, sn_due_us := now + kStartDelayUs\<rparr>
          in RequestWake (sn_due_us d1) (\<lambda>_. Ret d1))))"

definition sonic_advanceTo :: "u64 \<Rightarrow> sonic \<Rightarrow> ('m, sonic) prog" where
  "sonic_advanceTo nowUs d =
     (if sn_phase d = SonicIdle \<or> nowUs < sn_due_us d then Ret d
      else Attached (\<lambda>att. if \<not> att then Ret d
        else if sn_phase d = SonicWaiting then
          LineOut 0 1 (let d1 = d\<lparr>sn_phase := SonicEchoing, sn_due_us := nowUs + ucast (sn_range_mm d) * kUsPerMm\<rparr>
                       in RequestWake (sn_due_us d1) (\<lambda>_. Ret d1))
        else LineOut 0 0 (Ret (d\<lparr>sn_phase := SonicIdle\<rparr>))))"

definition sonic_dump :: "sonic \<Rightarrow> string" where
  "sonic_dump d = ''sonic mm='' @ decw (sn_range_mm d) @ '' pulses='' @ decw (sn_pulses d) @ '' ignored='' @
     decw (sn_ignored d)"

definition sonic_device :: "('m, sonic) device" where
  "sonic_device = (base_device sonic_reset)\<lparr>dv_line_in := sonic_lineIn, dv_channel_write := sonic_channelWrite,
     dv_advance_to := sonic_advanceTo, dv_dump := sonic_dump\<rparr>"

section \<open>What the units do on a bench\<close>

text \<open>The contract says \<open>reset\<close> makes no calls; these two units drive their lines in it.\<close>

lemma angle_reset_drives_line:
  "bn_analog (snd (run_prog (bench_port 0) (angle_reset d) b)) = bn_analog b @ [(0, 0)]"
  by (simp add: angle_reset_def angle_present_def angle_cleared_def new_angle_def bench_port_def)

lemma light_reset_drives_line:
  "bn_lines (snd (run_prog (bench_port 0) (light_reset d) b)) = bn_lines b @ [(0, 1)] \<and>
   lg_dark (fst (run_prog (bench_port 0) (light_reset d) b))"
  by (simp add: light_reset_def light_present_def light_cleared_def new_light_def kDefaultThreshold_def Let_def bench_port_def)

text \<open>Pressing drives the line low and counts once per press, however often it is repeated.\<close>

lemma button_counts_presses:
  "run_prog (bench_port 0) (button_channelWrite 0 [v] d) b =
     ((True, \<lparr>bt_pressed = (v \<noteq> 0), bt_presses = (if v \<noteq> 0 \<and> \<not> bt_pressed d then bt_presses d + 1 else bt_presses d)\<rparr>),
      b\<lparr>bn_lines := bn_lines b @ [(0, if v \<noteq> 0 then 0 else 1)]\<rparr>)"
  by (simp add: button_channelWrite_def Let_def)

text \<open>The digital output of the light sensor follows its threshold, one edge per crossing.\<close>

lemma light_follows_threshold:
  assumes "channel \<in> {0, 1}" "length data = 2"
    "run_prog (bench_port 0) (light_channelWrite channel data d) b = ((r, d1), b1)"
  shows "r \<and> (lg_dark d1 \<longleftrightarrow> lg_brightness d1 < lg_threshold d1) \<and>
    bn_lines b1 = bn_lines b @ (if lg_dark d1 = lg_dark d then [] else [(0, if lg_dark d1 then 1 else 0)]) \<and>
    lg_trips d1 = lg_trips d + (if lg_dark d1 = lg_dark d then 0 else 1)"
  using assms by (auto simp: light_channelWrite_def light_present_def Let_def bench_port_def split: if_splits)

text \<open>Motion holds the line up for the hold time after the last of it.\<close>

lemma pir_motion_run:
  assumes "v \<noteq> 0"
  shows "run_prog (bench_port 0) (pir_channelWrite 0 [v] d) b =
    ((True, \<lparr>pr_asserted = True, pr_release_us = bn_now b + kHoldUs, pr_triggers = pr_triggers d + 1\<rparr>),
     b\<lparr>bn_wakes := bn_wakes b @ [bn_now b + kHoldUs], bn_lines := bn_lines b @ (if pr_asserted d then [] else [(0, 1)])\<rparr>)"
  using assms by (cases "pr_asserted d") (simp_all add: pir_channelWrite_def Let_def)

lemma pir_hold_run:
  assumes "pr_asserted d"
  shows "run_prog (bench_port 0) (pir_advanceTo t d) b =
    (if t < pr_release_us d then (d, b) else (d\<lparr>pr_asserted := False\<rparr>, b\<lparr>bn_lines := bn_lines b @ [(0, 0)]\<rparr>))"
  using assms by (auto simp: pir_advanceTo_def)

text \<open>A switch before the contacts settled is made all the same, counted and reported.\<close>

lemma relay_switch_run:
  assumes "(level \<noteq> 0) \<noteq> rl_closed d"
  shows "run_prog (bench_port 0) (relay_lineIn 0 level d) b =
    (let hasty = rl_ever_switched d \<and> bn_now b - rl_last_switch_us d < kSettleUs
     in (\<lparr>rl_closed = (level \<noteq> 0), rl_ever_switched = True, rl_last_switch_us = bn_now b, rl_switches = rl_switches d + 1,
          rl_chatter = (if hasty then rl_chatter d + 1 else rl_chatter d)\<rparr>,
         b\<lparr>bn_notes := bn_notes b @ (if hasty then [''switched before contacts settled''] else [])\<rparr>))"
  using assms by (auto simp: relay_lineIn_def relay_switch_def Let_def)

section \<open>Properties\<close>

text \<open>The width of the echo is the range. A trigger pulse on an idle ranger asks for a wake
  450 us later; served then and at the wake it asks for next, the ranger raises the echo line
  at the first and drops it at the second, six microseconds per millimetre apart; a trigger in
  between is ignored and reported, and changes neither edge.\<close>

theorem sonic_echo_width_is_range:
  assumes "sn_phase d = SonicIdle" "level \<noteq> 0" "unat t0 + 450 + 6 * unat (sn_range_mm d) < 2 ^ 64"
    "run_prog (bench_port 0) (sonic_lineIn 0 level d) (new_bench t0) = (d1, b1)"
    "run_prog (bench_port 0) (sonic_advanceTo (sn_due_us d1) d1) (b1\<lparr>bn_now := sn_due_us d1\<rparr>) = (d2, b2)"
    "level1 \<noteq> 0" "run_prog (bench_port 0) (sonic_lineIn 0 level1 d2) b2 = (d3, b3)"
    "run_prog (bench_port 0) (sonic_advanceTo (sn_due_us d3) d3) (b3\<lparr>bn_now := sn_due_us d3\<rparr>) = (d4, b4)"
  shows "unat (sn_due_us d1) = unat t0 + 450 \<and> unat (sn_due_us d3) = unat (sn_due_us d1) + 6 * unat (sn_range_mm d) \<and>
    bn_wakes b4 = [sn_due_us d1, sn_due_us d3] \<and> bn_lines b1 = [] \<and> bn_lines b3 = [(0, 1)] \<and>
    bn_lines b4 = [(0, 1), (0, 0)] \<and> bn_notes b4 = [''trigger during measurement''] \<and>
    sn_phase d4 = SonicIdle \<and> sn_ignored d4 = sn_ignored d + 1 \<and> sn_pulses d4 = sn_pulses d + 1"
proof -
  let ?due = "t0 + kStartDelayUs"
  let ?late = "?due + ucast (sn_range_mm d) * kUsPerMm"
  let ?d1 = "d\<lparr>sn_pulses := sn_pulses d + 1, sn_phase := SonicWaiting, sn_due_us := ?due\<rparr>"
  have d1: "d1 = ?d1" "b1 = (new_bench t0)\<lparr>bn_wakes := [?due]\<rparr>"
    using assms(1,2,4) by (auto simp: sonic_lineIn_def new_bench_def Let_def)
  have d2: "d2 = ?d1\<lparr>sn_phase := SonicEchoing, sn_due_us := ?late\<rparr>"
    "b2 = b1\<lparr>bn_now := ?due, bn_lines := [(0, 1)], bn_wakes := [?due, ?late]\<rparr>"
    using assms(5) by (auto simp: sonic_advanceTo_def new_bench_def Let_def d1)
  have d3: "d3 = d2\<lparr>sn_ignored := sn_ignored d + 1\<rparr>" "b3 = b2\<lparr>bn_notes := [''trigger during measurement'']\<rparr>"
    using assms(6,7) by (auto simp: sonic_lineIn_def new_bench_def d2 d1)
  have d4: "d4 = d3\<lparr>sn_phase := SonicIdle\<rparr>" "b4 = b3\<lparr>bn_now := ?late, bn_lines := [(0, 1), (0, 0)]\<rparr>"
    using assms(8) by (auto simp: sonic_advanceTo_def new_bench_def d3 d2 d1)
  have due: "unat ?due = unat t0 + 450"
    using assms(3) unat_add_no_overflow [of t0 kStartDelayUs] by (simp add: kStartDelayUs_def)
  have "unat (sn_range_mm d) < 2 ^ 16" using unsigned_less [of "sn_range_mm d"] by simp
  then have "unat (ucast (sn_range_mm d) * kUsPerMm) = 6 * unat (sn_range_mm d)"
    by (simp add: kUsPerMm_def unat_word_ariths unsigned_ucast_eq take_bit_eq_mod)
  then have "unat ?late = unat ?due + 6 * unat (sn_range_mm d)"
    using assms(3) due unat_add_no_overflow [of ?due "ucast (sn_range_mm d) * kUsPerMm"] by simp
  then show ?thesis using due by (simp add: d4 d3 d2 d1 new_bench_def)
qed

theorem sonic_echo_width_is_range_witness:
  "\<exists>d1 b1 d2 b2 d3 b3 d4 b4.
    run_prog (bench_port 0) (sonic_lineIn 0 1 (new_sonic\<lparr>sn_range_mm := 100\<rparr>)) (new_bench 0) = (d1, b1) \<and>
    run_prog (bench_port 0) (sonic_advanceTo (sn_due_us d1) d1) (b1\<lparr>bn_now := sn_due_us d1\<rparr>) = (d2, b2) \<and>
    run_prog (bench_port 0) (sonic_lineIn 0 1 d2) b2 = (d3, b3) \<and>
    run_prog (bench_port 0) (sonic_advanceTo (sn_due_us d3) d3) (b3\<lparr>bn_now := sn_due_us d3\<rparr>) = (d4, b4) \<and>
    unat (sn_due_us d1) = 450 \<and> unat (sn_due_us d3) = 1050 \<and> bn_lines b4 = [(0, 1), (0, 0)]"
proof -
  let ?d = "new_sonic\<lparr>sn_range_mm := 100\<rparr>"
  obtain d1 b1 where r1: "run_prog (bench_port 0) (sonic_lineIn 0 1 ?d) (new_bench 0) = (d1, b1)" by fastforce
  obtain d2 b2 where r2: "run_prog (bench_port 0) (sonic_advanceTo (sn_due_us d1) d1) (b1\<lparr>bn_now := sn_due_us d1\<rparr>) = (d2, b2)" by fastforce
  obtain d3 b3 where r3: "run_prog (bench_port 0) (sonic_lineIn 0 1 d2) b2 = (d3, b3)" by fastforce
  obtain d4 b4 where r4: "run_prog (bench_port 0) (sonic_advanceTo (sn_due_us d3) d3) (b3\<lparr>bn_now := sn_due_us d3\<rparr>) = (d4, b4)" by fastforce
  have idle: "sn_phase ?d = SonicIdle" "unat (0 :: u64) + 450 + 6 * unat (sn_range_mm ?d) < 2 ^ 64"
    by (simp_all add: new_sonic_def)
  show ?thesis
    using sonic_echo_width_is_range [OF idle(1) _ idle(2) r1 r2 _ r3 r4] r1 r2 r3 r4 by (auto simp: new_sonic_def)
qed

end
