(* ===== verification/I2c_Units.thy ===== *)
theory I2c_Units
  imports Line_Units
begin

text \<open>
  The small parts on the two-wire bus: temperature sensor, register map, environment sensor,
  encoder, faulty part and codec (\<open>devices/src/temp_model\<close>, \<open>regmap_model\<close>,
  \<open>env_sensor_model\<close>, \<open>unit_encoder_model\<close>, \<open>unit_faulty_model\<close>, \<open>unit_codec_model\<close>, each a
  \<open>.h\<close> and a \<open>.cpp\<close>).
\<close>

text \<open>Two bytes of a number, the high one first, and \<open>%d\<close> of a signed word.\<close>

definition be_bytes :: "u16 \<Rightarrow> bytes" where
  "be_bytes v = [ucast (drop_bit 8 v), ucast (v AND 0xFF)]"

definition decs :: "'a::len word \<Rightarrow> string" where
  "decs w = (if sint w < 0 then CHR ''-'' # dec (nat (- sint w)) else dec (nat (sint w)))"

section \<open>Temperature sensor\<close>

record temp_sensor =
  ts_config :: u8
  ts_temp_raw :: u16
  ts_pointer :: u8

definition new_temp :: temp_sensor where "new_temp = \<lparr>ts_config = 0, ts_temp_raw = 0, ts_pointer = 0\<rparr>"

definition temp_reset :: "temp_sensor \<Rightarrow> temp_sensor" where "temp_reset d = new_temp"

definition temp_i2cWrite :: "bytes \<Rightarrow> i2c_transfer \<Rightarrow> temp_sensor \<Rightarrow> ('m, u8 \<times> temp_sensor) prog" where
  "temp_i2cWrite data xfer d = Ret (kI2cAck,
     if length data = 1 then d\<lparr>ts_pointer := data ! 0\<rparr>
     else if length data = 2 \<and> data ! 0 = 0x01 then d\<lparr>ts_config := data ! 1\<rparr>
     else d)"

definition temp_i2cRead :: "nat \<Rightarrow> i2c_transfer \<Rightarrow> temp_sensor \<Rightarrow> ('m, nat \<times> bytes \<times> temp_sensor) prog" where
  "temp_i2cRead len xfer d =
     Ret (if ts_pointer d = 0x00 \<and> len \<ge> 2 then (2, be_bytes (ts_temp_raw d), d) else (0, [], d))"

definition temp_channelWrite :: "u8 \<Rightarrow> bytes \<Rightarrow> temp_sensor \<Rightarrow> ('m, bool \<times> temp_sensor) prog" where
  "temp_channelWrite channel data d =
     (if channel \<noteq> 0 \<or> length data \<noteq> 2 then Ret (False, d)
      else line_then 0 1 (Ret (True, d\<lparr>ts_temp_raw := world16 data\<rparr>)))"

definition temp_channelRead :: "u8 \<Rightarrow> nat \<Rightarrow> temp_sensor \<Rightarrow> channel_answer" where
  "temp_channelRead channel cap d = (if channel \<noteq> 0 then None else Some (2, take cap (be_bytes (ts_temp_raw d))))"

definition temp_dump :: "temp_sensor \<Rightarrow> string" where
  "temp_dump d = ''temp='' @ hex4 (ts_temp_raw d) @ '' cfg='' @ hex2 (ts_config d)"

definition temp_device :: "('m, temp_sensor) device" where
  "temp_device = (base_device temp_reset)\<lparr>dv_i2c_write := temp_i2cWrite, dv_i2c_read := temp_i2cRead,
     dv_channel_write := temp_channelWrite, dv_channel_read := temp_channelRead, dv_dump := temp_dump\<rparr>"

section \<open>Register map\<close>

text \<open>\<open>rm_regs\<close> is the array of four registers.\<close>

record regmap =
  rm_regs :: bytes
  rm_pointer :: u8
  rm_repeated_start_reads :: u32
  rm_plain_reads :: u32

definition kRegs :: nat where "kRegs = 4"

definition new_regmap :: regmap where
  "new_regmap = \<lparr>rm_regs = [0, 0, 0, 0], rm_pointer = 0, rm_repeated_start_reads = 0, rm_plain_reads = 0\<rparr>"

definition regmap_reset :: "regmap \<Rightarrow> regmap" where "regmap_reset d = new_regmap\<lparr>rm_regs := [0x00, 0x5A, 0x00, 0x00]\<rparr>"

definition regmap_write :: "bytes \<Rightarrow> regmap \<Rightarrow> u8 \<times> regmap" where
  "regmap_write data d =
     (if length data = 1 then
        (if unat (data ! 0) \<ge> kRegs then (kI2cDataNack, d) else (kI2cAck, d\<lparr>rm_pointer := data ! 0\<rparr>))
      else if length data = 2 \<and> unat (data ! 0) < kRegs then
        (kI2cAck, d\<lparr>rm_regs := (rm_regs d)[unat (data ! 0) := data ! 1], rm_pointer := data ! 0\<rparr>)
      else (kI2cDataNack, d))"

definition regmap_i2cWrite :: "bytes \<Rightarrow> i2c_transfer \<Rightarrow> regmap \<Rightarrow> ('m, u8 \<times> regmap) prog" where
  "regmap_i2cWrite data xfer d = Ret (regmap_write data d)"

text \<open>The bytes of the loop: as many as were asked for and as the registers have.\<close>

definition regmap_read :: "nat \<Rightarrow> bool \<Rightarrow> regmap \<Rightarrow> nat \<times> bytes \<times> regmap" where
  "regmap_read len continued d =
     (if \<not> continued then (0, [], d\<lparr>rm_plain_reads := rm_plain_reads d + 1\<rparr>)
      else let count = min len (kRegs - unat (rm_pointer d))
           in (count, map (\<lambda>i. rm_regs d ! (unat (rm_pointer d) + i)) [0..<count],
               d\<lparr>rm_repeated_start_reads := rm_repeated_start_reads d + 1\<rparr>))"

definition regmap_i2cRead :: "nat \<Rightarrow> i2c_transfer \<Rightarrow> regmap \<Rightarrow> ('m, nat \<times> bytes \<times> regmap) prog" where
  "regmap_i2cRead len xfer d = Ret (regmap_read len (xcontinued xfer) d)"

definition regmap_dump :: "regmap \<Rightarrow> string" where
  "regmap_dump d = ''regmap ptr='' @ decw (rm_pointer d) @ '' r1='' @ hex2 (rm_regs d ! 1) @ '' rs='' @
     decw (rm_repeated_start_reads d) @ '' plain='' @ decw (rm_plain_reads d)"

definition regmap_device :: "('m, regmap) device" where
  "regmap_device = (base_device regmap_reset)\<lparr>dv_i2c_write := regmap_i2cWrite, dv_i2c_read := regmap_i2cRead,
     dv_dump := regmap_dump\<rparr>"

section \<open>Environment sensor\<close>

text \<open>The two temperatures are 32-bit signed integers; they only ever hold 24 bits.\<close>

record env_sensor =
  es_pointer :: u8
  es_ctrl :: u8
  es_measuring :: bool
  es_ready_us :: u64
  es_raw_temp :: u32
  es_latched :: u32
  es_measurements :: u32
  es_bad_registers :: u32

definition kEnvRegChipId :: u8 where "kEnvRegChipId = 0xD0"
definition kEnvRegStatus :: u8 where "kEnvRegStatus = 0xF3"
definition kEnvRegCtrl :: u8 where "kEnvRegCtrl = 0xF4"
definition kEnvRegTemp :: u8 where "kEnvRegTemp = 0xFA"
definition kEnvChipId :: u8 where "kEnvChipId = 0x60"
definition kEnvCmdForced :: u8 where "kEnvCmdForced = 0x25"
definition kEnvStatusMeasuring :: u8 where "kEnvStatusMeasuring = 0x08"
definition kEnvMeasureUs :: u64 where "kEnvMeasureUs = 7500"

lemmas env_consts = kEnvRegChipId_def kEnvRegStatus_def kEnvRegCtrl_def kEnvRegTemp_def kEnvChipId_def
  kEnvCmdForced_def kEnvStatusMeasuring_def

definition new_env :: env_sensor where
  "new_env = \<lparr>es_pointer = 0, es_ctrl = 0, es_measuring = False, es_ready_us = 0, es_raw_temp = 0, es_latched = 0,
     es_measurements = 0, es_bad_registers = 0\<rparr>"

definition env_reset :: "env_sensor \<Rightarrow> env_sensor" where "env_reset d = new_env"

definition env_i2cWrite :: "bytes \<Rightarrow> i2c_transfer \<Rightarrow> env_sensor \<Rightarrow> ('m, u8 \<times> env_sensor) prog" where
  "env_i2cWrite data xfer d =
     (if length data = 1 then Ret (kI2cAck, d\<lparr>es_pointer := data ! 0\<rparr>)
      else if length data = 2 \<and> data ! 0 = kEnvRegCtrl then
        (let d1 = d\<lparr>es_pointer := kEnvRegCtrl, es_ctrl := data ! 1\<rparr>
         in Attached (\<lambda>att.
           if es_ctrl d1 = kEnvCmdForced \<and> \<not> es_measuring d1 \<and> att then
             Now (\<lambda>now. let d2 = d1\<lparr>es_measuring := True, es_ready_us := now + kEnvMeasureUs\<rparr>
                         in RequestWake (es_ready_us d2) (\<lambda>_. Ret (kI2cAck, d2)))
           else Ret (kI2cAck, d1)))
      else Ret (kI2cDataNack, d))"

definition env_temp_bytes :: "u32 \<Rightarrow> bytes" where
  "env_temp_bytes v = [ucast (signed_drop_bit 12 v AND 0xFF), ucast (signed_drop_bit 4 v AND 0xFF),
     ucast (push_bit 4 v AND 0xF0)]"

definition env_i2cRead :: "nat \<Rightarrow> i2c_transfer \<Rightarrow> env_sensor \<Rightarrow> ('m, nat \<times> bytes \<times> env_sensor) prog" where
  "env_i2cRead len xfer d =
     (if \<not> xcontinued xfer then Ret (0, [], d)
      else if es_pointer d = kEnvRegChipId then Ret (if len < 1 then (0, [], d) else (1, [kEnvChipId], d))
      else if es_pointer d = kEnvRegStatus then
        Ret (if len < 1 then (0, [], d) else (1, [if es_measuring d then kEnvStatusMeasuring else 0], d))
      else if es_pointer d = kEnvRegTemp then
        Ret (if len < 3 then (0, [], d) else (3, env_temp_bytes (es_latched d), d))
      else note_then ''read of unmapped register'' (Ret (0, [], d\<lparr>es_bad_registers := es_bad_registers d + 1\<rparr>)))"

definition env_channelWrite :: "u8 \<Rightarrow> bytes \<Rightarrow> env_sensor \<Rightarrow> ('m, bool \<times> env_sensor) prog" where
  "env_channelWrite channel data d = Ret
     (if channel \<noteq> 0 \<or> length data \<noteq> 3 then (False, d)
      else (True, d\<lparr>es_raw_temp := push_bit 16 (ucast (data ! 0)) OR push_bit 8 (ucast (data ! 1)) OR ucast (data ! 2)\<rparr>))"

definition env_channelRead :: "u8 \<Rightarrow> nat \<Rightarrow> env_sensor \<Rightarrow> channel_answer" where
  "env_channelRead channel cap d =
     (if channel \<noteq> 0 then None
      else Some (3, take cap [ucast (signed_drop_bit 16 (es_latched d) AND 0xFF),
        ucast (signed_drop_bit 8 (es_latched d) AND 0xFF), ucast (es_latched d AND 0xFF)]))"

definition env_advanceTo :: "u64 \<Rightarrow> env_sensor \<Rightarrow> ('m, env_sensor) prog" where
  "env_advanceTo nowUs d =
     (if es_measuring d \<and> es_ready_us d \<le> nowUs then
        line_then 0 1 (Ret (d\<lparr>es_measuring := False, es_latched := es_raw_temp d,
          es_measurements := es_measurements d + 1, es_ctrl := 0\<rparr>))
      else Ret d)"

definition env_dump :: "env_sensor \<Rightarrow> string" where
  "env_dump d = ''env raw='' @ hexpad 6 (es_raw_temp d AND 0xFFFFFF) @ '' latched='' @ hexpad 6 (es_latched d AND 0xFFFFFF) @
     '' meas='' @ decw (es_measurements d) @ '' bad_reg='' @ decw (es_bad_registers d)"

definition env_device :: "('m, env_sensor) device" where
  "env_device = (base_device env_reset)\<lparr>dv_i2c_write := env_i2cWrite, dv_i2c_read := env_i2cRead,
     dv_channel_write := env_channelWrite, dv_channel_read := env_channelRead, dv_advance_to := env_advanceTo,
     dv_dump := env_dump\<rparr>"

section \<open>Encoder\<close>

text \<open>The counter is a signed half word; \<open>en_led\<close> is the array of three bytes.\<close>

record encoder =
  en_pointer :: u8
  en_counter :: u16
  en_pressed :: bool
  en_led :: bytes
  en_led_writes :: u32

definition kRegCounter :: u8 where "kRegCounter = 0x00"
definition kRegButton :: u8 where "kRegButton = 0x10"
definition kRegLed :: u8 where "kRegLed = 0x20"

definition new_encoder :: encoder where
  "new_encoder = \<lparr>en_pointer = 0, en_counter = 0, en_pressed = False, en_led = [0, 0, 0], en_led_writes = 0\<rparr>"

definition encoder_reset :: "encoder \<Rightarrow> encoder" where "encoder_reset d = new_encoder"

definition encoder_i2cWrite :: "bytes \<Rightarrow> i2c_transfer \<Rightarrow> encoder \<Rightarrow> ('m, u8 \<times> encoder) prog" where
  "encoder_i2cWrite data xfer d =
     (if length data = 0 then Ret (kI2cDataNack, d)
      else let d1 = d\<lparr>en_pointer := data ! 0\<rparr>
           in if length data = 1 then Ret (kI2cAck, d1)
              else if en_pointer d1 = kRegCounter \<and> length data = 3 then
                Ret (kI2cAck, d1\<lparr>en_counter := ucast (data ! 1) OR push_bit 8 (ucast (data ! 2))\<rparr>)
              else if en_pointer d1 = kRegLed \<and> length data = 4 then
                Ret (kI2cAck, d1\<lparr>en_led := [data ! 1, data ! 2, data ! 3], en_led_writes := en_led_writes d + 1\<rparr>)
              else note_then ''write to a read-only register'' (Ret (kI2cDataNack, d1)))"

definition encoder_read :: "nat \<Rightarrow> encoder \<Rightarrow> nat \<times> bytes" where
  "encoder_read len d =
     (if en_pointer d = kRegCounter \<and> len \<ge> 2 then
        (2, [ucast (en_counter d AND 0xFF), ucast (drop_bit 8 (en_counter d))])
      else if en_pointer d = kRegButton \<and> len \<ge> 1 then (1, [if en_pressed d then 1 else 0])
      else (0, []))"

definition encoder_i2cRead :: "nat \<Rightarrow> i2c_transfer \<Rightarrow> encoder \<Rightarrow> ('m, nat \<times> bytes \<times> encoder) prog" where
  "encoder_i2cRead len xfer d = (case encoder_read len d of (n, out) \<Rightarrow> Ret (n, out, d))"

definition encoder_set :: "u8 \<Rightarrow> bytes \<Rightarrow> encoder \<Rightarrow> bool \<times> encoder" where
  "encoder_set channel data d =
     (if channel = 0 \<and> length data = 1 then (True, d\<lparr>en_counter := en_counter d + scast (data ! 0)\<rparr>)
      else if channel = 1 \<and> length data = 1 then (True, d\<lparr>en_pressed := (data ! 0 \<noteq> 0)\<rparr>)
      else (False, d))"

definition encoder_channelWrite :: "u8 \<Rightarrow> bytes \<Rightarrow> encoder \<Rightarrow> ('m, bool \<times> encoder) prog" where
  "encoder_channelWrite channel data d = Ret (encoder_set channel data d)"

definition encoder_dump :: "encoder \<Rightarrow> string" where
  "encoder_dump d = ''encoder count='' @ decs (en_counter d) @ '' pressed='' @ bool_dec (en_pressed d) @ '' led='' @
     concat (map hex2 (en_led d)) @ '' w='' @ decw (en_led_writes d)"

definition encoder_device :: "('m, encoder) device" where
  "encoder_device = (base_device encoder_reset)\<lparr>dv_i2c_write := encoder_i2cWrite, dv_i2c_read := encoder_i2cRead,
     dv_channel_write := encoder_channelWrite, dv_dump := encoder_dump\<rparr>"

section \<open>Faulty part\<close>

text \<open>\<open>enum Fault\<close>: \<open>fault_\<close> only ever holds one of its values.\<close>

datatype fault = Healthy | Absent | Refusing | ShortRead

definition fault_code :: "fault \<Rightarrow> u8" where
  "fault_code f = (case f of Healthy \<Rightarrow> 0 | Absent \<Rightarrow> 1 | Refusing \<Rightarrow> 2 | ShortRead \<Rightarrow> 3)"

definition fault_of :: "u8 \<Rightarrow> fault" where
  "fault_of v = (if v = 0 then Healthy else if v = 1 then Absent else if v = 2 then Refusing else ShortRead)"

record faulty =
  fy_fault :: fault
  fy_remaining :: u32
  fy_limited :: bool
  fy_reg :: u8
  fy_served :: u32
  fy_failed :: u32

definition kFaultyPayload :: nat where "kFaultyPayload = 4"

definition new_faulty :: faulty where
  "new_faulty = \<lparr>fy_fault = Healthy, fy_remaining = 0, fy_limited = False, fy_reg = 0, fy_served = 0, fy_failed = 0\<rparr>"

definition faulty_reset :: "faulty \<Rightarrow> faulty" where "faulty_reset d = new_faulty"

definition consumeFault :: "faulty \<Rightarrow> bool \<times> faulty" where
  "consumeFault d =
     (if fy_fault d = Healthy then (False, d)
      else if \<not> fy_limited d then (True, d)
      else if fy_remaining d = 0 then (False, d\<lparr>fy_fault := Healthy\<rparr>)
      else let d1 = d\<lparr>fy_remaining := fy_remaining d - 1\<rparr>
           in (True, if fy_remaining d1 = 0 then d1\<lparr>fy_limited := False, fy_fault := Healthy\<rparr> else d1))"

text \<open>Failing is counted whatever the fault then does to the transaction.\<close>

definition consume :: "faulty \<Rightarrow> fault \<times> faulty" where
  "consume d =
     (case consumeFault d of (failing, d1) \<Rightarrow>
        if failing then (fy_fault d, d1\<lparr>fy_failed := fy_failed d1 + 1\<rparr>) else (Healthy, d1))"

definition faulty_write :: "bytes \<Rightarrow> faulty \<Rightarrow> u8 \<times> faulty" where
  "faulty_write data d =
     (if length data = 0 then (kI2cAddressNack, d)
      else case consume d of
        (Absent, d1) \<Rightarrow> (kI2cAddressNack, d1)
      | (Refusing, d1) \<Rightarrow> (kI2cDataNack, d1)
      | (_, d1) \<Rightarrow> (kI2cAck, d1\<lparr>fy_reg := data ! 0, fy_served := fy_served d1 + 1\<rparr>))"

definition faulty_i2cWrite :: "bytes \<Rightarrow> i2c_transfer \<Rightarrow> faulty \<Rightarrow> ('m, u8 \<times> faulty) prog" where
  "faulty_i2cWrite data xfer d = Ret (faulty_write data d)"

definition faulty_payload :: "nat \<Rightarrow> faulty \<Rightarrow> bytes" where
  "faulty_payload len d = map (\<lambda>i. 0xA0 + fy_reg d + of_nat i) [0..<min kFaultyPayload len]"

definition faulty_read :: "nat \<Rightarrow> faulty \<Rightarrow> nat \<times> bytes \<times> faulty" where
  "faulty_read len d =
     (case consume d of
        (Absent, d1) \<Rightarrow> (0, [], d1)
      | (Refusing, d1) \<Rightarrow> (0, [], d1)
      | (ShortRead, d1) \<Rightarrow> if len = 0 then (0, [], d1) else (1, [0xA0], d1)
      | (Healthy, d1) \<Rightarrow> (min kFaultyPayload len, faulty_payload len d1, d1\<lparr>fy_served := fy_served d1 + 1\<rparr>))"

definition faulty_i2cRead :: "nat \<Rightarrow> i2c_transfer \<Rightarrow> faulty \<Rightarrow> ('m, nat \<times> bytes \<times> faulty) prog" where
  "faulty_i2cRead len xfer d = Ret (faulty_read len d)"

definition faulty_set :: "u8 \<Rightarrow> bytes \<Rightarrow> faulty \<Rightarrow> bool \<times> faulty" where
  "faulty_set channel data d =
     (if channel \<noteq> 0 \<or> length data < 2 then (False, d)
      else if data ! 0 > fault_code ShortRead then (False, d)
      else (True, d\<lparr>fy_fault := fault_of (data ! 0), fy_remaining := ucast (data ! 1), fy_limited := (data ! 1 \<noteq> 0)\<rparr>))"

definition faulty_channelWrite :: "u8 \<Rightarrow> bytes \<Rightarrow> faulty \<Rightarrow> ('m, bool \<times> faulty) prog" where
  "faulty_channelWrite channel data d = Ret (faulty_set channel data d)"

definition faulty_dump :: "faulty \<Rightarrow> string" where
  "faulty_dump d = ''faulty mode='' @ decw (fault_code (fy_fault d)) @ '' left='' @ decw (fy_remaining d) @ '' ok='' @
     decw (fy_served d) @ '' bad='' @ decw (fy_failed d)"

definition faulty_device :: "('m, faulty) device" where
  "faulty_device = (base_device faulty_reset)\<lparr>dv_i2c_write := faulty_i2cWrite, dv_i2c_read := faulty_i2cRead,
     dv_channel_write := faulty_channelWrite, dv_dump := faulty_dump\<rparr>"

section \<open>Codec\<close>

record codec =
  cd_reg :: u8
  cd_volume :: u8
  cd_muted :: bool
  cd_selected :: bool
  cd_samples :: u32
  cd_unselected :: u32
  cd_last :: u8

definition kRegVolume :: u8 where "kRegVolume = 0x00"
definition kRegMute :: u8 where "kRegMute = 0x01"
definition kRegCount :: u8 where "kRegCount = 0x02"

definition new_codec :: codec where
  "new_codec = \<lparr>cd_reg = 0, cd_volume = 0xFF, cd_muted = False, cd_selected = False, cd_samples = 0, cd_unselected = 0,
     cd_last = 0\<rparr>"

definition codec_reset :: "codec \<Rightarrow> codec" where "codec_reset d = new_codec"

definition codec_i2cWrite :: "bytes \<Rightarrow> i2c_transfer \<Rightarrow> codec \<Rightarrow> ('m, u8 \<times> codec) prog" where
  "codec_i2cWrite data xfer d =
     (if length data = 0 then Ret (kI2cAddressNack, d)
      else let d1 = d\<lparr>cd_reg := data ! 0\<rparr>
           in if cd_reg d1 = kRegVolume \<and> length data \<ge> 2 then Ret (kI2cAck, d1\<lparr>cd_volume := data ! 1\<rparr>)
              else if cd_reg d1 = kRegMute \<and> length data \<ge> 2 then Ret (kI2cAck, d1\<lparr>cd_muted := (data ! 1 \<noteq> 0)\<rparr>)
              else if cd_reg d1 \<noteq> kRegVolume \<and> cd_reg d1 \<noteq> kRegMute \<and> cd_reg d1 \<noteq> kRegCount then
                note_then ''write to unmapped register'' (Ret (kI2cDataNack, d1))
              else Ret (kI2cAck, d1))"

definition codec_read :: "nat \<Rightarrow> codec \<Rightarrow> nat \<times> bytes" where
  "codec_read len d =
     (if len = 0 then (0, [])
      else if cd_reg d = kRegCount then (1, [ucast (cd_samples d AND 0xFF)])
      else if cd_reg d = kRegVolume then (1, [cd_volume d])
      else if cd_reg d = kRegMute then (1, [if cd_muted d then 1 else 0])
      else (0, []))"

definition codec_i2cRead :: "nat \<Rightarrow> i2c_transfer \<Rightarrow> codec \<Rightarrow> ('m, nat \<times> bytes \<times> codec) prog" where
  "codec_i2cRead len xfer d = (case codec_read len d of (n, out) \<Rightarrow> Ret (n, out, d))"

definition codec_lineIn :: "u8 \<Rightarrow> u8 \<Rightarrow> codec \<Rightarrow> ('m, codec) prog" where
  "codec_lineIn line level d = Ret (if line \<noteq> 0 then d else d\<lparr>cd_selected := (level = 0)\<rparr>)"

text \<open>The product and its quotient are integers, wider than the two bytes.\<close>

definition codec_spiTransfer :: "u8 \<Rightarrow> codec \<Rightarrow> ('m, u8 \<times> codec) prog" where
  "codec_spiTransfer mosi d =
     (if \<not> cd_selected d then
        note_then ''sample while unselected'' (Ret (0, d\<lparr>cd_unselected := cd_unselected d + 1\<rparr>))
      else let last_byte = (if cd_muted d then 0 else of_nat (unat mosi * unat (cd_volume d) div 255))
           in Ret (last_byte, d\<lparr>cd_samples := cd_samples d + 1, cd_last := last_byte\<rparr>))"

definition codec_dump :: "codec \<Rightarrow> string" where
  "codec_dump d = ''codec vol='' @ decw (cd_volume d) @ '' mute='' @ bool_dec (cd_muted d) @ '' n='' @ decw (cd_samples d) @
     '' last='' @ hex2 (cd_last d) @ '' stray='' @ decw (cd_unselected d)"

definition codec_device :: "('m, codec) device" where
  "codec_device = (base_device codec_reset)\<lparr>dv_i2c_write := codec_i2cWrite, dv_i2c_read := codec_i2cRead,
     dv_line_in := codec_lineIn, dv_spi_transfer := codec_spiTransfer, dv_dump := codec_dump\<rparr>"

section \<open>What the parts do\<close>

text \<open>A new sample raises the data-ready line and is what the next read under pointer 0 hands out.\<close>

lemma temp_sample_read:
  assumes "ts_pointer d = 0" "2 \<le> len"
  shows "run_prog (bench_port 0) (andThen (temp_channelWrite 0 [hi, lo] d) (\<lambda>(ok, d1). temp_i2cRead len xfer d1)) b =
    ((2, [hi, lo], d\<lparr>ts_temp_raw := world16 [hi, lo]\<rparr>), b\<lparr>bn_lines := bn_lines b @ [(0, 1)]\<rparr>)"
proof -
  have M: "(0xFF :: u16) = mask 8" by (simp add: mask_eq_exp_minus_1)
  have "be_bytes (world16 [hi, lo]) = [hi, lo]" unfolding be_bytes_def world16_def M
    by (simp del: ucast_mask_eq) (intro conjI bit_word_eqI; auto simp: bit_simps dest: bit_imp_le_length)
  then show ?thesis using assms by (simp add: temp_channelWrite_def temp_i2cRead_def)
qed

text \<open>The register map: the pointer stays inside the registers, and a write followed by a read under
  a repeated start hands out the registers from the written one on.\<close>

definition regmap_ok :: "regmap \<Rightarrow> bool" where
  "regmap_ok d \<longleftrightarrow> length (rm_regs d) = kRegs \<and> unat (rm_pointer d) < kRegs"

lemma regmap_ok_init [simp]: "regmap_ok (regmap_reset d)"
  by (simp add: regmap_ok_def regmap_reset_def new_regmap_def kRegs_def)

lemma regmap_ok_write [simp]: "regmap_ok d \<Longrightarrow> regmap_ok (snd (regmap_write data d))"
  by (auto simp: regmap_ok_def regmap_write_def)

lemma regmap_ok_read [simp]: "regmap_ok d \<Longrightarrow> regmap_ok (snd (snd (regmap_read len continued d)))"
  by (auto simp: regmap_ok_def regmap_read_def Let_def)

lemma regmap_write_then_read:
  assumes "regmap_ok d" "unat i < kRegs"
  shows "fst (regmap_write [i, v] d) = kI2cAck \<and>
    fst (snd (regmap_read len True (snd (regmap_write [i, v] d)))) = take len (drop (unat i) ((rm_regs d)[unat i := v]))"
proof -
  let ?rs = "(rm_regs d)[unat i := v]" and ?n = "unat i"
  have "length ?rs = kRegs" using assms(1) by (simp add: regmap_ok_def)
  then have "map (\<lambda>k. ?rs ! (?n + k)) [0..<min len (kRegs - ?n)] = take len (drop ?n ?rs)"
    by (intro nth_equalityI) auto
  moreover have "snd (regmap_write [i, v] d) = d\<lparr>rm_regs := ?rs, rm_pointer := i\<rparr>" "fst (regmap_write [i, v] d) = kI2cAck"
    using assms(2) by (simp_all add: regmap_write_def)
  ultimately show ?thesis by (simp add: regmap_read_def Let_def)
qed

text \<open>The forced measurement of the environment sensor: refused nothing, started once, done at its time.\<close>

lemma env_forced_start:
  assumes "\<not> es_measuring d"
  shows "run_prog (bench_port 0) (env_i2cWrite [kEnvRegCtrl, kEnvCmdForced] xfer d) b =
    ((kI2cAck, d\<lparr>es_pointer := kEnvRegCtrl, es_ctrl := kEnvCmdForced, es_measuring := True, es_ready_us := bn_now b + kEnvMeasureUs\<rparr>),
     b\<lparr>bn_wakes := bn_wakes b @ [bn_now b + kEnvMeasureUs]\<rparr>)"
  using assms by (simp add: env_i2cWrite_def Let_def env_consts)

lemma env_forced_again:
  assumes "es_measuring d"
  shows "run_prog (bench_port 0) (env_i2cWrite [kEnvRegCtrl, v] xfer d) b =
    ((kI2cAck, d\<lparr>es_pointer := kEnvRegCtrl, es_ctrl := v\<rparr>), b)"
  using assms by (simp add: env_i2cWrite_def Let_def)

lemma env_advance_run:
  assumes "es_measuring d"
  shows "run_prog (bench_port 0) (env_advanceTo t d) b =
    (if es_ready_us d \<le> t
     then (d\<lparr>es_measuring := False, es_latched := es_raw_temp d, es_measurements := es_measurements d + 1, es_ctrl := 0\<rparr>,
           b\<lparr>bn_lines := bn_lines b @ [(0, 1)]\<rparr>)
     else (d, b))"
  using assms by (simp add: env_advanceTo_def)

text \<open>
  The three bytes of the temperature register carry the low twenty bits of what was latched;
  the world channel takes twenty-four, so its highest four never reach a reader.
\<close>

definition env_decode :: "bytes \<Rightarrow> u32" where
  "env_decode bs = push_bit 12 (ucast (bs ! 0)) OR push_bit 4 (ucast (bs ! 1)) OR drop_bit 4 (ucast (bs ! 2))"

lemma env_read_low_bits: "env_decode (env_temp_bytes v) = v AND 0xFFFFF"
proof (rule bit_word_eqI)
  fix n :: nat
  have F: "(0xF0 :: u32) = mask 8 AND NOT (mask 4)" "(0xFF :: u32) = mask 8" "(0xFFFFF :: u32) = mask 20"
    by (simp_all add: mask_eq_exp_minus_1)
  assume "n < LENGTH(32)"
  then show "bit (env_decode (env_temp_bytes v)) n = bit (v AND 0xFFFFF) n"
    unfolding env_decode_def env_temp_bytes_def F
    by (cases "n < 4"; cases "n < 12"; cases "n < 20") (auto simp: bit_simps)
qed

text \<open>The knob counts its detents modulo the half word of the counter, and a reader gets that.\<close>

lemma encoder_counts_turns:
  "en_counter (fold (\<lambda>t d. snd (encoder_set 0 [t] d)) turns d) = en_counter d + sum_list (map scast turns)"
  by (induction turns arbitrary: d) (simp_all add: encoder_set_def ac_simps)

lemma encoder_read_counter:
  assumes "en_pointer d = kRegCounter" "2 \<le> len" "encoder_read len d = (n, out)"
  shows "n = 2 \<and> ucast (out ! 0) OR push_bit 8 (ucast (out ! 1)) = en_counter d"
proof -
  have M: "(0xFF :: u16) = mask 8" by (simp add: mask_eq_exp_minus_1)
  have "ucast (ucast (v AND 0xFF) :: u8) OR push_bit 8 (ucast (ucast (drop_bit 8 v) :: u8)) = v" for v :: u16
    unfolding M by (rule bit_word_eqI) (auto simp: bit_simps)
  then show ?thesis using assms by (auto simp: encoder_read_def)
qed

text \<open>A limited fault fails exactly its number of transactions; then the part serves again.\<close>

definition faulty_ask :: "faulty \<Rightarrow> fault \<times> faulty" where
  "faulty_ask d = (fst (consume d), snd (consume d))"

lemma faulty_recovers:
  assumes "fy_fault d = f" "f \<noteq> Healthy" "fy_limited d" "unat (fy_remaining d) = Suc n"
  shows "let (seen, d1) = state_map (\<lambda>_. consume) (replicate (Suc n) ()) d in
    seen = replicate (Suc n) f \<and> fy_fault d1 = Healthy \<and> fst (consume d1) = Healthy \<and>
    fy_failed d1 = fy_failed d + of_nat (Suc n)"
  using assms
proof (induction n arbitrary: d)
  case 0
  then have "fy_remaining d = 1" by (simp add: word_unat_eq_iff)
  then show ?case using 0 by (simp add: consume_def consumeFault_def Let_def)
next
  case (Suc n)
  let ?d1 = "d\<lparr>fy_remaining := fy_remaining d - 1, fy_failed := fy_failed d + 1\<rparr>"
  have pos: "fy_remaining d \<noteq> 0" using Suc.prems(4) by auto
  have less: "unat (fy_remaining d - 1) = Suc n" using Suc.prems(4) pos by (simp add: unat_minus_one)
  then have "fy_remaining d - 1 \<noteq> 0" by auto
  then have one: "consume d = (f, ?d1)"
    using Suc.prems pos by (simp add: consume_def consumeFault_def Let_def)
  have "let (seen, d1) = state_map (\<lambda>_. consume) (replicate (Suc n) ()) ?d1 in
      seen = replicate (Suc n) f \<and> fy_fault d1 = Healthy \<and> fst (consume d1) = Healthy \<and>
      fy_failed d1 = fy_failed ?d1 + of_nat (Suc n)"
    by (rule Suc.IH) (use Suc.prems less in auto)
  then show ?case
    by (subst replicate_Suc, subst state_map.simps) (auto simp: one Let_def split_beta replicate_Suc [of "Suc n" f] simp del: replicate_Suc state_map.simps)
qed

text \<open>A scaled sample is never louder than it came, and comes as it is at full volume.\<close>

lemma codec_sample:
  assumes "cd_selected d"
  shows "\<exists>out d1. run_prog hp (codec_spiTransfer mosi d) p = ((out, d1), p) \<and> cd_samples d1 = cd_samples d + 1 \<and>
    out \<le> mosi \<and> (cd_muted d \<longrightarrow> out = 0) \<and> (\<not> cd_muted d \<and> cd_volume d = 0xFF \<longrightarrow> out = mosi)"
proof -
  have v: "unat (cd_volume d) \<le> 255" and m: "unat mosi < 256"
    using unsigned_less [of "cd_volume d", where 'a = nat] unsigned_less [of mosi, where 'a = nat] by simp_all
  have "unat mosi * unat (cd_volume d) div 255 \<le> unat mosi * 255 div 255"
    using v by (intro div_le_mono mult_le_mono2)
  then have le: "unat mosi * unat (cd_volume d) div 255 \<le> unat mosi" by simp
  then have "of_nat (unat mosi * unat (cd_volume d) div 255) \<le> mosi"
    using m by (simp add: word_le_nat_alt unat_of_nat)
  then show ?thesis using assms by (auto simp: codec_spiTransfer_def Let_def)
qed

end
