(* ===== verification/Rtc_Model.thy ===== *)
theory Rtc_Model
  imports Line_Units
begin

text \<open>
  The clock with an alarm, \<open>devices/src/unit_rtc_model.h\<close> and \<open>.cpp\<close>: it keeps seconds over
  the microseconds of the environment.
\<close>

section \<open>State\<close>

record rtc =
  rc_reg :: u8
  rc_based :: bool
  rc_base_sec :: u32
  rc_base_us :: u64
  rc_alarm_sec :: u32
  rc_alarm_set :: bool
  rc_fired :: bool
  rc_rejected :: u32

definition kUsPerSecond :: u64 where "kUsPerSecond = 1000000"
definition kRegTime :: u8 where "kRegTime = 0x00"
definition kRegAlarm :: u8 where "kRegAlarm = 0x10"
definition kRtcRegStatus :: u8 where "kRtcRegStatus = 0x20"

definition new_rtc :: rtc where
  "new_rtc = \<lparr>rc_reg = 0, rc_based = False, rc_base_sec = 0, rc_base_us = 0, rc_alarm_sec = 0, rc_alarm_set = False,
     rc_fired = False, rc_rejected = 0\<rparr>"

definition rtc_reset :: "rtc \<Rightarrow> rtc" where "rtc_reset d = new_rtc"

section \<open>Operations\<close>

definition nowSeconds :: "rtc \<Rightarrow> (u32 \<Rightarrow> ('m, 'r) prog) \<Rightarrow> ('m, 'r) prog" where
  "nowSeconds d k =
     (if \<not> rc_based d then k (rc_base_sec d)
      else Attached (\<lambda>att. if \<not> att then k (rc_base_sec d)
        else Now (\<lambda>now. k (rc_base_sec d + ucast ((now - rc_base_us d) div kUsPerSecond)))))"

definition alarm_us :: "rtc \<Rightarrow> u64" where
  "alarm_us d = rc_base_us d + ucast (rc_alarm_sec d - rc_base_sec d) * kUsPerSecond"

definition armAlarm :: "rtc \<Rightarrow> ('m, 'r) prog \<Rightarrow> ('m, 'r) prog" where
  "armAlarm d k = (if \<not> rc_alarm_set d \<or> \<not> rc_based d then k else wake_then (alarm_us d) k)"

definition be32 :: "bytes \<Rightarrow> u32" where
  "be32 b = push_bit 24 (ucast (b ! 0)) OR push_bit 16 (ucast (b ! 1)) OR push_bit 8 (ucast (b ! 2)) OR ucast (b ! 3)"

definition be32_bytes :: "u32 \<Rightarrow> bytes" where
  "be32_bytes v = [ucast (drop_bit 24 v), ucast (drop_bit 16 v), ucast (drop_bit 8 v), ucast v]"

definition rtc_set_alarm :: "u32 \<Rightarrow> rtc \<Rightarrow> ('m, u8 \<times> rtc) prog" where
  "rtc_set_alarm when d =
     (let d1 = d\<lparr>rc_alarm_sec := when, rc_alarm_set := True, rc_fired := False\<rparr>
      in armAlarm d1 (Ret (kI2cAck, d1)))"

definition rtc_i2cWrite :: "bytes \<Rightarrow> i2c_transfer \<Rightarrow> rtc \<Rightarrow> ('m, u8 \<times> rtc) prog" where
  "rtc_i2cWrite data xfer d =
     (if length data = 0 then Ret (kI2cAddressNack, d)
      else let d1 = d\<lparr>rc_reg := data ! 0\<rparr>
           in if rc_reg d1 = kRegTime \<and> length data \<ge> 5 then
                now_then (\<lambda>now. let d2 = d1\<lparr>rc_base_sec := be32 (drop 1 data), rc_base_us := now, rc_based := True\<rparr>
                                 in armAlarm d2 (Ret (kI2cAck, d2)))
              else if rc_reg d1 = kRegAlarm \<and> length data \<ge> 5 then
                (let when = be32 (drop 1 data)
                 in if rc_based d1 then
                      nowSeconds d1 (\<lambda>sec. if when \<le> sec then
                        note_then ''alarm time already past'' (Ret (kI2cDataNack, d1\<lparr>rc_rejected := rc_rejected d1 + 1\<rparr>))
                        else rtc_set_alarm when d1)
                    else rtc_set_alarm when d1)
              else if rc_reg d1 \<noteq> kRegTime \<and> rc_reg d1 \<noteq> kRegAlarm \<and> rc_reg d1 \<noteq> kRtcRegStatus then
                note_then ''write to unmapped register'' (Ret (kI2cDataNack, d1))
              else Ret (kI2cAck, d1))"

definition rtc_i2cRead :: "nat \<Rightarrow> i2c_transfer \<Rightarrow> rtc \<Rightarrow> ('m, nat \<times> bytes \<times> rtc) prog" where
  "rtc_i2cRead len xfer d =
     (if rc_reg d = kRegTime then
        (if len < 4 then Ret (0, [], d) else nowSeconds d (\<lambda>sec. Ret (4, be32_bytes sec, d)))
      else if rc_reg d = kRtcRegStatus then Ret (if len < 1 then (0, [], d) else (1, [if rc_fired d then 1 else 0], d))
      else Ret (0, [], d))"

definition rtc_advanceTo :: "u64 \<Rightarrow> rtc \<Rightarrow> ('m, rtc) prog" where
  "rtc_advanceTo nowUs d =
     (if \<not> rc_alarm_set d \<or> rc_fired d \<or> \<not> rc_based d then Ret d
      else nowSeconds d (\<lambda>sec. if sec < rc_alarm_sec d then Ret d
        else line_then 0 1 (Ret (d\<lparr>rc_fired := True, rc_alarm_set := False\<rparr>))))"

text \<open>\<open>dump\<close> asks the port for the time, which the interface has no place for; the text for a given time.\<close>

definition rtc_dump_at :: "u32 \<Rightarrow> rtc \<Rightarrow> string" where
  "rtc_dump_at sec d = ''rtc sec='' @ decw sec @ '' alarm='' @ decw (rc_alarm_sec d) @ '' fired='' @ bool_dec (rc_fired d) @
     '' rejected='' @ decw (rc_rejected d)"

definition rtc_dump :: "rtc \<Rightarrow> ('m, string) prog" where
  "rtc_dump d = nowSeconds d (\<lambda>sec. Ret (rtc_dump_at sec d))"

definition rtc_device :: "('m, rtc) device" where
  "rtc_device = (base_device rtc_reset)\<lparr>dv_i2c_write := rtc_i2cWrite, dv_i2c_read := rtc_i2cRead,
     dv_advance_to := rtc_advanceTo\<rparr>"

section \<open>Seconds\<close>

lemma be32_bytes_be32 [simp]: "be32_bytes (be32 [a, b, c, d]) = [a, b, c, d]"
  by (simp add: be32_bytes_def be32_def) (intro conjI bit_word_eqI; auto simp: bit_simps dest: bit_imp_le_length)

lemma be32_be32_bytes [simp]: "be32 (be32_bytes v) = v"
  unfolding be32_def be32_bytes_def
proof (rule bit_word_eqI)
  fix n :: nat
  assume "n < LENGTH(32)"
  then show "bit ((push_bit 24 (ucast ([ucast (drop_bit 24 v) :: u8, ucast (drop_bit 16 v), ucast (drop_bit 8 v), ucast v] ! 0)) :: u32) OR
      push_bit 16 (ucast ([ucast (drop_bit 24 v) :: u8, ucast (drop_bit 16 v), ucast (drop_bit 8 v), ucast v] ! 1)) OR
      push_bit 8 (ucast ([ucast (drop_bit 24 v) :: u8, ucast (drop_bit 16 v), ucast (drop_bit 8 v), ucast v] ! 2)) OR
      ucast ([ucast (drop_bit 24 v) :: u8, ucast (drop_bit 16 v), ucast (drop_bit 8 v), ucast v] ! 3)) n = bit v n"
    by (cases "n < 8"; cases "n < 16"; cases "n < 24") (auto simp: bit_simps)
qed

lemma length_be32_bytes [simp]: "length (be32_bytes v) = 4"
  by (simp add: be32_bytes_def)

text \<open>The second a moment falls in, while the count stays inside its 32 bits.\<close>

definition second_at :: "rtc \<Rightarrow> nat \<Rightarrow> nat" where
  "second_at d t = unat (rc_base_sec d) + (t - unat (rc_base_us d)) div 1000000"

definition in_range :: "rtc \<Rightarrow> nat \<Rightarrow> bool" where
  "in_range d t \<longleftrightarrow> unat (rc_base_us d) \<le> t \<and> second_at d t < 2 ^ 32"

lemma unat_second:
  assumes "in_range d (unat now)"
  shows "unat (rc_base_sec d + ucast ((now - rc_base_us d) div kUsPerSecond)) = second_at d (unat now)"
proof -
  have le: "rc_base_us d \<le> now" using assms by (simp add: in_range_def word_le_nat_alt)
  have q: "unat ((now - rc_base_us d) div kUsPerSecond) = (unat now - unat (rc_base_us d)) div 1000000"
    using le by (simp add: kUsPerSecond_def unat_div unat_sub)
  let ?e = "(unat now - unat (rc_base_us d)) div 1000000"
  have lt: "unat (rc_base_sec d) + ?e < 2 ^ 32" using assms by (simp add: in_range_def second_at_def)
  have "unat (ucast ((now - rc_base_us d) div kUsPerSecond) :: u32) = ?e"
    using lt q by (simp add: unsigned_ucast_eq take_bit_eq_mod)
  then show ?thesis using lt unat_add_no_overflow [of "rc_base_sec d" "ucast ((now - rc_base_us d) div kUsPerSecond)"]
    by (simp add: second_at_def)
qed

lemma run_nowSeconds:
  assumes "rc_based d"
  shows "run_prog hp (nowSeconds d k) p =
    run_prog hp (k (rc_base_sec d + ucast ((hp_now hp p - rc_base_us d) div kUsPerSecond))) p"
  using assms by (simp add: nowSeconds_def)

section \<open>The alarm\<close>

definition alarm_at :: "rtc \<Rightarrow> nat" where
  "alarm_at d = unat (rc_base_us d) + unat (rc_alarm_sec d - rc_base_sec d) * 1000000"

lemma unat_alarm_us:
  assumes "alarm_at d < 2 ^ 64"
  shows "unat (alarm_us d) = alarm_at d"
proof -
  let ?n = "unat (rc_alarm_sec d - rc_base_sec d)"
  have "?n < 2 ^ 32" using unsigned_less [of "rc_alarm_sec d - rc_base_sec d", where 'a = nat] by simp
  then have "unat (ucast (rc_alarm_sec d - rc_base_sec d) * kUsPerSecond) = ?n * 1000000"
    by (simp add: kUsPerSecond_def unat_word_ariths)
  then show ?thesis using assms
      unat_add_no_overflow [of "rc_base_us d" "ucast (rc_alarm_sec d - rc_base_sec d) * kUsPerSecond"]
    by (simp add: alarm_us_def alarm_at_def)
qed

lemma alarm_second:
  assumes "in_range d t" "rc_base_sec d \<le> rc_alarm_sec d"
  shows "second_at d t < unat (rc_alarm_sec d) \<longleftrightarrow> t < alarm_at d"
proof -
  have "unat (rc_alarm_sec d - rc_base_sec d) = unat (rc_alarm_sec d) - unat (rc_base_sec d)"
    using assms(2) by (simp add: unat_sub)
  moreover have le: "unat (rc_base_sec d) \<le> unat (rc_alarm_sec d)" "unat (rc_base_us d) \<le> t"
    using assms by (simp_all add: word_le_nat_alt in_range_def)
  moreover have "(t - unat (rc_base_us d)) div 1000000 < unat (rc_alarm_sec d) - unat (rc_base_sec d) \<longleftrightarrow>
      t - unat (rc_base_us d) < (unat (rc_alarm_sec d) - unat (rc_base_sec d)) * 1000000"
    by (rule div_less_iff_less_mult) simp
  ultimately show ?thesis unfolding second_at_def alarm_at_def by (metis less_diff_conv2 add.commute less_diff_conv)
qed

lemma rtc_advance_run:
  assumes "rc_based d" "rc_alarm_set d" "\<not> rc_fired d" "rc_base_sec d \<le> rc_alarm_sec d" "in_range d (unat (bn_now b))"
  shows "run_prog (bench_port 0) (rtc_advanceTo t d) b =
    (if alarm_at d \<le> unat (bn_now b)
     then (d\<lparr>rc_fired := True, rc_alarm_set := False\<rparr>, b\<lparr>bn_lines := bn_lines b @ [(0, 1)]\<rparr>) else (d, b))"
  using assms alarm_second [OF assms(5,4)] unat_second [OF assms(5)]
  by (auto simp: rtc_advanceTo_def run_nowSeconds word_less_nat_alt)

lemma rtc_fired_stays:
  assumes "rc_fired d"
  shows "run_prog hp (rtc_advanceTo t d) p = (d, p)"
  using assms by (simp add: rtc_advanceTo_def)

lemma rtc_set_time_run:
  assumes "\<not> rc_alarm_set d"
  shows "run_prog (bench_port 0) (rtc_i2cWrite (kRegTime # be32_bytes s) xfer d) b =
    ((kI2cAck, d\<lparr>rc_reg := kRegTime, rc_base_sec := s, rc_base_us := bn_now b, rc_based := True\<rparr>), b)"
  using assms by (simp add: rtc_i2cWrite_def armAlarm_def Let_def)

lemma rtc_set_alarm_run:
  assumes "rc_based d" "in_range d (unat (bn_now b))" "second_at d (unat (bn_now b)) < unat a"
  shows "run_prog (bench_port 0) (rtc_i2cWrite (kRegAlarm # be32_bytes a) xfer d) b =
    (let d1 = d\<lparr>rc_reg := kRegAlarm, rc_alarm_sec := a, rc_alarm_set := True, rc_fired := False\<rparr>
     in ((kI2cAck, d1), b\<lparr>bn_wakes := bn_wakes b @ [alarm_us d1]\<rparr>))"
proof -
  have "rc_base_sec d + ucast ((bn_now b - rc_base_us d) div kUsPerSecond) < a"
    using assms unat_second [OF assms(2)] by (simp add: word_less_nat_alt)
  then have "\<not> a \<le> rc_base_sec d + ucast ((bn_now b - rc_base_us d) div kUsPerSecond)" by simp
  then show ?thesis using assms(1)
    by (simp add: rtc_i2cWrite_def rtc_set_alarm_def armAlarm_def Let_def run_nowSeconds kRegTime_def kRegAlarm_def nowSeconds_def)
qed

lemma rtc_past_alarm_refused:
  assumes "rc_based d" "in_range d (unat (bn_now b))" "unat a \<le> second_at d (unat (bn_now b))"
  shows "run_prog (bench_port 0) (rtc_i2cWrite (kRegAlarm # be32_bytes a) xfer d) b =
    ((kI2cDataNack, d\<lparr>rc_reg := kRegAlarm, rc_rejected := rc_rejected d + 1\<rparr>),
     b\<lparr>bn_notes := bn_notes b @ [''alarm time already past'']\<rparr>)"
proof -
  have "a \<le> rc_base_sec d + ucast ((bn_now b - rc_base_us d) div kUsPerSecond)"
    using assms unat_second [OF assms(2)] by (simp add: word_le_nat_alt)
  then show ?thesis using assms(1)
    by (simp add: rtc_i2cWrite_def Let_def kRegTime_def kRegAlarm_def nowSeconds_def)
qed

text \<open>
  Setting the time past a pending alarm is not refused as setting such an alarm is: the alarm
  fires with the next advance, while the wake that was asked for lies some 136 years ahead.
\<close>

lemma rtc_time_set_past_alarm:
  assumes "rc_alarm_set d" "\<not> rc_fired d" "rc_alarm_sec d < s" "unat t + 2 ^ 52 < 2 ^ 64"
  shows "\<exists>d1 w. run_prog (bench_port 0) (rtc_i2cWrite (kRegTime # be32_bytes s) xfer d) (new_bench t) =
      ((kI2cAck, d1), (new_bench t)\<lparr>bn_wakes := [w]\<rparr>) \<and>
    unat w = unat t + (2 ^ 32 + unat (rc_alarm_sec d) - unat s) * 1000000 \<and>
    rc_fired (fst (run_prog (bench_port 0) (rtc_advanceTo t d1) (new_bench t)))"
proof -
  let ?d1 = "d\<lparr>rc_reg := kRegTime, rc_base_sec := s, rc_base_us := t, rc_based := True\<rparr>"
  have run: "run_prog (bench_port 0) (rtc_i2cWrite (kRegTime # be32_bytes s) xfer d) (new_bench t) =
      ((kI2cAck, ?d1), (new_bench t)\<lparr>bn_wakes := [alarm_us ?d1]\<rparr>)"
    using assms(1) by (simp add: rtc_i2cWrite_def armAlarm_def Let_def new_bench_def)
  have gap: "unat (rc_alarm_sec d - s) = 2 ^ 32 + unat (rc_alarm_sec d) - unat s"
    using assms(3) unsigned_less [of s, where 'a = nat] by (simp add: unat_sub_if' word_less_nat_alt)
  moreover have "unat (rc_alarm_sec d - s) < 2 ^ 32"
    using unsigned_less [of "rc_alarm_sec d - s", where 'a = nat] by simp
  ultimately have "alarm_at ?d1 < 2 ^ 64" using assms(4) by (simp add: alarm_at_def)
  from unat_alarm_us [OF this] gap have w: "unat (alarm_us ?d1) = unat t + (2 ^ 32 + unat (rc_alarm_sec d) - unat s) * 1000000"
    by (simp add: alarm_at_def)
  have "rc_fired (fst (run_prog (bench_port 0) (rtc_advanceTo t ?d1) (new_bench t)))"
    using assms by (simp add: rtc_advanceTo_def nowSeconds_def new_bench_def not_less [symmetric])
  then show ?thesis using run w by blast
qed

section \<open>Properties\<close>

text \<open>The alarm of the clock fires once, at its second. After the time is set to \<open>s\<close> at \<open>t0\<close> and
  an alarm for a later second \<open>a\<close> is accepted at \<open>t1\<close>, the wake asked for is the very moment that
  second begins; served at any time before it nothing happens, served at or after it the
  interrupt line rises, and no service after that raises it again.\<close>

theorem rtc_alarm_fires_once_at_its_second:
  assumes "\<not> rc_alarm_set d" "t0 \<le> t1" "unat s + (unat t1 - unat t0) div 1000000 < unat a"
    "unat t0 + (unat a - unat s) * 1000000 < 2 ^ 64"
  defines "due \<equiv> unat t0 + (unat a - unat s) * 1000000"
  shows "\<exists>d1 d2 w. run_prog (bench_port 0) (rtc_i2cWrite (kRegTime # be32_bytes s) xfer d) (new_bench t0) = ((kI2cAck, d1), new_bench t0) \<and>
    run_prog (bench_port 0) (rtc_i2cWrite (kRegAlarm # be32_bytes a) xfer d1) (new_bench t1) =
      ((kI2cAck, d2), (new_bench t1)\<lparr>bn_wakes := [w]\<rparr>) \<and> unat w = due \<and>
    (\<forall>t \<ge> t1. unat s + (unat t - unat t0) div 1000000 < 2 ^ 32 \<longrightarrow>
      (if unat t < due then run_prog (bench_port 0) (rtc_advanceTo t d2) (new_bench t) = (d2, new_bench t)
       else \<exists>d3. run_prog (bench_port 0) (rtc_advanceTo t d2) (new_bench t) = (d3, (new_bench t)\<lparr>bn_lines := [(0, 1)]\<rparr>) \<and>
         rc_fired d3 \<and> (\<forall>later b. run_prog (bench_port 0) (rtc_advanceTo later d3) b = (d3, b))))"
proof -
  let ?d1 = "d\<lparr>rc_reg := kRegTime, rc_base_sec := s, rc_base_us := t0, rc_based := True\<rparr>"
  let ?d2 = "?d1\<lparr>rc_reg := kRegAlarm, rc_alarm_sec := a, rc_alarm_set := True, rc_fired := False\<rparr>"
  have a32: "unat a < 2 ^ 32" using unsigned_less [of a, where 'a = nat] by simp
  have t: "unat t0 \<le> unat t1" using assms(2) by (simp add: word_le_nat_alt)
  have time: "run_prog (bench_port 0) (rtc_i2cWrite (kRegTime # be32_bytes s) xfer d) (new_bench t0) = ((kI2cAck, ?d1), new_bench t0)"
    using rtc_set_time_run [OF assms(1), of s xfer "new_bench t0"] by (simp add: new_bench_def)
  have "in_range ?d1 (unat t1)" using t assms(3) a32 by (simp add: in_range_def second_at_def)
  then have alarm: "run_prog (bench_port 0) (rtc_i2cWrite (kRegAlarm # be32_bytes a) xfer ?d1) (new_bench t1) =
      ((kI2cAck, ?d2), (new_bench t1)\<lparr>bn_wakes := [alarm_us ?d2]\<rparr>)"
    using rtc_set_alarm_run [of ?d1 "new_bench t1" a xfer] assms(3) by (simp add: new_bench_def second_at_def Let_def)
  have sa: "unat s \<le> unat a" using assms(3) by simp
  have "alarm_at ?d2 = due"
    using sa by (simp add: alarm_at_def due_def unat_sub word_le_nat_alt)
  note due = this
  have w: "unat (alarm_us ?d2) = due"
    using unat_alarm_us [of ?d2] due assms(4) by (simp add: due_def)
  have serve: "run_prog (bench_port 0) (rtc_advanceTo u ?d2) (new_bench u) =
      (if due \<le> unat u then (?d2\<lparr>rc_fired := True, rc_alarm_set := False\<rparr>, (new_bench u)\<lparr>bn_lines := [(0, 1)]\<rparr>)
       else (?d2, new_bench u))"
    if "t1 \<le> u" "unat s + (unat u - unat t0) div 1000000 < 2 ^ 32" for u
  proof -
    have "in_range ?d2 (unat u)" using that t by (simp add: in_range_def second_at_def word_le_nat_alt)
    then show ?thesis using rtc_advance_run [of ?d2 "new_bench u" u] sa due
      by (simp add: new_bench_def word_le_nat_alt)
  qed
  show ?thesis
  proof (intro exI conjI allI impI)
    fix u assume "t1 \<le> u" "unat s + (unat u - unat t0) div 1000000 < 2 ^ 32"
    then have run: "run_prog (bench_port 0) (rtc_advanceTo u ?d2) (new_bench u) =
        (if due \<le> unat u then (?d2\<lparr>rc_fired := True, rc_alarm_set := False\<rparr>, (new_bench u)\<lparr>bn_lines := [(0, 1)]\<rparr>)
         else (?d2, new_bench u))" by (rule serve)
    show "if unat u < due then run_prog (bench_port 0) (rtc_advanceTo u ?d2) (new_bench u) = (?d2, new_bench u)
       else \<exists>d3. run_prog (bench_port 0) (rtc_advanceTo u ?d2) (new_bench u) = (d3, (new_bench u)\<lparr>bn_lines := [(0, 1)]\<rparr>) \<and>
         rc_fired d3 \<and> (\<forall>later b. run_prog (bench_port 0) (rtc_advanceTo later d3) b = (d3, b))"
      unfolding run by (auto intro: rtc_fired_stays)
  qed (rule time, rule alarm, rule w)
qed

theorem rtc_alarm_fires_once_at_its_second_witness:
  "\<exists>d1 d2 w. run_prog (bench_port 0) (rtc_i2cWrite (kRegTime # be32_bytes 100) \<lparr>xstop = True, xcontinued = False\<rparr> new_rtc)
      (new_bench 500) = ((kI2cAck, d1), new_bench 500) \<and>
    run_prog (bench_port 0) (rtc_i2cWrite (kRegAlarm # be32_bytes 103) \<lparr>xstop = True, xcontinued = False\<rparr> d1) (new_bench 600) =
      ((kI2cAck, d2), (new_bench 600)\<lparr>bn_wakes := [w]\<rparr>) \<and> unat w = 3000500"
  using rtc_alarm_fires_once_at_its_second [of new_rtc 500 600 100 103 "\<lparr>xstop = True, xcontinued = False\<rparr>"]
  by (auto simp: new_rtc_def)

end
