(* ===== verification/Radio_Units.thy ===== *)
theory Radio_Units
  imports Line_Units
begin

text \<open>
  The units that talk in frames: infrared remote, LoRa radio and ultra-wideband anchor
  (\<open>devices/src/unit_ir_model\<close>, \<open>unit_lora_model\<close>, \<open>unit_uwb_model\<close>, each a \<open>.h\<close> and a
  \<open>.cpp\<close>).
\<close>

section \<open>Infrared\<close>

record ir =
  ir_code_format :: u16
  ir_repeat_format :: u16
  ir_resolved :: bool
  ir_address :: u8
  ir_command :: u8
  ir_repeats_left :: u8
  ir_next_due_us :: u64
  ir_holding :: bool
  ir_rx_address :: u8
  ir_rx_command :: u8
  ir_sent :: u32
  ir_received :: u32

definition kRepeatPeriodUs :: u64 where "kRepeatPeriodUs = 2000"

definition new_ir :: ir where
  "new_ir = \<lparr>ir_code_format = 0, ir_repeat_format = 0, ir_resolved = False, ir_address = 0, ir_command = 0,
     ir_repeats_left = 0, ir_next_due_us = 0, ir_holding = False, ir_rx_address = 0, ir_rx_command = 0, ir_sent = 0,
     ir_received = 0\<rparr>"

definition ir_reset :: "ir \<Rightarrow> ir" where "ir_reset d = new_ir"

definition ir_resolve :: "ir \<Rightarrow> ('m, ir) prog" where
  "ir_resolve d = (if ir_resolved d then Ret d
     else Attached (\<lambda>att. if \<not> att then Ret d
       else FormatId ''m5.ir.nec.1'' (schemaFingerprint (Some ''u8 addr,u8 cmd'')) (\<lambda>i.
         FormatId ''m5.ir.rep.1'' (schemaFingerprint (Some ''empty'')) (\<lambda>j.
           Ret (d\<lparr>ir_code_format := i, ir_repeat_format := j, ir_resolved := True\<rparr>)))))"

definition ir_frameIn :: "u8 \<Rightarrow> u16 \<Rightarrow> bytes \<Rightarrow> nat \<Rightarrow> ir \<Rightarrow> ('m, ir) prog" where
  "ir_frameIn bus format data bits d =
     andThen (ir_resolve d) (\<lambda>d1. Ret
       (if bus \<noteq> 0 then d1
        else if format = ir_repeat_format d1 \<and> bits = 0 then d1\<lparr>ir_received := ir_received d1 + 1\<rparr>
        else if format \<noteq> ir_code_format d1 \<or> bits \<noteq> 16 then d1
        else d1\<lparr>ir_rx_address := data ! 0, ir_rx_command := data ! 1, ir_received := ir_received d1 + 1\<rparr>))"

text \<open>A press is a code frame of sixteen bits, a repeat is a frame without any.\<close>

definition ir_emit :: "bool \<Rightarrow> ir \<Rightarrow> ('m, ir) prog" where
  "ir_emit is_repeat d =
     andThen (ir_resolve d) (\<lambda>d1. Attached (\<lambda>att.
       let sent = Ret (d1\<lparr>ir_sent := ir_sent d1 + 1\<rparr>)
       in if \<not> att then Ret d1
          else if is_repeat then
            (if ir_repeat_format d1 \<noteq> 0 then FrameOut 0 (ir_repeat_format d1) None 0 (\<lambda>_. sent) else sent)
          else (if ir_code_format d1 \<noteq> 0
                then FrameOut 0 (ir_code_format d1) (Some [ir_address d1, ir_command d1]) 16 (\<lambda>_. sent) else sent)))"

definition ir_turn :: "ir \<Rightarrow> ('m, ir) prog" where
  "ir_turn d =
     andThen (ir_emit True d) (\<lambda>d1.
       if ir_repeats_left d1 = 0 then Ret (d1\<lparr>ir_holding := False\<rparr>)
       else let d2 = d1\<lparr>ir_repeats_left := ir_repeats_left d1 - 1, ir_next_due_us := ir_next_due_us d1 + kRepeatPeriodUs\<rparr>
            in wake_then (ir_next_due_us d2) (Ret d2))"

text \<open>Every turn but the last lowers an 8-bit count, so 256 turns are enough (\<open>ir_loop_stops\<close>).\<close>

definition ir_loop :: "nat \<Rightarrow> u64 \<Rightarrow> ir \<Rightarrow> ('m, ir) prog" where
  "ir_loop fuel nowUs d = repeat_while (\<lambda>d. ir_holding d \<and> ir_next_due_us d \<le> nowUs) ir_turn fuel d"

definition ir_advanceTo :: "u64 \<Rightarrow> ir \<Rightarrow> ('m, ir) prog" where
  "ir_advanceTo nowUs d = ir_loop 256 nowUs d"

definition ir_channelWrite :: "u8 \<Rightarrow> bytes \<Rightarrow> ir \<Rightarrow> ('m, bool \<times> ir) prog" where
  "ir_channelWrite channel data d =
     (if channel \<noteq> 0 \<or> length data < 3 then Ret (False, d)
      else andThen (ir_emit False (d\<lparr>ir_address := data ! 0, ir_command := data ! 1\<rparr>)) (\<lambda>d1.
        let d2 = d1\<lparr>ir_repeats_left := data ! 2\<rparr>
        in if ir_repeats_left d2 = 0 then Ret (True, d2)
           else now_then (\<lambda>now.
             let d3 = d2\<lparr>ir_repeats_left := ir_repeats_left d2 - 1, ir_holding := True,
                         ir_next_due_us := now + kRepeatPeriodUs\<rparr>
             in wake_then (ir_next_due_us d3) (Ret (True, d3)))))"

text \<open>Any other channel, and a buffer too small, is answered with zero bytes, not as unsupported.\<close>

definition ir_channelRead :: "u8 \<Rightarrow> nat \<Rightarrow> ir \<Rightarrow> channel_answer" where
  "ir_channelRead channel cap d =
     (if channel \<noteq> 1 \<or> cap < 2 then Some (0, []) else Some (2, [ir_rx_address d, ir_rx_command d]))"

definition ir_dump :: "ir \<Rightarrow> string" where
  "ir_dump d = ''ir sent='' @ decw (ir_sent d) @ '' rx='' @ decw (ir_received d) @ '' last='' @ hex2 (ir_rx_address d) @
     hex2 (ir_rx_command d) @ '' held='' @ bool_dec (ir_holding d)"

definition ir_device :: "('m, ir) device" where
  "ir_device = (base_device ir_reset)\<lparr>dv_frame_in := ir_frameIn, dv_advance_to := ir_advanceTo,
     dv_channel_write := ir_channelWrite, dv_channel_read := ir_channelRead, dv_dump := ir_dump\<rparr>"

section \<open>LoRa\<close>

record lora =
  lo_uplink_format :: u16
  lo_downlink_format :: u16
  lo_resolved :: bool
  lo_busy :: bool
  lo_tx_done_us :: u64
  lo_sent :: u32
  lo_dropped :: u32
  lo_received :: u32
  lo_rssi :: u8
  lo_snr :: u8

definition kLoraBus :: u8 where "kLoraBus = 1"
definition kAirTimePerByteUs :: u64 where "kAirTimePerByteUs = 1000"
definition kMaxPayloadBytes :: nat where "kMaxPayloadBytes = 4"

definition new_lora :: lora where
  "new_lora = \<lparr>lo_uplink_format = 0, lo_downlink_format = 0, lo_resolved = False, lo_busy = False, lo_tx_done_us = 0,
     lo_sent = 0, lo_dropped = 0, lo_received = 0, lo_rssi = 0, lo_snr = 0\<rparr>"

definition lora_reset :: "lora \<Rightarrow> lora" where "lora_reset d = new_lora"

definition lora_resolve :: "lora \<Rightarrow> ('m, lora) prog" where
  "lora_resolve d = (if lo_resolved d then Ret d
     else Attached (\<lambda>att. if \<not> att then Ret d
       else FormatId ''m5.lora.up.1'' (schemaFingerprint (Some ''u8 payload[]'')) (\<lambda>i.
         FormatId ''m5.lora.dn.1'' (schemaFingerprint (Some ''u8 payload[]'')) (\<lambda>j.
           Ret (d\<lparr>lo_uplink_format := i, lo_downlink_format := j, lo_resolved := True\<rparr>)))))"

definition lora_drop :: "string \<Rightarrow> lora \<Rightarrow> ('m, lora) prog" where
  "lora_drop why d = note_then why (Ret (d\<lparr>lo_dropped := lo_dropped d + 1\<rparr>))"

definition lora_frameIn :: "u8 \<Rightarrow> u16 \<Rightarrow> bytes \<Rightarrow> nat \<Rightarrow> lora \<Rightarrow> ('m, lora) prog" where
  "lora_frameIn bus format data bits d =
     andThen (lora_resolve d) (\<lambda>d1.
       if bus \<noteq> kLoraBus \<or> format \<noteq> lo_uplink_format d1 then Ret d1
       else if frameBytes bits > kMaxPayloadBytes then lora_drop ''payload over radio limit'' d1
       else if lo_busy d1 then lora_drop ''send while transmitting'' d1
       else let d2 = d1\<lparr>lo_busy := True\<rparr>
            in Attached (\<lambda>att.
              if \<not> att then Ret (d2\<lparr>lo_sent := lo_sent d2 + 1\<rparr>)
              else LineOut 0 0 (Now (\<lambda>now.
                let d3 = d2\<lparr>lo_tx_done_us := now + of_nat (frameBytes bits) * kAirTimePerByteUs\<rparr>
                in RequestWake (lo_tx_done_us d3) (\<lambda>_. Ret (d3\<lparr>lo_sent := lo_sent d3 + 1\<rparr>))))))"

definition lora_advanceTo :: "u64 \<Rightarrow> lora \<Rightarrow> ('m, lora) prog" where
  "lora_advanceTo nowUs d =
     (if lo_busy d \<and> lo_tx_done_us d \<le> nowUs then line_then 0 1 (Ret (d\<lparr>lo_busy := False\<rparr>)) else Ret d)"

definition lora_channelWrite :: "u8 \<Rightarrow> bytes \<Rightarrow> lora \<Rightarrow> ('m, bool \<times> lora) prog" where
  "lora_channelWrite channel data d =
     (if channel \<noteq> 0 \<or> length data < 2 then Ret (False, d)
      else andThen (lora_resolve d) (\<lambda>d0.
        let d1 = d0\<lparr>lo_rssi := data ! 0, lo_snr := data ! 1\<rparr>; payload = length data - 2
        in if payload > kMaxPayloadBytes then Ret (False, d1)
           else let d2 = d1\<lparr>lo_received := lo_received d1 + 1\<rparr>
                in Attached (\<lambda>att.
                  if lo_downlink_format d2 \<noteq> 0 \<and> att
                  then FrameOut kLoraBus (lo_downlink_format d2) (Some (drop 2 data)) (payload * 8) (\<lambda>_. Ret (True, d2))
                  else Ret (True, d2))))"

definition lora_channelRead :: "u8 \<Rightarrow> nat \<Rightarrow> lora \<Rightarrow> channel_answer" where
  "lora_channelRead channel cap d =
     (if channel \<noteq> 1 \<or> cap < 3 then Some (0, []) else Some (3, [lo_rssi d, lo_snr d, if lo_busy d then 1 else 0]))"

definition lora_dump :: "lora \<Rightarrow> string" where
  "lora_dump d = ''lora sent='' @ decw (lo_sent d) @ '' dropped='' @ decw (lo_dropped d) @ '' rx='' @ decw (lo_received d) @
     '' rssi=-'' @ decw (lo_rssi d) @ '' busy='' @ bool_dec (lo_busy d)"

definition lora_device :: "('m, lora) device" where
  "lora_device = (base_device lora_reset)\<lparr>dv_frame_in := lora_frameIn, dv_advance_to := lora_advanceTo,
     dv_channel_write := lora_channelWrite, dv_channel_read := lora_channelRead, dv_dump := lora_dump\<rparr>"

section \<open>Ultra-wideband\<close>

record uwb =
  uw_anchor_id :: u8
  uw_poll_format :: u16
  uw_resp_format :: u16
  uw_resolved :: bool
  uw_distance_mm :: u16
  uw_pending :: bool
  uw_reply_due_us :: u64
  uw_tag :: u8
  uw_seq :: u8
  uw_answered :: u32
  uw_collided :: u32

definition kUwbBus :: u8 where "kUwbBus = 2"
definition kBaseLatencyUs :: u64 where "kBaseLatencyUs = 500"
definition kSlotUs :: u64 where "kSlotUs = 300"

definition new_uwb :: "u8 \<Rightarrow> uwb" where
  "new_uwb anchor = \<lparr>uw_anchor_id = anchor, uw_poll_format = 0, uw_resp_format = 0, uw_resolved = False, uw_distance_mm = 0,
     uw_pending = False, uw_reply_due_us = 0, uw_tag = 0, uw_seq = 0, uw_answered = 0, uw_collided = 0\<rparr>"

definition uwb_reset :: "uwb \<Rightarrow> uwb" where "uwb_reset d = new_uwb (uw_anchor_id d)"

definition uwb_resolve :: "uwb \<Rightarrow> ('m, uwb) prog" where
  "uwb_resolve d = (if uw_resolved d then Ret d
     else Attached (\<lambda>att. if \<not> att then Ret d
       else FormatId ''m5.uwb.poll.1'' (schemaFingerprint (Some ''u4 tag,u8 seq'')) (\<lambda>i.
         FormatId ''m5.uwb.resp.1'' (schemaFingerprint (Some ''u8 anchor,u16 mm'')) (\<lambda>j.
           Ret (d\<lparr>uw_poll_format := i, uw_resp_format := j, uw_resolved := True\<rparr>)))))"

definition uwb_frameIn :: "u8 \<Rightarrow> u16 \<Rightarrow> bytes \<Rightarrow> nat \<Rightarrow> uwb \<Rightarrow> ('m, uwb) prog" where
  "uwb_frameIn bus format data bits d =
     andThen (uwb_resolve d) (\<lambda>d1.
       if bus \<noteq> kUwbBus \<or> format \<noteq> uw_poll_format d1 \<or> bits \<noteq> 12 then Ret d1
       else if uw_pending d1 then note_then ''poll during ranging'' (Ret (d1\<lparr>uw_collided := uw_collided d1 + 1\<rparr>))
       else now_then (\<lambda>now.
         let d2 = d1\<lparr>uw_tag := drop_bit 4 (data ! 0), uw_seq := push_bit 4 (data ! 0) OR drop_bit 4 (data ! 1),
                     uw_pending := True, uw_reply_due_us := now + kBaseLatencyUs + ucast (uw_anchor_id d1) * kSlotUs\<rparr>
         in wake_then (uw_reply_due_us d2) (Ret d2)))"

definition uwb_advanceTo :: "u64 \<Rightarrow> uwb \<Rightarrow> ('m, uwb) prog" where
  "uwb_advanceTo nowUs d =
     (if \<not> uw_pending d \<or> nowUs < uw_reply_due_us d then Ret d
      else andThen (uwb_resolve (d\<lparr>uw_pending := False\<rparr>)) (\<lambda>d1.
        let frame = [uw_anchor_id d1, ucast (drop_bit 8 (uw_distance_mm d1)), ucast (uw_distance_mm d1 AND 0xFF)];
            d2 = d1\<lparr>uw_answered := uw_answered d1 + 1\<rparr>
        in Attached (\<lambda>att.
          if uw_resp_format d1 \<noteq> 0 \<and> att then FrameOut kUwbBus (uw_resp_format d1) (Some frame) 24 (\<lambda>_. Ret d2)
          else Ret d2)))"

definition uwb_set :: "u8 \<Rightarrow> bytes \<Rightarrow> uwb \<Rightarrow> bool \<times> uwb" where
  "uwb_set channel data d =
     (if channel \<noteq> 0 \<or> length data < 2 then (False, d) else (True, d\<lparr>uw_distance_mm := world16 data\<rparr>))"

definition uwb_channelWrite :: "u8 \<Rightarrow> bytes \<Rightarrow> uwb \<Rightarrow> ('m, bool \<times> uwb) prog" where
  "uwb_channelWrite channel data d = Ret (uwb_set channel data d)"

definition uwb_dump :: "uwb \<Rightarrow> string" where
  "uwb_dump d = ''uwb id='' @ decw (uw_anchor_id d) @ '' mm='' @ decw (uw_distance_mm d) @ '' tag='' @ decw (uw_tag d) @
     '' seq='' @ decw (uw_seq d) @ '' answered='' @ decw (uw_answered d) @ '' coll='' @ decw (uw_collided d)"

definition uwb_device :: "('m, uwb) device" where
  "uwb_device = (base_device uwb_reset)\<lparr>dv_frame_in := uwb_frameIn, dv_advance_to := uwb_advanceTo,
     dv_channel_write := uwb_channelWrite, dv_dump := uwb_dump\<rparr>"

section \<open>The remote\<close>

text \<open>A remote whose formats the environment granted.\<close>

definition ir_ready :: "ir \<Rightarrow> bool" where
  "ir_ready d \<longleftrightarrow> ir_resolved d \<and> ir_code_format d \<noteq> 0 \<and> ir_repeat_format d \<noteq> 0"

definition repeats_due :: "u64 \<Rightarrow> u64 \<Rightarrow> nat" where
  "repeats_due from now = (if now < from then 0 else Suc ((unat now - unat from) div 2000))"

lemma ir_repeat_run:
  assumes "ir_ready d"
  shows "run_prog (bench_port c) (ir_emit True d) b =
    (d\<lparr>ir_sent := ir_sent d + 1\<rparr>, b\<lparr>bn_frames := bn_frames b @ [(0, ir_repeat_format d, [], 0)]\<rparr>)"
  using assms by (simp add: ir_ready_def ir_emit_def ir_resolve_def Let_def)

lemma ir_code_run:
  assumes "ir_ready d" "16 \<le> unat c"
  shows "run_prog (bench_port c) (ir_emit False d) b =
    (d\<lparr>ir_sent := ir_sent d + 1\<rparr>, b\<lparr>bn_frames := bn_frames b @ [(0, ir_code_format d, [ir_address d, ir_command d], 16)]\<rparr>)"
  using assms by (simp add: ir_ready_def ir_emit_def ir_resolve_def Let_def frameBytes_def)

lemma ir_turn_last:
  assumes "ir_ready d" "ir_repeats_left d = 0"
  shows "run_prog (bench_port c) (ir_turn d) b =
    (d\<lparr>ir_sent := ir_sent d + 1, ir_holding := False\<rparr>, b\<lparr>bn_frames := bn_frames b @ [(0, ir_repeat_format d, [], 0)]\<rparr>)"
  using assms by (simp add: ir_turn_def ir_repeat_run)

lemma ir_turn_more:
  assumes "ir_ready d" "ir_repeats_left d \<noteq> 0"
  shows "run_prog (bench_port c) (ir_turn d) b =
    (d\<lparr>ir_sent := ir_sent d + 1, ir_repeats_left := ir_repeats_left d - 1, ir_next_due_us := ir_next_due_us d + kRepeatPeriodUs\<rparr>,
     b\<lparr>bn_frames := bn_frames b @ [(0, ir_repeat_format d, [], 0)], bn_wakes := bn_wakes b @ [ir_next_due_us d + kRepeatPeriodUs]\<rparr>)"
  using assms by (simp add: ir_turn_def ir_repeat_run Let_def)

lemma repeats_due_step:
  assumes "from \<le> now" "unat from + 2000 < 2 ^ 64"
  shows "repeats_due from now = Suc (repeats_due (from + kRepeatPeriodUs) now)"
proof -
  have next_due: "unat (from + kRepeatPeriodUs) = unat from + 2000"
    using assms(2) u64_less_add [of "from" kRepeatPeriodUs] by (simp add: kRepeatPeriodUs_def)
  show ?thesis
  proof (cases "unat now < unat from + 2000")
    case True
    then show ?thesis using assms(1) next_due by (simp add: repeats_due_def word_less_nat_alt word_le_nat_alt)
  next
    case False
    then have "(unat now - unat from) div 2000 = Suc ((unat now - (unat from + 2000)) div 2000)"
      by (subst le_div_geq) (simp_all add: diff_diff_left)
    then show ?thesis using False assms(1) next_due by (simp add: repeats_due_def word_less_nat_alt word_le_nat_alt)
  qed
qed

lemma ir_loop_run:
  assumes "ir_ready d" "ir_holding d" "unat (ir_repeats_left d) = l" "unat (ir_next_due_us d) + 2000 * l < 2 ^ 64"
  shows "\<exists>d1 b1. run_prog (bench_port c) (ir_loop (Suc l) now d) b = (d1, b1) \<and>
    bn_frames b1 = bn_frames b @ replicate (min (Suc l) (repeats_due (ir_next_due_us d) now)) (0, ir_repeat_format d, [], 0) \<and>
    (ir_holding d1 \<longleftrightarrow> repeats_due (ir_next_due_us d) now \<le> l) \<and> (ir_holding d1 \<longrightarrow> now < ir_next_due_us d1)"
  using assms
proof (induction l arbitrary: d b)
  case 0
  then have "ir_repeats_left d = 0" by (simp add: unat_eq_zero)
  then show ?case using 0 ir_turn_last [of d c b]
    by (cases "now < ir_next_due_us d") (auto simp: ir_loop_def repeats_due_def)
next
  case (Suc l)
  show ?case
  proof (cases "now < ir_next_due_us d")
    case True
    then have "\<not> ir_next_due_us d \<le> now" by simp
    then show ?thesis using True Suc.prems by (simp add: ir_loop_def repeats_due_def repeat_while_stops)
  next
    case False
    let ?d1 = "d\<lparr>ir_sent := ir_sent d + 1, ir_repeats_left := ir_repeats_left d - 1, ir_next_due_us := ir_next_due_us d + kRepeatPeriodUs\<rparr>"
    let ?b1 = "b\<lparr>bn_frames := bn_frames b @ [(0, ir_repeat_format d, [], 0)], bn_wakes := bn_wakes b @ [ir_next_due_us d + kRepeatPeriodUs]\<rparr>"
    have now: "ir_next_due_us d \<le> now" using False by simp
    have more: "ir_repeats_left d \<noteq> 0" using Suc.prems(3) by auto
    have step: "repeats_due (ir_next_due_us d) now = Suc (repeats_due (ir_next_due_us ?d1) now)"
      using repeats_due_step [of "ir_next_due_us d" now] False Suc.prems(4) by simp
    have "unat (ir_next_due_us d + kRepeatPeriodUs) = unat (ir_next_due_us d) + 2000"
      using Suc.prems(4) u64_less_add [of "ir_next_due_us d" kRepeatPeriodUs] by (simp add: kRepeatPeriodUs_def)
    then have "unat (ir_next_due_us ?d1) + 2000 * l < 2 ^ 64" using Suc.prems(4) by simp
    moreover have "ir_ready ?d1" "ir_holding ?d1" "unat (ir_repeats_left ?d1) = l"
      using Suc.prems more by (simp_all add: ir_ready_def unat_minus_one)
    ultimately obtain d2 b2 where rest: "run_prog (bench_port c) (ir_loop (Suc l) now ?d1) ?b1 = (d2, b2)"
        "bn_frames b2 = bn_frames ?b1 @ replicate (min (Suc l) (repeats_due (ir_next_due_us ?d1) now)) (0, ir_repeat_format d, [], 0)"
        "ir_holding d2 \<longleftrightarrow> repeats_due (ir_next_due_us ?d1) now \<le> l" "ir_holding d2 \<longrightarrow> now < ir_next_due_us d2"
      using Suc.IH [of ?d1 ?b1] by auto
    have "run_prog (bench_port c) (ir_loop (Suc (Suc l)) now d) b = run_prog (bench_port c) (ir_loop (Suc l) now ?d1) ?b1"
      using Suc.prems(2) now ir_turn_more [OF Suc.prems(1) more, of c b] by (simp add: ir_loop_def)
    then show ?thesis using rest by (simp add: step)
  qed
qed

text \<open>
  The 256 turns of the model are as good as any number of them, and each service leaves nothing
  that is due.
\<close>

definition ir_in_time :: "ir \<Rightarrow> bool" where
  "ir_in_time d \<longleftrightarrow> (ir_holding d \<longrightarrow> unat (ir_next_due_us d) + 2000 * Suc (unat (ir_repeats_left d)) < 2 ^ 64)"

lemma ir_loop_stops:
  assumes "ir_ready d" "ir_in_time d"
  obtains d1 b1 where "\<And>k. run_prog (bench_port c) (ir_loop (256 + k) now d) b = (d1, b1)"
    "\<not> (ir_holding d1 \<and> ir_next_due_us d1 \<le> now)"
proof (cases "ir_holding d")
  case True
  let ?l = "unat (ir_repeats_left d)"
  have l: "?l < 256" using unsigned_less [of "ir_repeats_left d", where 'a = nat] by simp
  obtain d1 b1 where run: "run_prog (bench_port c) (ir_loop (Suc ?l) now d) b = (d1, b1)"
      and still: "ir_holding d1 \<longrightarrow> now < ir_next_due_us d1"
    using ir_loop_run [of d ?l c now b] assms True by (auto simp: ir_in_time_def)
  have more: "run_prog (bench_port c) (ir_loop (Suc ?l + j) now d) b = (d1, b1)" for j
    unfolding ir_loop_def using run still by (intro repeat_while_enough) (auto simp: ir_loop_def)
  have "run_prog (bench_port c) (ir_loop (256 + k) now d) b = (d1, b1)" for k
    using more [of "255 - ?l + k"] l by (simp add: add.commute add.left_commute)
  then show ?thesis using that still by (auto simp: not_le)
next
  case False
  then show ?thesis by (intro that [of d b]) (simp_all add: ir_loop_def repeat_while_stops)
qed

lemma ir_advance_stops:
  assumes "ir_ready d" "ir_in_time d" "run_prog (bench_port c) (ir_advanceTo now d) b = (d1, b1)"
  shows "\<not> (ir_holding d1 \<and> ir_next_due_us d1 \<le> now)"
    "run_prog (bench_port c) (ir_loop (256 + k) now d) b = (d1, b1)"
  using ir_loop_stops [OF assms(1,2), of c now b] assms(3) by (metis Pair_inject ir_advanceTo_def add_0_right)+

section \<open>A remote served many times\<close>

fun ir_served :: "u64 list \<Rightarrow> ir \<Rightarrow> ('m, ir) prog" where
  "ir_served [] d = Ret d"
| "ir_served (t # ts) d = andThen (ir_advanceTo t d) (ir_served ts)"

lemma ir_advance_keeps:
  assumes "ir_ready d" "ir_in_time d" "run_prog (bench_port c) (ir_advanceTo now d) b = (d1, b1)"
  shows "ir_ready d1 \<and> ir_in_time d1 \<and> ir_repeat_format d1 = ir_repeat_format d"
proof -
  let ?I = "\<lambda>e. ir_ready e \<and> ir_in_time e \<and> ir_repeat_format e = ir_repeat_format d"
  have turn: "?I (fst (run_prog (bench_port c) (ir_turn e) p))" if "?I e" "ir_holding e \<and> ir_next_due_us e \<le> now" for e p
  proof (cases "ir_repeats_left e = 0")
    case True
    then show ?thesis using that(1) by (simp add: ir_turn_last) (auto simp: ir_ready_def ir_in_time_def)
  next
    case False
    have fits: "unat (ir_next_due_us e) + 2000 * Suc (unat (ir_repeats_left e)) < 2 ^ 64"
      using that by (simp add: ir_in_time_def)
    have "unat (ir_next_due_us e + kRepeatPeriodUs) = unat (ir_next_due_us e) + 2000"
      using fits u64_less_add [of "ir_next_due_us e" kRepeatPeriodUs] by (simp add: kRepeatPeriodUs_def)
    moreover have "Suc (unat (ir_repeats_left e - 1)) = unat (ir_repeats_left e)"
      using False by (simp add: unat_minus_one unat_gt_0)
    ultimately show ?thesis using that(1) False by (simp add: ir_turn_more) (use fits in \<open>auto simp: ir_ready_def ir_in_time_def\<close>)
  qed
  have "?I (fst (run_prog (bench_port c) (ir_advanceTo now d) b))"
    unfolding ir_advanceTo_def ir_loop_def by (rule repeat_while_keeps [where I = ?I, OF turn]) (use assms(1,2) in auto)
  then show ?thesis unfolding assms(3) by simp
qed

lemma ir_served_last:
  assumes "ir_ready d" "ir_in_time d" "sorted ts" "ts \<noteq> []"
  shows "run_prog (bench_port c) (ir_served ts d) b = run_prog (bench_port c) (ir_advanceTo (last ts) d) b"
  using assms
proof (induction ts arbitrary: d b)
  case (Cons t ts)
  obtain d1 b1 where one: "run_prog (bench_port c) (ir_advanceTo t d) b = (d1, b1)" by (rule prod.exhaust)
  show ?case
  proof (cases "ts = []")
    case True
    then show ?thesis using one by (simp add: run_prog_andThen)
  next
    case False
    note kept = ir_advance_keeps [OF Cons.prems(1,2) one]
    obtain d2 b2 where two: "run_prog (bench_port c) (ir_advanceTo (last ts) d1) b1 = (d2, b2)" by (rule prod.exhaust)
    have "t \<le> last ts" using Cons.prems(3) False by simp
    then have "run_prog (bench_port c) (ir_loop (256 + 256) (last ts) d) b = (d2, b2)"
      unfolding ir_loop_def using one two ir_advance_stops(1) [OF _ _ two] kept
      by (intro repeat_while_merge [where early = "\<lambda>d. ir_holding d \<and> ir_next_due_us d \<le> t"]) (auto simp: ir_advanceTo_def ir_loop_def)
    moreover obtain d3 b3 where "run_prog (bench_port c) (ir_advanceTo (last ts) d) b = (d3, b3)" by (rule prod.exhaust)
    ultimately have "run_prog (bench_port c) (ir_advanceTo (last ts) d) b = (d2, b2)"
      using ir_advance_stops(2) [OF Cons.prems(1,2), of c "last ts" b d3 b3 256] by simp
    then show ?thesis using Cons.IH [of d1 b1] kept one two False Cons.prems(3) by (simp add: run_prog_andThen)
  qed
qed simp

text \<open>A held key, served in time order: its repeats up to the last service, and no more than it has left.\<close>

lemma ir_served_run:
  assumes "ir_ready d" "ir_in_time d" "sorted ts" "ts \<noteq> []"
  defines "n \<equiv> (if ir_holding d then Suc (unat (ir_repeats_left d)) else 0)"
  shows "\<exists>d1 b1. run_prog (bench_port c) (ir_served ts d) b = (d1, b1) \<and>
    bn_frames b1 = bn_frames b @ replicate (min n (repeats_due (ir_next_due_us d) (last ts))) (0, ir_repeat_format d, [], 0) \<and>
    (ir_holding d1 \<longleftrightarrow> repeats_due (ir_next_due_us d) (last ts) < n)"
proof (cases "ir_holding d")
  case True
  let ?l = "unat (ir_repeats_left d)" and ?now = "last ts"
  obtain d1 b1 where run: "run_prog (bench_port c) (ir_loop (Suc ?l) ?now d) b = (d1, b1)"
      and frames: "bn_frames b1 = bn_frames b @ replicate (min (Suc ?l) (repeats_due (ir_next_due_us d) ?now)) (0, ir_repeat_format d, [], 0)"
      and hold: "ir_holding d1 \<longleftrightarrow> repeats_due (ir_next_due_us d) ?now \<le> ?l" "ir_holding d1 \<longrightarrow> ?now < ir_next_due_us d1"
    using ir_loop_run [of d ?l c ?now b] assms(1,2) True by (auto simp: ir_in_time_def)
  have l: "?l < 256" using unsigned_less [of "ir_repeats_left d", where 'a = nat] by simp
  have "run_prog (bench_port c) (ir_loop (Suc ?l + (255 - ?l)) ?now d) b = (d1, b1)"
    unfolding ir_loop_def using run hold(2) by (intro repeat_while_enough) (auto simp: ir_loop_def)
  then have "run_prog (bench_port c) (ir_advanceTo ?now d) b = (d1, b1)" using l by (simp add: ir_advanceTo_def)
  then show ?thesis using frames hold(1) True ir_served_last [OF assms(1-4), of c b] by (simp add: n_def less_Suc_eq_le)
next
  case False
  then show ?thesis using ir_served_last [OF assms(1-4), of c b]
    by (simp add: n_def ir_advanceTo_def ir_loop_def repeat_while_stops)
qed

lemma repeats_due_from_press:
  assumes "unat t + 2000 < 2 ^ 64" "t \<le> now"
  shows "repeats_due (t + kRepeatPeriodUs) now = (unat now - unat t) div 2000"
proof -
  have "repeats_due t now = Suc (repeats_due (t + kRepeatPeriodUs) now)"
    using repeats_due_step [of t now] assms by simp
  then show ?thesis using assms(2) by (simp add: repeats_due_def word_less_nat_alt word_le_nat_alt)
qed

section \<open>The radio and the anchors\<close>

text \<open>An uplink holds the radio for a millisecond per byte; a send meanwhile is lost and said to be.\<close>

lemma lora_send_run:
  assumes "lo_resolved d" "\<not> lo_busy d" "frameBytes bits \<le> kMaxPayloadBytes"
  shows "run_prog (bench_port c) (lora_frameIn kLoraBus (lo_uplink_format d) data bits d) b =
    (d\<lparr>lo_busy := True, lo_tx_done_us := bn_now b + of_nat (frameBytes bits) * kAirTimePerByteUs, lo_sent := lo_sent d + 1\<rparr>,
     b\<lparr>bn_lines := bn_lines b @ [(0, 0)], bn_wakes := bn_wakes b @ [bn_now b + of_nat (frameBytes bits) * kAirTimePerByteUs]\<rparr>)"
  using assms by (simp add: lora_frameIn_def lora_resolve_def Let_def not_less)

lemma lora_busy_drops:
  assumes "lo_resolved d" "lo_busy d" "frameBytes bits \<le> kMaxPayloadBytes"
  shows "run_prog (bench_port c) (lora_frameIn kLoraBus (lo_uplink_format d) data bits d) b =
    (d\<lparr>lo_dropped := lo_dropped d + 1\<rparr>, b\<lparr>bn_notes := bn_notes b @ [''send while transmitting'']\<rparr>)"
  using assms by (simp add: lora_frameIn_def lora_resolve_def lora_drop_def not_less)

text \<open>A downlink too long for the radio is refused, yet the status channel already shows its signal.\<close>

lemma lora_refused_downlink_shows:
  assumes "lo_resolved d" "6 < length data"
  shows "run_prog (bench_port c) (lora_channelWrite 0 data d) b =
    ((False, d\<lparr>lo_rssi := data ! 0, lo_snr := data ! 1\<rparr>), b)"
proof -
  have "\<not> length data < 2" "4 < length data - 2" using assms(2) by simp_all
  then show ?thesis using assms(1) by (simp add: lora_channelWrite_def lora_resolve_def kMaxPayloadBytes_def Let_def)
qed

text \<open>Twelve bits of a poll, the tag and the sequence number, arrive as they were sent.\<close>

definition poll_frame :: "u8 \<Rightarrow> u8 \<Rightarrow> bytes" where
  "poll_frame tag sq = [push_bit 4 tag OR drop_bit 4 sq, push_bit 4 sq]"

lemma uwb_poll_run:
  assumes "uw_resolved d" "\<not> uw_pending d" "unat tag < 16"
  shows "run_prog (bench_port c) (uwb_frameIn kUwbBus (uw_poll_format d) (poll_frame tag sq) 12 d) b =
    (let due = bn_now b + kBaseLatencyUs + ucast (uw_anchor_id d) * kSlotUs
     in (d\<lparr>uw_tag := tag, uw_seq := sq, uw_pending := True, uw_reply_due_us := due\<rparr>, b\<lparr>bn_wakes := bn_wakes b @ [due]\<rparr>))"
proof -
  have "bit tag n \<Longrightarrow> n < 4" for n
  proof -
    assume "bit tag n"
    moreover have "take_bit 4 tag = tag"
      using assms(3) by (simp add: take_bit_eq_mod word_unat_eq_iff unat_mod)
    ultimately show "n < 4" by (metis bit_take_bit_iff)
  qed
  then have "drop_bit 4 (push_bit 4 tag OR drop_bit 4 sq) = tag"
    "push_bit 4 (push_bit 4 tag OR drop_bit 4 sq) OR drop_bit 4 (push_bit 4 sq) = sq"
    by (intro bit_word_eqI; fastforce simp: bit_simps dest: bit_imp_le_length)+
  then show ?thesis using assms(1,2) by (simp add: uwb_frameIn_def uwb_resolve_def poll_frame_def Let_def)
qed

text \<open>Anchors with different numbers answer one poll at different moments, a slot apart at least.\<close>

lemma uwb_slots_apart:
  fixes i j :: u8
  assumes "unat i < unat j" "unat now + 2 ^ 17 < 2 ^ 64"
  shows "unat (now + kBaseLatencyUs + ucast i * kSlotUs) + 300 \<le> unat (now + kBaseLatencyUs + ucast j * kSlotUs)"
proof -
  have due: "unat (now + kBaseLatencyUs + ucast (k :: u8) * kSlotUs) = unat now + 500 + unat k * 300" for k
  proof -
    have k: "unat k < 256" using unsigned_less [of k, where 'a = nat] by simp
    then have "unat (ucast k * kSlotUs :: u64) = unat k * 300"
      by (simp add: kSlotUs_def unat_word_ariths unsigned_ucast_eq take_bit_eq_mod)
    moreover have "unat (now + kBaseLatencyUs) = unat now + 500"
      using assms(2) u64_less_add [of now kBaseLatencyUs] by (simp add: kBaseLatencyUs_def)
    ultimately show ?thesis using k assms(2) u64_less_add [of "now + kBaseLatencyUs" "ucast k * kSlotUs"] by simp
  qed
  show ?thesis unfolding due using assms(1) by simp
qed

section \<open>Properties\<close>

definition granted_remote :: ir where
  "granted_remote = new_ir\<lparr>ir_code_format := 1, ir_repeat_format := 2, ir_resolved := True\<rparr>"

text \<open>C40: a held key repeats at its period, whatever the calls it is served by. A press sends the
  code once. With \<open>n\<close> repeats asked for, however often the remote is then served in time order, it
  has sent one repeat for every full period between the press and the last service, \<open>n\<close> at most, and
  holds the key exactly while repeats are left. A press without repeats holds nothing of its own, but
  lets go of nothing either: a key that was held before it is repeated once more, when its next
  repeat is due, and held until then.\<close>

theorem remote_repeats_while_held:
  assumes "ir_ready d" "16 \<le> unat c" "unat (bn_now b) + 2000 * 257 < 2 ^ 64"
    and "ir_holding d \<longrightarrow> unat (ir_next_due_us d) + 2000 < 2 ^ 64" "sorted (bn_now b # ts)" "ts \<noteq> []"
  shows "\<exists>d1 b1 d2 b2. run_prog (bench_port c) (ir_channelWrite 0 [a, k, n] d) b = ((True, d1), b1) \<and>
    run_prog (bench_port c) (ir_served ts d1) b1 = (d2, b2) \<and>
    bn_frames b2 = bn_frames b @ (0, ir_code_format d, [a, k], 16) #
      replicate (if n \<noteq> 0 then min (unat n) ((unat (last ts) - unat (bn_now b)) div 2000)
                 else if ir_holding d \<and> ir_next_due_us d \<le> last ts then 1 else 0) (0, ir_repeat_format d, [], 0) \<and>
    (ir_holding d2 \<longleftrightarrow> (if n \<noteq> 0 then (unat (last ts) - unat (bn_now b)) div 2000 < unat n
                       else ir_holding d \<and> last ts < ir_next_due_us d))"
proof -
  let ?t = "bn_now b"
  let ?p = "d\<lparr>ir_address := a, ir_command := k, ir_sent := ir_sent d + 1, ir_repeats_left := n\<rparr>"
  let ?q = "b\<lparr>bn_frames := bn_frames b @ [(0, ir_code_format d, [a, k], 16)]\<rparr>"
  have ts: "sorted ts" "?t \<le> last ts" using assms(5,6) by simp_all
  show ?thesis
  proof (cases "n = 0")
    case True
    have press: "run_prog (bench_port c) (ir_channelWrite 0 [a, k, n] d) b = ((True, ?p), ?q)"
      using assms(1,2) True ir_code_run [of "d\<lparr>ir_address := a, ir_command := k\<rparr>" c b]
      by (simp add: ir_channelWrite_def ir_ready_def Let_def)
    have "ir_ready ?p" "ir_in_time ?p" using assms(1,4) True by (simp_all add: ir_ready_def ir_in_time_def)
    from ir_served_run [OF this ts(1) assms(6), of c ?q] press True show ?thesis
      by (auto simp: repeats_due_def not_le min_def split: if_splits)
  next
    case False
    let ?d1 = "?p\<lparr>ir_repeats_left := n - 1, ir_holding := True, ir_next_due_us := ?t + kRepeatPeriodUs\<rparr>"
    let ?b1 = "?q\<lparr>bn_wakes := bn_wakes b @ [?t + kRepeatPeriodUs]\<rparr>"
    have press: "run_prog (bench_port c) (ir_channelWrite 0 [a, k, n] d) b = ((True, ?d1), ?b1)"
      using assms(1,2) False ir_code_run [of "d\<lparr>ir_address := a, ir_command := k\<rparr>" c b]
      by (simp add: ir_channelWrite_def ir_ready_def Let_def)
    have n: "unat n < 256" "Suc (unat (n - 1)) = unat n"
      using False unsigned_less [of n, where 'a = nat] by (simp_all add: unat_minus_one unat_gt_0)
    have "unat (?t + kRepeatPeriodUs) = unat ?t + 2000"
      using assms(3) u64_less_add [of ?t kRepeatPeriodUs] by (simp add: kRepeatPeriodUs_def)
    then have "ir_ready ?d1" "ir_in_time ?d1" using assms(1,3) n by (simp_all add: ir_ready_def ir_in_time_def)
    from ir_served_run [OF this ts(1) assms(6), of c ?b1] press False n(2) show ?thesis
      using repeats_due_from_press [of ?t "last ts"] ts(2) assms(3) by auto
  qed
qed

theorem remote_repeats_while_held_witness:
  "(\<exists>d1 b1 d2 b2. run_prog (bench_port 64) (ir_channelWrite 0 [4, 8, 3] granted_remote) (new_bench 500) = ((True, d1), b1) \<and>
     run_prog (bench_port 64) (ir_served [600, 2500, 4700] d1) b1 = (d2, b2) \<and>
     bn_frames b2 = [(0, 1, [4, 8], 16), (0, 2, [], 0), (0, 2, [], 0)] \<and> ir_holding d2) \<and>
   (\<exists>d1 b1 d2 b2. run_prog (bench_port 64) (ir_channelWrite 0 [4, 9, 0] (granted_remote\<lparr>ir_holding := True, ir_next_due_us := 1500\<rparr>))
       (new_bench 500) = ((True, d1), b1) \<and>
     run_prog (bench_port 64) (ir_served [4700] d1) b1 = (d2, b2) \<and> bn_frames b2 = [(0, 1, [4, 9], 16), (0, 2, [], 0)] \<and> \<not> ir_holding d2)"
proof -
  have two: "replicate 2 x = [x, x]" for x :: "u8 \<times> u16 \<times> bytes \<times> nat" by (simp add: numeral_2_eq_2)
  let ?held = "granted_remote\<lparr>ir_holding := True, ir_next_due_us := 1500\<rparr>"
  have "16 \<le> unat (64 :: u32)" "unat (bn_now (new_bench 500)) + 2000 * 257 < 2 ^ 64"
    "ir_ready granted_remote" "ir_holding granted_remote \<longrightarrow> unat (ir_next_due_us granted_remote) + 2000 < 2 ^ 64"
    "ir_ready ?held" "ir_holding ?held \<longrightarrow> unat (ir_next_due_us ?held) + 2000 < 2 ^ 64"
    by (simp_all add: ir_ready_def granted_remote_def new_ir_def new_bench_def)
  note held = remote_repeats_while_held [OF this(3,1,2,4), of "[600, 2500, 4700]" 4 8 3]
    and still = remote_repeats_while_held [OF this(5,1,2,6), of "[4700]" 4 9 0]
  show ?thesis using held still by (simp add: new_bench_def granted_remote_def two)
qed

end
