(* ===== verification/Environment_Devices.thy ===== *)
theory Environment_Devices
  imports Bus_Hooks Rtc_Model Radio_Units
begin

text \<open>
  Devices and the environment together: a device bound to the tick callback of
  \<open>src/src/embedbench_host.cpp\<close>, served by \<open>onWait\<close> while the sketch waits. What is shown of a
  device on the bench holds of it here at the moments the environment chooses.
\<close>

section \<open>A device behind its binding\<close>

text \<open>The function behind a binding reaches the device through its \<open>user\<close> pointer: the memory.\<close>

definition in_memory :: "('d \<Rightarrow> ('d, 'r \<times> 'd) prog) \<Rightarrow> ('d, 'r) prog" where
  "in_memory m = Get (\<lambda>d. andThen (m d) (\<lambda>(r, d1). Upd (\<lambda>_. d1) (Ret r)))"

definition advance_in_memory :: "('d \<Rightarrow> ('d, 'd) prog) \<Rightarrow> ('d, unit) prog" where
  "advance_in_memory m = in_memory (\<lambda>d. andThen (m d) (\<lambda>d1. Ret ((), d1)))"

definition serves ::
    "('c, 'd) core \<Rightarrow> callback \<Rightarrow> device_port \<Rightarrow> (u64 \<Rightarrow> 'd \<Rightarrow> ('d, 'd) prog) \<Rightarrow> bool" where
  "serves co cb dp adv \<longleftrightarrow> (\<forall>t. co_tick_device co cb t = [(dp, advance_in_memory (adv t))])"

text \<open>The functions behind a bus binding hand the transfer to the device and its answer back.\<close>

definition wire_write_op :: "('d, 'd) device \<Rightarrow> bytes \<Rightarrow> bool \<Rightarrow> bool \<Rightarrow> ('d, u8) prog" where
  "wire_write_op dev data stop continued =
     in_memory (dv_i2c_write dev data \<lparr>xstop = stop, xcontinued = continued\<rparr>)"

definition read_into :: "bytes \<Rightarrow> nat \<times> bytes \<times> 'd \<Rightarrow> (nat \<times> bytes) \<times> 'd" where
  "read_into buffer answer = (case answer of (n, out, d) \<Rightarrow> ((n, out @ drop (length out) buffer), d))"

definition wire_read_op :: "('d, 'd) device \<Rightarrow> bytes \<Rightarrow> bool \<Rightarrow> bool \<Rightarrow> ('d, nat \<times> bytes) prog" where
  "wire_read_op dev buffer stop continued =
     in_memory (\<lambda>d. andThen (dv_i2c_read dev (length buffer) \<lparr>xstop = stop, xcontinued = continued\<rparr> d)
       (\<lambda>answer. Ret (read_into buffer answer)))"

definition wired :: "('c, 'd) core \<Rightarrow> callback \<Rightarrow> device_port \<Rightarrow> ('d, 'd) device \<Rightarrow> bool" where
  "wired co cb dp dev \<longleftrightarrow>
     (\<forall>data stop continued. co_wire_write co cb data stop continued = (dp, wire_write_op dev data stop continued)) \<and>
     (\<forall>buffer stop continued. co_wire_read co cb buffer stop continued = (dp, wire_read_op dev buffer stop continued))"

text \<open>No observer touches the device; a sketch that polls its pins attaches no interrupt either.\<close>

definition passive_observers :: "('c, 'm) core \<Rightarrow> bool" where
  "passive_observers co \<longleftrightarrow> (\<forall>fn user e m. fst (co_observer co fn user e m) = m)"

definition polling :: "('c, 'm) core \<Rightarrow> bool" where
  "polling co \<longleftrightarrow> (\<forall>c pin. co_interrupt_trigger co c pin = kTriggerNone) \<and> passive_observers co"

lemma store_event_mem: "store_event org link s h = (seq, e, h') \<Longrightarrow> mem h' = mem h"
  by (auto simp: store_event_def Let_def lose_event_def markTruncated_def make_room_def
      split: if_splits option.splits prod.splits)

lemma store_only_mem [simp]: "mem (store_only org link s h) = mem h"
  unfolding store_only_def by (cases "store_event org link s h") (auto dest: store_event_mem)

lemma observer_act_mem [simp]: "mem (observer_act a h) = mem h"
  by (cases a) (auto simp: removeListener_def add_listener_with_def split: option.split)

lemma fold_observer_mem [simp]: "mem (fold observer_act acts h) = mem h"
  by (induction acts arbitrary: h) simp_all

lemma dispatch_mem: "passive_observers co \<Longrightarrow> mem (dispatch_slots co e ks h) = mem h"
proof (induction ks arbitrary: h)
  case (Cons i ks)
  then have "fst (co_observer co fn user e m) = m" for fn user m by (simp add: passive_observers_def)
  then have "m1 = m" if "co_observer co fn user e m = (m1, acts)" for fn user m m1 acts using that by (metis fst_conv)
  then show ?case using Cons by (auto split: option.split prod.split)
qed simp

lemma emit_mem: "passive_observers co \<Longrightarrow> mem (emit co org link s h) = mem h"
  by (auto simp: emit_def recordf_def vrecord_def dispatch_mem split: option.split prod.split dest: store_event_mem)

lemma record_step:
  assumes "passive_observers co"
  obtains req h1 where "recordf co org link s h = (req, h1)" "quiet h h1" "mem h1 = mem h"
  using recordf_quiet [of co org link s h] emit_mem [OF assms, of org link s h]
  by (cases "recordf co org link s h") (auto simp: emit_def)

text \<open>An environment with one device bound to its buses and its tick callback, and nothing else.\<close>

definition bound_core :: "device_port \<Rightarrow> ('d, 'd) device \<Rightarrow> (u8 \<Rightarrow> u8, 'd) core" where
  "bound_core dp dev = \<lparr>
     co_pin_value = (\<lambda>c pin. c pin), co_interrupt_trigger = (\<lambda>c pin. kTriggerNone),
     co_set_pin_value = (\<lambda>pin level c. c(pin := level)), co_set_analog_value = (\<lambda>pin raw c. c),
     co_set_analog_mv = (\<lambda>pin mv c. c), co_push_rx = (\<lambda>port data c. (length data, c)),
     co_set_hook = (\<lambda>hook c. c), co_clear_hooks = (\<lambda>group c. c), co_set_lifecycle_hook = (\<lambda>c. c),
     co_observer = (\<lambda>fn user e m. (m, [])),
     co_wire_write = (\<lambda>cb data stop continued. (dp, wire_write_op dev data stop continued)),
     co_wire_read = (\<lambda>cb buffer stop continued. (dp, wire_read_op dev buffer stop continued)),
     co_spi = (\<lambda>cb mosi. (new_device_port, Ret mosi)),
     co_uart_tx = (\<lambda>cb data. (new_device_port, Ret ())),
     co_channel = (\<lambda>cb channel data. (new_device_port, Ret True)),
     co_pin_forward = (\<lambda>cb pin val. []), co_frame_device = (\<lambda>cb bus format data bits. []),
     co_tick_device = (\<lambda>cb t. [(dp, advance_in_memory (dv_advance_to dev t))]),
     co_frame_receiver = (\<lambda>cb bus format data bits h. Some h),
     co_tick_handler = (\<lambda>cb n h. Some h), co_zero_handler = (\<lambda>cb n h. Some h),
     co_trigger_interrupt = (\<lambda>pin h. Some h)\<rparr>"

lemma bound_core_ok:
  "calm_app (bound_core dp dev)" "polling (bound_core dp dev)" "passive_observers (bound_core dp dev)"
  "serves (bound_core dp dev) cb dp (dv_advance_to dev)" "wired (bound_core dp dev) cb dp dev"
  "co_set_pin_value (bound_core dp dev) = (\<lambda>pin level c. c(pin := level))"
proof -
  show "calm_app (bound_core dp dev)"
    unfolding calm_app_def by (auto simp: deliver_one_def bound_core_def split: deferred.split option.split)
qed (simp_all add: polling_def passive_observers_def serves_def wired_def bound_core_def)

section \<open>Serving the device\<close>

text \<open>What one service leaves alone.\<close>

definition kept :: "('c, 'm) host \<Rightarrow> ('c, 'm) host \<Rightarrow> bool" where
  "kept h h' \<longleftrightarrow> vnow h' = vnow h \<and> wake_at h' = wake_at h \<and> tick_device h' = tick_device h \<and>
     tick_handler h' = tick_handler h \<and> deferred_effects h' = deferred_effects h"

lemma polled_line:
  assumes "polling co" "pin_of (dp_lines dp) line = Some pin"
  shows "\<exists>h'. DevicePort_lineOut co dp line level h = Some h' \<and> kept h h' \<and> mem h' = mem h \<and>
    hw h' = co_set_pin_value co pin level (hw h)"
  using assms
  by (auto simp: DevicePort_lineOut_def pinInject_def polling_def edge_match_def kept_def Let_def quiet_rules emit_mem)

lemma run_advance_in_memory:
  assumes "run_prog (device_port_calls co dp) (m (mem h)) (Some h) = (d, Some h1)"
  shows "run_prog (device_port_calls co dp) (advance_in_memory m) (Some h) = ((), Some (h1\<lparr>mem := d\<rparr>))"
  using assms by (simp add: advance_in_memory_def in_memory_def device_port_calls_def)

lemma kept_enter [simp]: "vnow (enterDevice h) = vnow h" "mem (enterDevice h) = mem h" "hw (enterDevice h) = hw h"
  "kept h (enterDevice h)"
  by (simp_all add: enterDevice_def Let_def kept_def)

lemma serve_once:
  assumes "serves co cb dp adv" "tick_device h = Some cb" "deferred_effects h = []"
    and "run_prog (device_port_calls co dp) (adv (vnow h) (mem h)) (Some (enterDevice h)) = (d, Some h1)"
    and "kept (enterDevice h) h1"
  shows "\<exists>h'. serve_advance co h = Some h' \<and> kept h h' \<and> mem h' = d \<and> hw h' = hw h1"
proof -
  have "run_device co (dp, advance_in_memory (adv (vnow h))) (enterDevice h) = Some ((), h1\<lparr>mem := d\<rparr>)"
    using run_advance_in_memory [of co dp "adv (vnow h)" "enterDevice h" d h1] assms(4) by (simp add: run_device_def)
  then have "call_devices co (co_tick_device co cb (vnow h)) h = Some (leaveDevice (h1\<lparr>mem := d\<rparr>))"
    using assms(1) by (simp add: serves_def call_devices_def)
  moreover have "kept h (leaveDevice (h1\<lparr>mem := d\<rparr>))"
    using assms(5) kept_enter(4) [of h] by (simp add: kept_def leaveDevice_def)
  moreover from this have "deliverDeferred co (leaveDevice (h1\<lparr>mem := d\<rparr>)) = Some (leaveDevice (h1\<lparr>mem := d\<rparr>))"
    using assms(3) by (intro deliverDeferred_empty) (simp add: kept_def)
  ultimately show ?thesis using assms(2) by (simp add: serve_advance_def leaveDevice_def)
qed

section \<open>Invariants of a wait\<close>

text \<open>What every stop of a wait keeps and the end of the wait keeps holds after it.\<close>

lemma wait_loop_rule:
  assumes "wait_loop co loops target h = Some h'" "I h"
    and wake: "\<And>h t h'. I h \<Longrightarrow> next_stop h = (t, True) \<Longrightarrow> t \<le> target \<Longrightarrow> fireWake co (h\<lparr>vnow := t\<rparr>) = Some h' \<Longrightarrow> I h'"
    and tick: "\<And>h t h'. I h \<Longrightarrow> next_stop h = (t, False) \<Longrightarrow> t \<le> target \<Longrightarrow> pass_tick co (h\<lparr>vnow := t\<rparr>) = Some h' \<Longrightarrow> I h'"
    and stop: "\<And>h. I h \<Longrightarrow> target < fst (next_stop h) \<Longrightarrow> I (finish_wait target h)"
  shows "I h'"
proof -
  let ?P = "\<lambda>co1 loops1 target1 h h'. co1 = co \<longrightarrow> target1 = target \<longrightarrow> I h \<longrightarrow> I h'"
  have "?P co loops target h h'"
  proof (rule wait_loop.raw_induct [where P = ?P, OF _ assms(1)], intro impI)
    fix rec :: "('a, 'b) core \<Rightarrow> bool \<Rightarrow> u64 \<Rightarrow> ('a, 'b) host \<Rightarrow> ('a, 'b) host option"
      and co1 loops1 target1 h h'
    assume IH: "\<And>co1 loops1 target1 h h'. rec co1 loops1 target1 h = Some h' \<Longrightarrow> ?P co1 loops1 target1 h h'"
      and step: "(if fst (next_stop h) > target1 then Some (finish_wait target1 h)
        else if snd (next_stop h) then
          (if loops1 then fireWake co1 (h\<lparr>vnow := fst (next_stop h)\<rparr>)
           else Option.bind (fireWake co1 (h\<lparr>vnow := fst (next_stop h)\<rparr>)) (rec co1 loops1 target1))
        else Option.bind (pass_tick co1 (h\<lparr>vnow := fst (next_stop h)\<rparr>)) (rec co1 loops1 target1)) = Some h'"
      and eqs: "co1 = co" "target1 = target" "I h"
    obtain t w where s: "next_stop h = (t, w)" by (cases "next_stop h")
    show "I h'"
    proof (cases "t > target")
      case True
      then show ?thesis using step eqs stop [of h] s by simp
    next
      case False
      then have t: "t \<le> target" by simp
      show ?thesis
      proof (cases w)
        case True
        then show ?thesis using step eqs s t wake [of h t] IH
          by (cases "fireWake co (h\<lparr>vnow := t\<rparr>)") (auto simp: not_less split: if_splits)
      next
        case False
        then show ?thesis using step eqs s t tick [of h t] IH
          by (cases "pass_tick co (h\<lparr>vnow := t\<rparr>)") (auto simp: not_less split: if_splits)
      qed
    qed
  qed
  then show ?thesis using assms(2) by simp
qed

text \<open>What a sketch does between two looks at its pins: waits, one after the other.\<close>

fun waits :: "('c, 'm) core \<Rightarrow> u32 list \<Rightarrow> ('c, 'm) host \<Rightarrow> ('c, 'm) host option" where
  "waits co [] h = Some h"
| "waits co (us # uss) h = Option.bind (onWait co us h) (waits co uss)"

text \<open>How long a wait takes: what was asked for, or less when it is a slice of a loop of the core.\<close>

definition took :: "u32 \<Rightarrow> ('c, 'm) host \<Rightarrow> ('c, 'm) host \<Rightarrow> bool" where
  "took us h h' \<longleftrightarrow> unat (vnow h) < unat (vnow h') \<and> unat (vnow h') \<le> unat (vnow h) + unat us \<and>
     (us \<noteq> kCoreLoopSliceUs \<longrightarrow> unat (vnow h') = unat (vnow h) + unat us)"

lemma wait_loop_took:
  assumes "calm_app co" "clock_ok h" "us \<noteq> 0" "unat (vnow h) + unat us + unat (tick_us h) < 2 ^ 64"
  shows "\<exists>h'. wait_loop co (us = kCoreLoopSliceUs) (vnow h + ucast us) h = Some h' \<and> clock_ok h' \<and> took us h h'"
proof -
  let ?t = "vnow h + ucast us"
  have t: "unat ?t = unat (vnow h) + unat us"
    using assms(4) by (intro u64_less_add [THEN trans]) simp_all
  have "0 < unat us" using assms(3) by (simp add: unat_gt_0)
  then have lt: "vnow h < ?t" using t by (simp add: word_less_nat_alt)
  then have le: "vnow h \<le> ?t" and fits: "unat ?t + unat (tick_us h) < 2 ^ 64" using assms(4) t by simp_all
  show ?thesis
    using wait_loop_one_shot [OF assms(1,2) le fits] wait_loop_slice [OF assms(1,2) le fits] t lt \<open>0 < unat us\<close>
    by (cases "us = kCoreLoopSliceUs") (auto simp: took_def word_less_nat_alt word_le_nat_alt)
qed

section \<open>Devices that act once, when their time has come\<close>

text \<open>
  The contract of such a device: \<open>pending s w d\<close> says that at \<open>s\<close> it was set to act at \<open>w\<close>.
  Serving it before \<open>w\<close> changes nothing, at \<open>w\<close> it drives its line once, and served after that
  it does nothing any more.
\<close>

locale one_shot_device =
  fixes co :: "('c, 'd) core" and dp :: device_port
    and adv :: "u64 \<Rightarrow> 'd \<Rightarrow> ('d, 'd) prog" and line :: u8 and level :: u8
    and pending :: "u64 \<Rightarrow> u64 \<Rightarrow> 'd \<Rightarrow> bool" and after :: "'d \<Rightarrow> 'd"
  assumes early: "pending s w d \<Longrightarrow> s \<le> vnow h \<Longrightarrow> vnow h < w \<Longrightarrow>
      run_prog (device_port_calls co dp) (adv (vnow h) d) (Some h) = (d, Some h)"
    and due: "pending s w d \<Longrightarrow> s < w \<Longrightarrow> vnow h = w \<Longrightarrow>
      run_prog (device_port_calls co dp) (adv (vnow h) d) (Some h) = (after d, DevicePort_lineOut co dp line level h)"
    and spent: "pending s w d \<Longrightarrow> run_prog (device_port_calls co dp) (adv t (after d)) (Some h) = (after d, Some h)"
begin

definition on_time :: "u64 \<Rightarrow> u64 \<Rightarrow> 'd \<Rightarrow> 'c \<Rightarrow> callback \<Rightarrow> u8 \<Rightarrow> ('c, 'd) host \<Rightarrow> bool" where
  "on_time s w d c cb pin h \<longleftrightarrow>
     tick_device h = Some cb \<and> tick_handler h = None \<and> deferred_effects h = [] \<and> s \<le> vnow h \<and>
     (if vnow h < w then mem h = d \<and> hw h = c \<and> w \<in> set (wake_at h)
      else mem h = after d \<and> hw h = co_set_pin_value co pin level c)"

lemma serve_on_time:
  assumes bound: "serves co cb dp adv" "polling co" "pin_of (dp_lines dp) line = Some pin"
    and p: "pending s w d" "s < w" and h: "on_time s w d c cb pin h" and t: "vnow h \<le> t" "vnow h < w \<Longrightarrow> t \<le> w"
    and g: "vnow g = t" "mem g = mem h" "hw g = hw h" "tick_device g = Some cb" "tick_handler g = None"
      "deferred_effects g = []" "vnow h < w \<Longrightarrow> t < w \<Longrightarrow> w \<in> set (wake_at g)"
  shows "\<exists>h'. serve_advance co g = Some h' \<and> on_time s w d c cb pin h' \<and> kept g h'"
proof -
  consider (early) "t < w" | (due) "vnow h < w" "t = w" | (spent) "w \<le> vnow h"
    using t(2) by force
  then show ?thesis
  proof cases
    case early
    then have "vnow h < w" using t(1) by simp
    then have m: "mem g = d" "hw g = c" "w \<in> set (wake_at g)" "s \<le> t"
      using h g early t(1) by (auto simp: on_time_def)
    then have "run_prog (device_port_calls co dp) (adv (vnow g) (mem g)) (Some (enterDevice g)) = (d, Some (enterDevice g))"
      using one_shot_device.early [OF one_shot_device_axioms p(1), of "enterDevice g"] early g(1) by simp
    from serve_once [OF bound(1) g(4,6) this] obtain h' where
        "serve_advance co g = Some h'" "kept g h'" "mem h' = d" "hw h' = hw g" by (auto simp: kept_def)
    then show ?thesis using m g early by (auto simp: on_time_def kept_def)
  next
    case due
    then have m: "mem g = d" "hw g = c" "s \<le> t" using h g p(2) by (auto simp: on_time_def)
    obtain h1 where h1: "DevicePort_lineOut co dp line level (enterDevice g) = Some h1" "kept (enterDevice g) h1"
        "hw h1 = co_set_pin_value co pin level c"
      using polled_line [OF bound(2,3), of level "enterDevice g"] m(2) by auto
    then have "run_prog (device_port_calls co dp) (adv (vnow g) (mem g)) (Some (enterDevice g)) = (after d, Some h1)"
      using one_shot_device.due [OF one_shot_device_axioms p, of "enterDevice g"] due g(1) m(1) by simp
    from serve_once [OF bound(1) g(4,6) this h1(2)] obtain h' where
        "serve_advance co g = Some h'" "kept g h'" "mem h' = after d" "hw h' = hw h1" by blast
    then show ?thesis using m g h1(3) due by (auto simp: on_time_def kept_def)
  next
    case spent
    then have m: "mem g = after d" "hw g = co_set_pin_value co pin level c" "s \<le> t" "\<not> t < w"
      using h g t(1) by (auto simp: on_time_def)
    then have "run_prog (device_port_calls co dp) (adv (vnow g) (mem g)) (Some (enterDevice g)) = (after d, Some (enterDevice g))"
      using one_shot_device.spent [OF one_shot_device_axioms p(1), of "vnow g" "enterDevice g"] by simp
    from serve_once [OF bound(1) g(4,6) this] obtain h' where
        "serve_advance co g = Some h'" "kept g h'" "mem h' = after d" "hw h' = hw g" by (auto simp: kept_def)
    then show ?thesis using m g by (auto simp: on_time_def kept_def)
  qed
qed

lemma stop_not_past:
  assumes "clock_ok h" "on_time s w d c cb pin h" "s < w" "next_stop h = (t, k)"
  shows "vnow h \<le> t" "vnow h < w \<Longrightarrow> t \<le> w"
proof -
  note st = next_stop_after [OF assms(1,4)]
  show "vnow h \<le> t" using st(1) by simp
  assume now: "vnow h < w"
  then have "w \<in> wakes_after (vnow h) h" using assms(2,3) by (auto simp: on_time_def wakes_after_def)
  then show "t \<le> w" using st(2,4) by (cases "w < next_tick h") auto
qed

lemma wake_on_time:
  assumes bound: "calm_app co" "serves co cb dp adv" "polling co" "pin_of (dp_lines dp) line = Some pin"
    and p: "pending s w d" "s < w" and h: "clock_ok h" "on_time s w d c cb pin h" "next_stop h = (t, True)"
    and r: "fireWake co (h\<lparr>vnow := t\<rparr>) = Some h'"
  shows "clock_ok h' \<and> vnow h' = t \<and> on_time s w d c cb pin h'"
proof -
  let ?h0 = "retireWakesUpTo t (h\<lparr>vnow := t\<rparr>)"
  let ?g = "?h0\<lparr>dir_depth := dir_depth ?h0 + 1\<rparr>"
  note st = next_stop_after [OF h(1,3)]
  have "clock_ok h'" "vnow h' = t"
    using pass_wake_calm [OF bound(1) h(1) st(1), of ] st(5) r by auto
  moreover have "w \<in> set (wake_at ?g)" if "vnow h < w" "t < w"
    using that h(2) p(2) by (force simp: on_time_def retireWakesUpTo_def image_iff)
  then obtain g' where g': "serve_advance co ?g = Some g'" "on_time s w d c cb pin g'"
    using serve_on_time [OF bound(2-4) p h(2) stop_not_past [OF h(1,2) p(2) h(3)], of ?g] h(2)
    by (auto simp: on_time_def retireWakesUpTo_def)
  then have "h' = g'\<lparr>dir_depth := dir_depth g' - 1\<rparr>" using r by (simp add: fireWake_def)
  ultimately show ?thesis using g'(2) by (simp add: on_time_def)
qed

lemma tick_on_time:
  assumes bound: "calm_app co" "serves co cb dp adv" "polling co" "pin_of (dp_lines dp) line = Some pin"
    and p: "pending s w d" "s < w" and h: "clock_ok h" "on_time s w d c cb pin h" "next_stop h = (t, False)"
    and fits: "unat t + unat (tick_us h) < 2 ^ 64" and r: "pass_tick co (h\<lparr>vnow := t\<rparr>) = Some h'"
  shows "clock_ok h' \<and> vnow h' = t \<and> tick_us h' = tick_us h \<and> on_time s w d c cb pin h'"
proof -
  let ?h0 = "retireWakesUpTo t (h\<lparr>vnow := t, next_tick := next_tick h + ucast (tick_us h)\<rparr>)"
  let ?g = "?h0\<lparr>ticks := ticks ?h0 + 1, dir_depth := dir_depth ?h0 + 1\<rparr>"
  note st = next_stop_after [OF h(1,3)]
  have t: "t = next_tick h" using st(3) by simp
  have clock: "clock_ok h'" "vnow h' = t" "tick_us h' = tick_us h"
    using pass_tick_calm [OF bound(1) h(1)] fits r t by auto
  have "w \<in> set (wake_at ?g)" if "vnow h < w" "t < w"
    using that h(2) p(2) by (force simp: on_time_def retireWakesUpTo_def image_iff)
  then obtain g' where g': "serve_advance co ?g = Some g'" "on_time s w d c cb pin g'"
    using serve_on_time [OF bound(2-4) p h(2) stop_not_past [OF h(1,2) p(2) h(3)], of ?g] h(2)
    by (auto simp: on_time_def retireWakesUpTo_def)
  obtain g1 where "serve_advance co ?g = Some g1" "clock_kept ?g g1"
    using serve_advance_calm [OF bound(1), of ?g] h(1) by (auto simp: clock_ok_def retireWakesUpTo_def)
  then have none: "pending_ticks g' = 0" using g'(1) h(1) by (simp add: clock_kept_def clock_ok_def retireWakesUpTo_def)
  then have "late_loop co (g'\<lparr>dir_depth := dir_depth g' - 1\<rparr>) = Some (g'\<lparr>dir_depth := dir_depth g' - 1\<rparr>)"
    by (subst late_loop.simps) simp
  moreover have "fireTick co ?h0 = Some (g'\<lparr>dir_depth := dir_depth g' - 1\<rparr>)"
    using g' by (simp add: fireTick_def on_time_def)
  ultimately have "h' = g'\<lparr>dir_depth := dir_depth g' - 1\<rparr>" using r by (simp add: pass_tick_def)
  then show ?thesis using g'(2) clock by (simp add: on_time_def)
qed

lemma wait_on_time:
  assumes bound: "calm_app co" "serves co cb dp adv" "polling co" "pin_of (dp_lines dp) line = Some pin"
    and p: "pending s w d" "s < w" and h: "clock_ok h" "on_time s w d c cb pin h"
    and us: "us \<noteq> 0" "unat (vnow h) + unat us + unat (tick_us h) < 2 ^ 64"
  shows "\<exists>h'. onWait co us h = Some h' \<and> took us h h' \<and> clock_ok h' \<and> tick_us h' = tick_us h \<and>
    on_time s w d c cb pin h'"
proof -
  let ?t = "vnow h + ucast us"
  have t: "unat ?t = unat (vnow h) + unat us"
    using us(2) by (intro u64_less_add [THEN trans]) simp_all
  have le: "vnow h \<le> ?t" using t by (simp add: word_le_nat_alt)
  have fits: "unat ?t + unat (tick_us h) < 2 ^ 64" using us(2) t by simp
  obtain h' where r: "wait_loop co (us = kCoreLoopSliceUs) ?t h = Some h'" "clock_ok h'" "took us h h'"
    using wait_loop_took [OF bound(1) h(1) us] by blast
  let ?I = "\<lambda>g. clock_ok g \<and> vnow g \<le> ?t \<and> tick_us g = tick_us h \<and> on_time s w d c cb pin g"
  have "?I h'"
  proof (rule wait_loop_rule [where I = ?I, OF r(1)])
    show "?I h" using h le by simp
  next
    fix g t g'
    assume g: "?I g" "next_stop g = (t, True)" "t \<le> ?t" "fireWake co (g\<lparr>vnow := t\<rparr>) = Some g'"
    then have "tick_us g' = tick_us g"
      using pass_wake_calm [OF bound(1), of g t] next_stop_after [of g t True] by auto
    then show "?I g'" using g wake_on_time [OF bound p _ _ g(2,4)] by auto
  next
    fix g t g'
    assume g: "?I g" "next_stop g = (t, False)" "t \<le> ?t" "pass_tick co (g\<lparr>vnow := t\<rparr>) = Some g'"
    then have "unat t + unat (tick_us g) < 2 ^ 64" using fits by (simp add: word_le_nat_alt)
    then show "?I g'" using g tick_on_time [OF bound p _ _ g(2) _ g(4)] by auto
  next
    fix g
    assume g: "?I g" "?t < fst (next_stop g)"
    obtain u k where s: "next_stop g = (u, k)" by (cases "next_stop g")
    have u: "u \<le> next_tick g" "\<forall>v\<in>wakes_after (vnow g) g. v < next_tick g \<longrightarrow> u \<le> v" "vnow g < w \<Longrightarrow> u \<le> w"
      using next_stop_after [of g u k] stop_not_past(2) [of g s w d c cb pin u k] g(1) p(2) s by auto
    have "w' = 0 \<or> ?t < w'" if "w' \<in> set (wake_at g)" for w'
    proof (cases "w' = 0")
      case False
      then have "w' \<in> wakes_after (vnow g) g" using that g(1) by (auto simp: wakes_after_def clock_ok_def wakes_ok_def)
      then show ?thesis using u(1,2) g(2) s by (cases "w' < next_tick g") auto
    qed simp
    then show "?I (finish_wait ?t g)" using g u s
      by (auto simp: finish_wait_def clock_ok_def wakes_ok_def on_time_def split: if_splits)
  qed
  moreover have "onWait co us h = wait_loop co (us = kCoreLoopSliceUs) ?t h" using h(1) us by (simp add: onWait_def clock_ok_def)
  ultimately show ?thesis using r by auto
qed

lemma waits_on_time:
  assumes bound: "calm_app co" "serves co cb dp adv" "polling co" "pin_of (dp_lines dp) line = Some pin"
    and p: "pending s w d" "s < w"
    and h: "clock_ok h" "on_time s w d c cb pin h"
    and us: "0 \<notin> set uss" "unat (vnow h) + sum_list (map unat uss) + unat (tick_us h) < 2 ^ 64"
  shows "\<exists>h'. waits co uss h = Some h' \<and> clock_ok h' \<and> on_time s w d c cb pin h' \<and>
    unat (vnow h) + length uss \<le> unat (vnow h') \<and> unat (vnow h') \<le> unat (vnow h) + sum_list (map unat uss) \<and>
    (kCoreLoopSliceUs \<notin> set uss \<longrightarrow> unat (vnow h') = unat (vnow h) + sum_list (map unat uss))"
  using h us
proof (induction uss arbitrary: h)
  case (Cons us uss)
  obtain h1 where h1: "onWait co us h = Some h1" "took us h h1" "clock_ok h1" "tick_us h1 = tick_us h" "on_time s w d c cb pin h1"
    using wait_on_time [OF bound p Cons.prems(1,2), of us] Cons.prems(3,4) by auto
  obtain h2 where "waits co uss h1 = Some h2" "clock_ok h2" "on_time s w d c cb pin h2"
    "unat (vnow h1) + length uss \<le> unat (vnow h2)" "unat (vnow h2) \<le> unat (vnow h1) + sum_list (map unat uss)"
    "kCoreLoopSliceUs \<notin> set uss \<longrightarrow> unat (vnow h2) = unat (vnow h1) + sum_list (map unat uss)"
    using Cons.IH [OF h1(3,5)] Cons.prems(3,4) h1(2,4) by (auto simp: took_def)
  then show ?case using h1(1,2) by (auto simp: took_def)
qed simp

end

section \<open>The alarm clock and the radio\<close>

definition rtc_pending :: "u64 \<Rightarrow> u64 \<Rightarrow> rtc \<Rightarrow> bool" where
  "rtc_pending s w d \<longleftrightarrow> rc_based d \<and> rc_alarm_set d \<and> \<not> rc_fired d \<and> rc_base_sec d \<le> rc_alarm_sec d \<and>
     rc_base_us d \<le> s \<and> unat w = alarm_at d"

lemma in_range_until_alarm:
  assumes "rc_base_sec d \<le> rc_alarm_sec d" "rc_base_us d \<le> t" "unat t \<le> alarm_at d"
  shows "in_range d (unat t)"
proof -
  let ?n = "unat (rc_alarm_sec d) - unat (rc_base_sec d)"
  have "unat (rc_alarm_sec d - rc_base_sec d) = ?n" using assms(1) by (simp add: unat_sub)
  then have "unat t - unat (rc_base_us d) \<le> ?n * 1000000" using assms(3) by (simp add: alarm_at_def)
  then have "(unat t - unat (rc_base_us d)) div 1000000 \<le> ?n" using div_le_mono by fastforce
  then have "second_at d (unat t) \<le> unat (rc_alarm_sec d)"
    using assms(1) by (simp add: second_at_def word_le_nat_alt)
  moreover have "unat (rc_alarm_sec d) < 2 ^ 32" using unsigned_less [of "rc_alarm_sec d", where 'a = nat] by simp
  ultimately show ?thesis using assms(2) by (simp add: in_range_def word_le_nat_alt)
qed

lemma rtc_env_run:
  assumes "rtc_pending s w d" "s \<le> vnow h" "vnow h \<le> w"
  shows "run_prog (device_port_calls co dp) (rtc_advanceTo (vnow h) d) (Some h) =
    (if vnow h < w then (d, Some h)
     else (d\<lparr>rc_fired := True, rc_alarm_set := False\<rparr>, DevicePort_lineOut co dp 0 1 h))"
proof -
  have r: "in_range d (unat (vnow h))"
    using assms by (intro in_range_until_alarm) (auto simp: rtc_pending_def word_le_nat_alt)
  have "rc_base_sec d + ucast ((vnow h - rc_base_us d) div kUsPerSecond) < rc_alarm_sec d \<longleftrightarrow> vnow h < w"
    using unat_second [OF r] alarm_second [OF r] assms(1) by (simp add: word_less_nat_alt rtc_pending_def)
  then show ?thesis using assms(1)
    by (auto simp: rtc_advanceTo_def nowSeconds_def rtc_pending_def line_then_def device_port_calls_def)
qed

interpretation alarm_clock: one_shot_device co dp rtc_advanceTo 0 1 rtc_pending "\<lambda>d. d\<lparr>rc_fired := True, rc_alarm_set := False\<rparr>"
  for co :: "('c, rtc) core" and dp
proof
  fix s w d t and h :: "('c, rtc) host"
  assume p: "rtc_pending s w d"
  show "run_prog (device_port_calls co dp) (rtc_advanceTo (vnow h) d) (Some h) = (d, Some h)" if "s \<le> vnow h" "vnow h < w"
    using rtc_env_run [OF p that(1)] that(2) by simp
  show "run_prog (device_port_calls co dp) (rtc_advanceTo (vnow h) d) (Some h) =
      (d\<lparr>rc_fired := True, rc_alarm_set := False\<rparr>, DevicePort_lineOut co dp 0 1 h)" if "s < w" "vnow h = w"
    using rtc_env_run [OF p, of h co dp] that by auto
qed (simp add: rtc_fired_stays)

interpretation radio: one_shot_device co dp lora_advanceTo 0 1 "\<lambda>s w d. lo_busy d \<and> lo_tx_done_us d = w" "\<lambda>d. d\<lparr>lo_busy := False\<rparr>"
  for co :: "('c, lora) core" and dp
  by unfold_locales (auto simp: lora_advanceTo_def line_then_def device_port_calls_def)

text \<open>A sketch that polls the radio's line sees it rise when the air time is over.\<close>

lemma radio_done_reaches_sketch:
  fixes h :: "('c, lora) host"
  assumes "calm_app co" "serves co cb dp lora_advanceTo" "polling co" "pin_of (dp_lines dp) 0 = Some pin"
    and "clock_ok h" "tick_device h = Some cb" "tick_handler h = None" "deferred_effects h = []"
    and "lo_busy (mem h)" "vnow h < lo_tx_done_us (mem h)" "lo_tx_done_us (mem h) \<in> set (wake_at h)"
    and "us \<noteq> 0" "unat (vnow h) + unat us + unat (tick_us h) < 2 ^ 64"
  shows "\<exists>h'. onWait co us h = Some h' \<and> took us h h' \<and>
    (lo_busy (mem h') \<longleftrightarrow> vnow h' < lo_tx_done_us (mem h)) \<and>
    hw h' = (if vnow h' < lo_tx_done_us (mem h) then hw h else co_set_pin_value co pin 1 (hw h))"
proof -
  let ?w = "lo_tx_done_us (mem h)"
  have "radio.on_time co (vnow h) ?w (mem h) (hw h) cb pin h"
    unfolding radio.on_time_def using assms by simp
  then obtain h' where "onWait co us h = Some h'" "took us h h'"
      "radio.on_time co (vnow h) ?w (mem h) (hw h) cb pin h'"
    using radio.wait_on_time [OF assms(1-4) _ assms(10,5) _ assms(12,13)] assms(9) by blast
  then show ?thesis using assms(9) unfolding radio.on_time_def by (intro exI [of _ h']) (auto split: if_splits)
qed

text \<open>A free slot of the wake table takes the request.\<close>

lemma requestWake_free:
  assumes "length (wake_at h) = kWakeSlots" "0 \<in> set (wake_at h)" "vnow h < t"
  shows "\<exists>ws. requestWake co t h = (True, h\<lparr>wake_at := ws\<rparr>) \<and> t \<in> set ws"
proof (cases "list_ex (\<lambda>i. wake_at h ! i = t) [0..<kWakeSlots]")
  case True
  then have "t \<in> set (wake_at h)" using assms(1) by (auto simp: list_ex_iff)
  then show ?thesis using True assms(3) by (intro exI [of _ "wake_at h"]) (simp add: requestWake_def)
next
  case False
  obtain i where i: "List.find (\<lambda>i. wake_at h ! i = 0) [0..<kWakeSlots] = Some i" "i < kWakeSlots"
    using assms(1,2) by (cases "List.find (\<lambda>i. wake_at h ! i = 0) [0..<kWakeSlots]")
      (auto simp: find_upt_Some find_upt_None in_set_conv_nth)
  then show ?thesis using False assms(1,3)
    by (intro exI [of _ "(wake_at h)[i := t]"]) (auto simp: requestWake_def set_update_memI)
qed

lemma rtc_alarm_call:
  fixes h :: "('c, rtc) host"
  assumes "clock_ok h" "0 \<in> set (wake_at h)" "rc_based (mem h)" "in_range (mem h) (unat (vnow h))"
    "second_at (mem h) (unat (vnow h)) < unat a"
  defines "d \<equiv> (mem h)\<lparr>rc_reg := kRegAlarm, rc_alarm_sec := a, rc_alarm_set := True, rc_fired := False\<rparr>"
  assumes "vnow h < alarm_us d"
  shows "\<exists>h1. call_device co (dp, in_memory (rtc_i2cWrite (kRegAlarm # be32_bytes a) xfer)) h = Some (kI2cAck, h1) \<and>
    mem h1 = d \<and> hw h1 = hw h \<and> vnow h1 = vnow h \<and> tick_us h1 = tick_us h \<and> clock_ok h1 \<and> alarm_us d \<in> set (wake_at h1) \<and>
    tick_device h1 = tick_device h \<and> tick_handler h1 = tick_handler h \<and> deferred_effects h1 = deferred_effects h"
proof -
  let ?e = "enterDevice h"
  have "rc_base_sec (mem h) + ucast ((vnow h - rc_base_us (mem h)) div kUsPerSecond) < a"
    using assms(5) unat_second [OF assms(4)] by (simp add: word_less_nat_alt)
  then have late: "\<not> a \<le> rc_base_sec (mem h) + ucast ((vnow h - rc_base_us (mem h)) div kUsPerSecond)" by simp
  have e: "wake_at ?e = wake_at h" "length (wake_at ?e) = kWakeSlots"
    using kept_enter(4) [of h] assms(1) by (simp_all add: kept_def clock_ok_def wakes_ok_def)
  obtain ws where ws: "requestWake co (alarm_us d) ?e = (True, ?e\<lparr>wake_at := ws\<rparr>)" "alarm_us d \<in> set ws"
    using requestWake_free [of ?e "alarm_us d" co] e assms(2,7) by auto
  have "wakes_ok ?e" using assms(1) e(1) by (simp add: clock_ok_def wakes_ok_def)
  from wakes_ok_requestWake [OF this, of co "alarm_us d"] have "wakes_ok (?e\<lparr>wake_at := ws\<rparr>)" unfolding ws(1) by simp
  then have w: "length ws = kWakeSlots" "\<forall>v\<in>set ws. v = 0 \<or> vnow h < v" by (simp_all add: wakes_ok_def)
  have "run_device co (dp, in_memory (rtc_i2cWrite (kRegAlarm # be32_bytes a) xfer)) ?e = Some (kI2cAck, ?e\<lparr>wake_at := ws, mem := d\<rparr>)"
    using assms(3) late ws(1)
    by (simp add: run_device_def in_memory_def device_port_calls_def rtc_i2cWrite_def rtc_set_alarm_def armAlarm_def
        nowSeconds_def wake_then_def on_env_def kRegTime_def kRegAlarm_def Let_def d_def)
  then have "call_device co (dp, in_memory (rtc_i2cWrite (kRegAlarm # be32_bytes a) xfer)) h =
      Some (kI2cAck, leaveDevice (?e\<lparr>wake_at := ws, mem := d\<rparr>))" by (simp add: call_device_def)
  then show ?thesis using ws(2) w assms(1)
    by (auto simp: clock_ok_def wakes_ok_def leaveDevice_def enterDevice_def Let_def)
qed

lemma clock_ok_quiet: "quiet h h' \<Longrightarrow> clock_ok h' = clock_ok h"
  by (simp add: quiet_def clock_ok_def wakes_ok_def)

text \<open>The sketch sets the alarm over the bus.\<close>

lemma rtc_alarm_over_wire:
  fixes h :: "('c, rtc) host"
  assumes "passive_observers co" "wired co (ws_ops slot) dp rtc_device" "findWireDevice bus (ucast address) h = Some slot"
    and "clock_ok h" "deferred_effects h = []" "0 \<in> set (wake_at h)" "rc_based (mem h)" "in_range (mem h) (unat (vnow h))"
    "second_at (mem h) (unat (vnow h)) < unat a"
  defines "d \<equiv> (mem h)\<lparr>rc_reg := kRegAlarm, rc_alarm_sec := a, rc_alarm_set := True, rc_fired := False\<rparr>"
  assumes "vnow h < alarm_us d"
  shows "\<exists>h1. onWireWriteOn co bus address (kRegAlarm # be32_bytes a) stop h = Some (kI2cAck, h1) \<and>
    mem h1 = d \<and> hw h1 = hw h \<and> vnow h1 = vnow h \<and> tick_us h1 = tick_us h \<and> clock_ok h1 \<and> alarm_us d \<in> set (wake_at h1) \<and>
    tick_device h1 = tick_device h \<and> tick_handler h1 = tick_handler h \<and> deferred_effects h1 = deferred_effects h"
proof -
  define k where "k = i2c_continued bus address h"
  define data where "data = kRegAlarm # be32_bytes a"
  define s where "s = ''i2c.req addr='' @ hex2 address @ bus_tag bus @ '' data='' @ hexOf data 12 @ '' stop='' @ bool_dec stop @
    (if k then '' rs'' else [])"
  obtain req h1 where h1: "recordf co kApp 0 s h = (req, h1)" "quiet h h1" "mem h1 = mem h"
    using record_step [OF assms(1)] by blast
  have now: "vnow h1 = vnow h" "wake_at h1 = wake_at h" "hw h1 = hw h" "tick_us h1 = tick_us h" "tick_device h1 = tick_device h"
    "tick_handler h1 = tick_handler h" "deferred_effects h1 = deferred_effects h" using h1(2) by (simp_all add: quiet_def)
  obtain h2 where h2: "call_device co (dp, wire_write_op rtc_device data stop k) h1 = Some (kI2cAck, h2)"
      "mem h2 = d" "hw h2 = hw h" "vnow h2 = vnow h" "tick_us h2 = tick_us h" "clock_ok h2" "alarm_us d \<in> set (wake_at h2)"
      "tick_device h2 = tick_device h" "tick_handler h2 = tick_handler h" "deferred_effects h2 = deferred_effects h"
    using rtc_alarm_call [of h1 a co dp "\<lparr>xstop = stop, xcontinued = k\<rparr>"] assms(4,6-11) h1(3) now clock_ok_quiet [OF h1(2)]
    by (auto simp: wire_write_op_def rtc_device_def data_def d_def)
  let ?g = "i2c_close bus address stop h2"
  let ?h' = "emit co kDev req (''i2c.resp status='' @ decw kI2cAck) ?g"
  have q: "quiet ?g ?h'" by (rule emit_quiet)
  have "clock_ok ?g = clock_ok h2" by (simp add: i2c_close_def clock_ok_def wakes_ok_def)
  then have kept: "clock_ok ?h'" using clock_ok_quiet [OF q] h2(6) by simp
  have mem: "mem ?h' = d" using emit_mem [OF assms(1)] h2(2) by (simp add: i2c_close_def)
  have rest: "hw ?h' = hw h" "vnow ?h' = vnow h" "tick_us ?h' = tick_us h" "wake_at ?h' = wake_at h2" "tick_device ?h' = tick_device h"
    "tick_handler ?h' = tick_handler h" "deferred_effects ?h' = deferred_effects h"
    using q h2 by (simp_all add: quiet_def i2c_close_def)
  have "deliverDeferred co ?h' = Some ?h'" using rest(7) assms(5) by (intro deliverDeferred_empty) simp
  moreover have "call_device co (co_wire_write co (ws_ops slot) data stop k) h1 = Some (kI2cAck, h2)"
    using assms(2) h2(1) by (simp add: wired_def)
  ultimately have "onWireWriteOn co bus address data stop h = Some (kI2cAck, ?h')"
    unfolding onWireWriteOn_def Let_def k_def [symmetric] s_def [symmetric] h1(1) assms(3)
    by (simp add: i2c_status_defs)
  then show ?thesis using mem kept rest h2(7) by (auto simp: data_def)
qed

section \<open>Properties\<close>

text \<open>C5: an alarm set on the clock reaches a sketch that polls its pins at its second, whatever
  the sketch waits for. Set by a transfer on the bus of the modelled environment, it is accepted;
  after any sequence of waits, each of any length other than zero, one-shot waits and slices of the
  core's waiting loops mixed at will, the pin the interrupt line is wired to has been raised if the
  moment of the alarm has come, and nothing has changed if it has not. Every wait takes time, a
  one-shot wait just what it was asked for, so the moment does come.\<close>

theorem alarm_reaches_polling_sketch:
  fixes h :: "('c, rtc) host"
  assumes "calm_app co" "polling co" "serves co cb dp rtc_advanceTo" "pin_of (dp_lines dp) 0 = Some pin"
    and "findWireDevice bus (ucast address) h = Some slot" "wired co (ws_ops slot) dp rtc_device"
    and "clock_ok h" "tick_device h = Some cb" "tick_handler h = None" "deferred_effects h = []" "0 \<in> set (wake_at h)"
    and "rc_based (mem h)" "in_range (mem h) (unat (vnow h))" "second_at (mem h) (unat (vnow h)) < unat a"
    and "0 \<notin> set uss" "unat (vnow h) + sum_list (map unat uss) + unat (tick_us h) < 2 ^ 64"
  defines "due \<equiv> unat (rc_base_us (mem h)) + (unat a - unat (rc_base_sec (mem h))) * 1000000"
  assumes "due < 2 ^ 64"
  shows "\<exists>h1 h2. onWireWriteOn co bus address (kRegAlarm # be32_bytes a) stop h = Some (kI2cAck, h1) \<and>
    waits co uss h1 = Some h2 \<and> unat (vnow h) + length uss \<le> unat (vnow h2) \<and>
    unat (vnow h2) \<le> unat (vnow h) + sum_list (map unat uss) \<and>
    (kCoreLoopSliceUs \<notin> set uss \<longrightarrow> unat (vnow h2) = unat (vnow h) + sum_list (map unat uss)) \<and>
    (rc_fired (mem h2) \<longleftrightarrow> due \<le> unat (vnow h2)) \<and>
    hw h2 = (if due \<le> unat (vnow h2) then co_set_pin_value co pin 1 (hw h) else hw h)"
proof -
  let ?d = "(mem h)\<lparr>rc_reg := kRegAlarm, rc_alarm_sec := a, rc_alarm_set := True, rc_fired := False\<rparr>"
  have base: "unat (rc_base_sec (mem h)) \<le> unat a" "unat (rc_base_us (mem h)) \<le> unat (vnow h)"
    using assms(13,14) by (simp_all add: second_at_def in_range_def)
  have at: "alarm_at ?d = due" using base(1) by (simp add: alarm_at_def due_def unat_sub word_le_nat_alt)
  have w: "unat (alarm_us ?d) = due" using unat_alarm_us [of ?d] at assms(18) by simp
  have "second_at ?d (unat (vnow h)) < unat (rc_alarm_sec ?d)" using assms(14) by (simp add: second_at_def)
  moreover have "in_range ?d (unat (vnow h))" using assms(13) by (simp add: in_range_def second_at_def)
  ultimately have "unat (vnow h) < due"
    using alarm_second [of ?d "unat (vnow h)"] base(1) at by (simp add: word_le_nat_alt)
  then have lt: "vnow h < alarm_us ?d" using w by (simp add: word_less_nat_alt)
  obtain h1 where h1: "onWireWriteOn co bus address (kRegAlarm # be32_bytes a) stop h = Some (kI2cAck, h1)"
      "mem h1 = ?d" "hw h1 = hw h" "vnow h1 = vnow h" "tick_us h1 = tick_us h" "clock_ok h1" "alarm_us ?d \<in> set (wake_at h1)"
      "tick_device h1 = tick_device h" "tick_handler h1 = tick_handler h" "deferred_effects h1 = deferred_effects h"
    using rtc_alarm_over_wire [OF _ assms(6,5,7,10,11-14) lt, of stop] assms(2) by (auto simp: polling_def)
  have p: "rtc_pending (vnow h) (alarm_us ?d) ?d"
    using assms(12) base w at by (simp add: rtc_pending_def word_le_nat_alt)
  have "alarm_clock.on_time co (vnow h) (alarm_us ?d) ?d (hw h) cb pin h1"
    unfolding alarm_clock.on_time_def using h1 assms(8-10) lt by simp
  then obtain h2 where h2: "waits co uss h1 = Some h2" "unat (vnow h) + length uss \<le> unat (vnow h2)"
      "unat (vnow h2) \<le> unat (vnow h) + sum_list (map unat uss)"
      "kCoreLoopSliceUs \<notin> set uss \<longrightarrow> unat (vnow h2) = unat (vnow h) + sum_list (map unat uss)"
      "alarm_clock.on_time co (vnow h) (alarm_us ?d) ?d (hw h) cb pin h2"
    using alarm_clock.waits_on_time [OF assms(1,3,2,4) p lt h1(6) _ assms(15)] assms(16) h1(4,5) by auto
  have "vnow h2 < alarm_us ?d \<longleftrightarrow> \<not> due \<le> unat (vnow h2)" using w by (simp add: word_less_nat_alt not_le)
  then have "(rc_fired (mem h2) \<longleftrightarrow> due \<le> unat (vnow h2)) \<and>
      hw h2 = (if due \<le> unat (vnow h2) then co_set_pin_value co pin 1 (hw h) else hw h)"
    using h2(5) unfolding alarm_clock.on_time_def by (auto split: if_splits)
  then show ?thesis using h1(1) h2(1-4) by blast
qed

text \<open>The clock, set to second 100, at address 0x51 with its line wired to pin 7.\<close>

definition clock_slot :: wire_slot where
  "clock_slot = \<lparr>ws_used = True, ws_bus = kWire0, ws_address = 0x51, ws_ops = (0, 0)\<rparr>"

definition clock_host :: "(u8 \<Rightarrow> u8, rtc) host" where
  "clock_host = (init_host (\<lambda>_. 0) (new_rtc\<lparr>rc_based := True, rc_base_sec := 100\<rparr>))
     \<lparr>tick_device := Some (0, 0), wire_devices := [clock_slot]\<rparr>"

definition clock_core :: "(u8 \<Rightarrow> u8, rtc) core" where
  "clock_core = bound_core (snd (mapLine 0 7 new_device_port)) rtc_device"

theorem alarm_reaches_polling_sketch_witness:
  "\<exists>h1 h2. onWireWriteOn clock_core kWire0 0x51 (kRegAlarm # be32_bytes 101) True clock_host = Some (kI2cAck, h1) \<and>
    waits clock_core [500000, 2000000] h1 = Some h2 \<and> unat (vnow h2) = 2500000 \<and> rc_fired (mem h2) \<and> hw h2 7 = 1 \<and> hw h2 8 = 0"
proof -
  let ?dp = "snd (mapLine 0 7 new_device_port)" and ?h = clock_host
  note core = bound_core_ok [of ?dp rtc_device, folded clock_core_def]
  have "serves clock_core (0, 0) ?dp rtc_advanceTo" using core(4) by (simp add: rtc_device_def)
  moreover have "wired clock_core (ws_ops clock_slot) ?dp rtc_device" using core(5) by simp
  moreover have "findWireDevice kWire0 (ucast (0x51 :: u8)) ?h = Some clock_slot" by (simp add: findWireDevice_def clock_host_def clock_slot_def)
  moreover have "pin_of (dp_lines ?dp) 0 = Some 7" by code_simp
  moreover have "clock_ok ?h" "0 \<in> set (wake_at ?h)"
    by (simp_all add: clock_ok_def wakes_ok_def clock_host_def init_host_def kWakeSlots_def)
  moreover have "tick_handler ?h = None" "deferred_effects ?h = []" "rc_based (mem ?h)" "in_range (mem ?h) (unat (vnow ?h))"
    "second_at (mem ?h) (unat (vnow ?h)) < unat (101 :: u32)" "rc_base_us (mem ?h) = 0" "rc_base_sec (mem ?h) = 100"
    by (simp_all add: clock_host_def init_host_def new_rtc_def in_range_def second_at_def)
  moreover have "vnow ?h = 0" "tick_us ?h = 1000" "hw ?h = (\<lambda>_. 0)" "tick_device ?h = Some (0, 0)" by (simp_all add: clock_host_def init_host_def)
  ultimately show ?thesis
    using alarm_reaches_polling_sketch [where co = clock_core and dp = ?dp and pin = 7 and h = ?h and cb = "(0, 0)" and slot = clock_slot and
      bus = kWire0 and address = "0x51" and stop = True and a = 101 and uss = "[500000, 2000000]"] core(1,2,6)
    by (auto simp: kCoreLoopSliceUs_def)
qed

end
