(* ===== verification/Wire_Devices.thy ===== *)
theory Wire_Devices
  imports Environment_Devices I2c_Units Sht30_Model Imu_Model Qmp6988_Model Tape_Model Conformance_Probe
begin

text \<open>
  Devices on the I2C buses of the environment: a sequence of transfers through the hooks of
  \<open>src/src/embedbench_host.cpp\<close> is the same sequence of calls of the device's methods, with
  the answers handed back unchanged.
\<close>

section \<open>Plain devices\<close>

text \<open>
  A plain method asks its port for nothing but the time: it may drive lines, ask for wakes, take
  notes and send analog values or serial bytes, and does not look at what the port says to that.
\<close>

primrec plain_prog :: "('m, 'r) prog \<Rightarrow> bool" where
  "plain_prog (Ret r) = True"
| "plain_prog (Attached k) = plain_prog (k True)"
| "plain_prog (Now k) = (\<forall>t. plain_prog (k t))"
| "plain_prog (LineOut l v k) = plain_prog k"
| "plain_prog (AnalogOut l v k) = (k True = k False \<and> plain_prog (k False))"
| "plain_prog (AnalogOutMv l v k) = (k True = k False \<and> plain_prog (k False))"
| "plain_prog (RequestWake t k) = (k True = k False \<and> plain_prog (k False))"
| "plain_prog (Diagnose s k) = (k True = k False \<and> plain_prog (k False))"
| "plain_prog (SerialOut bs k) = (k True = k False \<and> plain_prog (k False))"
| "plain_prog (FrameOut b f d n k) = False"
| "plain_prog (FormatId s h k) = False"
| "plain_prog (MaxFrameBits b k) = False"
| "plain_prog (Get k) = False"
| "plain_prog (Upd g k) = False"

text \<open>What such a method answers at a given time.\<close>

primrec answer_at :: "u64 \<Rightarrow> ('m, 'r) prog \<Rightarrow> 'r" where
  "answer_at now (Ret r) = r"
| "answer_at now (Attached k) = answer_at now (k True)"
| "answer_at now (Now k) = answer_at now (k now)"
| "answer_at now (LineOut l v k) = answer_at now k"
| "answer_at now (AnalogOut l v k) = answer_at now (k True)"
| "answer_at now (AnalogOutMv l v k) = answer_at now (k True)"
| "answer_at now (RequestWake t k) = answer_at now (k True)"
| "answer_at now (Diagnose s k) = answer_at now (k True)"
| "answer_at now (SerialOut bs k) = answer_at now (k True)"
| "answer_at now (FrameOut b f d n k) = answer_at now (k True)"
| "answer_at now (FormatId s h k) = answer_at now (k 0)"
| "answer_at now (MaxFrameBits b k) = answer_at now (k 0)"
| "answer_at now (Get k) = answer_at now (k undefined)"
| "answer_at now (Upd g k) = answer_at now k"

lemma plain_andThen [simp]: "plain_prog m \<Longrightarrow> (\<And>r. plain_prog (f r)) \<Longrightarrow> plain_prog (andThen m f)"
  by (induction m) simp_all

lemma answer_at_andThen [simp]: "answer_at now (andThen m f) = answer_at now (f (answer_at now m))"
  by (induction m) simp_all

lemma plain_then [simp]:
  "plain_prog (note_then s k) = plain_prog k" "plain_prog (wake_then t k) = plain_prog k" "plain_prog (line_then line level k) = plain_prog k"
  "plain_prog (now_then f) = (\<forall>t. plain_prog (f t))"
  by (simp_all add: note_then_def wake_then_def line_then_def now_then_def)

lemma answer_at_then [simp]:
  "answer_at now (note_then s k) = answer_at now k" "answer_at now (wake_then t k) = answer_at now k"
  "answer_at now (line_then line level k) = answer_at now k" "answer_at now (now_then f) = answer_at now (f now)"
  by (simp_all add: note_then_def wake_then_def line_then_def now_then_def)

lemma plain_nowSeconds [simp]: "(\<And>sec. plain_prog (k sec)) \<Longrightarrow> plain_prog (nowSeconds d k)"
  by (simp add: nowSeconds_def)

text \<open>On the bench and on any environment that is attached, the answer is this one.\<close>

lemma bench_answer: "plain_prog m \<Longrightarrow> fst (run_prog (bench_port c) m b) = answer_at (bn_now b) m"
proof (induction m arbitrary: b)
  case (AnalogOutMv l v k)
  then show ?case using AnalogOutMv.IH [of "k True" b] by (simp add: bench_port_def)
qed (simp_all add: bench_port_def)

section \<open>Plain methods on the environment\<close>

text \<open>
  What a plain method leaves alone in an environment whose sketch polls: beside the frame of
  device code, the memory and the held effects.
\<close>

definition called :: "('c, 'm) host \<Rightarrow> ('c, 'm) host \<Rightarrow> bool" where
  "called h h' \<longleftrightarrow> device_frame h h' \<and> deferred_effects h' = deferred_effects h"

lemma called_refl [simp]: "called h h"
  by (simp add: called_def)

lemma called_trans: "called h h1 \<Longrightarrow> called h1 h2 \<Longrightarrow> called h h2"
  using device_frame_trans by (auto simp: called_def)

lemma called_quiet: "quiet h h' \<Longrightarrow> called h h'"
  by (simp add: called_def quiet_device_frame) (simp add: quiet_def)

lemma called_hw [simp]: "called h (h\<lparr>hw := c\<rparr>)"
  by (simp add: called_def device_frame_def quiet_def)

lemma mem_diag: "passive_observers co \<Longrightarrow> mem (diag co link s h) = mem h"
  by (simp add: diag_def emit_mem)

lemma polled_inject:
  assumes "polling co"
  shows "\<exists>h'. pinInject co kDev pin level h = Some h' \<and> called h h' \<and> mem h' = mem h"
proof -
  have "called h (emit co kDev 0 s h)" for s by (rule called_quiet [OF emit_quiet])
  then have "called h ((emit co kDev 0 s h)\<lparr>hw := c\<rparr>)" for s c by (rule called_trans [OF _ called_hw])
  then show ?thesis using assms by (simp add: pinInject_def polling_def edge_match_def Let_def emit_mem)
qed

lemma sink_called:
  assumes "polling co"
  shows "\<exists>h'. DevicePort_lineOut co dp line level h = Some h' \<and> called h h' \<and> mem h' = mem h"
    "called h (snd (DevicePort_analogOut co dp line raw h)) \<and> mem (snd (DevicePort_analogOut co dp line raw h)) = mem h"
    "called h (snd (DevicePort_analogOutMilliVolts co dp line mv h)) \<and> mem (snd (DevicePort_analogOutMilliVolts co dp line mv h)) = mem h"
    "called h (snd (requestWake co t h)) \<and> mem (snd (requestWake co t h)) = mem h"
    "called h (deviceNote co s h) \<and> mem (deviceNote co s h) = mem h"
    "called h (snd (uartInjectOn co kDev port data h)) \<and> mem (snd (uartInjectOn co kDev port data h)) = mem h"
proof -
  have p: "passive_observers co" using assms by (simp add: polling_def)
  have rec: "called h (emit co org 0 s h)" "called h (diag co 0 s h)" for org s and h :: "('a, 'b) host"
    by (rule called_quiet [OF emit_quiet], rule called_quiet [OF diag_quiet])
  have hw: "called h (g\<lparr>hw := c\<rparr>)" if "called h g" for g c and h :: "('a, 'b) host" using that by (rule called_trans [OF _ called_hw])
  show "\<exists>h'. DevicePort_lineOut co dp line level h = Some h' \<and> called h h' \<and> mem h' = mem h"
    using polled_inject [OF assms] by (auto simp: DevicePort_lineOut_def split: option.split)
  show "called h (snd (DevicePort_analogOut co dp line raw h)) \<and> mem (snd (DevicePort_analogOut co dp line raw h)) = mem h"
    "called h (snd (DevicePort_analogOutMilliVolts co dp line mv h)) \<and> mem (snd (DevicePort_analogOutMilliVolts co dp line mv h)) = mem h"
    by (auto simp: DevicePort_analogOut_def DevicePort_analogOutMilliVolts_def analogInject_def analogInjectMilliVolts_def Let_def
        emit_mem [OF p] rec hw split: option.split)
  have "deferred_effects (snd (requestWake co t h)) = deferred_effects h" "mem (snd (requestWake co t h)) = mem h"
    by (auto simp: requestWake_def emit_mem [OF p] quiet_rules split: option.split)
  then show "called h (snd (requestWake co t h)) \<and> mem (snd (requestWake co t h)) = mem h"
    using requestWake_frame by (simp add: called_def)
  show "called h (deviceNote co s h) \<and> mem (deviceNote co s h) = mem h"
    by (simp add: deviceNote_def emit_mem [OF p] rec)
  show "called h (snd (uartInjectOn co kDev port data h)) \<and> mem (snd (uartInjectOn co kDev port data h)) = mem h"
    using called_trans [OF hw [OF rec(1)] rec(2)]
    by (auto simp: uartInjectOn_def Let_def emit_mem [OF p] mem_diag [OF p] rec hw split: prod.split)
qed

definition runs_plain :: "('c, 'm) core \<Rightarrow> device_port \<Rightarrow> ('m, 'r) prog \<Rightarrow> bool" where
  "runs_plain co dp m \<longleftrightarrow> (\<forall>h. \<exists>h'. run_prog (device_port_calls co dp) m (Some h) = (answer_at (vnow h) m, Some h') \<and>
     called h h' \<and> mem h' = mem h)"

lemma runs_plain_after:
  assumes "runs_plain co dp k" "called h g \<and> mem g = mem h"
  shows "\<exists>h'. run_prog (device_port_calls co dp) k (Some g) = (answer_at (vnow h) k, Some h') \<and> called h h' \<and> mem h' = mem h"
proof -
  have "vnow g = vnow h" using assms(2) by (simp add: called_def device_frame_def quiet_def)
  then show ?thesis using assms called_trans unfolding runs_plain_def by metis
qed

lemma env_calls:
  "run_prog (device_port_calls co dp) (AnalogOut l v k) (Some h) =
     run_prog (device_port_calls co dp) (k (fst (DevicePort_analogOut co dp l v h))) (Some (snd (DevicePort_analogOut co dp l v h)))"
  "run_prog (device_port_calls co dp) (AnalogOutMv l mv k) (Some h) =
     run_prog (device_port_calls co dp) (k (fst (DevicePort_analogOutMilliVolts co dp l mv h)))
       (Some (snd (DevicePort_analogOutMilliVolts co dp l mv h)))"
  "run_prog (device_port_calls co dp) (RequestWake t k) (Some h) =
     run_prog (device_port_calls co dp) (k (fst (requestWake co t h))) (Some (snd (requestWake co t h)))"
  "run_prog (device_port_calls co dp) (Diagnose s k) (Some h) =
     run_prog (device_port_calls co dp) (k True) (Some (deviceNote co s h))"
  "run_prog (device_port_calls co dp) (SerialOut data k) (Some h) =
     run_prog (device_port_calls co dp) (k (fst (uartInjectOn co kDev (dp_serial dp) data h)))
       (Some (snd (uartInjectOn co kDev (dp_serial dp) data h)))"
  by (simp_all add: device_port_calls_def on_env_def split_beta)

lemma runs_plain_call:
  assumes "\<And>b. runs_plain co dp (k b)" "k True = k False" "called h g \<and> mem g = mem h"
  shows "\<exists>h'. run_prog (device_port_calls co dp) (k b) (Some g) = (answer_at (vnow h) (k True), Some h') \<and> called h h' \<and> mem h' = mem h"
proof -
  have "k b = k True" using assms(2) by (cases b) simp_all
  then show ?thesis using runs_plain_after [OF assms(1,3), of b] by simp
qed

lemma run_plain: "polling co \<Longrightarrow> plain_prog m \<Longrightarrow> runs_plain co dp m"
proof (induction m)
  case (LineOut l v k)
  then have k: "runs_plain co dp k" by simp
  show ?case unfolding runs_plain_def
  proof
    fix h
    obtain g where "DevicePort_lineOut co dp l v h = Some g" "called h g \<and> mem g = mem h"
      using sink_called(1) [OF LineOut.prems(1)] by blast
    with runs_plain_after [OF k, of h g] show "\<exists>h'. run_prog (device_port_calls co dp) (LineOut l v k) (Some h) =
        (answer_at (vnow h) (LineOut l v k), Some h') \<and> called h h' \<and> mem h' = mem h"
      by (simp add: device_port_calls_def)
  qed
next
  case (AnalogOut l v k)
  then have "runs_plain co dp (k b)" "k True = k False" for b by (cases b; simp)+
  from runs_plain_call [OF this sink_called(2) [OF AnalogOut.prems(1)]] show ?case by (simp add: runs_plain_def env_calls del: run_prog.simps)
next
  case (AnalogOutMv l v k)
  then have "runs_plain co dp (k b)" "k True = k False" for b by (cases b; simp)+
  from runs_plain_call [OF this sink_called(3) [OF AnalogOutMv.prems(1)]] show ?case by (simp add: runs_plain_def env_calls del: run_prog.simps)
next
  case (RequestWake t k)
  then have "runs_plain co dp (k b)" "k True = k False" for b by (cases b; simp)+
  from runs_plain_call [OF this sink_called(4) [OF RequestWake.prems(1)]] show ?case by (simp add: runs_plain_def env_calls del: run_prog.simps)
next
  case (Diagnose s k)
  then have "runs_plain co dp (k b)" "k True = k False" for b by (cases b; simp)+
  from runs_plain_call [OF this sink_called(5) [OF Diagnose.prems(1)]] show ?case by (simp add: runs_plain_def env_calls del: run_prog.simps)
next
  case (SerialOut data k)
  then have "runs_plain co dp (k b)" "k True = k False" for b by (cases b; simp)+
  from runs_plain_call [OF this sink_called(6) [OF SerialOut.prems(1)]] show ?case by (simp add: runs_plain_def env_calls del: run_prog.simps)
qed (simp_all add: runs_plain_def device_port_calls_def)

section \<open>Transfers\<close>

fun on_bus :: "('c, 'm) core \<Rightarrow> wire_bus \<Rightarrow> u8 \<Rightarrow> transfer list \<Rightarrow> ('c, 'm) host \<Rightarrow> (outcome list \<times> ('c, 'm) host) option" where
  "on_bus co bus address [] h = Some ([], h)"
| "on_bus co bus address (BusWrite data stop # ts) h = do {
     (status, h1) \<leftarrow> onWireWriteOn co bus address data stop h;
     (os, h2) \<leftarrow> on_bus co bus address ts h1;
     Some (Wrote status # os, h2)
   }"
| "on_bus co bus address (BusRead buffer stop # ts) h = do {
     (count, data, h1) \<leftarrow> onWireReadOn co bus address buffer stop h;
     (os, h2) \<leftarrow> on_bus co bus address ts h1;
     Some (Got (take count data) # os, h2)
   }"

text \<open>
  The device alone, at one moment. A transfer continues the one before it when that ended without
  a stop; a read that claims more than the buffer holds supplies nothing.
\<close>

fun on_device :: "('d, 'd) device \<Rightarrow> u64 \<Rightarrow> bool \<Rightarrow> transfer list \<Rightarrow> 'd \<Rightarrow> outcome list \<times> 'd" where
  "on_device dev now continued [] d = ([], d)"
| "on_device dev now continued (BusWrite data stop # ts) d =
     (case answer_at now (dv_i2c_write dev data \<lparr>xstop = stop, xcontinued = continued\<rparr> d) of (status, d1) \<Rightarrow>
      (case on_device dev now (\<not> stop) ts d1 of (os, d2) \<Rightarrow> (Wrote status # os, d2)))"
| "on_device dev now continued (BusRead buffer stop # ts) d =
     (case answer_at now (dv_i2c_read dev (length buffer) \<lparr>xstop = stop, xcontinued = continued\<rparr> d) of (n, out, d1) \<Rightarrow>
      (case on_device dev now (\<not> stop) ts d1 of (os, d2) \<Rightarrow>
        (Got (if n > length buffer then [] else take n (out @ drop (length out) buffer)) # os, d2)))"

definition plain_on_bus :: "('d, 'd) device \<Rightarrow> bool" where
  "plain_on_bus dev \<longleftrightarrow> (\<forall>data xfer d. plain_prog (dv_i2c_write dev data xfer d)) \<and> (\<forall>len xfer d. plain_prog (dv_i2c_read dev len xfer d))"

section \<open>One transfer\<close>

text \<open>A device call as the hooks see it.\<close>

definition served :: "('c, 'm) host \<Rightarrow> ('c, 'm) host \<Rightarrow> bool" where
  "served h h' \<longleftrightarrow> called h (h'\<lparr>max_device_depth := max_device_depth h\<rparr>)"

lemma served_diag: "served h h' \<Longrightarrow> served h (diag co link s h')"
  using diag_quiet [of h' co link s] by (simp add: served_def called_def device_frame_def quiet_def)

lemma served_after: "quiet h h1 \<Longrightarrow> served h1 h2 \<Longrightarrow> served h h2"
  by (simp add: served_def called_def device_frame_def quiet_def)

lemma call_plain:
  assumes "polling co" "device_depth h = 0" "plain_prog (m (mem h))" "answer_at (vnow h) (m (mem h)) = (r, d)"
  shows "\<exists>h'. call_device co (dp, in_memory m) h = Some (r, h') \<and> mem h' = d \<and> served h h'"
proof -
  let ?e = "enterDevice h"
  obtain h1 where h1: "run_prog (device_port_calls co dp) (m (mem h)) (Some ?e) = ((r, d), Some h1)" "called ?e h1"
    using run_plain [OF assms(1,3), of dp] assms(4) unfolding runs_plain_def by (metis kept_enter(1))
  then have "run_device co (dp, in_memory m) ?e = Some (r, h1\<lparr>mem := d\<rparr>)"
    by (simp add: run_device_def in_memory_def) (simp add: device_port_calls_def)
  moreover have "served h (leaveDevice (h1\<lparr>mem := d\<rparr>))"
    using h1(2) assms(2)
    by (simp add: served_def called_def device_frame_def quiet_def leaveDevice_def enterDevice_def Let_def split: if_splits)
  ultimately show ?thesis by (simp add: call_device_def leaveDevice_def)
qed

text \<open>What a transfer leaves alone.\<close>

definition bus_kept :: "wire_bus \<Rightarrow> u16 \<Rightarrow> ('c, 'm) host \<Rightarrow> ('c, 'm) host \<Rightarrow> bool" where
  "bus_kept bus opened h h' \<longleftrightarrow>
     called h (h'\<lparr>max_device_depth := max_device_depth h, i2c_open_address := i2c_open_address h\<rparr>) \<and>
     i2c_open_address h' = (i2c_open_address h)(bus := opened)"

lemma bus_keptD:
  assumes "bus_kept bus opened h h'"
  shows "device_depth h' = device_depth h" "deferred_effects h' = deferred_effects h" "wire_devices h' = wire_devices h"
    "findWireDevice b a h' = findWireDevice b a h" "i2c_open_address h' bus = opened" "vnow h' = vnow h"
  using assms by (auto simp: bus_kept_def called_def device_frame_def quiet_def findWireDevice_def)

text \<open>The end of a transfer: the bus is closed or left open, the response is recorded.\<close>

lemma close_transfer:
  assumes "passive_observers co" "served h h3" "deferred_effects h = []"
  shows "\<exists>h'. deliverDeferred co (emit co kDev req s (i2c_close bus address stop h3)) = Some h' \<and> mem h' = mem h3 \<and>
    bus_kept bus (if stop then 0xFFFF else ucast address) h h'"
proof -
  let ?g = "i2c_close bus address stop h3"
  let ?h' = "emit co kDev req s ?g"
  have q: "quiet ?g ?h'" by (rule emit_quiet)
  have "deferred_effects ?h' = []" using q assms(2,3) by (simp add: quiet_def served_def called_def i2c_close_def)
  moreover have "mem ?h' = mem h3" using emit_mem [OF assms(1)] by (simp add: i2c_close_def)
  moreover have "bus_kept bus (if stop then 0xFFFF else ucast address) h ?h'"
    using q assms(2) by (simp add: bus_kept_def quiet_def served_def called_def device_frame_def i2c_close_def)
  ultimately show ?thesis using deliverDeferred_empty by blast
qed

lemma write_transfer:
  assumes "polling co" "device_depth h = 0" "deferred_effects h = []"
    and dev: "findWireDevice bus (ucast address) h = Some slot" "wired co (ws_ops slot) dp dev" "plain_on_bus dev"
    and "answer_at (vnow h) (dv_i2c_write dev data \<lparr>xstop = stop, xcontinued = i2c_continued bus address h\<rparr> (mem h)) = (status, d)"
  shows "\<exists>h'. onWireWriteOn co bus address data stop h = Some (status, h') \<and> mem h' = d \<and>
    bus_kept bus (if stop then 0xFFFF else ucast address) h h'"
proof -
  have quiet_obs: "passive_observers co" using assms(1) by (simp add: polling_def)
  define k where "k = i2c_continued bus address h"
  define s where "s = ''i2c.req addr='' @ hex2 address @ bus_tag bus @ '' data='' @ hexOf data 12 @ '' stop='' @ bool_dec stop @
    (if k then '' rs'' else [])"
  obtain req h1 where h1: "recordf co kApp 0 s h = (req, h1)" "quiet h h1" "mem h1 = mem h"
    using record_step [OF quiet_obs] by blast
  have "device_depth h1 = 0" "plain_prog (dv_i2c_write dev data \<lparr>xstop = stop, xcontinued = k\<rparr> (mem h1))"
    "answer_at (vnow h1) (dv_i2c_write dev data \<lparr>xstop = stop, xcontinued = k\<rparr> (mem h1)) = (status, d)"
    using h1(2,3) assms(2,7) dev(3) by (simp_all add: quiet_def k_def plain_on_bus_def)
  from call_plain [where m = "dv_i2c_write dev data \<lparr>xstop = stop, xcontinued = k\<rparr>", OF assms(1) this, of dp] obtain h2 where
    h2: "call_device co (co_wire_write co (ws_ops slot) data stop k) h1 = Some (status, h2)" "mem h2 = d" "served h1 h2"
    using dev(2) by (auto simp: wired_def wire_write_op_def)
  define s1 where "s1 = ''diag.i2c_status addr='' @ hex2 address @ '' status='' @ decw status"
  define h3 where "h3 = (if status > kI2cOther then diag co req s1 h2 else h2)"
  have "served h h3" "mem h3 = d"
    using served_after [OF h1(2) h2(3)] served_diag [OF served_after [OF h1(2) h2(3)]] mem_diag [OF quiet_obs] h2(2) by (simp_all add: h3_def)
  then obtain h' where "deliverDeferred co (emit co kDev req (''i2c.resp status='' @ decw status) (i2c_close bus address stop h3)) = Some h'"
      "mem h' = d" "bus_kept bus (if stop then 0xFFFF else ucast address) h h'"
    using close_transfer [OF quiet_obs _ assms(3)] by metis
  moreover from this(1) have "onWireWriteOn co bus address data stop h = Some (status, h')"
    unfolding onWireWriteOn_def Let_def k_def [symmetric] s_def [symmetric] h1(1) dev(1)
    using h2(1) by (cases "status > kI2cOther") (simp_all add: h3_def s1_def)
  ultimately show ?thesis by blast
qed

lemma read_transfer:
  assumes "polling co" "device_depth h = 0" "deferred_effects h = []"
    and dev: "findWireDevice bus (ucast address) h = Some slot" "wired co (ws_ops slot) dp dev" "plain_on_bus dev"
    and "answer_at (vnow h) (dv_i2c_read dev (length buffer) \<lparr>xstop = stop, xcontinued = i2c_continued bus address h\<rparr> (mem h)) = (n, out, d)"
  shows "\<exists>h' count data. onWireReadOn co bus address buffer stop h = Some (count, data, h') \<and> mem h' = d \<and>
    take count data = (if n > length buffer then [] else take n (out @ drop (length out) buffer)) \<and>
    bus_kept bus (if stop then 0xFFFF else ucast address) h h'"
proof -
  have quiet_obs: "passive_observers co" using assms(1) by (simp add: polling_def)
  define k where "k = i2c_continued bus address h"
  define s where "s = ''i2c.rd.req addr='' @ hex2 address @ bus_tag bus @ '' req='' @ decu (length buffer) @ '' stop='' @
    bool_dec stop @ (if k then '' rs'' else [])"
  define m where "m = (\<lambda>d. andThen (dv_i2c_read dev (length buffer) \<lparr>xstop = stop, xcontinued = k\<rparr> d) (\<lambda>answer. Ret (read_into buffer answer)))"
  let ?data = "out @ drop (length out) buffer"
  obtain req h1 where h1: "recordf co kApp 0 s h = (req, h1)" "quiet h h1" "mem h1 = mem h"
    using record_step [OF quiet_obs] by blast
  have "device_depth h1 = 0" "plain_prog (m (mem h1))" "answer_at (vnow h1) (m (mem h1)) = ((n, ?data), d)"
    using h1(2,3) assms(2,7) dev(3) by (simp_all add: quiet_def k_def m_def plain_on_bus_def read_into_def)
  from call_plain [where m = m, OF assms(1) this, of dp] obtain h2 where
    h2: "call_device co (co_wire_read co (ws_ops slot) buffer stop k) h1 = Some ((n, ?data), h2)" "mem h2 = d" "served h1 h2"
    using dev(2) by (auto simp: wired_def wire_read_op_def m_def)
  define s1 where "s1 = ''diag.i2c_read_length addr='' @ hex2 address @ '' got='' @ decu n @ '' max='' @ decu (length buffer)"
  define h3 where "h3 = (if n > length buffer then diag co req s1 h2 else h2)"
  define c where "c = (if n > length buffer then 0 else n)"
  have "served h h3" "mem h3 = d"
    using served_after [OF h1(2) h2(3)] served_diag [OF served_after [OF h1(2) h2(3)]] mem_diag [OF quiet_obs] h2(2) by (simp_all add: h3_def)
  then obtain h' where h': "deliverDeferred co (emit co kDev req (''i2c.rd.resp len='' @ decu c @ '' data='' @ hexOf (take c ?data) 12)
      (i2c_close bus address stop h3)) = Some h'" "mem h' = d" "bus_kept bus (if stop then 0xFFFF else ucast address) h h'"
    using close_transfer [OF quiet_obs _ assms(3)] by metis
  have "onWireReadOn co bus address buffer stop h = Some (c, ?data, h')"
    unfolding onWireReadOn_def Let_def k_def [symmetric] s_def [symmetric] h1(1) dev(1)
    using h2(1) h'(1) by (cases "n > length buffer") (simp_all add: h3_def s1_def c_def)
  then show ?thesis using h'(2,3) by (auto simp: c_def)
qed

section \<open>Sequences of transfers\<close>

lemma continued_after:
  assumes "findWireDevice bus (ucast address) h = Some slot" "bus_kept bus (if stop then 0xFFFF else ucast address) h h'"
  shows "i2c_continued bus address h' \<longleftrightarrow> \<not> stop"
  using bus_keptD [OF assms(2)] assms(1) by (auto simp: i2c_continued_def)

lemma bus_kept_trans: "bus_kept bus a h h1 \<Longrightarrow> bus_kept bus b h1 h2 \<Longrightarrow> bus_kept bus b h h2"
  by (simp add: bus_kept_def called_def device_frame_def quiet_def)

lemma on_bus_on_device:
  assumes "polling co" "wired co (ws_ops slot) dp dev" "plain_on_bus dev"
    and "device_depth h = 0" "deferred_effects h = []" "findWireDevice bus (ucast address) h = Some slot"
    and "on_device dev (vnow h) (i2c_continued bus address h) ts (mem h) = (os, d)"
  shows "\<exists>h'. on_bus co bus address ts h = Some (os, h') \<and> mem h' = d \<and> bus_kept bus (i2c_open_address h' bus) h h'"
  using assms(4-)
proof (induction ts arbitrary: h os)
  case Nil
  then show ?case by (simp add: bus_kept_def)
next
  case (Cons t ts)
  note now = assms(1) Cons.prems(1,2,3) assms(2,3)
  have step: "\<exists>h'. on_bus co bus address ts h1 = Some (os1, h') \<and> mem h' = d \<and> bus_kept bus (i2c_open_address h' bus) h h'"
    if "bus_kept bus (if stop then 0xFFFF else ucast address) h h1" "on_device dev (vnow h) (\<not> stop) ts (mem h1) = (os1, d)" for h1 os1 stop
  proof -
    have "device_depth h1 = 0" "deferred_effects h1 = []" "findWireDevice bus (ucast address) h1 = Some slot" "vnow h1 = vnow h"
      using bus_keptD [OF that(1)] Cons.prems(1-3) by simp_all
    with Cons.IH [OF this(1-3)] show ?thesis
      using that continued_after [OF Cons.prems(3) that(1)] bus_kept_trans [OF that(1)] by auto
  qed
  show ?case
  proof (cases t)
    case (BusWrite data stop)
    then obtain status d1 os1 where dev: "answer_at (vnow h) (dv_i2c_write dev data \<lparr>xstop = stop, xcontinued = i2c_continued bus address h\<rparr> (mem h)) =
        (status, d1)" "on_device dev (vnow h) (\<not> stop) ts d1 = (os1, d)" "os = Wrote status # os1"
      using Cons.prems(4) by (auto split: prod.splits)
    obtain h1 where "onWireWriteOn co bus address data stop h = Some (status, h1)" "mem h1 = d1"
        "bus_kept bus (if stop then 0xFFFF else ucast address) h h1"
      using write_transfer [OF now dev(1)] by blast
    then show ?thesis using step [of stop h1 os1] dev(2,3) BusWrite by auto
  next
    case (BusRead buffer stop)
    then obtain n out d1 os1 where dev: "answer_at (vnow h) (dv_i2c_read dev (length buffer) \<lparr>xstop = stop, xcontinued = i2c_continued bus address h\<rparr> (mem h)) =
        (n, out, d1)" "on_device dev (vnow h) (\<not> stop) ts d1 = (os1, d)"
        "os = Got (if n > length buffer then [] else take n (out @ drop (length out) buffer)) # os1"
      using Cons.prems(4) by (auto split: prod.splits)
    obtain h1 count data where "onWireReadOn co bus address buffer stop h = Some (count, data, h1)" "mem h1 = d1"
        "take count data = (if n > length buffer then [] else take n (out @ drop (length out) buffer))"
        "bus_kept bus (if stop then 0xFFFF else ucast address) h h1"
      using read_transfer [OF now dev(1)] by blast
    then show ?thesis using step [of stop h1 os1] dev(2,3) BusRead by auto
  qed
qed

section \<open>The catalog\<close>

text \<open>Every device of the catalog that answers on an I2C bus is plain there.\<close>

lemma plain_repeat_while [simp]: "(\<And>d. plain_prog (body d)) \<Longrightarrow> plain_prog (repeat_while c body n d)"
  by (induction n arbitrary: d) simp_all

text \<open>A register map is plain with hooks that are.\<close>

lemma plain_rt_write: "(\<And>address bs d. plain_prog (afterWrite address bs d)) \<Longrightarrow> plain_prog (rt_i2cWrite afterWrite data xfer d)"
  by (auto simp: rt_i2cWrite_def rt_refuse_def Let_def split: list.split option.split)

lemma plain_rt_read: "(\<And>address len d. plain_prog (onRead address len d)) \<Longrightarrow> plain_prog (rt_i2cRead onRead len xfer d)"
  by (simp add: rt_i2cRead_def rt_table_read_def Let_def split: option.split prod.split)

lemma plain_rtc: "plain_on_bus rtc_device"
  by (auto simp: plain_on_bus_def rtc_device_def rtc_i2cWrite_def rtc_i2cRead_def rtc_set_alarm_def armAlarm_def Let_def)

lemma plain_rt_write_table [simp]: "plain_prog (rt_i2cWrite no_after_write data xfer d)"
  by (rule plain_rt_write) (simp add: no_after_write_def)

lemma plain_rt_read_table [simp]: "plain_prog (rt_i2cRead pass_through len xfer d)"
  by (rule plain_rt_read) (simp add: pass_through_def)

lemma plain_regtable: "plain_on_bus regtable_device"
  by (simp add: plain_on_bus_def regtable_device_def)

lemma plain_temp: "plain_on_bus temp_device"
  by (auto simp: plain_on_bus_def temp_device_def temp_i2cWrite_def temp_i2cRead_def Let_def)

lemma plain_regmap: "plain_on_bus regmap_device"
  by (auto simp: plain_on_bus_def regmap_device_def regmap_i2cWrite_def regmap_i2cRead_def Let_def)

lemma plain_env: "plain_on_bus env_device"
  by (auto simp: plain_on_bus_def env_device_def env_i2cWrite_def env_i2cRead_def Let_def)

lemma plain_encoder: "plain_on_bus encoder_device"
  by (auto simp: plain_on_bus_def encoder_device_def encoder_i2cWrite_def encoder_i2cRead_def Let_def split: prod.split)

lemma plain_faulty: "plain_on_bus faulty_device"
  by (auto simp: plain_on_bus_def faulty_device_def faulty_i2cWrite_def faulty_i2cRead_def Let_def)

lemma plain_codec: "plain_on_bus codec_device"
  by (auto simp: plain_on_bus_def codec_device_def codec_i2cWrite_def codec_i2cRead_def Let_def split: prod.split)

lemma plain_imu: "plain_on_bus imu_device"
  by (auto simp: plain_on_bus_def imu_device_def imu_i2cWrite_def imu_i2cRead_def imu_updateIrq_def Let_def)

lemma plain_sht30: "plain_on_bus sht30_device"
  by (simp add: plain_on_bus_def sht30_device_def sht_i2cWrite_def sht_i2cRead_def sht_command_def sht_start_def Let_def)

lemma plain_qmp_complete [simp]: "plain_prog (qmp_complete d)"
  by (simp add: qmp_complete_def Let_def)

lemma plain_qmp_afterWrite: "plain_prog (qmp_afterWrite address bs d)"
  by (simp add: qmp_afterWrite_def Let_def)

lemma plain_qmp_onRead: "plain_prog (qmp_onRead address len d)"
  by (simp add: qmp_onRead_def qmp_advanceTo_def qmp_loop_def Let_def)

lemma plain_qmp: "plain_on_bus qmp_device"
  by (simp add: plain_on_bus_def qmp_device_def qmp_i2cWrite_def qmp_i2cRead_def plain_rt_write plain_rt_read
      plain_qmp_afterWrite plain_qmp_onRead)

text \<open>The tape takes its busy times from the clock and asks for the wakes of its serial steps.\<close>

lemma plain_tape_mismatch [simp]: "(\<And>d. plain_prog (k d)) \<Longrightarrow> plain_prog (tape_mismatch t k d)"
  by (simp add: tape_mismatch_def Let_def)

lemma plain_tape_ended [simp]: "(\<And>d. plain_prog (k d)) \<Longrightarrow> plain_prog (tape_ended t k d)"
  by (simp add: tape_ended_def Let_def)

lemma plain_tape_check_stop [simp]: "(\<And>d. plain_prog (k d)) \<Longrightarrow> plain_prog (tape_check_stop s xfer k d)"
  by (simp add: tape_check_stop_def)

lemma plain_tape_arm [simp]: "plain_prog (tape_arm d)" "plain_prog (tape_finishStep d)"
  by (simp_all add: tape_finishStep_def tape_arm_def Let_def split: option.split)

lemma plain_tape_busy [simp]: "plain_prog (tape_busy d)"
  by (simp add: tape_busy_def Let_def split: option.split)

lemma plain_tape: "plain_on_bus tape_device"
  by (simp add: plain_on_bus_def tape_device_def tape_i2cWrite_def tape_i2cRead_def tape_write_now_def tape_read_now_def Let_def
      split: option.split prod.split)

lemma plain_probe: "plain_on_bus probe_device"
  by (simp add: plain_on_bus_def probe_device_def probe_i2cWrite_def probe_i2cRead_def probe_enter_def Let_def)

lemmas plain_catalog = plain_rtc plain_regtable plain_temp plain_regmap plain_env plain_encoder plain_faulty plain_codec
  plain_imu plain_sht30 plain_qmp plain_tape plain_probe

section \<open>Registers over the bus\<close>

text \<open>What a plain method answers is what some run of it gives.\<close>

lemma answer_run:
  fixes m :: "('m, 'r) prog"
  assumes "plain_prog m"
  obtains hp :: "((u8 \<Rightarrow> u8, 'm) host option, 'm) host_port" and p q where "run_prog hp m p = (answer_at now m, q)"
proof -
  let ?h = "undefined\<lparr>vnow := now\<rparr> :: (u8 \<Rightarrow> u8, 'm) host"
  obtain q where "run_prog (device_port_calls (bound_core undefined undefined) undefined) m (Some ?h) = (answer_at (vnow ?h) m, q)"
    using run_plain [OF bound_core_ok(2) assms] unfolding runs_plain_def by blast
  then show thesis using that by simp
qed

lemma rt_write_on_bus:
  fixes d :: regtable
  assumes "rt_ok d" "answer_at now (rt_i2cWrite no_after_write (a # bs) xfer d :: (regtable, u8 \<times> regtable) prog) = (status, d1)"
  shows "(status = kI2cAck \<longleftrightarrow> bs = [] \<or> accepts_write d a bs) \<and> rt_ok d1 \<and> rt_pointer d1 = a \<and>
    rt_bytes d1 = (if accepts_write d a bs \<and> bs \<noteq> [] then (rt_bytes d)(a \<mapsto> overwrite_bytes bs (the (rt_bytes d a))) else rt_bytes d)"
proof -
  obtain hp :: "((u8 \<Rightarrow> u8, regtable) host option, regtable) host_port" and p q where
    "run_prog hp (rt_i2cWrite no_after_write (a # bs) xfer d) p = ((status, d1), q)"
    using answer_run [OF plain_rt_write_table, of "a # bs" xfer d] assms(2) by metis
  from rt_write_map [OF assms(1) this] show ?thesis .
qed

lemma rt_read_on_bus:
  fixes d :: regtable
  assumes "rt_ok d" "xcontinued xfer" "answer_at now (rt_i2cRead pass_through len xfer d :: (regtable, nat \<times> bytes \<times> regtable) prog) = (n, out, d1)"
  shows "out = (case rt_bytes d (rt_pointer d) of None \<Rightarrow> [] | Some v \<Rightarrow> take len v) \<and> n = length out \<and> rt_bytes d1 = rt_bytes d"
proof -
  obtain hp :: "((u8 \<Rightarrow> u8, regtable) host option, regtable) host_port" and p q where
    "run_prog hp (rt_i2cRead pass_through len xfer d) p = ((n, out, d1), q)"
    using answer_run [OF plain_rt_read_table, of len xfer d] assms(3) by metis
  from rt_read_map [OF assms(1) this] assms(2) show ?thesis by simp
qed

text \<open>Write a register, point at it, read it back after a repeated start.\<close>

definition write_then_read :: "u8 \<Rightarrow> bytes \<Rightarrow> bytes \<Rightarrow> transfer list" where
  "write_then_read a bs buffer = [BusWrite (a # bs) True, BusWrite [a] False, BusRead buffer True]"

lemma write_then_read_on_device:
  assumes "rt_ok d" "accepts_write d a bs" "bs \<noteq> []"
  shows "\<exists>d1. on_device regtable_device now continued (write_then_read a bs buffer) d =
      ([Wrote kI2cAck, Wrote kI2cAck, Got (take (length buffer) (overwrite_bytes bs (the (rt_bytes d a))))], d1) \<and>
    rt_bytes d1 = (rt_bytes d)(a \<mapsto> overwrite_bytes bs (the (rt_bytes d a)))"
proof -
  let ?m = "(rt_bytes d)(a \<mapsto> overwrite_bytes bs (the (rt_bytes d a)))"
  let ?answer = "\<lambda>data xfer d. answer_at now (rt_i2cWrite no_after_write data xfer d :: (regtable, u8 \<times> regtable) prog)"
  obtain d1 where w: "?answer (a # bs) \<lparr>xstop = True, xcontinued = continued\<rparr> d = (kI2cAck, d1)" "rt_ok d1" "rt_bytes d1 = ?m"
    using rt_write_on_bus [OF assms(1), of now a bs "\<lparr>xstop = True, xcontinued = continued\<rparr>"] assms(2,3) by (metis surj_pair)
  obtain d2 where p: "?answer [a] \<lparr>xstop = False, xcontinued = False\<rparr> d1 = (kI2cAck, d2)"
      "rt_ok d2" "rt_pointer d2 = a" "rt_bytes d2 = ?m"
    using rt_write_on_bus [OF w(2), of now a "[]" "\<lparr>xstop = False, xcontinued = False\<rparr>"] w(3) by (metis surj_pair)
  obtain n out d3 where r: "answer_at now (rt_i2cRead pass_through (length buffer) \<lparr>xstop = True, xcontinued = True\<rparr> d2 ::
      (regtable, nat \<times> bytes \<times> regtable) prog) = (n, out, d3)"
    by (metis surj_pair)
  with rt_read_on_bus [OF p(2) _ r] p(3,4)
  have "out = take (length buffer) (overwrite_bytes bs (the (rt_bytes d a)))" "n = length out" "rt_bytes d3 = ?m" by simp_all
  then show ?thesis using w(1) p(1) r by (simp add: write_then_read_def regtable_device_def min_def)
qed

section \<open>Properties\<close>

text \<open>C12: the environment carries transfers to a bound device and its answers back unchanged. Any
  sequence of writes and reads through the bus hooks, on a device of the catalog, gives the master
  what the same sequence of method calls gives, with each transfer marked as continuing the one
  before it exactly when that ended without a stop, and leaves the device in the same state;
  whatever the device drives, notes or asks for on the way, it takes no time, nothing is held back
  and no other bus is touched.\<close>

theorem bus_carries_transfers:
  assumes "polling co" "wired co (ws_ops slot) dp dev" "plain_on_bus dev" "device_depth h = 0" "deferred_effects h = []"
    and "findWireDevice bus (ucast address) h = Some slot"
  shows "\<exists>h'. on_bus co bus address ts h = Some (fst (on_device dev (vnow h) (i2c_continued bus address h) ts (mem h)), h') \<and>
    mem h' = snd (on_device dev (vnow h) (i2c_continued bus address h) ts (mem h)) \<and> device_depth h' = 0 \<and> deferred_effects h' = [] \<and>
    vnow h' = vnow h \<and> (\<forall>b. b \<noteq> bus \<longrightarrow> i2c_open_address h' b = i2c_open_address h b)"
proof -
  obtain h' where h': "on_bus co bus address ts h = Some (fst (on_device dev (vnow h) (i2c_continued bus address h) ts (mem h)), h')"
      "mem h' = snd (on_device dev (vnow h) (i2c_continued bus address h) ts (mem h))" "bus_kept bus (i2c_open_address h' bus) h h'"
    using on_bus_on_device [OF assms prod.collapse [symmetric]] by blast
  have "i2c_open_address h' = (i2c_open_address h)(bus := i2c_open_address h' bus)" using h'(3) unfolding bus_kept_def by blast
  then have "i2c_open_address h' b = i2c_open_address h b" if "b \<noteq> bus" for b using that by (metis fun_upd_other)
  then show ?thesis using h' bus_keptD [OF h'(3)] assms(4,5) by auto
qed

text \<open>A board with the sample table at address 0x44.\<close>

definition table_slot :: wire_slot where
  "table_slot = \<lparr>ws_used = True, ws_bus = kWire0, ws_address = 0x44, ws_ops = (0, 0)\<rparr>"

definition table_host :: "(u8 \<Rightarrow> u8, regtable) host" where
  "table_host = (init_host (\<lambda>_. 0) (new_regtable sample_table (replicate 96 0)))\<lparr>wire_devices := [table_slot]\<rparr>"

lemma table_host_ok:
  "device_depth table_host = 0" "deferred_effects table_host = []" "findWireDevice kWire0 (ucast (0x44 :: u8)) table_host = Some table_slot"
  "mem table_host = new_regtable sample_table (replicate 96 0)"
  by (simp_all add: table_host_def table_slot_def init_host_def findWireDevice_def)

theorem bus_carries_transfers_witness:
  "\<exists>h'. on_bus (bound_core new_device_port regtable_device) kWire0 0x44 (write_then_read 1 [0xAA] [0, 0]) table_host =
     Some ([Wrote kI2cAck, Wrote kI2cAck, Got [0xAA, 0x22]], h') \<and> vnow h' = vnow table_host"
proof -
  let ?co = "bound_core new_device_port regtable_device"
  have "wired ?co (ws_ops table_slot) new_device_port regtable_device" by (rule bound_core_ok)
  moreover obtain d1 where "on_device regtable_device (vnow table_host) (i2c_continued kWire0 0x44 table_host) (write_then_read 1 [0xAA] [0, 0]) (mem table_host) =
      ([Wrote kI2cAck, Wrote kI2cAck, Got [0xAA, 0x22]], d1)"
    using write_then_read_on_device [OF sample_table_ok(1,3), of "vnow table_host" "i2c_continued kWire0 0x44 table_host" "[0, 0]"] sample_table_ok(2)
    by (auto simp: overwrite_bytes_def table_host_ok)
  ultimately show ?thesis
    using bus_carries_transfers [OF bound_core_ok(2) _ plain_regtable table_host_ok(1-3), where ts = "write_then_read 1 [0xAA] [0, 0]"] by fastforce
qed

text \<open>C35: what a sketch writes to a register over the bus it reads back. For a register-map device
  bound to an address, a write to a register that is there, writable and wide enough is
  acknowledged, and reading that register back after a repeated start gives the bytes written
  followed by the rest of the register, as far as the buffer goes; no other register changes.\<close>

theorem registers_read_back_over_bus:
  assumes "polling co" "wired co (ws_ops slot) dp regtable_device" "device_depth h = 0" "deferred_effects h = []"
    and "findWireDevice bus (ucast address) h = Some slot" "rt_ok (mem h)" "accepts_write (mem h) a bs" "bs \<noteq> []"
  shows "\<exists>h'. on_bus co bus address [BusWrite (a # bs) True, BusWrite [a] False, BusRead buffer True] h =
      Some ([Wrote kI2cAck, Wrote kI2cAck, Got (take (length buffer) (bs @ drop (length bs) (the (rt_bytes (mem h) a))))], h') \<and>
    rt_bytes (mem h') = (rt_bytes (mem h))(a \<mapsto> bs @ drop (length bs) (the (rt_bytes (mem h) a)))"
proof -
  obtain d1 where "on_device regtable_device (vnow h) (i2c_continued bus address h) (write_then_read a bs buffer) (mem h) =
      ([Wrote kI2cAck, Wrote kI2cAck, Got (take (length buffer) (overwrite_bytes bs (the (rt_bytes (mem h) a))))], d1)"
      "rt_bytes d1 = (rt_bytes (mem h))(a \<mapsto> overwrite_bytes bs (the (rt_bytes (mem h) a)))"
    using write_then_read_on_device [OF assms(6-8)] by blast
  with on_bus_on_device [OF assms(1,2) plain_regtable assms(3-5) this(1)] show ?thesis
    by (auto simp: write_then_read_def overwrite_bytes_def)
qed

theorem registers_read_back_over_bus_witness:
  "\<exists>h'. on_bus (bound_core new_device_port regtable_device) kWire0 0x44 [BusWrite [1, 0xAA] True, BusWrite [1] False, BusRead [0, 0] True] table_host =
     Some ([Wrote kI2cAck, Wrote kI2cAck, Got [0xAA, 0x22]], h')"
proof -
  have wired: "wired (bound_core new_device_port regtable_device) (ws_ops table_slot) new_device_port regtable_device"
    by (rule bound_core_ok)
  have table: "rt_ok (mem table_host)" "accepts_write (mem table_host) 1 [0xAA]" "rt_bytes (mem table_host) 1 = Some [0x11, 0x22]"
    using sample_table_ok by (simp_all add: table_host_ok)
  have "[0xAA] \<noteq> ([] :: bytes)" by simp
  from registers_read_back_over_bus [OF bound_core_ok(2) wired table_host_ok(1-3) table(1,2) this, of "[0, 0]"] show ?thesis
    by (auto simp: table(3) simp del: on_bus.simps)
qed

end
