(* ===== verification/Sd_Images.thy ===== *)
theory Sd_Images
  imports SdCard_Model
begin

text \<open>
  The preset images of \<open>devices/src/sd_images.h\<close> and \<open>.cpp\<close>: each a FAT12 volume given by its
  runs of bytes that are not zero. The byte view of an image says what a card holds after
  \<open>loadImage\<close> without laying out its four kilobytes.
\<close>

section \<open>The images\<close>

definition kFat12HelloRuns :: "image_run list" where
  "kFat12HelloRuns = [
     \<lparr>ir_offset = 0, ir_bytes = [0xEB, 0x3C, 0x90, 0x45, 0x4D, 0x42, 0x45, 0x44, 0x42, 0x45, 0x4E, 0x00, 0x02, 0x01, 0x01, 0x00,
       0x01, 0x10, 0x00, 0x08, 0x00, 0xF8, 0x01, 0x00, 0x01, 0x00, 0x01]\<rparr>,
     \<lparr>ir_offset = 36, ir_bytes = [0x80, 0x00, 0x29, 0x44, 0x42, 0x4D, 0x45, 0x45, 0x4D, 0x42, 0x45, 0x44, 0x42, 0x45, 0x4E, 0x43,
       0x48, 0x20, 0x46, 0x41, 0x54, 0x31, 0x32, 0x20, 0x20, 0x20]\<rparr>,
     \<lparr>ir_offset = 510, ir_bytes = [0x55, 0xAA, 0xF8, 0xFF, 0xFF, 0xFF, 0x0F]\<rparr>,
     \<lparr>ir_offset = 1024, ir_bytes = [0x48, 0x45, 0x4C, 0x4C, 0x4F, 0x20, 0x20, 0x20, 0x54, 0x58, 0x54, 0x20]\<rparr>,
     \<lparr>ir_offset = 1047, ir_bytes = [0x60, 0x26, 0x59, 0x02, 0x00, 0x30]\<rparr>,
     \<lparr>ir_offset = 1536, ir_bytes = [0x45, 0x6D, 0x62, 0x65, 0x64, 0x42, 0x65, 0x6E, 0x63, 0x68, 0x20, 0x72, 0x65, 0x61, 0x64, 0x73,
       0x20, 0x74, 0x68, 0x69, 0x73, 0x20, 0x66, 0x72, 0x6F, 0x6D, 0x20, 0x61, 0x20, 0x72, 0x65, 0x61,
       0x6C, 0x20, 0x46, 0x41, 0x54, 0x31, 0x32, 0x20, 0x76, 0x6F, 0x6C, 0x75, 0x6D, 0x65, 0x2E, 0x0A]\<rparr>]"

definition kFat12EmptyRuns :: "image_run list" where
  "kFat12EmptyRuns = [
     \<lparr>ir_offset = 0, ir_bytes = [0xEB, 0x3C, 0x90, 0x45, 0x4D, 0x42, 0x45, 0x44, 0x42, 0x45, 0x4E, 0x00, 0x02, 0x01, 0x01, 0x00,
       0x01, 0x10, 0x00, 0x08, 0x00, 0xF8, 0x01, 0x00, 0x01, 0x00, 0x01]\<rparr>,
     \<lparr>ir_offset = 36, ir_bytes = [0x80, 0x00, 0x29, 0x44, 0x42, 0x4D, 0x45, 0x45, 0x4D, 0x50, 0x54, 0x59, 0x20, 0x20, 0x20, 0x20,
       0x20, 0x20, 0x46, 0x41, 0x54, 0x31, 0x32, 0x20, 0x20, 0x20]\<rparr>,
     \<lparr>ir_offset = 510, ir_bytes = [0x55, 0xAA, 0xF8, 0xFF, 0xFF]\<rparr>]"

definition kFat12BadBootRuns :: "image_run list" where
  "kFat12BadBootRuns = [
     \<lparr>ir_offset = 0, ir_bytes = [0xEB, 0x3C, 0x90, 0x45, 0x4D, 0x42, 0x45, 0x44, 0x42, 0x45, 0x4E, 0x00, 0x02, 0x01, 0x01, 0x00,
       0x01, 0x10, 0x00, 0x08, 0x00, 0xF8, 0x01, 0x00, 0x01, 0x00, 0x01]\<rparr>,
     \<lparr>ir_offset = 36, ir_bytes = [0x80, 0x00, 0x29, 0x44, 0x42, 0x4D, 0x45, 0x45, 0x4D, 0x42, 0x45, 0x44, 0x42, 0x45, 0x4E, 0x43,
       0x48, 0x20, 0x46, 0x41, 0x54, 0x31, 0x32, 0x20, 0x20, 0x20]\<rparr>,
     \<lparr>ir_offset = 512, ir_bytes = [0xF8, 0xFF, 0xFF, 0xFF, 0x0F]\<rparr>,
     \<lparr>ir_offset = 1024, ir_bytes = [0x48, 0x45, 0x4C, 0x4C, 0x4F, 0x20, 0x20, 0x20, 0x54, 0x58, 0x54, 0x20]\<rparr>,
     \<lparr>ir_offset = 1047, ir_bytes = [0x60, 0x26, 0x59, 0x02, 0x00, 0x0B]\<rparr>,
     \<lparr>ir_offset = 1536, ir_bytes = [0x75, 0x6E, 0x72, 0x65, 0x61, 0x63, 0x68, 0x61, 0x62, 0x6C, 0x65]\<rparr>]"

definition kFat12CircularRuns :: "image_run list" where
  "kFat12CircularRuns = [
     \<lparr>ir_offset = 0, ir_bytes = [0xEB, 0x3C, 0x90, 0x45, 0x4D, 0x42, 0x45, 0x44, 0x42, 0x45, 0x4E, 0x00, 0x02, 0x01, 0x01, 0x00,
       0x01, 0x10, 0x00, 0x08, 0x00, 0xF8, 0x01, 0x00, 0x01, 0x00, 0x01]\<rparr>,
     \<lparr>ir_offset = 36, ir_bytes = [0x80, 0x00, 0x29, 0x44, 0x42, 0x4D, 0x45, 0x45, 0x4D, 0x42, 0x45, 0x44, 0x42, 0x45, 0x4E, 0x43,
       0x48, 0x20, 0x46, 0x41, 0x54, 0x31, 0x32, 0x20, 0x20, 0x20]\<rparr>,
     \<lparr>ir_offset = 510, ir_bytes = [0x55, 0xAA, 0xF8, 0xFF, 0xFF, 0x03, 0x20]\<rparr>,
     \<lparr>ir_offset = 1024, ir_bytes = [0x48, 0x45, 0x4C, 0x4C, 0x4F, 0x20, 0x20, 0x20, 0x54, 0x58, 0x54, 0x20]\<rparr>,
     \<lparr>ir_offset = 1047, ir_bytes = [0x60, 0x26, 0x59, 0x02, 0x00, 0x00, 0x08]\<rparr>,
     \<lparr>ir_offset = 1536, ir_bytes = [0x74, 0x68, 0x65, 0x20, 0x63, 0x68, 0x61, 0x69, 0x6E, 0x20, 0x6C, 0x65, 0x61, 0x64, 0x73, 0x20,
       0x65, 0x6C, 0x73, 0x65, 0x77, 0x68, 0x65, 0x72, 0x65, 0x0A]\<rparr>]"

definition kFat12OutOfRangeRuns :: "image_run list" where
  "kFat12OutOfRangeRuns = [
     \<lparr>ir_offset = 0, ir_bytes = [0xEB, 0x3C, 0x90, 0x45, 0x4D, 0x42, 0x45, 0x44, 0x42, 0x45, 0x4E, 0x00, 0x02, 0x01, 0x01, 0x00,
       0x01, 0x10, 0x00, 0x08, 0x00, 0xF8, 0x01, 0x00, 0x01, 0x00, 0x01]\<rparr>,
     \<lparr>ir_offset = 36, ir_bytes = [0x80, 0x00, 0x29, 0x44, 0x42, 0x4D, 0x45, 0x45, 0x4D, 0x42, 0x45, 0x44, 0x42, 0x45, 0x4E, 0x43,
       0x48, 0x20, 0x46, 0x41, 0x54, 0x31, 0x32, 0x20, 0x20, 0x20]\<rparr>,
     \<lparr>ir_offset = 510, ir_bytes = [0x55, 0xAA, 0xF8, 0xFF, 0xFF, 0xC8]\<rparr>,
     \<lparr>ir_offset = 1024, ir_bytes = [0x48, 0x45, 0x4C, 0x4C, 0x4F, 0x20, 0x20, 0x20, 0x54, 0x58, 0x54, 0x20]\<rparr>,
     \<lparr>ir_offset = 1047, ir_bytes = [0x60, 0x26, 0x59, 0x02, 0x00, 0x00, 0x04]\<rparr>,
     \<lparr>ir_offset = 1536, ir_bytes = [0x74, 0x68, 0x65, 0x20, 0x63, 0x68, 0x61, 0x69, 0x6E, 0x20, 0x6C, 0x65, 0x61, 0x64, 0x73, 0x20,
       0x65, 0x6C, 0x73, 0x65, 0x77, 0x68, 0x65, 0x72, 0x65, 0x0A]\<rparr>]"

definition kFat12SizeMismatchRuns :: "image_run list" where
  "kFat12SizeMismatchRuns = [
     \<lparr>ir_offset = 0, ir_bytes = [0xEB, 0x3C, 0x90, 0x45, 0x4D, 0x42, 0x45, 0x44, 0x42, 0x45, 0x4E, 0x00, 0x02, 0x01, 0x01, 0x00,
       0x01, 0x10, 0x00, 0x08, 0x00, 0xF8, 0x01, 0x00, 0x01, 0x00, 0x01]\<rparr>,
     \<lparr>ir_offset = 36, ir_bytes = [0x80, 0x00, 0x29, 0x44, 0x42, 0x4D, 0x45, 0x45, 0x4D, 0x42, 0x45, 0x44, 0x42, 0x45, 0x4E, 0x43,
       0x48, 0x20, 0x46, 0x41, 0x54, 0x31, 0x32, 0x20, 0x20, 0x20]\<rparr>,
     \<lparr>ir_offset = 510, ir_bytes = [0x55, 0xAA, 0xF8, 0xFF, 0xFF, 0xFF, 0x0F]\<rparr>,
     \<lparr>ir_offset = 1024, ir_bytes = [0x48, 0x45, 0x4C, 0x4C, 0x4F, 0x20, 0x20, 0x20, 0x54, 0x58, 0x54, 0x20]\<rparr>,
     \<lparr>ir_offset = 1047, ir_bytes = [0x60, 0x26, 0x59, 0x02, 0x00, 0x00, 0x08]\<rparr>,
     \<lparr>ir_offset = 1536, ir_bytes = [0x74, 0x68, 0x65, 0x20, 0x63, 0x68, 0x61, 0x69, 0x6E, 0x20, 0x6C, 0x65, 0x61, 0x64, 0x73, 0x20,
       0x65, 0x6C, 0x73, 0x65, 0x77, 0x68, 0x65, 0x72, 0x65, 0x0A]\<rparr>]"

definition kFat12ZeroBpsRuns :: "image_run list" where
  "kFat12ZeroBpsRuns = [
     \<lparr>ir_offset = 0, ir_bytes = [0xEB, 0x3C, 0x90, 0x45, 0x4D, 0x42, 0x45, 0x44, 0x42, 0x45, 0x4E, 0x00, 0x00, 0x01, 0x01, 0x00,
       0x01, 0x10, 0x00, 0x08, 0x00, 0xF8, 0x01, 0x00, 0x01, 0x00, 0x01]\<rparr>,
     \<lparr>ir_offset = 36, ir_bytes = [0x80, 0x00, 0x29, 0x44, 0x42, 0x4D, 0x45, 0x45, 0x4D, 0x42, 0x45, 0x44, 0x42, 0x45, 0x4E, 0x43,
       0x48, 0x20, 0x46, 0x41, 0x54, 0x31, 0x32, 0x20, 0x20, 0x20]\<rparr>,
     \<lparr>ir_offset = 510, ir_bytes = [0x55, 0xAA, 0xF8, 0xFF, 0xFF, 0xFF, 0x0F]\<rparr>,
     \<lparr>ir_offset = 1024, ir_bytes = [0x48, 0x45, 0x4C, 0x4C, 0x4F, 0x20, 0x20, 0x20, 0x54, 0x58, 0x54, 0x20]\<rparr>,
     \<lparr>ir_offset = 1047, ir_bytes = [0x60, 0x26, 0x59, 0x02, 0x00, 0x1A]\<rparr>,
     \<lparr>ir_offset = 1536, ir_bytes = [0x74, 0x68, 0x65, 0x20, 0x63, 0x68, 0x61, 0x69, 0x6E, 0x20, 0x6C, 0x65, 0x61, 0x64, 0x73, 0x20,
       0x65, 0x6C, 0x73, 0x65, 0x77, 0x68, 0x65, 0x72, 0x65, 0x0A]\<rparr>]"

definition kFat12Hello :: sd_image where
  "kFat12Hello = \<lparr>im_name = ''Fat12Hello'', im_blocks = 8, im_runs = kFat12HelloRuns\<rparr>"

definition kFat12Empty :: sd_image where
  "kFat12Empty = \<lparr>im_name = ''Fat12Empty'', im_blocks = 8, im_runs = kFat12EmptyRuns\<rparr>"

definition kFat12BadBoot :: sd_image where
  "kFat12BadBoot = \<lparr>im_name = ''Fat12BadBoot'', im_blocks = 8, im_runs = kFat12BadBootRuns\<rparr>"

definition kFat12Circular :: sd_image where
  "kFat12Circular = \<lparr>im_name = ''Fat12Circular'', im_blocks = 8, im_runs = kFat12CircularRuns\<rparr>"

definition kFat12OutOfRange :: sd_image where
  "kFat12OutOfRange = \<lparr>im_name = ''Fat12OutOfRange'', im_blocks = 8, im_runs = kFat12OutOfRangeRuns\<rparr>"

definition kFat12SizeMismatch :: sd_image where
  "kFat12SizeMismatch = \<lparr>im_name = ''Fat12SizeMismatch'', im_blocks = 8, im_runs = kFat12SizeMismatchRuns\<rparr>"

definition kFat12ZeroBps :: sd_image where
  "kFat12ZeroBps = \<lparr>im_name = ''Fat12ZeroBps'', im_blocks = 8, im_runs = kFat12ZeroBpsRuns\<rparr>"

lemmas image_defs = kFat12Hello_def kFat12HelloRuns_def kFat12Empty_def kFat12EmptyRuns_def kFat12BadBoot_def kFat12BadBootRuns_def kFat12Circular_def kFat12CircularRuns_def kFat12OutOfRange_def kFat12OutOfRangeRuns_def kFat12SizeMismatch_def kFat12SizeMismatchRuns_def kFat12ZeroBps_def kFat12ZeroBpsRuns_def

definition preset_images :: "sd_image list" where
  "preset_images = [kFat12Hello, kFat12Empty, kFat12BadBoot, kFat12Circular, kFat12OutOfRange, kFat12SizeMismatch, kFat12ZeroBps]"

section \<open>What is at an address of an image\<close>

text \<open>The byte the runs leave at an address that held \<open>v\<close>: a later run covers an earlier one.\<close>

fun runs_at :: "image_run list \<Rightarrow> nat \<Rightarrow> u8 \<Rightarrow> u8" where
  "runs_at [] i v = v"
| "runs_at (run # runs) i v =
     runs_at runs i (if unat (ir_offset run) \<le> i \<and> i < unat (ir_offset run) + length (ir_bytes run)
       then ir_bytes run ! (i - unat (ir_offset run)) else v)"

definition runs_fit :: "image_run list \<Rightarrow> bool" where
  "runs_fit runs = list_all (\<lambda>r. unat (ir_offset r) + length (ir_bytes r) \<le> kBlockCount * kBlockSize) runs"

lemma nth_overwrite:
  assumes "s + length bs \<le> length xs" "i < length xs"
  shows "overwrite s bs xs ! i = (if s \<le> i \<and> i < s + length bs then bs ! (i - s) else xs ! i)"
  using assms by (auto simp: overwrite_def nth_append min_def)

lemma load_runs_at:
  assumes "runs_fit runs" "length flat = kBlockCount * kBlockSize" "i < length flat"
  shows "fst (load_runs runs flat) \<and> snd (load_runs runs flat) ! i = runs_at runs i (flat ! i)"
  using assms
proof (induction runs flat rule: load_runs.induct)
  case (2 run runs flat)
  let ?f = "overwrite (unat (ir_offset run)) (ir_bytes run) flat"
  have fits: "unat (ir_offset run) + length (ir_bytes run) \<le> length flat" "runs_fit runs"
    using "2.prems" by (simp_all add: runs_fit_def)
  then have "length ?f = kBlockCount * kBlockSize" using "2.prems"(2) by (simp add: overwrite_def)
  then show ?case using "2.IH" fits "2.prems" nth_overwrite [OF fits(1)] by simp
qed simp

text \<open>The block of a card with an image.\<close>

definition image_block :: "sd_image \<Rightarrow> nat \<Rightarrow> bytes" where
  "image_block im b = map (\<lambda>k. runs_at (im_runs im) (b * kBlockSize + k) 0) [0..<kBlockSize]"

lemma loaded_block:
  assumes "runs_fit (im_runs im)" "unat (im_blocks im) \<le> kBlockCount" "b < kBlockCount"
  shows "fst (sd_loadImage im d) \<and>
    take kBlockSize (drop (b * kBlockSize) (sd_store (snd (sd_loadImage im d)))) = image_block im b"
proof -
  let ?blank = "replicate (kBlockCount * kBlockSize) (0 :: u8)"
  have size: "length (snd (load_runs (im_runs im) ?blank)) = kBlockCount * kBlockSize"
    by (rule length_load_runs) simp
  have "k < kBlockSize \<Longrightarrow> b * kBlockSize + k < kBlockCount * kBlockSize" for k
    using block_fits [OF assms(3)] by simp
  then have "snd (load_runs (im_runs im) ?blank) ! (b * kBlockSize + k) = runs_at (im_runs im) (b * kBlockSize + k) 0"
    if "k < kBlockSize" for k
    using that load_runs_at [OF assms(1), of ?blank "b * kBlockSize + k"] by simp
  then have "take kBlockSize (drop (b * kBlockSize) (snd (load_runs (im_runs im) ?blank))) = image_block im b"
    using size block_fits [OF assms(3)] add_leD1 [OF block_fits [OF assms(3)]] by (intro nth_equalityI) (simp_all add: image_block_def)
  moreover have "0 < kBlockCount * kBlockSize" by (simp add: kBlockCount_def kBlockSize_def)
  then have "fst (load_runs (im_runs im) ?blank)" using load_runs_at [OF assms(1), of ?blank 0] by simp
  ultimately show ?thesis using assms(2) by (simp add: sd_loadImage_def split_beta)
qed

lemma presets_fit: "list_all (\<lambda>im. runs_fit (im_runs im) \<and> unat (im_blocks im) \<le> kBlockCount) preset_images"
  by (simp add: preset_images_def runs_fit_def kBlockCount_def kBlockSize_def image_defs)

end
