(* ===== verification/Preset_Volumes.thy ===== *)
theory Preset_Volumes
  imports Sd_Images
begin

text \<open>
  What an application reads from a card with a preset image: the FAT12 reader of
  \<open>tests/units_sdcard/fat12_reader.h\<close>, which sees numbered blocks and nothing else, on the
  images of \<open>devices/src/sd_images.cpp\<close>.
\<close>

section \<open>The reader\<close>

text \<open>Its integers never leave their range on a volume of this size, so they are natural numbers.\<close>

record fat_volume =
  bytesPerSector :: nat
  sectorsPerCluster :: nat
  fv_reserved :: nat
  fatCount :: nat
  rootEntries :: nat
  fatSectors :: nat
  rootSector :: nat
  dataSector :: nat
  totalSectors :: nat

type_synonym block_reader = "nat \<Rightarrow> bytes option"

definition le16 :: "bytes \<Rightarrow> nat \<Rightarrow> nat" where
  "le16 bs i = unat (bs ! i) + 256 * unat (bs ! (i + 1))"

definition le32 :: "bytes \<Rightarrow> nat \<Rightarrow> nat" where
  "le32 bs i = le16 bs i + 65536 * le16 bs (i + 2)"

definition mountVolume :: "block_reader \<Rightarrow> fat_volume option" where
  "mountVolume rd =
     (case rd 0 of None \<Rightarrow> None
      | Some s \<Rightarrow>
          if s ! 510 \<noteq> 0x55 \<or> s ! 511 \<noteq> 0xAA then None
          else let bps = le16 s 11; spc = unat (s ! 13); res = le16 s 14; fats = unat (s ! 16); entries = le16 s 17;
                   fs = le16 s 22
               in if bps \<noteq> kBlockSize then None
                  else if spc = 0 \<or> fats = 0 then None
                  else let root = res + fats * fs
                       in Some \<lparr>bytesPerSector = bps, sectorsPerCluster = spc, fv_reserved = res, fatCount = fats,
                            rootEntries = entries, fatSectors = fs, rootSector = root,
                            dataSector = root + entries * 32 div bps, totalSectors = le16 s 19\<rparr>)"

fun find_entry :: "bytes \<Rightarrow> bytes \<Rightarrow> nat list \<Rightarrow> (nat \<times> nat) option" where
  "find_entry name s [] = None"
| "find_entry name s (i # is) =
     (if s ! (i * 32) = 0x00 then None
      else if s ! (i * 32) = 0xE5 then find_entry name s is
      else if map (\<lambda>k. s ! (i * 32 + k)) [0..<11] \<noteq> name then find_entry name s is
      else Some (le16 s (i * 32 + 26), le32 s (i * 32 + 28)))"

definition findFile :: "block_reader \<Rightarrow> fat_volume \<Rightarrow> bytes \<Rightarrow> (nat \<times> nat) option" where
  "findFile rd v name = (case rd (rootSector v) of None \<Rightarrow> None | Some s \<Rightarrow> find_entry name s [0..<rootEntries v])"

datatype chain_result = ChainComplete | ChainLooped | ChainOutOfRange | ChainShort | ChainUnreadable

definition kMaxClusters :: nat where "kMaxClusters = 64"

definition fat_link :: "bytes \<Rightarrow> nat \<Rightarrow> nat \<Rightarrow> nat" where
  "fat_link s at cluster =
     (if cluster mod 2 = 0 then unat (s ! at) + 256 * (unat (s ! (at + 1)) mod 16)
      else unat (s ! at) div 16 + 16 * unat (s ! (at + 1)))"

text \<open>\<open>seen\<close> lists the clusters visited; what has been copied is the second answer.\<close>

function readChain :: "block_reader \<Rightarrow> fat_volume \<Rightarrow> nat \<Rightarrow> nat list \<Rightarrow> nat \<Rightarrow> bytes \<Rightarrow> chain_result \<times> bytes" where
  "readChain rd v want seen cluster out =
     (if want \<le> length out then (ChainComplete, out)
      else if cluster < 2 \<or> kMaxClusters \<le> cluster then (ChainOutOfRange, out)
      else if cluster \<in> set seen then (ChainLooped, out)
      else let sector = dataSector v + (cluster - 2) * sectorsPerCluster v
           in if totalSectors v \<le> sector then (ChainOutOfRange, out)
              else case rd sector of
                None \<Rightarrow> (ChainUnreadable, out)
              | Some s \<Rightarrow>
                  let out1 = out @ map (\<lambda>k. s ! k) [0..<min (want - length out) (bytesPerSector v)]
                  in if want \<le> length out1 then (ChainComplete, out1)
                     else let entry = cluster * 3 div 2
                          in case rd (fv_reserved v + entry div bytesPerSector v) of
                               None \<Rightarrow> (ChainUnreadable, out1)
                             | Some f \<Rightarrow>
                                 let link = fat_link f (entry mod bytesPerSector v) cluster
                                 in if 0xFF8 \<le> link then (ChainShort, out1)
                                    else readChain rd v want (cluster # seen) link out1)"
  by pat_completeness auto

text \<open>
  A cluster is visited once and there are 64 of them, so the reader ends on every volume, the
  ones with a loop in their chain among them.
\<close>

termination
proof (relation "measure (\<lambda>(rd, v, want, seen, cluster, out). card ({..<kMaxClusters} - set seen))")
  fix seen :: "nat list" and cluster :: nat
  assume "\<not> (cluster < 2 \<or> kMaxClusters \<le> cluster)" "cluster \<notin> set seen"
  then have mem: "cluster \<in> {..<kMaxClusters} - set seen" by (simp add: not_le)
  have "{..<kMaxClusters} - set (cluster # seen) = ({..<kMaxClusters} - set seen) - {cluster}" unfolding list.set(2) by (rule Diff_insert)
  then have "card ({..<kMaxClusters} - set (cluster # seen)) < card ({..<kMaxClusters} - set seen)"
    by (simp only: card_Diff1_less [OF finite_Diff [OF finite_lessThan] mem])
  then show "((rd, v, want, cluster # seen, link, out1), rd, v, want, seen, cluster, out) \<in>
      measure (\<lambda>(rd, v, want, seen, cluster, out). card ({..<kMaxClusters} - set seen))"
    for rd :: block_reader and v :: fat_volume and want link :: nat and out1 out :: bytes by (simp only: in_measure case_prod_conv)
qed simp

declare readChain.simps [simp del]

text \<open>Mount, look up, read: what the application reports for a file.\<close>

datatype read_report = NoVolume | NoFile | FileRead chain_result bytes

definition read_file :: "bytes \<Rightarrow> block_reader \<Rightarrow> read_report" where
  "read_file name rd =
     (case mountVolume rd of None \<Rightarrow> NoVolume
      | Some v \<Rightarrow>
          (case findFile rd v name of None \<Rightarrow> NoFile
           | Some (cluster, want) \<Rightarrow>
               (case readChain rd v want [] cluster [] of (res, out) \<Rightarrow> FileRead res out)))"

section \<open>Reading an image\<close>

definition image_reader :: "sd_image \<Rightarrow> block_reader" where
  "image_reader im b = (if b < kBlockCount then Some (image_block im b) else None)"

definition str_name :: "string \<Rightarrow> bytes" where "str_name s = map char_byte s"

lemma image_block_nth [simp]: "k < 512 \<Longrightarrow> image_block im b ! k = runs_at (im_runs im) (b * 512 + k) 0"
  by (simp add: image_block_def kBlockSize_def)

definition hello_name :: bytes where "hello_name = str_name ''HELLO   TXT''"

lemmas block_defs = image_reader_def kBlockCount_def kBlockSize_def le16_def le32_def Let_def

text \<open>The layout all readable images share.\<close>

definition preset_volume :: fat_volume where
  "preset_volume = \<lparr>bytesPerSector = 512, sectorsPerCluster = 1, fv_reserved = 1, fatCount = 1, rootEntries = 16,
     fatSectors = 1, rootSector = 2, dataSector = 3, totalSectors = 8\<rparr>"

lemma hello_name_bytes: "hello_name = [0x48, 0x45, 0x4C, 0x4C, 0x4F, 0x20, 0x20, 0x20, 0x54, 0x58, 0x54]"
  by (simp add: hello_name_def str_name_def char_byte_def)

lemma first_entry:
  assumes "rd 2 = Some s" "\<forall>k<11. s ! k = hello_name ! k"
  shows "findFile rd preset_volume hello_name = Some (le16 s 26, le32 s 28)"
proof -
  have "map (\<lambda>k. s ! (0 * 32 + k)) [0..<11] = hello_name"
    using assms(2) by (intro nth_equalityI) (simp_all add: hello_name_bytes)
  moreover have "s ! 0 = 0x48" using assms(2) by (simp add: hello_name_bytes)
  moreover have "[0..<16] = 0 # [Suc 0..<16]" by (simp add: upt_rec)
  ultimately show ?thesis using assms(1) by (simp add: findFile_def preset_volume_def)
qed

lemma below_11: "(\<forall>k<11. P k) \<longleftrightarrow> P 0 \<and> P 1 \<and> P 2 \<and> P 3 \<and> P 4 \<and> P 5 \<and> P 6 \<and> P 7 \<and> P 8 \<and> P 9 \<and> P (10 :: nat)"
  by (simp add: numeral_eq_Suc All_less_Suc2)

lemma mount_hello: "mountVolume (image_reader kFat12Hello) = Some preset_volume"
  by (simp add: mountVolume_def preset_volume_def block_defs image_defs)

lemma find_hello: "findFile (image_reader kFat12Hello) preset_volume hello_name = Some (2, 48)"
proof -
  have "image_reader kFat12Hello 2 = Some (image_block kFat12Hello 2)" by (simp add: image_reader_def kBlockCount_def)
  moreover have "\<forall>k<11. image_block kFat12Hello 2 ! k = hello_name ! k"
    by (simp add: below_11 hello_name_bytes image_defs)
  ultimately have "findFile (image_reader kFat12Hello) preset_volume hello_name =
      Some (le16 (image_block kFat12Hello 2) 26, le32 (image_block kFat12Hello 2) 28)" by (rule first_entry)
  then show ?thesis by (simp add: le16_def le32_def image_defs)
qed

lemma mount_circular: "mountVolume (image_reader kFat12Circular) = Some preset_volume"
  by (simp add: mountVolume_def preset_volume_def block_defs image_defs)

lemma find_circular: "findFile (image_reader kFat12Circular) preset_volume hello_name = Some (2, 2048)"
proof -
  have "image_reader kFat12Circular 2 = Some (image_block kFat12Circular 2)" by (simp add: image_reader_def kBlockCount_def)
  moreover have "\<forall>k<11. image_block kFat12Circular 2 ! k = hello_name ! k"
    by (simp add: below_11 hello_name_bytes image_defs)
  ultimately have "findFile (image_reader kFat12Circular) preset_volume hello_name =
      Some (le16 (image_block kFat12Circular 2) 26, le32 (image_block kFat12Circular 2) 28)" by (rule first_entry)
  then show ?thesis by (simp add: le16_def le32_def image_defs)
qed

lemma mount_outofrange: "mountVolume (image_reader kFat12OutOfRange) = Some preset_volume"
  by (simp add: mountVolume_def preset_volume_def block_defs image_defs)

lemma find_outofrange: "findFile (image_reader kFat12OutOfRange) preset_volume hello_name = Some (2, 1024)"
proof -
  have "image_reader kFat12OutOfRange 2 = Some (image_block kFat12OutOfRange 2)" by (simp add: image_reader_def kBlockCount_def)
  moreover have "\<forall>k<11. image_block kFat12OutOfRange 2 ! k = hello_name ! k"
    by (simp add: below_11 hello_name_bytes image_defs)
  ultimately have "findFile (image_reader kFat12OutOfRange) preset_volume hello_name =
      Some (le16 (image_block kFat12OutOfRange 2) 26, le32 (image_block kFat12OutOfRange 2) 28)" by (rule first_entry)
  then show ?thesis by (simp add: le16_def le32_def image_defs)
qed

lemma mount_sizemismatch: "mountVolume (image_reader kFat12SizeMismatch) = Some preset_volume"
  by (simp add: mountVolume_def preset_volume_def block_defs image_defs)

lemma find_sizemismatch: "findFile (image_reader kFat12SizeMismatch) preset_volume hello_name = Some (2, 2048)"
proof -
  have "image_reader kFat12SizeMismatch 2 = Some (image_block kFat12SizeMismatch 2)" by (simp add: image_reader_def kBlockCount_def)
  moreover have "\<forall>k<11. image_block kFat12SizeMismatch 2 ! k = hello_name ! k"
    by (simp add: below_11 hello_name_bytes image_defs)
  ultimately have "findFile (image_reader kFat12SizeMismatch) preset_volume hello_name =
      Some (le16 (image_block kFat12SizeMismatch 2) 26, le32 (image_block kFat12SizeMismatch 2) 28)" by (rule first_entry)
  then show ?thesis by (simp add: le16_def le32_def image_defs)
qed

section \<open>Following the chain\<close>

lemma length_image_block [simp]: "length (image_block im b) = 512"
  by (simp add: image_block_def kBlockSize_def)

lemma map_nth_take: "n \<le> length xs \<Longrightarrow> map (\<lambda>k. xs ! k) [0..<n] = take n xs"
  by (intro nth_equalityI) simp_all

lemma chain_step:
  assumes "length out < want" "2 \<le> c" "c < 7" "c \<notin> set seen"
  shows "readChain (image_reader im) preset_volume want seen c out =
    (let out1 = out @ take (min (want - length out) 512) (image_block im (c + 1));
         link = fat_link (image_block im 1) (c * 3 div 2) c
     in if want \<le> length out1 then (ChainComplete, out1)
        else if 0xFF8 \<le> link then (ChainShort, out1)
        else readChain (image_reader im) preset_volume want (c # seen) link out1)"
proof -
  have "\<not> want \<le> length out" "\<not> (c < 2 \<or> kMaxClusters \<le> c)" "\<not> 8 \<le> 3 + (c - 2) * 1" "3 + (c - 2) * 1 = c + 1"
    using assms by (simp_all add: kMaxClusters_def)
  moreover have "image_reader im (c + 1) = Some (image_block im (c + 1))" "image_reader im (1 + c * 3 div 2 div 512) = Some (image_block im 1)"
    "c * 3 div 2 mod 512 = c * 3 div 2"
    using assms(3) by (simp_all add: image_reader_def kBlockCount_def)
  moreover have "map (\<lambda>k. image_block im b ! k) [0..<min n 512] = take (min n 512) (image_block im b)" for n b
    by (rule map_nth_take) simp
  ultimately show ?thesis using assms(4)
    by (subst readChain.simps) (simp add: preset_volume_def Let_def del: image_block_nth)
qed

lemma chain_leaves:
  assumes "length out < want" "64 \<le> c"
  shows "readChain rd v want seen c out = (ChainOutOfRange, out)"
  using assms by (subst readChain.simps) (simp add: kMaxClusters_def)

lemma chain_returns:
  assumes "length out < want" "2 \<le> c" "c < 64" "c \<in> set seen"
  shows "readChain rd v want seen c out = (ChainLooped, out)"
  using assms by (subst readChain.simps) (simp add: kMaxClusters_def)

text \<open>The links of the allocation table the images have.\<close>

lemma links:
  "fat_link (image_block kFat12Hello (Suc 0)) 3 2 = 0xFFF"
  "fat_link (image_block kFat12SizeMismatch (Suc 0)) 3 2 = 0xFFF"
  "fat_link (image_block kFat12OutOfRange (Suc 0)) 3 2 = 200"
  "fat_link (image_block kFat12Circular (Suc 0)) 3 2 = 3"
  "fat_link (image_block kFat12Circular (Suc 0)) 4 3 = 2"
  by (simp_all add: fat_link_def image_defs)

definition hello_text :: bytes where
  "hello_text = str_name ''EmbedBench reads this from a real FAT12 volume.'' @ [0x0A]"

lemma length_hello_text: "length hello_text = 48"
  by (simp add: hello_text_def str_name_def)

lemma hello_block: "take 48 (image_block kFat12Hello 3) = hello_text"
proof -
  have "image_block kFat12Hello 3 ! k = ir_bytes (kFat12HelloRuns ! 5) ! k" if "k < 48" for k
    using that by (simp add: image_defs)
  moreover have "ir_bytes (kFat12HelloRuns ! 5) = hello_text"
    by (simp add: image_defs hello_text_def str_name_def char_byte_def)
  ultimately show ?thesis by (intro nth_equalityI) (simp_all add: length_hello_text)
qed

lemma read_hello: "read_file hello_name (image_reader kFat12Hello) = FileRead ChainComplete hello_text"
  using chain_step [of "[]" 48 2 "[]" kFat12Hello] hello_block
  by (simp add: read_file_def mount_hello find_hello Let_def length_hello_text)

lemma read_size_mismatch:
  "read_file hello_name (image_reader kFat12SizeMismatch) = FileRead ChainShort (image_block kFat12SizeMismatch 3)"
  using chain_step [of "[]" 2048 2 "[]" kFat12SizeMismatch]
  by (simp add: read_file_def mount_sizemismatch find_sizemismatch Let_def links)

lemma read_out_of_range:
  "read_file hello_name (image_reader kFat12OutOfRange) = FileRead ChainOutOfRange (image_block kFat12OutOfRange 3)"
  using chain_step [of "[]" 1024 2 "[]" kFat12OutOfRange]
  by (simp add: read_file_def mount_outofrange find_outofrange Let_def links chain_leaves)

lemma read_circular:
  "read_file hello_name (image_reader kFat12Circular) =
     FileRead ChainLooped (image_block kFat12Circular 3 @ image_block kFat12Circular 4)"
  using chain_step [of "[]" 2048 2 "[]" kFat12Circular]
    chain_step [of "image_block kFat12Circular 3" 2048 3 "[2]" kFat12Circular]
  by (simp add: read_file_def mount_circular find_circular Let_def links chain_returns)

lemma read_unmountable:
  "read_file hello_name (image_reader kFat12BadBoot) = NoVolume"
  "read_file hello_name (image_reader kFat12ZeroBps) = NoVolume"
  by (simp_all add: read_file_def mountVolume_def block_defs image_defs)

lemma read_empty: "read_file hello_name (image_reader kFat12Empty) = NoFile"
proof -
  have "mountVolume (image_reader kFat12Empty) = Some preset_volume"
    by (simp add: mountVolume_def preset_volume_def block_defs image_defs)
  moreover have "[0..<16] = 0 # [Suc 0..<16]" by (simp add: upt_rec)
  then have "findFile (image_reader kFat12Empty) preset_volume hello_name = None"
    by (simp add: findFile_def preset_volume_def image_reader_def kBlockCount_def image_defs)
  ultimately show ?thesis by (simp add: read_file_def)
qed

section \<open>Over the bus\<close>

text \<open>The block driver of an application: the read command, its answer and the 512 bytes after the token.\<close>

definition card_reader :: "sdcard \<Rightarrow> block_reader" where
  "card_reader d b =
     (if b < kBlockCount
      then Some (take kBlockSize (drop 8 (fst (fst (run_prog (bench_port 0) (sd_read_block (of_nat b) 1 d) (new_bench 0))))))
      else None)"

lemma card_reader_loaded:
  assumes "sd_ready d" "im \<in> set preset_images"
  shows "fst (sd_loadImage im d) \<and> sd_ready (snd (sd_loadImage im d)) \<and> card_reader (snd (sd_loadImage im d)) = image_reader im"
proof -
  have fits: "runs_fit (im_runs im)" "unat (im_blocks im) \<le> kBlockCount"
    using presets_fit assms(2) by (simp_all add: list_all_iff)
  have ready: "sd_ready (snd (sd_loadImage im d))"
    using assms(1) sd_ok_loadImage [of d im] by (auto simp: sd_ready_def sd_loadImage_def split: prod.split)
  have block: "take kBlockSize (drop 8 (fst (fst (run_prog (bench_port 0) (sd_read_block (of_nat b) 1 (snd (sd_loadImage im d))) (new_bench 0))))) =
      image_block im b" if "b < kBlockCount" for b
  proof -
    have b: "unat (of_nat b :: u32) = b" using that by (simp add: kBlockCount_def unat_of_nat)
    then have "unat (of_nat b :: u32) < kBlockCount" using that by simp
    from read_block_run [OF ready this, of 1 "bench_port 0" "new_bench 0"] have "fst (fst (run_prog (bench_port 0) (sd_read_block (of_nat b) 1 (snd (sd_loadImage im d))) (new_bench 0))) =
        (replicate 6 0xFF @ [kR1Ok, kTokenStart]) @ image_block im b @ [0xFF, 0xFF]"
      using loaded_block [OF fits that, of d] b by simp
    then show ?thesis by (simp add: kBlockSize_def)
  qed
  then have "card_reader (snd (sd_loadImage im d)) = image_reader im"
    by (intro ext) (simp add: card_reader_def image_reader_def)
  moreover have "fst (sd_loadImage im d)"
    using loaded_block [OF fits, of 0 d] by (simp add: kBlockCount_def)
  ultimately show ?thesis using ready by blast
qed

section \<open>Properties\<close>

text \<open>C25: the preset images are what their names say. On a woken card that has loaded the image, an
  application that reads blocks over the bus and follows the FAT12 structures finds the whole
  text in the good one, no file in the empty one and no volume in the two with a damaged boot
  sector; the three damaged chains are told apart: one comes back to a visited cluster, one
  leaves the volume, one ends before the size its entry states.\<close>

definition preset_reports :: "(sd_image \<times> read_report) list" where
  "preset_reports =
     [(kFat12Hello, FileRead ChainComplete hello_text), (kFat12Empty, NoFile), (kFat12BadBoot, NoVolume),
      (kFat12Circular, FileRead ChainLooped (image_block kFat12Circular 3 @ image_block kFat12Circular 4)),
      (kFat12OutOfRange, FileRead ChainOutOfRange (image_block kFat12OutOfRange 3)),
      (kFat12SizeMismatch, FileRead ChainShort (image_block kFat12SizeMismatch 3)), (kFat12ZeroBps, NoVolume)]"

theorem presets_read_as_labelled:
  assumes "sd_ready d" "(im, report) \<in> set preset_reports"
  shows "fst (sd_loadImage im d) \<and> read_file hello_name (card_reader (snd (sd_loadImage im d))) = report"
proof -
  have "im \<in> set preset_images" using assms(2) by (auto simp: preset_reports_def preset_images_def)
  moreover have "read_file hello_name (image_reader im) = report"
    using assms(2) read_hello read_empty read_unmountable read_circular read_out_of_range read_size_mismatch
    by (auto simp: preset_reports_def)
  ultimately show ?thesis using card_reader_loaded [OF assms(1)] by simp
qed

theorem presets_read_as_labelled_witness:
  "read_file hello_name (card_reader (snd (sd_loadImage kFat12Hello (new_sdcard\<lparr>sd_initialised := True\<rparr>)))) =
     FileRead ChainComplete hello_text"
proof -
  have "sd_ready (new_sdcard\<lparr>sd_initialised := True\<rparr>)"
    using sd_ok_new by (simp add: sd_ready_def sd_ok_def touches_block_def new_sdcard_def)
  moreover have "(kFat12Hello, FileRead ChainComplete hello_text) \<in> set preset_reports" by (simp add: preset_reports_def)
  ultimately show ?thesis using presets_read_as_labelled by blast
qed

end
