(* ===== verification/Line_Replay.thy ===== *)
theory Line_Replay
  imports Device_Calls "HOL-Library.Multiset" "HOL-Library.Sublist"
begin

text \<open>
  The replay tool, \<open>devices/tools/linereplay_main.cpp\<close>: it plays the requests of a recorded
  trace into one model and prints the trace the model would have produced. The C library calls
  it reads lines with are functions on strings without a terminating zero; a number that cannot
  be read leaves the text where it was. The model under replay is a parameter.
\<close>

section \<open>Reading numbers and fields\<close>

definition is_space :: "char \<Rightarrow> bool" where
  "is_space c \<longleftrightarrow> (of_char c :: nat) \<in> {9, 10, 11, 12, 13, 32}"

definition digit_value :: "char \<Rightarrow> nat" where
  "digit_value c =
     (let n = of_char c in
      if 48 \<le> n \<and> n \<le> 57 then n - 48
      else if 65 \<le> n \<and> n \<le> 90 then n - 55
      else if 97 \<le> n \<and> n \<le> 122 then n - 87 else 99)"

definition digits_value :: "nat \<Rightarrow> string \<Rightarrow> nat" where
  "digits_value base ds = foldl (\<lambda>v c. v * base + digit_value c) 0 ds"

text \<open>\<open>strtoul\<close> and \<open>strtoull\<close>, both 64 bits wide: the value and the number of characters read,
  none when there is no number.\<close>

definition sign_of :: "string \<Rightarrow> bool \<times> string" where
  "sign_of s = (case s of [] \<Rightarrow> (False, s)
     | c # r \<Rightarrow> if c = CHR ''-'' then (True, r) else if c = CHR ''+'' then (False, r) else (False, s))"

definition hex_prefix :: "nat \<Rightarrow> string \<Rightarrow> bool" where
  "hex_prefix base s \<longleftrightarrow> base = 16 \<and> 2 < length s \<and> s ! 0 = CHR ''0'' \<and> (s ! 1 = CHR ''x'' \<or> s ! 1 = CHR ''X'') \<and>
     digit_value (s ! 2) < 16"

definition strtoul :: "nat \<Rightarrow> string \<Rightarrow> u64 \<times> nat" where
  "strtoul base s =
     (case sign_of (dropWhile is_space s) of (negative, s1) \<Rightarrow>
        let s2 = (if hex_prefix base s1 then drop 2 s1 else s1);
            ds = takeWhile (\<lambda>c. digit_value c < base) s2;
            v = digits_value base ds
        in if ds = [] then (0, 0)
           else ((if 2 ^ 64 \<le> v then - 1 else if negative then - of_nat v else of_nat v),
                 length s - length s2 + length ds))"

fun parseHex :: "string \<Rightarrow> nat \<Rightarrow> bytes" where
  "parseHex (a # b # text) cap = (if cap = 0 then [] else ucast (fst (strtoul 16 [a, b])) # parseHex text (cap - 1))"
| "parseHex _ cap = []"

text \<open>
  The search of \<open>field\<close>: \<open>at_word\<close> says a key may start here, at the start of the line or after
  a blank. A key found elsewhere is skipped whole.
\<close>

function field_scan :: "bool \<Rightarrow> string \<Rightarrow> string \<Rightarrow> string option" where
  "field_scan at_word key [] = None"
| "field_scan at_word key (c # s) =
     (if key = [] then None
      else if prefix key (c # s) then
        (case drop (length key) (c # s) of
           [] \<Rightarrow> None
         | e # v \<Rightarrow> if at_word \<and> e = CHR ''='' then Some v else field_scan (last key = CHR '' '') key (e # v))
      else field_scan (c = CHR '' '') key s)"
  by pat_completeness auto

termination
proof (relation "measure (\<lambda>(w, key, s). length s)")
  fix key :: string and c s e v
  assume "key \<noteq> []" "drop (length key) (c # s) = e # (v :: string)"
  then show "((last key = CHR '' '', key, e # v), at_word, key, c # s) \<in> measure (\<lambda>(w, key, s). length s)" for at_word :: bool
    by (simp only: in_measure case_prod_conv) (metis diff_less length_Cons length_drop length_greater_0_conv zero_less_Suc)
qed simp_all

definition field :: "string \<Rightarrow> string \<Rightarrow> nat \<Rightarrow> string" where
  "field line key cap =
     (case field_scan True key line of None \<Rightarrow> []
      | Some v \<Rightarrow> clip cap (takeWhile (\<lambda>c. c \<noteq> CHR '' '' \<and> c \<noteq> CHR 0x0A) v))"

section \<open>The port of a replay\<close>

record replay =
  rp_now :: u64
  rp_wakes :: "u64 list"
  rp_printed :: string

definition kReplayWakes :: nat where "kReplayWakes = 32"

definition percent :: "char \<Rightarrow> string" where
  "percent c =
     (if dec_digit c \<or> (65 \<le> (of_char c :: nat) \<and> (of_char c :: nat) \<le> 90) \<or> (97 \<le> (of_char c :: nat) \<and> (of_char c :: nat) \<le> 122) \<or>
         c = CHR ''-'' \<or> c = CHR ''_'' \<or> c = CHR ''.''
      then [c] else CHR 0x25 # hex2 (char_byte c))"

definition print_text :: "string \<Rightarrow> replay \<Rightarrow> replay" where
  "print_text s r = r\<lparr>rp_printed := rp_printed r @ s\<rparr>"

definition replay_requestWake :: "u64 \<Rightarrow> replay \<Rightarrow> bool \<times> replay" where
  "replay_requestWake whenUs r =
     (True, if length (rp_wakes r) < kReplayWakes then r\<lparr>rp_wakes := rp_wakes r @ [whenUs]\<rparr> else r)"

definition replay_diagnose :: "string \<Rightarrow> replay \<Rightarrow> bool \<times> replay" where
  "replay_diagnose text r =
     (True, print_text (decw (rp_now r) @ '' mark src=model text='' @ concat (map percent text) @ [CHR 0x0A]) r)"

text \<open>What it does not override keeps the answer of the base class.\<close>

definition replay_port :: "(replay, unit) host_port" where
  "replay_port = \<lparr>
     hp_now = rp_now,
     hp_line_out = (\<lambda>line level r. r),
     hp_analog_out = (\<lambda>line raw r. (False, r)),
     hp_analog_out_mv = (\<lambda>line mv r. (False, r)),
     hp_request_wake = replay_requestWake,
     hp_diagnose = replay_diagnose,
     hp_serial_out = (\<lambda>data r. (True, r)),
     hp_frame_out = (\<lambda>bus format data bits r. (False, r)),
     hp_format_id = (\<lambda>name schema r. (0, r)),
     hp_max_frame_bits = (\<lambda>bus r. 0),
     hp_get = (\<lambda>r. ()), hp_upd = (\<lambda>g r. r)\<rparr>"

section \<open>Advancing\<close>

text \<open>The first of the earliest wakes due; the length of the table when none is.\<close>

definition due_best :: "u64 \<Rightarrow> u64 list \<Rightarrow> nat" where
  "due_best t ws =
     foldl (\<lambda>best i. if ws ! i \<le> t \<and> (best = length ws \<or> ws ! i < ws ! best) then i else best) (length ws) [0..<length ws]"

text \<open>The entry is taken out by moving the last one into its place.\<close>

definition take_due :: "u64 \<Rightarrow> u64 list \<Rightarrow> (u64 \<times> u64 list) option" where
  "take_due t ws =
     (let best = due_best t ws
      in if best = length ws then None else Some (ws ! best, butlast (ws[best := last ws])))"

definition replay_step :: "('d \<Rightarrow> (unit, 'd) prog) \<Rightarrow> 'd \<times> replay \<Rightarrow> 'd \<times> replay" where
  "replay_step m s = (case s of (d, r) \<Rightarrow> run_prog replay_port (m d) r)"

text \<open>A model that asks for one wake after the other within the span keeps the loop going.\<close>

partial_function (option) replay_advance ::
    "(u64 \<Rightarrow> 'd \<Rightarrow> (unit, 'd) prog) \<Rightarrow> u64 \<Rightarrow> 'd \<times> replay \<Rightarrow> ('d \<times> replay) option" where
  "replay_advance adv t s =
     (case take_due t (rp_wakes (snd s)) of
        None \<Rightarrow> Some (replay_step (adv t) (fst s, (snd s)\<lparr>rp_now := t\<rparr>))
      | Some (when, rest) \<Rightarrow>
          (let now = (if rp_now (snd s) < when then when else rp_now (snd s))
           in replay_advance adv t (replay_step (adv now) (fst s, (snd s)\<lparr>rp_wakes := rest, rp_now := now\<rparr>))))"

section \<open>A line of the trace\<close>

definition kLineMax :: nat where "kLineMax = 1024"
definition kValueMax :: nat where "kValueMax = 600"
definition kDataMax :: nat where "kDataMax = 300"

text \<open>What a line asks for: its time and, after one blank, the rest of it.\<close>

datatype request =
    ReplayMark
  | ReplayWrite u32 bytes bool bool
  | ReplayRead u32 nat bool bool

definition line_time :: "string \<Rightarrow> (u64 \<times> string) option" where
  "line_time line =
     (case strtoul 10 line of (t, n) \<Rightarrow>
        if n = 0 \<or> length line \<le> n \<or> line ! n \<noteq> CHR '' '' then None else Some (t, drop (n + 1) line))"

definition has_rs :: "string \<Rightarrow> bool" where
  "has_rs body \<longleftrightarrow> suffix '' rs'' body"

text \<open>A \<open>stop=\<close> that is missing counts as one that is set.\<close>

definition has_stop :: "string \<Rightarrow> bool" where
  "has_stop body \<longleftrightarrow> (case field body ''stop'' kValueMax of [] \<Rightarrow> True | c # _ \<Rightarrow> c \<noteq> CHR ''0'')"

definition field_addr :: "string \<Rightarrow> u32" where
  "field_addr body = ucast (fst (strtoul 16 (field body ''addr'' kValueMax)))"

definition parse_request :: "string \<Rightarrow> request option" where
  "parse_request body =
     (if prefix ''mark '' body then Some ReplayMark
      else if prefix ''i2c.req '' body then
        Some (ReplayWrite (field_addr body) (parseHex (field body ''data'' kValueMax) kDataMax) (has_stop body) (has_rs body))
      else if prefix ''i2c.rd.req '' body then
        Some (ReplayRead (field_addr body) (min (unat (fst (strtoul 10 (field body ''req'' kValueMax)))) kDataMax)
          (has_stop body) (has_rs body))
      else None)"

definition println :: "string \<Rightarrow> replay \<Rightarrow> replay" where
  "println s r = print_text (s @ [CHR 0x0A]) r"

definition hexes :: "bytes \<Rightarrow> string" where
  "hexes data = concat (map hex2 data)"

text \<open>One line played: \<open>None\<close> when the model keeps the tool busy for ever.\<close>

definition play_write :: "(unit, 'd) device \<Rightarrow> u32 \<Rightarrow> string \<Rightarrow> u64 \<Rightarrow> u32 \<Rightarrow> bytes \<Rightarrow> i2c_transfer \<Rightarrow> 'd \<times> replay \<Rightarrow> 'd \<times> replay" where
  "play_write dev addr line t a data xfer s =
     (case (if a = addr then run_prog replay_port (dv_i2c_write dev data xfer (fst s)) (snd s)
            else ((kI2cAddressNack, fst s), snd s)) of
        ((status, d), r) \<Rightarrow> (d, println (decw t @ '' i2c.resp status='' @ decw status) (println line r)))"

definition play_read :: "(unit, 'd) device \<Rightarrow> u32 \<Rightarrow> string \<Rightarrow> u64 \<Rightarrow> u32 \<Rightarrow> nat \<Rightarrow> i2c_transfer \<Rightarrow> 'd \<times> replay \<Rightarrow> 'd \<times> replay" where
  "play_read dev addr line t a want xfer s =
     (let r = println line (snd s)
      in if a \<noteq> addr then (fst s, println (decw t @ '' i2c.rd.resp len=0 data= status=2'') r)
         else (case run_prog replay_port (dv_i2c_read dev want xfer (fst s)) r of
           ((got, out, d), r1) \<Rightarrow> (d, println (decw t @ '' i2c.rd.resp len='' @ decu got @ '' data='' @ hexes (take got out)) r1)))"

definition play_line :: "(unit, 'd) device \<Rightarrow> u32 \<Rightarrow> string \<Rightarrow> 'd \<times> replay \<Rightarrow> ('d \<times> replay) option" where
  "play_line dev addr line s =
     (case line_time line of None \<Rightarrow> Some s
      | Some (t, body) \<Rightarrow>
          (case parse_request body of
             None \<Rightarrow> Some s
           | Some ReplayMark \<Rightarrow> Some (fst s, println line (snd s))
           | Some (ReplayWrite a data stop rs) \<Rightarrow>
               map_option (play_write dev addr line t a data \<lparr>xstop = stop, xcontinued = rs\<rparr>)
                 (replay_advance (dv_advance_to dev) t s)
           | Some (ReplayRead a want stop rs) \<Rightarrow>
               map_option (play_read dev addr line t a want \<lparr>xstop = stop, xcontinued = rs\<rparr>)
                 (replay_advance (dv_advance_to dev) t s)))"

section \<open>The program\<close>

text \<open>\<open>fgets\<close>: up to 1023 characters, through the end of the line; the newline is cut off after.\<close>

definition fgets :: "string \<Rightarrow> (string \<times> string) option" where
  "fgets s =
     (if s = [] then None
      else let full = takeWhile (\<lambda>c. c \<noteq> CHR 0x0A) s;
               n = (if length full < kLineMax - 1 then min (length full + 1) (length s) else kLineMax - 1)
           in Some (takeWhile (\<lambda>c. c \<noteq> CHR 0x0A) (take n s), drop n s))"

lemma fgets_shorter: "fgets s = Some (line, rest) \<Longrightarrow> length rest < length s"
  by (auto simp: fgets_def Let_def kLineMax_def split: if_splits)

function play_all :: "(unit, 'd) device \<Rightarrow> u32 \<Rightarrow> string \<Rightarrow> 'd \<times> replay \<Rightarrow> ('d \<times> replay) option" where
  "play_all dev addr input s =
     (case fgets input of None \<Rightarrow> Some s
      | Some (line, rest) \<Rightarrow> Option.bind (play_line dev addr line s) (play_all dev addr rest))"
  by pat_completeness auto

termination by (relation "measure (\<lambda>(dev, addr, input, s). length input)") (auto dest: fgets_shorter)

declare play_all.simps [simp del]

text \<open>The command line: \<open>None\<close> is an exit with an error.\<close>

fun play_args :: "(unit, 'd) device \<Rightarrow> string list \<Rightarrow> u32 \<Rightarrow> 'd \<times> replay \<Rightarrow> (u32 \<times> 'd \<times> replay) option" where
  "play_args dev [] addr s = Some (addr, s)"
| "play_args dev (arg # args) addr s =
     (if arg = ''--addr'' then
        (case args of v # others \<Rightarrow> play_args dev others (ucast (fst (strtoul 16 v))) s | [] \<Rightarrow> None)
      else if arg = ''--channel'' then
        (case args of c # v # others \<Rightarrow>
           (case run_prog replay_port (dv_channel_write dev (ucast (fst (strtoul 10 c))) (parseHex v 512) (fst s)) (snd s) of
              ((ok, d), r) \<Rightarrow> if ok then play_args dev others addr (d, r) else None)
         | _ \<Rightarrow> None)
      else None)"

definition new_replay :: replay where
  "new_replay = \<lparr>rp_now = 0, rp_wakes = [], rp_printed = []\<rparr>"

definition replay_main :: "(unit, 'd) device \<Rightarrow> 'd \<Rightarrow> string list \<Rightarrow> string \<Rightarrow> string option option" where
  "replay_main dev d0 args input =
     (case play_args dev args 0x100 (dv_reset dev d0, new_replay) of
        None \<Rightarrow> Some None
      | Some (addr, s) \<Rightarrow>
          if 0x7F < addr then Some None
          else map_option (\<lambda>(d, r). Some (rp_printed (println (''# dump '' @ clip 256 (dv_dump dev d)) r)))
                 (play_all dev addr input s))"

end
