(* ===== verification/Capture_Recorders.thy ===== *)
theory Capture_Recorders
  imports Line_Replay
begin

text \<open>
  The recorders for a real board, \<open>capture/src/CaptureWire.h\<close>, \<open>CaptureSPI.h\<close>,
  \<open>CaptureSerial.h\<close> and \<open>CaptureLines.h\<close>: each stands in front of a bus of the Arduino core and
  prints a line per transfer. The bus behind is a parameter, a record of the calls made to it
  over a state of its own; its clock counts microseconds in an \<open>unsigned long\<close> of the platform,
  a natural number here. The output is the list of lines printed, without the carriage return and
  the line feed \<open>println\<close> ends each with; the pointer to it is never null, for it is set from a
  reference.
\<close>

section \<open>Two-wire bus\<close>

text \<open>\<open>read\<close> answers \<open>None\<close> for the negative value of an empty bus.\<close>

record 's two_wire =
  tw_micros :: "'s \<Rightarrow> nat"
  tw_begin :: "u8 \<Rightarrow> 's \<Rightarrow> 's"
  tw_end :: "bool \<Rightarrow> 's \<Rightarrow> u8 \<times> 's"
  tw_request :: "u16 \<Rightarrow> nat \<Rightarrow> bool \<Rightarrow> 's \<Rightarrow> nat \<times> 's"
  tw_read :: "'s \<Rightarrow> u8 option \<times> 's"
  tw_write :: "u8 \<Rightarrow> 's \<Rightarrow> nat \<times> 's"
  tw_write_buffer :: "bytes \<Rightarrow> 's \<Rightarrow> nat \<times> 's"
  tw_flush :: "'s \<Rightarrow> 's"

text \<open>\<open>cw_tx\<close> and \<open>cw_rx\<close> are the bytes kept, with their lengths.\<close>

record 's cap_wire =
  cw_inner :: 's
  cw_lines :: "string list"
  cw_prefix :: string
  cw_address :: u8
  cw_open :: u16
  cw_tx :: bytes
  cw_tx_total :: nat
  cw_rx :: bytes
  cw_rx_pos :: nat
  cw_transfers :: u32

definition kPayloadMax :: nat where "kPayloadMax = 64"
definition kNoAddress :: u16 where "kNoAddress = 0xFFFF"

definition new_cap_wire :: "string \<Rightarrow> 's \<Rightarrow> 's cap_wire" where
  "new_cap_wire pre s = \<lparr>cw_inner = s, cw_lines = [], cw_prefix = pre, cw_address = 0, cw_open = kNoAddress, cw_tx = [],
     cw_tx_total = 0, cw_rx = [], cw_rx_pos = 0, cw_transfers = 0\<rparr>"

definition cw_emit :: "string \<Rightarrow> 's cap_wire \<Rightarrow> 's cap_wire" where
  "cw_emit line c = c\<lparr>cw_lines := cw_lines c @ [cw_prefix c @ line]\<rparr>"

definition cw_beginTransmission :: "'s two_wire \<Rightarrow> u8 \<Rightarrow> 's cap_wire \<Rightarrow> 's cap_wire" where
  "cw_beginTransmission tw a c =
     c\<lparr>cw_address := a, cw_tx := [], cw_tx_total := 0, cw_inner := tw_begin tw a (cw_inner c)\<rparr>"

definition cw_clip :: "string \<Rightarrow> string" where "cw_clip s = clip (kPayloadMax * 2 + 64) s"

definition cw_req_line :: "nat \<Rightarrow> u8 \<Rightarrow> bytes \<Rightarrow> bool \<Rightarrow> bool \<Rightarrow> bool \<Rightarrow> string" where
  "cw_req_line at a tx stop continued truncated =
     cw_clip (dec at @ '' i2c.req addr='' @ hex2 a @ '' data='' @ hexes tx @ '' stop='' @ bool_dec stop @
       (if continued then '' rs'' else []) @ (if truncated then '' truncated'' else []))"

definition cw_endTransmission :: "'s two_wire \<Rightarrow> bool \<Rightarrow> 's cap_wire \<Rightarrow> u8 \<times> 's cap_wire" where
  "cw_endTransmission tw stop c =
     (let at = tw_micros tw (cw_inner c)
      in case tw_end tw stop (cw_inner c) of
        (status, s) \<Rightarrow>
          let continued = (cw_open c = ucast (cw_address c));
              c1 = cw_emit (cw_req_line at (cw_address c) (cw_tx c) stop continued (length (cw_tx c) < cw_tx_total c))
                     (c\<lparr>cw_inner := s\<rparr>);
              c2 = cw_emit (cw_clip (dec at @ '' i2c.resp status='' @ decw status)) c1
          in (status, c2\<lparr>cw_open := (if stop then kNoAddress else ucast (cw_address c)), cw_transfers := cw_transfers c + 1\<rparr>))"

text \<open>The loop that copies what was read: it stops early when the bus runs out.\<close>

fun tw_reads :: "'s two_wire \<Rightarrow> nat \<Rightarrow> 's \<Rightarrow> bytes \<times> 's" where
  "tw_reads tw 0 s = ([], s)"
| "tw_reads tw (Suc n) s =
     (case tw_read tw s of (None, s1) \<Rightarrow> ([], s1)
      | (Some b, s1) \<Rightarrow> (case tw_reads tw n s1 of (bs, s2) \<Rightarrow> (b # bs, s2)))"

definition cw_rd_line :: "nat \<Rightarrow> u8 \<Rightarrow> nat \<Rightarrow> bool \<Rightarrow> bool \<Rightarrow> string" where
  "cw_rd_line at a len stop continued =
     cw_clip (dec at @ '' i2c.rd.req addr='' @ hex2 a @ '' req='' @ decu len @ '' stop='' @ bool_dec stop @
       (if continued then '' rs'' else []))"

definition cw_requestFrom :: "'s two_wire \<Rightarrow> u8 \<Rightarrow> nat \<Rightarrow> bool \<Rightarrow> 's cap_wire \<Rightarrow> nat \<times> 's cap_wire" where
  "cw_requestFrom tw a len stop c =
     (let at = tw_micros tw (cw_inner c)
      in case tw_request tw (ucast a) len stop (cw_inner c) of
        (got, s) \<Rightarrow>
          let continued = (cw_open c = ucast a)
          in case tw_reads tw (min got kPayloadMax) s of
            (rx, s1) \<Rightarrow>
              let c1 = cw_emit (cw_rd_line at a len stop continued) (c\<lparr>cw_rx := rx, cw_rx_pos := 0, cw_inner := s1\<rparr>);
                  c2 = cw_emit (cw_clip (dec at @ '' i2c.rd.resp len='' @ decu got @ '' data='' @ hexes rx @
                         (if length rx < got then '' truncated'' else []))) c1
              in (got, c2\<lparr>cw_open := (if stop then kNoAddress else ucast a), cw_transfers := cw_transfers c + 1\<rparr>))"

definition cw_write :: "'s two_wire \<Rightarrow> u8 \<Rightarrow> 's cap_wire \<Rightarrow> nat \<times> 's cap_wire" where
  "cw_write tw b c =
     (case tw_write tw b (cw_inner c) of
        (n, s) \<Rightarrow> (n, c\<lparr>cw_tx := take kPayloadMax (cw_tx c @ [b]), cw_tx_total := cw_tx_total c + 1, cw_inner := s\<rparr>))"

definition cw_write_buffer :: "'s two_wire \<Rightarrow> bytes \<Rightarrow> 's cap_wire \<Rightarrow> nat \<times> 's cap_wire" where
  "cw_write_buffer tw data c =
     (case tw_write_buffer tw data (cw_inner c) of
        (n, s) \<Rightarrow> (n, c\<lparr>cw_tx := take kPayloadMax (cw_tx c @ data), cw_tx_total := cw_tx_total c + length data, cw_inner := s\<rparr>))"

definition cw_available :: "'s cap_wire \<Rightarrow> nat" where
  "cw_available c = length (cw_rx c) - cw_rx_pos c"

definition cw_peek :: "'s cap_wire \<Rightarrow> u8 option" where
  "cw_peek c = (if cw_rx_pos c < length (cw_rx c) then Some (cw_rx c ! cw_rx_pos c) else None)"

definition cw_read :: "'s cap_wire \<Rightarrow> u8 option \<times> 's cap_wire" where
  "cw_read c =
     (if cw_rx_pos c < length (cw_rx c) then (Some (cw_rx c ! cw_rx_pos c), c\<lparr>cw_rx_pos := cw_rx_pos c + 1\<rparr>) else (None, c))"

definition cw_flush :: "'s two_wire \<Rightarrow> 's cap_wire \<Rightarrow> 's cap_wire" where
  "cw_flush tw c = c\<lparr>cw_inner := tw_flush tw (cw_inner c)\<rparr>"

section \<open>SPI\<close>

text \<open>The transfers of the bus: a byte, a half word, a buffer in place, a buffer into another.\<close>

record 's spi_bus =
  sb_micros :: "'s \<Rightarrow> nat"
  sb_begin :: "'s \<Rightarrow> 's"
  sb_end :: "'s \<Rightarrow> 's"
  sb_transfer :: "u8 \<Rightarrow> 's \<Rightarrow> u8 \<times> 's"
  sb_transfer16 :: "u16 \<Rightarrow> 's \<Rightarrow> u16 \<times> 's"
  sb_transfer_buffer :: "bytes \<Rightarrow> 's \<Rightarrow> bytes \<times> 's"
  sb_transfer_bytes :: "bytes \<Rightarrow> 's \<Rightarrow> bytes \<times> 's"

record 's cap_spi =
  cs_inner :: 's
  cs_lines :: "string list"
  cs_prefix :: string

definition kChunkMax :: nat where "kChunkMax = 64"

definition spi_line :: "nat \<Rightarrow> bytes \<Rightarrow> bytes \<Rightarrow> string" where
  "spi_line at mosi miso = dec at @ '' spi.xfer mosi='' @ hexes mosi @ '' miso='' @ hexes miso"

definition cs_emit :: "nat \<Rightarrow> bytes \<Rightarrow> bytes \<Rightarrow> 's cap_spi \<Rightarrow> 's cap_spi" where
  "cs_emit at mosi miso c = c\<lparr>cs_lines := cs_lines c @ [cs_prefix c @ spi_line at mosi miso]\<rparr>"

definition cs_beginTransaction :: "'s spi_bus \<Rightarrow> 's cap_spi \<Rightarrow> 's cap_spi" where
  "cs_beginTransaction sb c = c\<lparr>cs_inner := sb_begin sb (cs_inner c)\<rparr>"

definition cs_endTransaction :: "'s spi_bus \<Rightarrow> 's cap_spi \<Rightarrow> 's cap_spi" where
  "cs_endTransaction sb c = c\<lparr>cs_inner := sb_end sb (cs_inner c)\<rparr>"

definition cs_transfer :: "'s spi_bus \<Rightarrow> u8 \<Rightarrow> 's cap_spi \<Rightarrow> u8 \<times> 's cap_spi" where
  "cs_transfer sb mosi c =
     (let at = sb_micros sb (cs_inner c)
      in case sb_transfer sb mosi (cs_inner c) of (miso, s) \<Rightarrow> (miso, cs_emit at [mosi] [miso] (c\<lparr>cs_inner := s\<rparr>)))"

definition word_bytes :: "u16 \<Rightarrow> bytes" where
  "word_bytes w = [ucast (drop_bit 8 w), ucast (w AND 0xFF)]"

definition cs_transfer16 :: "'s spi_bus \<Rightarrow> u16 \<Rightarrow> 's cap_spi \<Rightarrow> u16 \<times> 's cap_spi" where
  "cs_transfer16 sb data c =
     (let at = sb_micros sb (cs_inner c)
      in case sb_transfer16 sb data (cs_inner c) of
           (reply, s) \<Rightarrow> (reply, cs_emit at (word_bytes data) (word_bytes reply) (c\<lparr>cs_inner := s\<rparr>)))"

text \<open>Buffers go out in pieces of 64, each a line of its own.\<close>

function cs_transfer_buffer :: "'s spi_bus \<Rightarrow> bytes \<Rightarrow> 's cap_spi \<Rightarrow> bytes \<times> 's cap_spi" where
  "cs_transfer_buffer sb data c =
     (if data = [] then ([], c)
      else let mosi = take kChunkMax data; at = sb_micros sb (cs_inner c)
           in case sb_transfer_buffer sb mosi (cs_inner c) of
             (miso, s) \<Rightarrow>
               (case cs_transfer_buffer sb (drop kChunkMax data) (cs_emit at mosi miso (c\<lparr>cs_inner := s\<rparr>)) of
                  (more_miso, c1) \<Rightarrow> (miso @ more_miso, c1)))"
  by pat_completeness auto

termination by (relation "measure (\<lambda>(sb, data, c). length data)") (simp_all add: kChunkMax_def)

declare cs_transfer_buffer.simps [simp del]

text \<open>
  The answers of \<open>transferBytes\<close> go nowhere, to another buffer, or over the bytes sent. The line
  is made after the transfer, so in the last case the bytes sent are gone from it.
\<close>

datatype miso_buffer = NoBuffer | OtherBuffer | SameBuffer

function cs_transferBytes :: "'s spi_bus \<Rightarrow> miso_buffer \<Rightarrow> bytes \<Rightarrow> 's cap_spi \<Rightarrow> bytes \<times> 's cap_spi" where
  "cs_transferBytes sb into data c =
     (if data = [] then ([], c)
      else let mosi = take kChunkMax data; at = sb_micros sb (cs_inner c)
           in case sb_transfer_bytes sb mosi (cs_inner c) of
             (miso, s) \<Rightarrow>
               (case cs_transferBytes sb into (drop kChunkMax data)
                       (cs_emit at (if into = SameBuffer then miso else mosi) miso (c\<lparr>cs_inner := s\<rparr>)) of
                  (more_miso, c1) \<Rightarrow> (miso @ more_miso, c1)))"
  by pat_completeness auto

termination by (relation "measure (\<lambda>(sb, into, data, c). length data)") (simp_all add: kChunkMax_def)

declare cs_transferBytes.simps [simp del]

section \<open>Serial\<close>

record 's serial_stream =
  ss_micros :: "'s \<Rightarrow> nat"
  ss_write :: "bytes \<Rightarrow> 's \<Rightarrow> nat \<times> 's"
  ss_available :: "'s \<Rightarrow> nat"
  ss_read :: "'s \<Rightarrow> u8 option \<times> 's"
  ss_flush :: "'s \<Rightarrow> 's"

record 's cap_serial =
  cr_inner :: 's
  cr_lines :: "string list"
  cr_prefix :: string
  cr_rx :: bytes
  cr_rx_pos :: nat

definition kBufferSize :: nat where "kBufferSize = 256"

definition cr_printable :: "u8 \<Rightarrow> bool" where
  "cr_printable b \<longleftrightarrow> (0x20 \<le> b \<and> b \<le> 0x7E \<and> b \<noteq> 0x5C) \<or> b = 0x0D \<or> b = 0x0A \<or> b = 0x09"

definition escaped :: "u8 \<Rightarrow> string" where
  "escaped b = (if b = 0x0D then [CHR 0x5C, CHR ''r''] else if b = 0x0A then [CHR 0x5C, CHR ''n'']
     else if b = 0x09 then [CHR 0x5C, CHR ''t''] else [byte_char b])"

definition chunk_label :: "bytes \<Rightarrow> string" where
  "chunk_label data = (if list_all cr_printable data then concat (map escaped data) else ''data='' @ hexes data)"

definition cr_say :: "string \<Rightarrow> 's cap_serial \<Rightarrow> 's cap_serial" where
  "cr_say line c = c\<lparr>cr_lines := cr_lines c @ [cr_prefix c @ line]\<rparr>"

function cr_chunks :: "nat \<Rightarrow> string \<Rightarrow> bytes \<Rightarrow> 's cap_serial \<Rightarrow> 's cap_serial" where
  "cr_chunks at kind data c =
     (if data = [] then c
      else cr_chunks at kind (drop kChunkMax data)
             (cr_say (clip (kChunkMax * 2 + 40) (dec at @ '' '' @ kind @ '' '' @ chunk_label (take kChunkMax data))) c))"
  by pat_completeness auto

termination by (relation "measure (\<lambda>(at, kind, data, c). length data)") (simp_all add: kChunkMax_def)

declare cr_chunks.simps [simp del]

definition cr_emit :: "nat \<Rightarrow> string \<Rightarrow> bytes \<Rightarrow> 's cap_serial \<Rightarrow> 's cap_serial" where
  "cr_emit at kind data c =
     (if data = [] then cr_say (clip 40 (dec at @ '' '' @ kind @ '' empty'')) c else cr_chunks at kind data c)"

definition cr_write :: "'s serial_stream \<Rightarrow> bytes \<Rightarrow> 's cap_serial \<Rightarrow> nat \<times> 's cap_serial" where
  "cr_write ss data c =
     (let at = ss_micros ss (cr_inner c)
      in case ss_write ss data (cr_inner c) of (accepted, s) \<Rightarrow> (accepted, cr_emit at ''uart.tx'' data (c\<lparr>cr_inner := s\<rparr>)))"

text \<open>Pulling bytes while there are some and room is left.\<close>

fun ss_pull :: "'s serial_stream \<Rightarrow> nat \<Rightarrow> 's \<Rightarrow> bytes \<times> 's" where
  "ss_pull ss 0 s = ([], s)"
| "ss_pull ss (Suc room) s =
     (if ss_available ss s = 0 then ([], s)
      else case ss_read ss s of (None, s1) \<Rightarrow> ([], s1)
        | (Some b, s1) \<Rightarrow> (case ss_pull ss room s1 of (bs, s2) \<Rightarrow> (b # bs, s2)))"

definition cr_drain :: "'s serial_stream \<Rightarrow> 's cap_serial \<Rightarrow> 's cap_serial" where
  "cr_drain ss c0 =
     (let c = (if cr_rx_pos c0 = length (cr_rx c0) then c0\<lparr>cr_rx_pos := 0, cr_rx := []\<rparr> else c0);
          at = ss_micros ss (cr_inner c)
      in case ss_pull ss (kBufferSize - length (cr_rx c)) (cr_inner c) of
           (got, s) \<Rightarrow>
             let c1 = c\<lparr>cr_rx := cr_rx c @ got, cr_inner := s\<rparr>
             in if got \<noteq> [] then cr_emit at ''dev.tx'' got c1 else c1)"

definition cr_available :: "'s serial_stream \<Rightarrow> 's cap_serial \<Rightarrow> nat \<times> 's cap_serial" where
  "cr_available ss c = (let c1 = cr_drain ss c in (length (cr_rx c1) - cr_rx_pos c1, c1))"

definition cr_read :: "'s serial_stream \<Rightarrow> 's cap_serial \<Rightarrow> u8 option \<times> 's cap_serial" where
  "cr_read ss c =
     (let c1 = cr_drain ss c
      in if cr_rx_pos c1 < length (cr_rx c1) then (Some (cr_rx c1 ! cr_rx_pos c1), c1\<lparr>cr_rx_pos := cr_rx_pos c1 + 1\<rparr>)
         else (None, c1))"

definition cr_peek :: "'s serial_stream \<Rightarrow> 's cap_serial \<Rightarrow> u8 option \<times> 's cap_serial" where
  "cr_peek ss c =
     (let c1 = cr_drain ss c
      in (if cr_rx_pos c1 < length (cr_rx c1) then Some (cr_rx c1 ! cr_rx_pos c1) else None, c1))"

section \<open>Lines\<close>

text \<open>The watched pins with their last levels; reading a pin is a call to the board.\<close>

record cap_lines =
  cl_lines :: "string list"
  cl_prefix :: string
  cl_watched :: "(u8 \<times> bool) list"

definition kMaxLines :: nat where "kMaxLines = 8"

definition cl_watch :: "(u8 \<Rightarrow> bool) \<Rightarrow> u8 \<Rightarrow> cap_lines \<Rightarrow> bool \<times> cap_lines" where
  "cl_watch digitalRead pin c =
     (if kMaxLines \<le> length (cl_watched c) then (False, c)
      else (True, c\<lparr>cl_watched := cl_watched c @ [(pin, digitalRead pin)]\<rparr>))"

definition line_event :: "nat \<Rightarrow> u8 \<Rightarrow> bool \<Rightarrow> string" where
  "line_event at pin level = clip 48 (dec at @ '' gpio.inject pin='' @ decw pin @ '' val='' @ bool_dec level)"

text \<open>One pass over the pins; \<open>digitalRead\<close> and \<open>micros\<close> answer for the moment of each.\<close>

definition cl_poll :: "(nat \<Rightarrow> u8 \<Rightarrow> bool) \<Rightarrow> (nat \<Rightarrow> nat) \<Rightarrow> cap_lines \<Rightarrow> cap_lines" where
  "cl_poll digitalRead micros c =
     (let pins = cl_watched c;
          changed = filter (\<lambda>i. digitalRead i (fst (pins ! i)) \<noteq> snd (pins ! i)) [0..<length pins]
      in c\<lparr>cl_watched := map (\<lambda>i. (fst (pins ! i), digitalRead i (fst (pins ! i)))) [0..<length pins],
           cl_lines := cl_lines c @
             map (\<lambda>i. cl_prefix c @ line_event (micros i) (fst (pins ! i)) (digitalRead i (fst (pins ! i)))) changed\<rparr>)"

end
