(* ===== verification/Capture_Replay.thy ===== *)
theory Capture_Replay
  imports Capture_Recorders
begin

text \<open>
  What a capture on a board says can be read back: the lines \<open>CaptureWire\<close> prints
  (\<open>capture/src/CaptureWire.h\<close>) are the ones the replay tool
  (\<open>devices/tools/linereplay_main.cpp\<close>) plays; the order wakes are served in during a replay;
  and what the recorders leave of the bus for the application.
\<close>

section \<open>Numbers written and read\<close>

lemma digit_value_digit_char [simp]: "d < 16 \<Longrightarrow> digit_value (digit_char d) = d"
  by (auto simp: digit_value_def digit_char_def Let_def)

text \<open>The characters numbers are written with.\<close>

definition plain :: "char \<Rightarrow> bool" where
  "plain c \<longleftrightarrow> (48 \<le> (of_char c :: nat) \<and> (of_char c :: nat) \<le> 57) \<or> (65 \<le> (of_char c :: nat) \<and> (of_char c :: nat) \<le> 70)"

lemma plain_digit: "d < 16 \<Longrightarrow> plain (digit_char d)"
  by (auto simp: plain_def digit_char_def)

lemma plain_hex2 [simp]: "c \<in> set (hex2 b) \<Longrightarrow> plain c"
proof -
  have "unat b < 256" using unsigned_less [of b, where 'a = nat] by simp
  then have "unat b div 16 < 16" "unat b mod 16 < 16" by simp_all
  then show "c \<in> set (hex2 b) \<Longrightarrow> plain c" by (auto simp: hex2_def plain_digit)
qed

lemma plain_hexes: "c \<in> set (hexes bs) \<Longrightarrow> plain c"
  by (auto simp: hexes_def)

lemma plain_dec: "c \<in> set (dec n) \<Longrightarrow> plain c"
  using dec_digits [of c n] by (simp add: dec_digit_def plain_def)

lemma plain_apart:
  "plain c \<Longrightarrow> c \<noteq> CHR '' ''" "plain c \<Longrightarrow> c \<noteq> CHR 0x0A" "plain c \<Longrightarrow> c \<noteq> CHR ''s''" "plain c \<Longrightarrow> c \<noteq> CHR ''d''"
  "plain c \<Longrightarrow> c \<noteq> CHR ''r''" "plain c \<Longrightarrow> \<not> is_space c" "plain c \<Longrightarrow> c \<noteq> CHR ''-''" "plain c \<Longrightarrow> c \<noteq> CHR ''+''"
  by (auto simp: plain_def is_space_def)

lemma dec_nonempty [simp]: "dec n \<noteq> []"
  by (subst dec.simps) simp

lemma dec_value: "digits_value 10 (dec n) = n"
proof (induction n rule: dec.induct)
  case (1 n)
  then show ?case by (subst dec.simps) (simp add: digits_value_def)
qed

lemma dec_low: "c \<in> set (dec n) \<Longrightarrow> digit_value c < 10"
  using dec_digits [of c n] by (auto simp: dec_digit_def digit_value_def Let_def)

lemma sign_of_plain: "plain c \<Longrightarrow> sign_of (c # s) = (False, c # s)"
  using plain_apart(7,8) [of c] by (simp add: sign_of_def)

lemma strtoul_dec:
  assumes "n < 2 ^ 64" "rest = [] \<or> (\<exists>c r. rest = c # r \<and> 10 \<le> digit_value c)"
  shows "strtoul 10 (dec n @ rest) = (of_nat n, length (dec n))"
proof -
  obtain c s where cs: "dec n = c # s" using dec_nonempty [of n] by (cases "dec n") auto
  then have c: "plain c" using plain_dec [of c n] by simp
  have skip: "dropWhile is_space (dec n @ rest) = dec n @ rest" using plain_apart(6) [OF c] by (simp add: cs)
  have sign: "sign_of (dec n @ rest) = (False, dec n @ rest)" using sign_of_plain [OF c] by (simp add: cs)
  have "takeWhile (\<lambda>c. digit_value c < 10) (dec n @ rest) = dec n @ takeWhile (\<lambda>c. digit_value c < 10) rest"
    by (rule takeWhile_append2) (rule dec_low)
  also have "takeWhile (\<lambda>c. digit_value c < 10) rest = []" using assms(2) by auto
  finally have "takeWhile (\<lambda>c. digit_value c < 10) (dec n @ rest) = dec n" by simp
  then show ?thesis using assms(1) unfolding strtoul_def skip
    by (simp add: sign hex_prefix_def dec_value Let_def)
qed

lemma hex2_value:
  "digits_value 16 (hex2 b) = unat b" "takeWhile (\<lambda>c. digit_value c < 16) (hex2 b) = hex2 b"
proof -
  have "unat b < 256" using unsigned_less [of b, where 'a = nat] by simp
  then show "digits_value 16 (hex2 b) = unat b" "takeWhile (\<lambda>c. digit_value c < 16) (hex2 b) = hex2 b"
    by (simp_all add: digits_value_def hex2_def less_mult_imp_div_less)
qed

lemma strtoul_hex2: "fst (strtoul 16 (hex2 b)) = ucast b"
proof -
  obtain c e where ce: "hex2 b = [c, e]" by (simp add: hex2_def)
  then have c: "plain c" using plain_hex2 [of c b] by simp
  have skip: "dropWhile is_space (hex2 b) = hex2 b" using plain_apart(6) [OF c] by (simp add: ce)
  have sign: "sign_of (hex2 b) = (False, hex2 b)" using sign_of_plain [OF c] by (simp add: ce)
  have "unat b < 256" using unsigned_less [of b, where 'a = nat] by simp
  then have "\<not> 2 ^ 64 \<le> unat b" by simp
  moreover have "(of_nat (unat b) :: u64) = ucast b" by (simp add: unsigned_of_nat)
  ultimately show ?thesis unfolding strtoul_def skip
    by (simp add: sign hex_prefix_def hex2_value Let_def) (simp add: ce)
qed

lemma parseHex_hexes: "length bs \<le> cap \<Longrightarrow> parseHex (hexes bs) cap = bs"
proof (induction bs arbitrary: cap)
  case (Cons b bs)
  obtain c e where ce: "hex2 b = [c, e]" by (simp add: hex2_def)
  have "fst (strtoul 16 [c, e]) = ucast b" using strtoul_hex2 [of b] by (simp add: ce)
  moreover have "ucast (ucast b :: u64) = b" by (rule bit_word_eqI) (simp add: bit_simps)
  ultimately show ?case using Cons by (cases cap) (simp_all add: hexes_def ce)
qed (simp add: hexes_def)

lemma length_hexes [simp]: "length (hexes bs) = 2 * length bs"
  by (induction bs) (simp_all add: hexes_def)

section \<open>Fields found\<close>

text \<open>Text without the first letter of the key is passed over.\<close>

lemma field_scan_skip:
  "(\<forall>c\<in>set u. c \<noteq> k) \<Longrightarrow>
   field_scan w (k # ks) (u @ v) = field_scan (if u = [] then w else last u = CHR '' '') (k # ks) v"
proof (induction u arbitrary: w)
  case (Cons c u)
  then have "k \<noteq> c" by auto
  then show ?case using Cons by (cases "u = []") simp_all
qed simp

lemma field_scan_hit: "key \<noteq> [] \<Longrightarrow> field_scan True key (key @ CHR ''='' # v) = Some v"
  by (cases key) (auto simp: prefix_def)

lemma value_stops:
  assumes "\<forall>c\<in>set u. c \<noteq> CHR '' '' \<and> c \<noteq> CHR 0x0A" "rest = [] \<or> hd rest = CHR '' ''"
  shows "takeWhile (\<lambda>c. c \<noteq> CHR '' '' \<and> c \<noteq> CHR 0x0A) (u @ rest) = u"
  using assms by (cases rest) (simp_all add: takeWhile_append2)

lemma field_value:
  assumes "field_scan True key line = Some (u @ rest)" "\<forall>c\<in>set u. plain c" "rest = [] \<or> hd rest = CHR '' ''" "length u < cap"
  shows "field line key cap = u"
proof -
  have "takeWhile (\<lambda>c. c \<noteq> CHR '' '' \<and> c \<noteq> CHR 0x0A) (u @ rest) = u"
    using assms(2,3) plain_apart by (intro value_stops) auto
  then show ?thesis using assms(1,4) by (simp add: field_def clip_def)
qed

section \<open>The lines of a capture\<close>

definition tail_of :: "bool \<Rightarrow> bool \<Rightarrow> string" where
  "tail_of stop continued = '' stop='' @ bool_dec stop @ (if continued then '' rs'' else [])"

definition write_body :: "u8 \<Rightarrow> bytes \<Rightarrow> bool \<Rightarrow> bool \<Rightarrow> string" where
  "write_body a tx stop continued = ''i2c.req addr='' @ hex2 a @ '' data='' @ hexes tx @ tail_of stop continued"

definition read_body :: "u8 \<Rightarrow> nat \<Rightarrow> bool \<Rightarrow> bool \<Rightarrow> string" where
  "read_body a len stop continued = ''i2c.rd.req addr='' @ hex2 a @ '' req='' @ decu len @ tail_of stop continued"

lemma length_dec_64: "n < 2 ^ 64 \<Longrightarrow> length (dec n) \<le> 20"
  by (rule length_dec) simp_all

lemma clip_short: "length s < cap \<Longrightarrow> clip cap s = s"
  by (simp add: clip_def)

definition cut_mark :: "bool \<Rightarrow> string" where
  "cut_mark truncated = (if truncated then '' truncated'' else [])"

lemma write_line_whole:
  assumes "at < 2 ^ 64" "length tx \<le> kPayloadMax"
  shows "cw_req_line at a tx stop continued truncated =
    dec at @ CHR '' '' # write_body a tx stop continued @ cut_mark truncated"
proof -
  have "length (dec at @ CHR '' '' # write_body a tx stop continued @ cut_mark truncated) < kPayloadMax * 2 + 64"
    using length_dec_64 [OF assms(1)] assms(2) by (simp add: write_body_def tail_of_def bool_dec_def kPayloadMax_def cut_mark_def)
  from clip_short [OF this] show ?thesis by (simp add: cw_req_line_def cw_clip_def write_body_def tail_of_def cut_mark_def)
qed

lemma read_line_whole:
  assumes "at < 2 ^ 64"
  shows "cw_rd_line at a len stop continued = dec at @ CHR '' '' # read_body a len stop continued"
proof -
  have "length (dec (len mod 2 ^ 32)) \<le> 20" by (rule length_dec_64) (simp add: less_trans [of _ "2 ^ 32"])
  then have "length (dec at @ CHR '' '' # read_body a len stop continued) < kPayloadMax * 2 + 64"
    using length_dec_64 [OF assms] by (simp add: read_body_def tail_of_def bool_dec_def kPayloadMax_def decu_def)
  from clip_short [OF this] show ?thesis by (simp add: cw_rd_line_def cw_clip_def read_body_def tail_of_def)
qed

lemma line_time_of: "at < 2 ^ 64 \<Longrightarrow> line_time (dec at @ CHR '' '' # body) = Some (of_nat at, body)"
  using strtoul_dec [of "at" "CHR '' '' # body"] by (simp add: line_time_def digit_value_def nth_append Let_def)

lemma hd_tail_of: "hd (tail_of stop continued @ e) = CHR '' ''"
  by (simp add: tail_of_def)

text \<open>What may end a line after its fields: nothing, the mark of a cut, a carriage return, or both.\<close>

definition line_end :: "string \<Rightarrow> bool" where
  "line_end e \<longleftrightarrow> e = [] \<or> hd e \<noteq> CHR ''s'' \<and> last e \<noteq> CHR ''s''"

lemma has_rs_tail:
  assumes "line_end e"
  shows "has_rs (u @ tail_of stop continued @ e) \<longleftrightarrow> continued \<and> e = []"
proof (cases "e = []")
  case True
  then show ?thesis
    by (auto simp: has_rs_def tail_of_def suffix_def bool_dec_def append_eq_append_conv2 Cons_eq_append_conv)
next
  case False
  have "last s = CHR ''s''" if "suffix '' rs'' s" for s :: string using that by (auto simp: suffix_def)
  from this [of "u @ tail_of stop continued @ e"] show ?thesis using False assms by (auto simp: has_rs_def line_end_def)
qed

lemma stop_field:
  assumes "\<forall>c\<in>set u. c \<noteq> CHR ''s''"
  shows "has_stop (u @ tail_of stop continued @ e) \<longleftrightarrow> stop"
proof -
  let ?rest = "(if continued then '' rs'' else []) @ e"
  have "field_scan True ''stop'' ((u @ '' '') @ ''stop='' @ bool_dec stop @ ?rest) =
      field_scan True ''stop'' (''stop='' @ bool_dec stop @ ?rest)"
    using assms by (subst field_scan_skip) auto
  then have scan: "field_scan True ''stop'' (u @ tail_of stop continued @ e) = Some (bool_dec stop @ ?rest)"
    by (simp add: tail_of_def prefix_def)
  then show ?thesis by (simp add: has_stop_def field_def bool_dec_def clip_def kValueMax_def)
qed

lemma hex2_at: "\<exists>c e. hex2 a = [c, e] \<and> plain c \<and> plain e"
  using plain_hex2 [of "hex2 a ! 0" a] plain_hex2 [of "hex2 a ! 1" a] by (simp add: hex2_def)

lemma parse_addr:
  assumes "field_scan True ''addr'' body = Some (hex2 a @ rest)" "hd rest = CHR '' ''"
  shows "field_addr body = ucast a"
proof -
  have "field body ''addr'' kValueMax = hex2 a"
    using assms(2) by (intro field_value [OF assms(1)]) (auto simp: kValueMax_def)
  moreover have "ucast (ucast a :: u64) = (ucast a :: u32)" by (rule bit_word_eqI) (auto simp: bit_simps)
  ultimately show ?thesis by (simp add: field_addr_def strtoul_hex2)
qed

lemma parse_write:
  assumes "length tx \<le> kPayloadMax" "line_end e"
  shows "parse_request (write_body a tx stop continued @ e) = Some (ReplayWrite (ucast a) tx stop (continued \<and> e = []))"
proof -
  let ?body = "write_body a tx stop continued @ e" and ?tail = "tail_of stop continued @ e"
  let ?u = "''i2c.req addr='' @ hex2 a @ '' data='' @ hexes tx"
  obtain c x where ce: "hex2 a = [c, x]" "plain c" "plain x" using hex2_at by blast
  have "field_scan True ''addr'' ?body = Some (hex2 a @ '' data='' @ hexes tx @ ?tail)"
    by (simp add: write_body_def)
  from parse_addr [OF this] have addr: "field_addr ?body = ucast a" by simp
  have "field_scan True ''data'' ?body = Some (hexes tx @ ?tail)"
    using ce plain_apart(4) [of c] plain_apart(4) [of x] by (auto simp: write_body_def)
  then have "field ?body ''data'' kValueMax = hexes tx"
    using assms(1) plain_hexes by (rule_tac field_value) (auto simp: kValueMax_def kPayloadMax_def hd_tail_of simp del: append_is_Nil_conv)
  then have data: "parseHex (field ?body ''data'' kValueMax) kDataMax = tx"
    using assms(1) by (simp add: parseHex_hexes kDataMax_def kPayloadMax_def)
  have "\<forall>c\<in>set ?u. c \<noteq> CHR ''s''" using plain_apart(3) plain_hexes by (auto simp: dest: plain_hex2)
  from stop_field [OF this] have stop: "has_stop ?body \<longleftrightarrow> stop" by (simp add: write_body_def)
  have "has_rs ?body \<longleftrightarrow> continued \<and> e = []" using has_rs_tail [OF assms(2), of ?u] by (simp add: write_body_def)
  moreover have "\<not> prefix ''mark '' ?body" "prefix ''i2c.req '' ?body" by (simp_all add: write_body_def)
  ultimately show ?thesis using addr data stop by (simp add: parse_request_def)
qed

lemma parse_read:
  assumes "line_end e"
  shows "parse_request (read_body a len stop continued @ e) =
     Some (ReplayRead (ucast a) (min (len mod 2 ^ 32) kDataMax) stop (continued \<and> e = []))"
proof -
  let ?body = "read_body a len stop continued @ e" and ?tail = "tail_of stop continued @ e"
  let ?u = "''i2c.rd.req addr='' @ hex2 a @ '' req='' @ decu len"
  obtain c x where ce: "hex2 a = [c, x]" "plain c" "plain x" using hex2_at by blast
  have "field_scan True ''addr'' ?body = Some (hex2 a @ '' req='' @ decu len @ ?tail)"
    by (simp add: read_body_def)
  from parse_addr [OF this] have addr: "field_addr ?body = ucast a" by simp
  have small: "len mod 2 ^ 32 < 2 ^ 64" by (simp add: less_trans [of _ "2 ^ 32"])
  have "field_scan True ''req'' ?body = Some (decu len @ ?tail)"
    using ce plain_apart(5) [of c] plain_apart(5) [of x] by (auto simp: read_body_def)
  then have "field ?body ''req'' kValueMax = decu len"
    using plain_dec length_dec_64 [OF small] by (rule_tac field_value) (auto simp: kValueMax_def decu_def hd_tail_of simp del: append_is_Nil_conv)
  then have "unat (fst (strtoul 10 (field ?body ''req'' kValueMax))) = len mod 2 ^ 32"
    using strtoul_dec [OF small, of "[]"] small by (simp add: decu_def unat_of_nat)
  moreover have "\<forall>c\<in>set ?u. c \<noteq> CHR ''s''"
    using plain_apart(3) plain_dec by (auto simp: decu_def dest: plain_hex2)
  from stop_field [OF this] have "has_stop ?body \<longleftrightarrow> stop" by (simp add: read_body_def)
  moreover have "has_rs ?body \<longleftrightarrow> continued \<and> e = []" using has_rs_tail [OF assms, of ?u] by (simp add: read_body_def)
  moreover have "\<not> prefix ''mark '' ?body" "\<not> prefix ''i2c.req '' ?body" "prefix ''i2c.rd.req '' ?body"
    by (simp_all add: read_body_def)
  ultimately show ?thesis using addr by (simp add: parse_request_def)
qed

section \<open>Wakes in order\<close>

text \<open>
  What a replay needs of the table of wakes: \<open>pick\<close> takes out an earliest one that is due. A
  client that empties it meets the due wakes in order and leaves the others.
\<close>

locale due_queue =
  fixes pick :: "u64 \<Rightarrow> 'q \<Rightarrow> (u64 \<times> 'q) option"
    and items :: "'q \<Rightarrow> u64 multiset"
  assumes pick_None: "pick t q = None \<longleftrightarrow> (\<forall>w\<in>#items q. t < w)"
    and pick_Some: "pick t q = Some (w, q1) \<Longrightarrow>
      w \<in># items q \<and> w \<le> t \<and> (\<forall>v\<in>#items q. w \<le> v) \<and> items q1 = items q - {#w#}"
begin

definition due :: "u64 \<Rightarrow> 'q \<Rightarrow> u64 multiset" where
  "due t q = filter_mset (\<lambda>w. w \<le> t) (items q)"

lemma due_empty: "pick t q = None \<Longrightarrow> due t q = {#}"
  by (rule ccontr, erule multiset_nonemptyE) (auto simp: due_def pick_None)

lemma due_first:
  assumes "pick t q = Some (w, q1)"
  shows "sorted_list_of_multiset (due t q) = w # sorted_list_of_multiset (due t q1)"
proof -
  note p = pick_Some [OF assms]
  then have "due t q = add_mset w (due t q1)" by (simp add: due_def filter_diff_mset)
  moreover have "\<forall>v\<in>#due t q1. w \<le> v" using p by (auto simp: due_def dest: in_diffD)
  then have "insort w (sorted_list_of_multiset (due t q1)) = w # sorted_list_of_multiset (due t q1)"
    by (intro insort_is_Cons) simp
  ultimately show ?thesis by simp
qed

lemma left_over: "pick t q = Some (w, q1) \<Longrightarrow> filter_mset (\<lambda>w. t < w) (items q1) = filter_mset (\<lambda>w. t < w) (items q)"
  using pick_Some [of t q w q1] by (auto simp: filter_diff_mset)

lemma due_shrinks: "pick t q = Some (w, q1) \<Longrightarrow> size (due t q1) < size (due t q)"
  using due_first [of t q w q1] by (metis length_Cons lessI size_mset mset_sorted_list_of_multiset)

end

definition best_so_far :: "u64 \<Rightarrow> u64 list \<Rightarrow> nat \<Rightarrow> nat \<Rightarrow> bool" where
  "best_so_far t ws n b \<longleftrightarrow> (b = length ws \<and> (\<forall>j<n. t < ws ! j)) \<or>
     (b < n \<and> ws ! b \<le> t \<and> (\<forall>j<n. ws ! j \<le> t \<longrightarrow> ws ! b \<le> ws ! j))"

lemma best_so_far_step:
  assumes "best_so_far t ws n b" "n < length ws"
  shows "best_so_far t ws (Suc n) (if ws ! n \<le> t \<and> (b = length ws \<or> ws ! n < ws ! b) then n else b)"
proof (cases "ws ! n \<le> t \<and> (b = length ws \<or> ws ! n < ws ! b)")
  case True
  have "ws ! n \<le> ws ! j" if "j < n" "ws ! j \<le> t" for j
  proof (cases "b = length ws")
    case True
    then have "t < ws ! j" using assms that(1) by (simp add: best_so_far_def)
    then show ?thesis using that(2) by simp
  next
    case False
    then have "ws ! b \<le> ws ! j" using assms that by (simp add: best_so_far_def)
    moreover have "ws ! n < ws ! b" using True False by simp
    ultimately show ?thesis by (meson less_imp_le order.trans)
  qed
  then have "\<forall>j<Suc n. ws ! j \<le> t \<longrightarrow> ws ! n \<le> ws ! j" by (simp add: less_Suc_eq)
  then show ?thesis using True by (simp add: best_so_far_def)
next
  case False
  then show ?thesis using assms unfolding best_so_far_def by (auto simp: less_Suc_eq not_le)
qed

lemma due_best_scan:
  "n \<le> length ws \<Longrightarrow> best_so_far t ws n
     (foldl (\<lambda>best i. if ws ! i \<le> t \<and> (best = length ws \<or> ws ! i < ws ! best) then i else best) (length ws) [0..<n])"
  by (induction n) (simp_all add: best_so_far_def [of t ws 0] best_so_far_step)

lemma due_best_found:
  "due_best t ws = length ws \<Longrightarrow> \<forall>w\<in>set ws. t < w"
  "due_best t ws \<noteq> length ws \<Longrightarrow>
     due_best t ws < length ws \<and> ws ! due_best t ws \<le> t \<and> (\<forall>w\<in>set ws. ws ! due_best t ws \<le> w)"
proof -
  note scan = due_best_scan [OF order_refl, where ws = ws and t = t, folded due_best_def, unfolded best_so_far_def]
  show "due_best t ws = length ws \<Longrightarrow> \<forall>w\<in>set ws. t < w" using scan by (auto simp: in_set_conv_nth)
  assume ne: "due_best t ws \<noteq> length ws"
  then have best: "due_best t ws < length ws" "ws ! due_best t ws \<le> t"
    "\<forall>j<length ws. ws ! j \<le> t \<longrightarrow> ws ! due_best t ws \<le> ws ! j" using scan by auto
  then have "ws ! due_best t ws \<le> ws ! j" if "j < length ws" for j
    using that by (cases "ws ! j \<le> t") (auto simp: not_le)
  then show "due_best t ws < length ws \<and> ws ! due_best t ws \<le> t \<and> (\<forall>w\<in>set ws. ws ! due_best t ws \<le> w)"
    using best by (auto simp: in_set_conv_nth)
qed

lemma mset_swap_out:
  assumes "i < length xs"
  shows "mset (butlast (xs[i := last xs])) = mset xs - {#xs ! i#}"
proof -
  let ?ys = "xs[i := last xs]"
  have ne: "?ys \<noteq> []" "xs \<noteq> []" using assms by auto
  have "last ?ys = last xs" using assms ne by (simp add: last_conv_nth nth_list_update)
  moreover have "mset ?ys = add_mset (last ?ys) (mset (butlast ?ys))"
    using ne(1) by (metis append_butlast_last_id mset_append mset_single_iff union_mset_add_mset_right add.right_neutral mset.simps)
  moreover have "mset ?ys = add_mset (last xs) (mset xs - {#xs ! i#})" using assms by (rule mset_update)
  ultimately show ?thesis by simp
qed

interpretation replay_table: due_queue take_due mset
proof
  show "take_due t ws = None \<longleftrightarrow> (\<forall>w\<in>#mset ws. t < w)" for t ws
    using due_best_found [of t ws] by (auto simp: take_due_def Let_def) (metis leD nth_mem)
  show "w \<in># mset ws \<and> w \<le> t \<and> (\<forall>v\<in>#mset ws. w \<le> v) \<and> mset ws1 = mset ws - {#w#}"
    if "take_due t ws = Some (w, ws1)" for t ws w ws1
    using that due_best_found(2) [of t ws] by (auto simp: take_due_def Let_def mset_swap_out split: if_splits)
qed

lemma advance_quiet:
  "replay_advance (\<lambda>t d. Ret (f t d)) t (d, r) =
     (case take_due t (rp_wakes r) of
        None \<Rightarrow> Some (f t d, r\<lparr>rp_now := t\<rparr>)
      | Some (w, ws) \<Rightarrow>
          replay_advance (\<lambda>t d. Ret (f t d)) t
            (f (max (rp_now r) w) d, r\<lparr>rp_wakes := ws, rp_now := max (rp_now r) w\<rparr>))"
  by (subst replay_advance.simps) (auto simp: replay_step_def Let_def max_def split: option.split prod.split)

definition due_sorted :: "u64 \<Rightarrow> u64 list \<Rightarrow> u64 list" where
  "due_sorted t ws = sorted_list_of_multiset (filter_mset (\<lambda>w. w \<le> t) (mset ws))"

lemma due_sorted_sort: "due_sorted t ws = sort (filter (\<lambda>w. w \<le> t) ws)"
  by (simp add: due_sorted_def flip: mset_filter)

lemma replay_drains:
  "\<exists>ws. replay_advance (\<lambda>t d. Ret (f t d)) t (d, r) =
      Some (f t (fold f (map (max (rp_now r)) (due_sorted t (rp_wakes r))) d), r\<lparr>rp_now := t, rp_wakes := ws\<rparr>) \<and>
    mset ws = filter_mset (\<lambda>w. t < w) (mset (rp_wakes r))"
proof (induction "size (replay_table.due t (rp_wakes r))" arbitrary: d r rule: less_induct)
  case less
  have due: "replay_table.due t ws = filter_mset (\<lambda>w. w \<le> t) (mset ws)" for ws by (simp add: replay_table.due_def)
  show ?case
  proof (cases "take_due t (rp_wakes r)")
    case None
    then have none: "due_sorted t (rp_wakes r) = []"
      unfolding due_sorted_def due [symmetric] replay_table.due_empty [OF None] by simp
    have "\<forall>w\<in>#mset (rp_wakes r). t < w" using None replay_table.pick_None by blast
    then have "filter_mset (\<lambda>w. t < w) (mset (rp_wakes r)) = mset (rp_wakes r)"
      by (simp add: filter_mset_eq_conv)
    then show ?thesis using None none by (intro exI [of _ "rp_wakes r"]) (simp add: advance_quiet)
  next
    case (Some wq)
    obtain w ws where q: "take_due t (rp_wakes r) = Some (w, ws)" using Some by (cases wq) auto
    let ?now = "max (rp_now r) w" and ?r = "r\<lparr>rp_wakes := ws, rp_now := max (rp_now r) w\<rparr>"
    have first: "due_sorted t (rp_wakes r) = w # due_sorted t ws"
      using replay_table.due_first [OF q] by (simp add: due_sorted_def due)
    have "size (replay_table.due t (rp_wakes ?r)) < size (replay_table.due t (rp_wakes r))"
      using replay_table.due_shrinks [OF q] by simp
    from less [OF this, of "f ?now d"] obtain ws1 where
      rest: "replay_advance (\<lambda>t d. Ret (f t d)) t (f ?now d, ?r) =
          Some (f t (fold f (map (max ?now) (due_sorted t ws)) (f ?now d)), r\<lparr>rp_now := t, rp_wakes := ws1\<rparr>)"
        "mset ws1 = filter_mset (\<lambda>w. t < w) (mset ws)" by auto
    have "\<forall>v\<in>set (due_sorted t ws). w \<le> v"
      using replay_table.pick_Some [OF q] by (auto simp: due_sorted_def dest: in_diffD)
    then have later: "map (max ?now) (due_sorted t ws) = map (max (rp_now r)) (due_sorted t ws)"
      by (intro map_cong) (auto simp: max_def)
    show ?thesis using rest(2) q first replay_table.left_over [OF q]
      by (intro exI [of _ ws1]) (simp add: advance_quiet [of f t d r] rest(1) [unfolded later])
  qed
qed

section \<open>What a recorder leaves of the bus\<close>

text \<open>The application gets the status and the count the bus gave, and the bus sees the same calls.\<close>

lemma capture_keeps_answers:
  "fst (cw_endTransmission tw stop c) = fst (tw_end tw stop (cw_inner c))"
  "cw_inner (snd (cw_endTransmission tw stop c)) = snd (tw_end tw stop (cw_inner c))"
  "fst (cw_requestFrom tw a len stop c) = fst (tw_request tw (ucast a) len stop (cw_inner c))"
  by (simp_all add: cw_endTransmission_def cw_requestFrom_def cw_emit_def Let_def split: prod.split)

lemma length_tw_reads: "length (fst (tw_reads tw n s)) \<le> n"
  by (induction n arbitrary: s) (auto split: prod.split option.split, metis fst_conv)

text \<open>
  Of a read longer than the record the application can take only the bytes recorded, though it
  is told the whole count.
\<close>

lemma capture_withholds_long_reads:
  assumes "cw_requestFrom tw a len stop c = (got, c1)"
  shows "got = fst (tw_request tw (ucast a) len stop (cw_inner c)) \<and> cw_available c1 \<le> kPayloadMax"
proof -
  obtain g s where g: "tw_request tw (ucast a) len stop (cw_inner c) = (g, s)" by fastforce
  obtain rx s1 where rx: "tw_reads tw (min g kPayloadMax) s = (rx, s1)" by fastforce
  have "length rx \<le> kPayloadMax" using length_tw_reads [of tw "min g kPayloadMax" s] rx by simp
  then show ?thesis using assms g rx by (auto simp: cw_requestFrom_def cw_available_def cw_emit_def Let_def)
qed

text \<open>Bytes that read like a label are printed like one: two different payloads, one line.\<close>

lemma serial_label_ambiguous: "chunk_label (map char_byte ''data=00'') = chunk_label [0x00]"
proof -
  have chars: "byte_char 0x64 = CHR ''d''" "byte_char 0x61 = CHR ''a''" "byte_char 0x74 = CHR ''t''" "byte_char 0x3D = CHR ''=''"
      "byte_char 0x30 = CHR ''0''"
    using byte_char_char_byte [of "CHR ''d''"] byte_char_char_byte [of "CHR ''a''"] byte_char_char_byte [of "CHR ''t''"]
      byte_char_char_byte [of "CHR ''=''"] byte_char_char_byte [of "CHR ''0''"] by (simp_all add: char_byte_def)
  then have "digit_char 0 = CHR ''0''" by (simp add: digit_char_def byte_char_def)
  then show ?thesis
    by (simp add: chunk_label_def cr_printable_def escaped_def char_byte_def hexes_def hex2_def chars)
qed

text \<open>A buffer transferred over itself is recorded as if the bytes received had been sent.\<close>

lemma spi_in_place_loses_sent:
  assumes "data \<noteq> []" "length data \<le> kChunkMax" "sb_transfer_bytes sb data (cs_inner c) = (miso, s)"
  shows "cs_lines (snd (cs_transferBytes sb SameBuffer data c)) =
    cs_lines c @ [cs_prefix c @ spi_line (sb_micros sb (cs_inner c)) miso miso]"
  using assms by (simp add: cs_transferBytes.simps [of sb SameBuffer] cs_emit_def Let_def)

text \<open>The words of a line a write was cut in end it, so the repeated start before them is not seen.\<close>

lemma capture_cut_line_loses_rs: "\<not> has_rs (write_body a tx stop continued @ '' truncated'')"
  by (simp add: has_rs_def suffix_def)

text \<open>A wake that finds the table full is dropped, and granted all the same.\<close>

lemma replay_drops_wakes:
  "length (rp_wakes r) = kReplayWakes \<Longrightarrow> run_prog replay_port (RequestWake t (\<lambda>ok. Ret ok)) r = (True, r)"
  by (simp add: replay_port_def replay_requestWake_def)

section \<open>Properties\<close>

definition cw_loaded :: "'s two_wire \<Rightarrow> u8 \<Rightarrow> bytes list \<Rightarrow> 's cap_wire \<Rightarrow> 's cap_wire" where
  "cw_loaded tw a pieces c = fold (\<lambda>data c. snd (cw_write_buffer tw data c)) pieces (cw_beginTransmission tw a c)"

lemma cw_written:
  "let c1 = fold (\<lambda>data c. snd (cw_write_buffer tw data c)) pieces c in
     cw_tx c1 = (if pieces = [] then cw_tx c else take kPayloadMax (cw_tx c @ concat pieces)) \<and>
     cw_tx_total c1 = cw_tx_total c + length (concat pieces) \<and> cw_address c1 = cw_address c \<and> cw_open c1 = cw_open c \<and>
     cw_lines c1 = cw_lines c \<and> cw_prefix c1 = cw_prefix c"
proof (induction pieces arbitrary: c)
  case (Cons p pieces)
  obtain n s where w: "tw_write_buffer tw p (cw_inner c) = (n, s)" by fastforce
  have cut: "take kPayloadMax (take kPayloadMax xs @ ys) = take kPayloadMax (xs @ ys)" for xs ys :: bytes
    by (simp add: min_def)
  show ?case using Cons [of "snd (cw_write_buffer tw p c)"] cut [of "cw_tx c @ p" "concat pieces"]
    by (auto simp: cw_write_buffer_def w Let_def)
qed (simp add: Let_def)

lemma cw_loaded_state:
  "cw_tx (cw_loaded tw a pieces c) = take kPayloadMax (concat pieces)"
  "cw_tx_total (cw_loaded tw a pieces c) = length (concat pieces)" "cw_address (cw_loaded tw a pieces c) = a"
  "cw_open (cw_loaded tw a pieces c) = cw_open c" "cw_lines (cw_loaded tw a pieces c) = cw_lines c"
  "cw_prefix (cw_loaded tw a pieces c) = cw_prefix c"
  using cw_written [of tw pieces "cw_beginTransmission tw a c"]
  by (simp_all add: cw_loaded_def cw_beginTransmission_def Let_def split: if_splits)

text \<open>C29: what was captured on a board can be replayed. A write handed to the recorder in whatever
  pieces, and a read, each print a line that, once the prefix of the recorder is taken off, the
  replay tool reads back as the same transfer: its time (inside 64 bits), address, stop, whether it
  continues a transfer to the same address, and the bytes written or the count asked for. Of a
  write the line carries the first 64 bytes; of a count the tool takes 300 at most. The mark of a
  repeated start is the one thing that can get lost: it is not seen in the line of a write that was
  cut, nor in any line whose carriage return has not been stripped.\<close>

theorem capture_lines_replay:
  assumes "tw_micros tw (cw_inner (cw_loaded tw a pieces c)) < 2 ^ 64" "tw_micros tw (cw_inner c) < 2 ^ 64"
    and "cr = [] \<or> cr = [CHR 0x0D]"
  shows "(\<exists>line resp body. cw_lines (snd (cw_endTransmission tw stop (cw_loaded tw a pieces c))) =
        cw_lines c @ [cw_prefix c @ line, cw_prefix c @ resp] \<and>
      line_time (line @ cr) = Some (of_nat (tw_micros tw (cw_inner (cw_loaded tw a pieces c))), body) \<and>
      parse_request body = Some (ReplayWrite (ucast a) (take kPayloadMax (concat pieces)) stop
        (cw_open c = ucast a \<and> length (concat pieces) \<le> kPayloadMax \<and> cr = []))) \<and>
    (\<exists>line resp body. cw_lines (snd (cw_requestFrom tw a len stop c)) = cw_lines c @ [cw_prefix c @ line, cw_prefix c @ resp] \<and>
      line_time (line @ cr) = Some (of_nat (tw_micros tw (cw_inner c)), body) \<and>
      parse_request body = Some (ReplayRead (ucast a) (min (len mod 2 ^ 32) kDataMax) stop (cw_open c = ucast a \<and> cr = [])))"
proof (rule conjI)
  let ?c = "cw_loaded tw a pieces c" and ?rs = "cw_open c = ucast a"
  let ?tx = "take kPayloadMax (concat pieces)" and ?cut = "kPayloadMax < length (concat pieces)"
  let ?line = "cw_req_line (tw_micros tw (cw_inner ?c)) a ?tx stop ?rs ?cut"
  have tx: "length ?tx \<le> kPayloadMax" by simp
  have "length ?tx < length (concat pieces) \<longleftrightarrow> ?cut" by auto
  then obtain resp where lines:
      "cw_lines (snd (cw_endTransmission tw stop ?c)) = cw_lines c @ [cw_prefix c @ ?line, cw_prefix c @ resp]"
    using cw_loaded_state [of tw a pieces c]
    by (cases "tw_end tw stop (cw_inner ?c)") (simp add: cw_endTransmission_def cw_emit_def Let_def)
  have "?line @ cr = dec (tw_micros tw (cw_inner ?c)) @ CHR '' '' # write_body a ?tx stop ?rs @ cut_mark ?cut @ cr"
    using write_line_whole [OF assms(1) tx] by simp
  then have time: "line_time (?line @ cr) = Some (of_nat (tw_micros tw (cw_inner ?c)), write_body a ?tx stop ?rs @ cut_mark ?cut @ cr)"
    using line_time_of [OF assms(1)] by metis
  have ending: "line_end (cut_mark ?cut @ cr)" "(cut_mark ?cut @ cr = []) = (length (concat pieces) \<le> kPayloadMax \<and> cr = [])"
    using assms(3) by (auto simp: line_end_def cut_mark_def)
  show "\<exists>line resp body. cw_lines (snd (cw_endTransmission tw stop ?c)) = cw_lines c @ [cw_prefix c @ line, cw_prefix c @ resp] \<and>
      line_time (line @ cr) = Some (of_nat (tw_micros tw (cw_inner ?c)), body) \<and>
      parse_request body = Some (ReplayWrite (ucast a) ?tx stop (?rs \<and> length (concat pieces) \<le> kPayloadMax \<and> cr = []))"
    using lines time parse_write [OF tx ending(1), of a stop ?rs] unfolding ending(2) by blast
  let ?line = "cw_rd_line (tw_micros tw (cw_inner c)) a len stop ?rs"
  obtain got s1 where got: "tw_request tw (ucast a) len stop (cw_inner c) = (got, s1)" by fastforce
  obtain rx s2 where "tw_reads tw (min got kPayloadMax) s1 = (rx, s2)" by fastforce
  then obtain resp where lines:
      "cw_lines (snd (cw_requestFrom tw a len stop c)) = cw_lines c @ [cw_prefix c @ ?line, cw_prefix c @ resp]"
    using got by (simp add: cw_requestFrom_def cw_emit_def Let_def)
  have "?line @ cr = dec (tw_micros tw (cw_inner c)) @ CHR '' '' # read_body a len stop ?rs @ cr"
    using read_line_whole [OF assms(2)] by simp
  then have time: "line_time (?line @ cr) = Some (of_nat (tw_micros tw (cw_inner c)), read_body a len stop ?rs @ cr)"
    using line_time_of [OF assms(2)] by metis
  have ending: "line_end cr" using assms(3) by (auto simp: line_end_def)
  show "\<exists>line resp body. cw_lines (snd (cw_requestFrom tw a len stop c)) = cw_lines c @ [cw_prefix c @ line, cw_prefix c @ resp] \<and>
      line_time (line @ cr) = Some (of_nat (tw_micros tw (cw_inner c)), body) \<and>
      parse_request body = Some (ReplayRead (ucast a) (min (len mod 2 ^ 32) kDataMax) stop (?rs \<and> cr = []))"
    using lines time parse_read [OF ending, of a len stop ?rs] by blast
qed

text \<open>A bus that acknowledges everything and counts a microsecond per call.\<close>

definition silent_bus :: "nat two_wire" where
  "silent_bus = \<lparr>tw_micros = (\<lambda>n. n), tw_begin = (\<lambda>a n. n + 1), tw_end = (\<lambda>stop n. (0, n + 1)),
     tw_request = (\<lambda>a len stop n. (0, n + 1)), tw_read = (\<lambda>n. (None, n + 1)), tw_write = (\<lambda>b n. (1, n + 1)),
     tw_write_buffer = (\<lambda>data n. (length data, n + 1)), tw_flush = (\<lambda>n. n)\<rparr>"

theorem capture_lines_replay_witness:
  "\<exists>line resp body. cw_lines (snd (cw_endTransmission silent_bus False
      (cw_loaded silent_bus 0x76 [[0xF4], [0x25]] (new_cap_wire ''cap '' 100)))) = [''cap '' @ line, ''cap '' @ resp] \<and>
    line_time line = Some (103, body) \<and> parse_request body = Some (ReplayWrite 0x76 [0xF4, 0x25] False False)"
proof -
  let ?c = "new_cap_wire ''cap '' (100 :: nat)" and ?l = "cw_loaded silent_bus 0x76 [[0xF4], [0x25]] (new_cap_wire ''cap '' 100)"
  have at: "tw_micros silent_bus (cw_inner ?l) = 103"
    by (simp add: cw_loaded_def cw_beginTransmission_def cw_write_buffer_def silent_bus_def new_cap_wire_def)
  have "tw_micros silent_bus (cw_inner ?c) < 2 ^ 64" "take kPayloadMax (concat [[0xF4], [0x25 :: u8]]) = [0xF4, 0x25]"
    by (simp_all add: new_cap_wire_def kPayloadMax_def silent_bus_def)
  moreover have "tw_micros silent_bus (cw_inner ?l) < 2 ^ 64" by (simp add: at)
  moreover have "cw_lines ?c = []" "cw_prefix ?c = ''cap ''" "cw_open ?c \<noteq> ucast (0x76 :: u8)" by (simp_all add: new_cap_wire_def kNoAddress_def)
  ultimately show ?thesis using capture_lines_replay [where c = ?c and pieces = "[[0xF4], [0x25]]" and tw = silent_bus and a = "0x76" and stop = False and cr = "[]"] by (simp add: at)
qed

text \<open>A replay serves the wakes a model has asked for as an environment does. A model that asks for
  no more of them is brought through every wake that is due by the time of the next request, the
  earliest first and never back in time, then to that time; the others stay asked for.\<close>

theorem replay_serves_wakes_in_order:
  "\<exists>ws. replay_advance (\<lambda>t d. Ret (f t d)) t (d, r) =
      Some (f t (fold f (map (max (rp_now r)) (sort (filter (\<lambda>w. w \<le> t) (rp_wakes r)))) d),
            r\<lparr>rp_now := t, rp_wakes := ws\<rparr>) \<and>
    mset ws = mset (filter (\<lambda>w. t < w) (rp_wakes r))"
  using replay_drains [of f t d r] by (simp add: due_sorted_sort)

end
