(* ===== verification/Probe_Environment.thy ===== *)
theory Probe_Environment
  imports Conformance_Probe Environment_Devices
begin

text \<open>
  The conformance probe (\<open>devices/src/conformance_probe.cpp\<close>) in the environment itself: bound to
  the tick callback and to the channel of \<open>src/src/embedbench_host.cpp\<close>, advanced by \<open>onWait\<close> at
  the moments the environment chooses and probed by \<open>chanWrite\<close>, beside an application with
  handlers of its own.
\<close>

section \<open>The application beside the probe\<close>

text \<open>What the handlers and receivers of the application have no business with.\<close>

definition beside :: "('c, 'm) host \<Rightarrow> ('c, 'm) host \<Rightarrow> bool" where
  "beside h h' \<longleftrightarrow> mem h' = mem h \<and> wake_at h' = wake_at h \<and> formats h' = formats h \<and>
     tick_device h' = tick_device h \<and> channel_handler h' = channel_handler h"

definition bystander_app :: "('c, 'm) core \<Rightarrow> bool" where
  "bystander_app co \<longleftrightarrow>
     (\<forall>cb n h h'. co_tick_handler co cb n h = Some h' \<longrightarrow> beside h h') \<and>
     (\<forall>cb n h. \<exists>h'. co_zero_handler co cb n h = Some h' \<and> clock_kept h h' \<and> beside h h') \<and>
     (\<forall>e h h'. deliver_one co e h = Some h' \<longrightarrow> beside h h')"

lemma beside_refl [simp]: "beside h h"
  by (simp add: beside_def)

lemma beside_trans: "beside h h' \<Longrightarrow> beside h' h'' \<Longrightarrow> beside h h''"
  by (simp add: beside_def)

lemma deliverDeferred_beside:
  assumes "bystander_app co" "deliverDeferred co h = Some h'"
  shows "beside h h'"
proof -
  let ?P = "\<lambda>co1 h h'. co1 = co \<longrightarrow> beside h h'"
  have "?P co h h'"
  proof (rule deliverDeferred.raw_induct [where P = ?P, OF _ assms(2)], intro impI)
    fix rec :: "('a, 'b) core \<Rightarrow> ('a, 'b) host \<Rightarrow> ('a, 'b) host option" and co1 h h'
    assume IH: "\<And>co1 h h'. rec co1 h = Some h' \<Longrightarrow> ?P co1 h h'" and eq: "co1 = co"
      and step: "(if device_depth h = 0 \<and> deferred_effects h \<noteq> [] then
          Option.bind (deliver_one co1 (hd (deferred_effects h)) (h\<lparr>deferred_effects := tl (deferred_effects h)\<rparr>)) (rec co1)
        else Some h) = Some h'"
    have hop: "beside h h1" if "deliver_one co (hd (deferred_effects h)) (h\<lparr>deferred_effects := tl (deferred_effects h)\<rparr>) = Some h1" for h1
      using assms(1) that unfolding bystander_app_def by (fastforce simp: beside_def)
    show "beside h h'"
      using step eq IH hop by (auto simp: bind_eq_Some_conv split: if_splits intro: beside_trans)
  qed
  then show ?thesis by simp
qed

section \<open>The probe in its place\<close>

definition probed :: "('c, probe) core \<Rightarrow> callback \<Rightarrow> callback \<Rightarrow> device_port \<Rightarrow> bool" where
  "probed co cb ch dp \<longleftrightarrow> serves co cb dp probe_advanceTo \<and>
     (\<forall>channel data. co_channel co ch channel data = (dp, in_memory (probe_channelWrite channel data)))"

definition grants :: "('c, 'm) core \<Rightarrow> ('c, 'm) host \<Rightarrow> bool" where
  "grants co h \<longleftrightarrow> formats_ok (formats h) \<and>
     fst (registerFormat co (Some ''acme.probe.1'') (schemaFingerprint (Some ''u8 probe'')) h) \<noteq> 0"

text \<open>A wake the probe waits for lies ahead and is held.\<close>

definition hosted :: "('c, probe) core \<Rightarrow> callback \<Rightarrow> callback \<Rightarrow> ('c, probe) host \<Rightarrow> bool" where
  "hosted co cb ch h \<longleftrightarrow> tick_device h = Some cb \<and> channel_handler h = Some ch \<and> grants co h \<and>
     probe_ready (vnow h) (mem h) \<and>
     (pb_wake_asked (mem h) \<longrightarrow> vnow h < pb_wake_due_us (mem h) \<and> pb_wake_due_us (mem h) \<in> set (wake_at h))"

lemma grants_formats: "formats h' = formats h \<Longrightarrow> grants co h' = grants co h"
  using registerFormat_answer [of h' h] by (simp add: grants_def)

lemma hosted_beside: "beside h h' \<Longrightarrow> vnow h' = vnow h \<Longrightarrow> hosted co cb ch h \<Longrightarrow> hosted co cb ch h'"
  using grants_formats [of h' h co] by (simp add: hosted_def beside_def)

text \<open>What every advance after the first adds to the checks made.\<close>

definition advanced :: "probe \<Rightarrow> probe \<Rightarrow> bool" where
  "advanced d e \<longleftrightarrow> pb_time_seen e \<and> (\<forall>c. passed c d \<longrightarrow> passed c e) \<and>
     (pb_time_seen d \<longrightarrow> passed kCheckNowAgrees e \<and> passed kCheckTimeMonotonic e)"

lemma serve_probe:
  assumes app: "calm_app co" "bystander_app co" "serves co cb dp probe_advanceTo"
    and g: "device_depth g = 0" "tick_device g = Some cb" "channel_handler g = Some ch" "grants co g"
    and d: "probe_ready (vnow g) (mem g)" "pb_time_seen (mem g) \<Longrightarrow> pb_last_advance (mem g) < vnow g"
      "pb_wake_asked (mem g) \<Longrightarrow> vnow g \<le> pb_wake_due_us (mem g)"
      "pb_wake_asked (mem g) \<Longrightarrow> vnow g < pb_wake_due_us (mem g) \<Longrightarrow> pb_wake_due_us (mem g) \<in> set (wake_at g)"
  shows "\<exists>g'. serve_advance co g = Some g' \<and> clock_kept g g' \<and> hosted co cb ch g' \<and> advanced (mem g) (mem g')"
proof -
  let ?e = "enterDevice g"
  obtain e where e: "run_prog (device_port_calls co dp) (probe_advanceTo (vnow g) (mem g)) (Some ?e) = (e, Some ?e)"
      "probe_ready (vnow g) e" "advanced (mem g) e" "pb_wake_due_us e = pb_wake_due_us (mem g)"
      "pb_wake_asked e \<longrightarrow> pb_wake_asked (mem g) \<and> vnow g < pb_wake_due_us (mem g)"
    using advance_run [OF d(1), of "device_port_calls co dp" "Some ?e"] d(2,3)
    by (auto simp: device_port_calls_def advanced_def)
  let ?g = "leaveDevice (?e\<lparr>mem := e\<rparr>)"
  have "run_prog (device_port_calls co dp) (probe_advanceTo (vnow g) (mem ?e)) (Some ?e) = (e, Some ?e)" using e(1) by simp
  then have "run_prog (device_port_calls co dp) (advance_in_memory (probe_advanceTo (vnow g))) (Some ?e) = ((), Some (?e\<lparr>mem := e\<rparr>))"
    by (rule run_advance_in_memory)
  then have call: "call_devices co (co_tick_device co cb (vnow g)) g = Some ?g"
    using app(3) by (simp add: serves_def call_devices_def run_device_def)
  obtain g' where g': "serve_advance co g = Some g'" "clock_kept g g'" using serve_advance_calm [OF app(1) g(1)] by blast
  then have "deliverDeferred co ?g = Some g'" using call g(2) by (simp add: serve_advance_def)
  from deliverDeferred_beside [OF app(2) this] have b: "beside ?g g'" .
  have kept: "wake_at ?g = wake_at g" "formats ?g = formats g" "tick_device ?g = tick_device g"
      "channel_handler ?g = channel_handler g" "mem ?g = e"
    by (simp_all add: leaveDevice_def enterDevice_def Let_def)
  then have "hosted co cb ch ?g"
    using g e d(4) grants_formats [of ?g g co] by (auto simp: hosted_def leaveDevice_def)
  moreover have "vnow g' = vnow ?g" using g'(2) by (simp add: clock_kept_def leaveDevice_def)
  ultimately have "hosted co cb ch g'" using hosted_beside [OF b] by blast
  then show ?thesis using g' e(3) b kept by (auto simp: beside_def)
qed

text \<open>Served at a wake, and at a tick.\<close>

lemma hosted_stop:
  assumes "clock_ok h" "hosted co cb ch h" "next_stop h = (t, k)"
  shows "probe_ready t (mem h)" "pb_time_seen (mem h) \<Longrightarrow> pb_last_advance (mem h) < t"
    "pb_wake_asked (mem h) \<Longrightarrow> t \<le> pb_wake_due_us (mem h)"
    "pb_wake_asked (mem h) \<Longrightarrow> t < pb_wake_due_us (mem h) \<Longrightarrow>
      pb_wake_due_us (mem h) \<in> set (wake_at (retireWakesUpTo t h))"
proof -
  note st = next_stop_after [OF assms(1,3)]
  show "probe_ready t (mem h)" "pb_time_seen (mem h) \<Longrightarrow> pb_last_advance (mem h) < t"
    using assms(2) st(1) by (auto simp: hosted_def probe_ready_def)
  assume asked: "pb_wake_asked (mem h)"
  let ?w = "pb_wake_due_us (mem h)"
  have w: "vnow h < ?w" "?w \<in> set (wake_at h)" using asked assms(2) by (simp_all add: hosted_def)
  then have "?w \<noteq> 0" by auto
  then have "?w \<in> wakes_after (vnow h) h" using w by (simp add: wakes_after_def)
  then show "t \<le> ?w" using st(2,4) by (cases "?w < next_tick h") auto
  assume "t < ?w"
  then show "?w \<in> set (wake_at (retireWakesUpTo t h))"
    using w(2) by (force simp: retireWakesUpTo_def image_iff)
qed

lemma wake_hosted:
  assumes app: "calm_app co" "bystander_app co" "serves co cb dp probe_advanceTo"
    and h: "clock_ok h" "hosted co cb ch h" "next_stop h = (t, True)"
    and r: "fireWake co (h\<lparr>vnow := t\<rparr>) = Some h'"
  shows "clock_ok h' \<and> vnow h' = t \<and> tick_us h' = tick_us h \<and> next_tick h' = next_tick h \<and>
    hosted co cb ch h' \<and> advanced (mem h) (mem h')"
proof -
  let ?h0 = "retireWakesUpTo t (h\<lparr>vnow := t\<rparr>)"
  let ?g = "?h0\<lparr>dir_depth := dir_depth ?h0 + 1\<rparr>"
  note st = next_stop_after [OF h(1,3)]
  have clock: "clock_ok h'" "vnow h' = t" "tick_us h' = tick_us h" "next_tick h' = next_tick h"
    using pass_wake_calm [OF app(1) h(1) st(1)] st(5) r by auto
  have "wake_at ?g = wake_at (retireWakesUpTo t h)" by (simp add: retireWakesUpTo_def)
  then obtain g' where g': "serve_advance co ?g = Some g'" "clock_kept ?g g'" "hosted co cb ch g'" "advanced (mem h) (mem g')"
    using serve_probe [OF app, of ?g ch] hosted_stop [OF h] h(1,2) grants_formats [of ?g h co]
    by (auto simp: retireWakesUpTo_def hosted_def clock_ok_def)
  then have e: "h' = g'\<lparr>dir_depth := dir_depth g' - 1\<rparr>" using r by (simp add: fireWake_def)
  then have "beside g' h'" "vnow h' = vnow g'" by (simp_all add: beside_def)
  from hosted_beside [OF this] show ?thesis using g'(3,4) clock e by simp
qed

lemma tick_hosted:
  assumes app: "calm_app co" "bystander_app co" "serves co cb dp probe_advanceTo"
    and h: "clock_ok h" "hosted co cb ch h" "next_stop h = (t, False)"
    and fits: "unat t + unat (tick_us h) < 2 ^ 64" and r: "pass_tick co (h\<lparr>vnow := t\<rparr>) = Some h'"
  shows "clock_ok h' \<and> vnow h' = t \<and> tick_us h' = tick_us h \<and>
    unat (next_tick h') = unat (next_tick h) + unat (tick_us h) \<and> hosted co cb ch h' \<and> advanced (mem h) (mem h')"
proof -
  let ?h0 = "retireWakesUpTo t (h\<lparr>vnow := t, next_tick := next_tick h + ucast (tick_us h)\<rparr>)"
  let ?g = "?h0\<lparr>ticks := ticks ?h0 + 1, dir_depth := dir_depth ?h0 + 1\<rparr>"
  note st = next_stop_after [OF h(1,3)]
  have t: "t = next_tick h" using st(3) by simp
  have clock: "clock_ok h'" "vnow h' = t" "tick_us h' = tick_us h" "unat (next_tick h') = unat (next_tick h) + unat (tick_us h)"
    using pass_tick_calm [OF app(1) h(1)] fits r t by auto
  have "wake_at ?g = wake_at (retireWakesUpTo t h)" by (simp add: retireWakesUpTo_def)
  then obtain g' where g': "serve_advance co ?g = Some g'" "clock_kept ?g g'" "hosted co cb ch g'" "advanced (mem h) (mem g')"
    using serve_probe [OF app, of ?g ch] hosted_stop [OF h] h(1,2) grants_formats [of ?g h co]
    by (auto simp: retireWakesUpTo_def hosted_def clock_ok_def)
  obtain g1 where g1: "(case tick_handler g' of None \<Rightarrow> Some g' | Some cb \<Rightarrow> co_tick_handler co cb (ticks g') g') = Some g1"
      "clock_kept g' g1" "beside g' g1"
  proof (cases "tick_handler g'")
    case (Some cb1)
    then obtain g1 where "co_tick_handler co cb1 (ticks g') g' = Some g1" "clock_kept g' g1"
      using app(1) unfolding calm_app_def by blast
    moreover from this have "beside g' g1" using app(2) unfolding bystander_app_def by blast
    ultimately show ?thesis using that Some by simp
  qed (use that in simp)
  let ?r = "g1\<lparr>dir_depth := dir_depth g1 - 1\<rparr>"
  have "pending_ticks ?r = 0" using g1(2) g'(2) h(1) by (simp add: clock_kept_def clock_ok_def retireWakesUpTo_def)
  then have "late_loop co ?r = Some ?r" by (subst late_loop.simps) simp
  moreover have "fireTick co ?h0 = Some ?r" using g'(1) g1(1) by (simp add: fireTick_def)
  ultimately have e: "h' = ?r" using r by (simp add: pass_tick_def)
  then have "beside g' h'" "vnow h' = vnow g'" using g1(2,3) by (simp_all add: beside_def clock_kept_def)
  from hosted_beside [OF this] show ?thesis using g'(3,4) clock \<open>beside g' h'\<close> by (simp add: beside_def)
qed

section \<open>Waiting\<close>

lemma finish_hosted:
  assumes "clock_ok h" "hosted co cb ch h" "target < fst (next_stop h)"
  shows "clock_ok (finish_wait target h) \<and> hosted co cb ch (finish_wait target h)"
proof -
  obtain t k where s: "next_stop h = (t, k)" by (cases "next_stop h")
  note st = next_stop_after [OF assms(1) s]
  have ahead: "w = 0 \<or> target < w" if "w \<in> set (wake_at h)" for w
  proof (cases "w = 0")
    case False
    then have "w \<in> wakes_after (vnow h) h" using that assms(1) by (auto simp: wakes_after_def clock_ok_def wakes_ok_def)
    then show ?thesis using st(2,4) assms(3) s by (cases "w < next_tick h") auto
  qed simp
  have "pb_wake_due_us (mem h) \<noteq> 0" if "pb_wake_asked (mem h)" using that assms(2) by (auto simp: hosted_def)
  then show ?thesis
    using assms ahead st(2) s grants_formats [of "finish_wait target h" h co]
    by (auto simp: finish_wait_def clock_ok_def wakes_ok_def hosted_def probe_ready_def)
qed

text \<open>After the first tick the probe knows the time, after the second it has checked it.\<close>

definition checked_by :: "nat \<Rightarrow> nat \<Rightarrow> ('c, probe) host \<Rightarrow> bool" where
  "checked_by n k h \<longleftrightarrow> (n < unat (next_tick h) \<longrightarrow> pb_time_seen (mem h)) \<and>
     (n + k < unat (next_tick h) \<longrightarrow> passed kCheckNowAgrees (mem h) \<and> passed kCheckTimeMonotonic (mem h))"

lemma checked_by_wake: "checked_by n k h \<Longrightarrow> advanced (mem h) (mem h') \<Longrightarrow> next_tick h' = next_tick h \<Longrightarrow> checked_by n k h'"
  by (auto simp: checked_by_def advanced_def)

lemma checked_by_tick:
  "checked_by n k h \<Longrightarrow> advanced (mem h) (mem h') \<Longrightarrow> unat (next_tick h') = unat (next_tick h) + k \<Longrightarrow> checked_by n k h'"
  by (auto simp: checked_by_def advanced_def)

definition keeps_checks :: "('c, probe) host \<Rightarrow> ('c, probe) host \<Rightarrow> bool" where
  "keeps_checks h h' \<longleftrightarrow> (\<forall>c. passed c (mem h) \<longrightarrow> passed c (mem h'))"

lemma advanced_keeps: "keeps_checks h g \<Longrightarrow> advanced (mem g) (mem g') \<Longrightarrow> keeps_checks h g'"
  by (simp add: keeps_checks_def advanced_def)

lemma wait_hosted:
  assumes app: "calm_app co" "bystander_app co" "serves co cb dp probe_advanceTo"
    and h: "clock_ok h" "hosted co cb ch h" "checked_by n (unat (tick_us h)) h"
    and fits: "unat (vnow h) + unat us + unat (tick_us h) < 2 ^ 64"
  shows "\<exists>h'. onWait co us h = Some h' \<and> clock_ok h' \<and> tick_us h' = tick_us h \<and> hosted co cb ch h' \<and>
    checked_by n (unat (tick_us h)) h' \<and> keeps_checks h h' \<and> unat (vnow h') \<le> unat (vnow h) + unat us \<and>
    (us \<noteq> kCoreLoopSliceUs \<longrightarrow> unat (vnow h') = unat (vnow h) + unat us)"
proof (cases "us = 0")
  case True
  have "\<exists>h'. onWait co 0 h = Some h' \<and> clock_kept h h' \<and> beside h h'"
  proof (cases "zero_handler h")
    case None
    then show ?thesis using h(1)
      by (simp add: onWait_def clock_ok_def clock_kept_def beside_def Let_def wakes_ok_def)
  next
    case (Some cb1)
    let ?h = "h\<lparr>zero_waits := zero_waits h + 1, dir_depth := dir_depth h + 1\<rparr>"
    obtain h2 where "co_zero_handler co cb1 (zero_waits h + 1) ?h = Some h2" "clock_kept ?h h2" "beside ?h h2"
      using app(2) unfolding bystander_app_def by blast
    then show ?thesis using Some h(1)
      by (auto simp: onWait_def clock_ok_def clock_kept_def beside_def Let_def wakes_ok_def)
  qed
  then obtain h' where h': "onWait co 0 h = Some h'" "clock_kept h h'" "beside h h'" by blast
  then show ?thesis
    using True h hosted_beside [OF h'(3) _ h(2)]
    by (auto simp: clock_ok_def clock_kept_def keeps_checks_def checked_by_def beside_def)
next
  case us: False
  let ?t = "vnow h + ucast us"
  have t: "unat ?t = unat (vnow h) + unat us"
    using fits by (intro u64_less_add [THEN trans]) simp_all
  have end_fits: "unat ?t + unat (tick_us h) < 2 ^ 64" using fits t by simp
  obtain h' where r: "wait_loop co (us = kCoreLoopSliceUs) ?t h = Some h'" "clock_ok h'" "took us h h'"
    using wait_loop_took [OF app(1) h(1) us fits] by blast
  let ?I = "\<lambda>g. clock_ok g \<and> tick_us g = tick_us h \<and> hosted co cb ch g \<and> checked_by n (unat (tick_us h)) g \<and> keeps_checks h g"
  have "?I h'"
  proof (rule wait_loop_rule [where I = ?I, OF r(1)])
    show "?I h" using h by (simp add: keeps_checks_def)
  next
    fix g t g'
    assume g: "?I g" "next_stop g = (t, True)" "t \<le> ?t" "fireWake co (g\<lparr>vnow := t\<rparr>) = Some g'"
    then show "?I g'"
      using wake_hosted [OF app _ _ g(2,4)] checked_by_wake advanced_keeps by metis
  next
    fix g t g'
    assume g: "?I g" "next_stop g = (t, False)" "t \<le> ?t" "pass_tick co (g\<lparr>vnow := t\<rparr>) = Some g'"
    then have "unat t + unat (tick_us g) < 2 ^ 64" using end_fits by (simp add: word_le_nat_alt)
    then show "?I g'"
      using g tick_hosted [OF app _ _ g(2) _ g(4)] checked_by_tick advanced_keeps by metis
  next
    fix g assume g: "?I g" "?t < fst (next_stop g)"
    then show "?I (finish_wait ?t g)"
      using finish_hosted [of g co cb ch ?t] by (auto simp: finish_wait_def keeps_checks_def checked_by_def)
  qed
  then show ?thesis using r us h(1) by (auto simp: onWait_def clock_ok_def took_def)
qed

section \<open>Probing\<close>

text \<open>A wake held stays held through whatever device code does next.\<close>

lemma requestWake_holds:
  assumes "t \<in> set (wake_at h)" "t \<noteq> 0"
  shows "t \<in> set (wake_at (snd (requestWake co w h)))"
proof -
  have "t \<in> set ((wake_at h)[i := w])" if "List.find (\<lambda>i. wake_at h ! i = 0) [0..<kWakeSlots] = Some i" for i
  proof -
    have "wake_at h ! i = 0" using that by (auto simp: find_Some_iff)
    moreover obtain j where "j < length (wake_at h)" "wake_at h ! j = t" using assms(1) by (auto simp: in_set_conv_nth)
    ultimately show ?thesis using assms(2)
      by (metis length_list_update nth_list_update_neq nth_mem)
  qed
  then show ?thesis using assms by (auto simp: requestWake_def split: option.split)
qed

lemma requestWake_granted:
  assumes "fst (requestWake co t h)" "length (wake_at h) = kWakeSlots" "vnow h < t"
  shows "t \<in> set (wake_at (snd (requestWake co t h)))"
proof (cases "list_ex (\<lambda>i. wake_at h ! i = t) [0..<kWakeSlots]")
  case True
  then show ?thesis using assms by (auto simp: requestWake_def list_ex_iff)
next
  case fresh: False
  have "\<not> t \<le> vnow h" using assms(3) by simp
  note fresh = fresh this
  show ?thesis
  proof (cases "List.find (\<lambda>i. wake_at h ! i = 0) [0..<kWakeSlots]")
    case None
    then show ?thesis using assms fresh by (simp add: requestWake_def)
  next
    case (Some i)
    then have "i < kWakeSlots" by (simp add: find_upt_Some)
    then show ?thesis using Some assms fresh by (simp add: requestWake_def set_update_memI)
  qed
qed

interpretation held_wake: device_law "\<lambda>h. t \<noteq> 0 \<and> t \<in> set (wake_at h)" co for t and co :: "('c, 'm) core"
proof
  fix h h' :: "('c, 'm) host" and org link s seq eo
  assume I: "t \<noteq> 0 \<and> t \<in> set (wake_at h)"
  show "t \<noteq> 0 \<and> t \<in> set (wake_at h')" if "store_event org link s h = (seq, eo, h')"
    using I store_event_quiet [OF that] by (simp add: quiet_def)
  show "t \<noteq> 0 \<and> t \<in> set (wake_at (queueDeferred co e h))" for e
    using I by (auto simp: queueDeferred_def Let_def split: deferred.split)
  show "t \<noteq> 0 \<and> t \<in> set (wake_at (snd (registerFormat co n s h)))" for n s
    using I by (auto simp: registerFormat_def split: option.split)
  show "t \<noteq> 0 \<and> t \<in> set (wake_at (snd (requestWake co w h)))" for w
    using I requestWake_holds by blast
qed simp_all

definition port_checks :: u32 where
  "port_checks = kCheckFrameAccepted OR kCheckFrameOversizeRefused OR kCheckFormatStable OR kCheckFormatNameLimit"

lemma port_run:
  assumes "device_depth h > 0" "grants co h" "length (wake_at h) = kWakeSlots" "vnow h < vnow h + kWakeAheadUs"
  shows "\<exists>e h'. run_prog (device_port_calls co dp) (probe_port d) (Some h) = (e, Some h') \<and> grants co h' \<and>
    pb_violations e = pb_violations d \<and> pb_in_call e = pb_in_call d \<and> pb_copy e = pb_copy d \<and>
    pb_time_seen e = pb_time_seen d \<and> pb_last_advance e = pb_last_advance d \<and>
    (\<forall>c. passed c d \<longrightarrow> passed c e) \<and> passed port_checks e \<and>
    (pb_wake_asked e \<longrightarrow> pb_wake_due_us e = vnow h + kWakeAheadUs \<and> vnow h + kWakeAheadUs \<in> set (wake_at h'))"
proof -
  let ?hp = "device_port_calls co dp" and ?t = "vnow h + kWakeAheadUs"
  obtain analog h1 where h1: "DevicePort_analogOut co dp 0 kAnalogValue h = (analog, h1)" by fastforce
  let ?h2 = "deviceNote co ''conformance probe'' h1"
  obtain asked h3 where h3: "requestWake co ?t ?h2 = (asked, h3)" by fastforce
  have one: "device_depth h1 = device_depth h" "formats h1 = formats h"
    using sinks_depth(2) [of co dp 0 kAnalogValue h] sinks_keep_formats(1) [of co dp 0 kAnalogValue h] h1 by simp_all
  have same: "vnow h1 = vnow h" "wake_at h1 = wake_at h"
    using h1 by (auto simp: DevicePort_analogOut_def analogInject_def Let_def split: option.splits)
  have two: "vnow ?h2 = vnow h" "wake_at ?h2 = wake_at h" using same by (simp_all add: deviceNote_def)
  have three: "device_depth h3 = device_depth h" "formats h3 = formats h"
    using sinks_depth(5) [of co ?t ?h2] sinks_keep_formats(3) [of co ?t ?h2] h3 one by simp_all
  have held: "?t \<in> set (wake_at h3)" if asked
    using requestWake_granted [of co ?t ?h2] h3 that two assms(3,4) by simp
  let ?d = "(optional_check kCheckNoteRouted True (optional_check kCheckAnalogRouted analog d))
      \<lparr>pb_wake_asked := asked, pb_wake_due_us := (if asked then ?t else 0)\<rparr>"
  have run: "run_prog ?hp (probe_port d) (Some h) = run_prog ?hp (probe_formats ?d) (Some h3)"
    using h1 h3 two by (simp add: probe_port_def device_port_calls_def on_env_def Let_def)
  have ready: "host_ready (Some h3)" "name_room co ''acme.probe.1'' (schemaFingerprint (Some ''u8 probe'')) (Some h3)"
    using assms(1,2) three registerFormat_answer [of h3 h] by (simp_all add: host_ready_def name_room_def grants_def)
  have lim: "(of_nat kMaxFrameBits :: u32) \<noteq> 0" "unat (of_nat kMaxFrameBits :: u32) < 512"
    by (simp_all add: kMaxFrameBits_def)
  let ?e = "pass_check kCheckFrameOversizeRefused
       (pass_check kCheckFrameAccepted (pass_check kCheckFormatNameLimit (pass_check kCheckFormatStable ?d)))"
  obtain s' where s': "run_prog ?hp (probe_formats ?d) (Some h3) = (?e, s')" "host_ready s'"
      "name_room co ''acme.probe.1'' (schemaFingerprint (Some ''u8 probe'')) s'"
    using environment.formats_verdict [OF ready lim(1), of dp ?d] lim(2) by (auto simp: verdict_def)
  then obtain h' where h': "s' = Some h'" "grants co h'"
    by (auto simp: host_ready_def name_room_def grants_def split: option.splits)
  have "0 < ?t" using assms(4) by (simp add: word_less_nat_alt)
  then have "?t \<in> set (wake_at h')" if asked
    using held_wake.run_prog_law [of ?t h3 co dp "probe_formats ?d"] held [OF that] three(1) assms(1) s'(1) h'(1) by auto
  moreover have "pb_wake_asked ?e = asked" "pb_wake_due_us ?e = (if asked then ?t else 0)" by simp_all
  ultimately show ?thesis using run s' h'
    by (intro exI [of _ ?e] exI [of _ h']) (simp add: port_checks_def passed_or)
qed

definition channel_checks :: u32 where
  "channel_checks = port_checks OR kCheckBorrowedBuffer OR kCheckNoReentry"

text \<open>The probe written to on its channel: what it answers, and what it leaves of the environment.\<close>

lemma channel_run:
  assumes "device_depth h > 0" "grants co h" "length (wake_at h) = kWakeSlots" "vnow h < vnow h + kWakeAheadUs"
    and d: "probe_ready (vnow h) d"
      "pb_wake_asked d \<Longrightarrow> vnow h < pb_wake_due_us d \<and> pb_wake_due_us d \<in> set (wake_at h)"
  shows "\<exists>applied e h'. run_prog (device_port_calls co dp) (probe_channelWrite channel data d) (Some h) = ((applied, e), Some h') \<and>
    grants co h' \<and> probe_ready (vnow h) e \<and> pb_time_seen e = pb_time_seen d \<and> (\<forall>c. passed c d \<longrightarrow> passed c e) \<and>
    (channel = 0 \<longrightarrow> passed channel_checks e) \<and>
    (pb_wake_asked e \<longrightarrow> vnow h < pb_wake_due_us e \<and> pb_wake_due_us e \<in> set (wake_at h'))"
proof -
  let ?hp = "device_port_calls co dp"
  have "hp_now ?hp (Some h) = vnow h" by (simp add: device_port_calls_def)
  then obtain e where e: "run_prog ?hp (probe_enter (Some data) d) (Some h) = (e, Some h)" "pb_violations e = 0"
      "length (pb_copy e) = 8" "passed kCheckNoReentry e" "passed kCheckBorrowedBuffer e" "\<forall>c. passed c d \<longrightarrow> passed c e"
      "pb_time_seen e = pb_time_seen d" "pb_last_advance e = pb_last_advance d"
      "pb_wake_asked e = pb_wake_asked d" "pb_wake_due_us e = pb_wake_due_us d"
    using enter_run [of ?hp "Some h" d "Some data"] d(1) by auto
  show ?thesis
  proof (cases "channel = 0")
    case True
    obtain f h' where f: "run_prog ?hp (probe_port e) (Some h) = (f, Some h')" "grants co h'"
        "pb_violations f = 0" "pb_copy f = pb_copy e" "pb_time_seen f = pb_time_seen d" "pb_last_advance f = pb_last_advance d"
        "\<forall>c. passed c e \<longrightarrow> passed c f" "passed port_checks f"
        "pb_wake_asked f \<longrightarrow> pb_wake_due_us f = vnow h + kWakeAheadUs \<and> vnow h + kWakeAheadUs \<in> set (wake_at h')"
      using port_run [OF assms(1-4), of dp e] e by auto
    have "run_prog ?hp (probe_channelWrite channel data d) (Some h) = ((True, probe_leave f), Some h')"
      using True e(1) f(1) by (simp add: probe_channelWrite_def)
    then show ?thesis using f e d(1) assms(4)
      by (auto simp: probe_leave_def probe_ready_def channel_checks_def passed_or)
  next
    case False
    then have "run_prog ?hp (probe_channelWrite channel data d) (Some h) = ((False, probe_leave e), Some h)"
      using e(1) by (simp add: probe_channelWrite_def)
    then show ?thesis using e d assms(2) False by (auto simp: probe_leave_def probe_ready_def)
  qed
qed

lemma call_in_memory:
  assumes "run_prog (device_port_calls co dp) (m (mem h)) (Some (enterDevice h)) = ((r, e), Some h1)"
  shows "call_device co (dp, in_memory m) h = Some (r, leaveDevice (h1\<lparr>mem := e\<rparr>))"
  using assms by (simp add: call_device_def run_device_def in_memory_def device_port_calls_def)

lemma call_device_kept:
  assumes "device_depth h = 0" "call_device co call h = Some (r, h')"
  shows "clock_kept h h' \<and> tick_device h' = tick_device h \<and> channel_handler h' = channel_handler h"
proof -
  let ?e = "enterDevice h"
  obtain h1 where h1: "run_device co call ?e = Some (r, h1)" "h' = leaveDevice h1"
    using assms(2) by (auto simp: call_device_def)
  have d: "device_depth ?e > 0" using assms(1) by simp
  have "device_frame ?e h1" "device_depth h1 = device_depth ?e"
    using frame_of_devices.run_device_law [OF device_frame_refl d, of co call] h1(1) by auto
  moreover have "wakes_ok ?e \<Longrightarrow> wakes_ok h1"
    using wakes_of_devices.run_device_law [OF _ d, of co call] h1(1) by auto
  ultimately show ?thesis using h1(2) assms(1)
    by (auto simp: clock_kept_def device_frame_def quiet_def leaveDevice_def enterDevice_def Let_def wakes_ok_def split: if_splits)
qed

lemma clock_ok_kept: "clock_ok h \<Longrightarrow> clock_kept h h' \<Longrightarrow> clock_ok h'"
  by (simp add: clock_ok_def clock_kept_def)

lemma direct_hosted:
  assumes app: "calm_app co" "bystander_app co" "passive_observers co" "probed co cb ch dp"
    and h: "clock_ok h" "hosted co cb ch h" "checked_by n k h" "vnow h < vnow h + kWakeAheadUs"
  shows "\<exists>h'. chanWrite co org channel data h = Some h' \<and> clock_ok h' \<and> tick_us h' = tick_us h \<and> vnow h' = vnow h \<and>
    hosted co cb ch h' \<and> checked_by n k h' \<and> keeps_checks h h' \<and> (channel = 0 \<longrightarrow> passed channel_checks (mem h'))"
proof -
  let ?line = "''chan.write chan='' @ decw channel @ '' data='' @ hexOf data 12"
  let ?h1 = "emit co org 0 ?line h"
  have q: "mem ?h1 = mem h" "formats ?h1 = formats h" "vnow ?h1 = vnow h" "wake_at ?h1 = wake_at h"
      "device_depth ?h1 = 0" "channel_handler ?h1 = Some ch" "tick_device ?h1 = Some cb"
    using h emit_mem [OF app(3)] by (simp_all add: clock_ok_def hosted_def)
  have e: "device_depth (enterDevice ?h1) > 0" "grants co (enterDevice ?h1)" "wake_at (enterDevice ?h1) = wake_at h"
      "vnow (enterDevice ?h1) = vnow h" "length (wake_at h) = kWakeSlots"
    using q h(1,2) grants_formats [of "enterDevice ?h1" h co]
    by (simp_all add: enterDevice_def Let_def clock_ok_def wakes_ok_def hosted_def)
  obtain applied e h2 where run: "run_prog (device_port_calls co dp) (probe_channelWrite channel data (mem ?h1)) (Some (enterDevice ?h1)) =
      ((applied, e), Some h2)" and f: "grants co h2" "probe_ready (vnow h) e" "pb_time_seen e = pb_time_seen (mem h)"
      "\<forall>c. passed c (mem h) \<longrightarrow> passed c e" "channel = 0 \<longrightarrow> passed channel_checks e"
      "pb_wake_asked e \<longrightarrow> vnow h < pb_wake_due_us e \<and> pb_wake_due_us e \<in> set (wake_at h2)"
    using channel_run [of "enterDevice ?h1" co "mem h" dp channel data] e h(2,4) q(1) by (auto simp: hosted_def)
  let ?h3 = "leaveDevice (h2\<lparr>mem := e\<rparr>)"
  have call: "call_device co (co_channel co ch channel data) ?h1 = Some (applied, ?h3)"
    using call_in_memory [where m = "probe_channelWrite channel data" and h = ?h1, OF run] app(4) by (simp add: probed_def)
  note kept = call_device_kept [OF q(5) call]
  let ?h4 = "if applied then ?h3 else diag co 0 (''diag.chan_reject chan='' @ decw channel @ '' len='' @ decu (length data)) ?h3"
  have diag_mem: "mem (diag co 0 s g) = mem g" for s g
    using emit_mem [OF app(3), of kDiag 0 s "g\<lparr>diag_count := diag_count g + 1\<rparr>"] by (simp add: diag_def)
  have four: "beside ?h3 ?h4" "clock_kept ?h3 ?h4"
    by (simp_all add: beside_def diag_mem clock_kept_def wakes_ok_def)
  have "clock_ok ?h1" by (rule clock_ok_quiet [OF emit_quiet, THEN iffD2]) (rule h(1))
  then have ok4: "clock_ok ?h4" using clock_ok_kept kept four(2) clock_kept_trans by blast
  have now: "vnow ?h3 = vnow h" "next_tick ?h3 = next_tick h" "tick_us ?h3 = tick_us h"
    using kept q by (simp_all add: clock_kept_def)
  have "hosted co cb ch ?h3"
    using kept q f now grants_formats [of ?h3 h2 co] by (simp add: hosted_def leaveDevice_def)
  then have "hosted co cb ch ?h4" using hosted_beside [OF four(1)] four(2) by (simp add: clock_kept_def)
  moreover obtain h5 where h5: "deliverDeferred co ?h4 = Some h5" "clock_kept ?h4 h5" using deliverDeferred_calm [OF app(1)] by blast
  moreover have b: "beside ?h4 h5" by (rule deliverDeferred_beside [OF app(2) h5(1)])
  ultimately have five: "hosted co cb ch h5" "clock_ok h5" "mem h5 = e" "clock_kept ?h3 h5"
    using hosted_beside [OF b] clock_ok_kept [OF ok4] four clock_kept_trans by (auto simp: clock_kept_def beside_def leaveDevice_def)
  have "chanWrite co org channel data h = Some h5"
    using call h5(1) q(5,6) by (simp add: chanWrite_def refuseReentrantCall_def Let_def)
  then show ?thesis using five now f h(3)
    by (auto simp: clock_kept_def checked_by_def keeps_checks_def)
qed

section \<open>Sessions\<close>

text \<open>What an application does with the probe bound: it waits, and writes to the channel.\<close>

datatype probe_use = Wait u32 | Direct u8 bytes

fun session :: "('c, 'm) core \<Rightarrow> origin \<Rightarrow> probe_use list \<Rightarrow> ('c, 'm) host \<Rightarrow> ('c, 'm) host option" where
  "session co org [] h = Some h"
| "session co org (Wait us # uses) h = Option.bind (onWait co us h) (session co org uses)"
| "session co org (Direct channel data # uses) h = Option.bind (chanWrite co org channel data h) (session co org uses)"

fun waited :: "probe_use list \<Rightarrow> nat" where
  "waited [] = 0"
| "waited (Wait us # uses) = unat us + waited uses"
| "waited (Direct channel data # uses) = waited uses"

lemma session_hosted:
  assumes app: "calm_app co" "bystander_app co" "passive_observers co" "probed co cb ch dp"
    and "clock_ok h" "hosted co cb ch h" "checked_by n (unat (tick_us h)) h"
    and "unat (vnow h) + waited uses + unat (tick_us h) + unat kWakeAheadUs < 2 ^ 64"
  shows "\<exists>h'. session co org uses h = Some h' \<and> clock_ok h' \<and> hosted co cb ch h' \<and> checked_by n (unat (tick_us h)) h' \<and>
    keeps_checks h h' \<and> ((\<exists>data. Direct 0 data \<in> set uses) \<longrightarrow> passed channel_checks (mem h')) \<and>
    (Wait kCoreLoopSliceUs \<notin> set uses \<longrightarrow> unat (vnow h') = unat (vnow h) + waited uses)"
  using assms(5-)
proof (induction uses arbitrary: h)
  case Nil
  then show ?case by (simp add: keeps_checks_def)
next
  case (Cons use uses)
  show ?case
  proof (cases use)
    case (Wait us)
    have serves: "serves co cb dp probe_advanceTo" using app(4) by (simp add: probed_def)
    obtain h1 where h1: "onWait co us h = Some h1" "clock_ok h1" "tick_us h1 = tick_us h" "hosted co cb ch h1"
        "checked_by n (unat (tick_us h)) h1" "keeps_checks h h1" "unat (vnow h1) \<le> unat (vnow h) + unat us"
        "us \<noteq> kCoreLoopSliceUs \<longrightarrow> unat (vnow h1) = unat (vnow h) + unat us"
      using wait_hosted [OF app(1,2) serves Cons.prems(1-3), of us] Cons.prems(4) Wait by auto
    then obtain h2 where "session co org uses h1 = Some h2" "clock_ok h2" "hosted co cb ch h2"
        "checked_by n (unat (tick_us h)) h2" "keeps_checks h1 h2"
        "(\<exists>data. Direct 0 data \<in> set uses) \<longrightarrow> passed channel_checks (mem h2)"
        "Wait kCoreLoopSliceUs \<notin> set uses \<longrightarrow> unat (vnow h2) = unat (vnow h1) + waited uses"
      using Cons.IH [of h1] Cons.prems(4) Wait by auto
    then show ?thesis using h1 Wait by (auto simp: keeps_checks_def)
  next
    case (Direct channel data)
    have "unat (vnow h) + unat kWakeAheadUs < 2 ^ 64" using Cons.prems(4) by simp
    then have "unat (vnow h + kWakeAheadUs) = unat (vnow h) + unat kWakeAheadUs" by (simp add: unat_add_no_overflow)
    then have later: "vnow h < vnow h + kWakeAheadUs" by (simp add: word_less_nat_alt kWakeAheadUs_def)
    obtain h1 where h1: "chanWrite co org channel data h = Some h1" "clock_ok h1" "tick_us h1 = tick_us h" "vnow h1 = vnow h"
        "hosted co cb ch h1" "checked_by n (unat (tick_us h)) h1" "keeps_checks h h1"
        "channel = 0 \<longrightarrow> passed channel_checks (mem h1)"
      using direct_hosted [OF app Cons.prems(1-3) later, of org channel data] by blast
    then obtain h2 where "session co org uses h1 = Some h2" "clock_ok h2" "hosted co cb ch h2"
        "checked_by n (unat (tick_us h)) h2" "keeps_checks h1 h2"
        "(\<exists>data. Direct 0 data \<in> set uses) \<longrightarrow> passed channel_checks (mem h2)"
        "Wait kCoreLoopSliceUs \<notin> set uses \<longrightarrow> unat (vnow h2) = unat (vnow h1) + waited uses"
      using Cons.IH [of h1] Cons.prems(4) Direct by auto
    then show ?thesis using h1 Direct by (auto simp: keeps_checks_def)
  qed
qed

section \<open>Properties\<close>

text \<open>C33: the modelled environment passes the conformance probe, whatever the application does with
  it. With the probe bound to the tick callback and the channel, every sequence of waits of any
  length, one-shot or slices, and of writes to any channel returns; the environment has then served
  the probe at moments of its own choosing, and the probe has found no violation: no call into a
  call, no time that runs back or disagrees with the port's, no wake served late, no borrowed
  buffer that changed, no frame or format answered against the contract. A wake it still waits
  for lies ahead and is held. Once it was written to on channel 0 and two ticks have passed it
  has made every required check and conforms. The handlers of the application return and keep
  clear of the clock and of the probe, and the registry can grant the probe's format.\<close>

theorem probe_conforms_on_environment:
  assumes "calm_app co" "bystander_app co" "passive_observers co" "probed co cb ch dp"
    and "clock_ok h" "tick_device h = Some cb" "channel_handler h = Some ch" "mem h = new_probe" "grants co h"
    and "unat (vnow h) + waited uses + unat (tick_us h) + unat kWakeAheadUs < 2 ^ 64"
  shows "\<exists>h'. session co org uses h = Some h' \<and> pb_violations (mem h') = 0 \<and>
    (pb_wake_asked (mem h') \<longrightarrow> vnow h' < pb_wake_due_us (mem h') \<and> pb_wake_due_us (mem h') \<in> set (wake_at h')) \<and>
    (Wait kCoreLoopSliceUs \<notin> set uses \<longrightarrow> unat (vnow h') = unat (vnow h) + waited uses) \<and>
    ((\<exists>data. Direct 0 data \<in> set uses) \<and> unat (next_tick h) + unat (tick_us h) \<le> unat (vnow h') \<longrightarrow> conforms (mem h'))"
proof -
  have "hosted co cb ch h" "checked_by (unat (next_tick h)) (unat (tick_us h)) h"
    using assms(6-9) by (simp_all add: hosted_def probe_ready_def new_probe_def checked_by_def)
  then obtain h' where h': "session co org uses h = Some h'" "clock_ok h'" "hosted co cb ch h'"
      "checked_by (unat (next_tick h)) (unat (tick_us h)) h'"
      "(\<exists>data. Direct 0 data \<in> set uses) \<longrightarrow> passed channel_checks (mem h')"
      "Wait kCoreLoopSliceUs \<notin> set uses \<longrightarrow> unat (vnow h') = unat (vnow h) + waited uses"
    using session_hosted [OF assms(1-5) _ _ assms(10), where org = org] by blast
  have "conforms (mem h')" if "\<exists>data. Direct 0 data \<in> set uses" "unat (next_tick h) + unat (tick_us h) \<le> unat (vnow h')"
  proof -
    have "unat (vnow h') < unat (next_tick h')" using h'(2) by (simp add: clock_ok_def word_less_nat_alt)
    then have "passed kRequiredChecks (mem h')"
      using that h'(4,5) by (simp add: checked_by_def required_checks channel_checks_def port_checks_def passed_or)
    then show ?thesis using h'(3) by (simp add: conforms_def passed_def hosted_def probe_ready_def)
  qed
  then show ?thesis using h' by (auto simp: hosted_def probe_ready_def)
qed

text \<open>The probe alone in an environment.\<close>

definition probe_core :: "(u8 \<Rightarrow> u8, probe) core" where
  "probe_core = (bound_core new_device_port probe_device)
     \<lparr>co_channel := \<lambda>cb channel data. (new_device_port, in_memory (probe_channelWrite channel data))\<rparr>"

definition probe_host :: "(u8 \<Rightarrow> u8, probe) host" where
  "probe_host = (init_host (\<lambda>_. 0) new_probe)\<lparr>tick_device := Some (0, 0), channel_handler := Some (0, 0)\<rparr>"

lemma probe_core_ok:
  "calm_app probe_core" "bystander_app probe_core" "passive_observers probe_core" "probed probe_core cb ch new_device_port"
proof -
  have "beside h h'" if "deliver_one probe_core e h = Some h'" for e h h'
    using that by (auto simp: deliver_one_def probe_core_def bound_core_def beside_def split: deferred.splits option.splits)
  then show "bystander_app probe_core" by (simp add: bystander_app_def probe_core_def bound_core_def)
  show "calm_app probe_core"
    unfolding calm_app_def by (auto simp: deliver_one_def probe_core_def bound_core_def split: deferred.split option.split)
qed (simp_all add: passive_observers_def probed_def serves_def probe_core_def bound_core_def probe_device_def)

theorem probe_conforms_on_environment_witness:
  "\<exists>h'. session probe_core kDir [Wait 700, Direct 0 [1, 2], Wait 1800, Direct 3 [], Wait 0] probe_host = Some h' \<and>
     unat (vnow h') = 2500 \<and> conforms (mem h')"
proof -
  let ?uses = "[Wait 700, Direct 0 [1, 2], Wait 1800, Direct 3 [], Wait 0]"
  have "clock_ok probe_host" by (simp add: probe_host_def clock_ok_def wakes_ok_def init_host_def kWakeSlots_def)
  moreover have "find_format ''acme.probe.1'' (formats probe_host) = None" "free_format (formats probe_host) = Some 0"
    by (simp_all add: find_format_def find_upt_None free_format_def find_upt_Some probe_host_def init_host_def
        empty_format_def kMaxFormats_def)
  then have "grants probe_core probe_host"
    by (simp add: grants_def registerFormat_def kFormatNameMaxLength_def slot_id_def)
       (simp add: formats_ok_def probe_host_def init_host_def empty_format_def)
  moreover have "waited ?uses = 2500" "vnow probe_host = 0" "tick_us probe_host = 1000" "next_tick probe_host = 1000"
      "tick_device probe_host = Some (0, 0)" "channel_handler probe_host = Some (0, 0)" "mem probe_host = new_probe"
    by (simp_all add: probe_host_def init_host_def)
  moreover have "Wait kCoreLoopSliceUs \<notin> set ?uses" by (simp add: kCoreLoopSliceUs_def)
  ultimately show ?thesis
    using probe_conforms_on_environment [OF probe_core_ok(1-3) probe_core_ok(4), of probe_host "(0, 0)" "(0, 0)" ?uses kDir]
    by (auto simp: kWakeAheadUs_def)
qed

end
