(* ===== verification/Spec2Isabelle.thy ===== *)
theory Spec2Isabelle
  imports Host_Contract Storage_Properties Chunk_Model Tape_Model Sht30_Model Modbus_Model Imu_Model
    Conformance_Probe Qmp6988_Model Serial_Units I2c_Units Rtc_Model
    Radio_Units Wire_Devices Preset_Volumes Capture_Replay Probe_Environment
begin

text \<open>
  EmbedBench runs an Arduino sketch on a host against models of the parts it is wired to, on a
  virtual clock, and records what crosses the boundary as a trace of events. This development
  models the C++ of the repository: the device interface, the host environment, the catalog of
  device models, the recorders for real boards and the replay tool.

  \<^bold>\<open>The parts and how they meet.\<close> \<open>src/embedbench_device.h\<close> is the boundary: a \<open>Device\<close> has methods
  an environment calls, a \<open>HostPort\<close> has the calls a device makes. \<open>src/embedbench_host.cpp\<close> is one
  environment: it hooks the bus, pin, serial and time calls of the sketch, hands them to the
  device bound to the address or pin, brackets every device call so that no device is entered
  twice, holds back what a device causes until it has returned, drives ticks and wakes while the
  sketch waits, and records an event for each crossing in a buffer of bounded size that folds
  repetition. The files of \<open>devices/src\<close> are devices. \<open>capture/src\<close> records the same crossings on a
  board; \<open>devices/tools/linereplay_main.cpp\<close> plays such a record into one device.

  \<^bold>\<open>How code is modelled.\<close> A method of a device is a tree of calls to its port (\<open>prog\<close> of
  \<open>Device_Interface\<close>) with the answer and the new state at its leaves; \<open>run_prog\<close> gives the calls a
  meaning over a record of functions (\<open>host_port\<close>): the environment itself (\<open>device_port_calls\<close> of
  \<open>Device_Port\<close>), a bench that writes everything down (\<open>Device_Calls\<close>), the port of a replay
  (\<open>Line_Replay\<close>). The state of a device or of the host is a record with the fields of the class;
  bytes, half words and times are words of their width, sizes and indices natural numbers. Code
  that need not return is an option: the host functions that reach an interrupt handler, a
  director or a loop of the clock are \<open>None\<close> when they never come back. Callbacks of the
  application and the Arduino core behind the environment are parameters (\<open>core\<close> of
  \<open>Host_State\<close>); statements about whole runs name what they ask of them (\<open>app_ok\<close>,
  \<open>app_accounts\<close>, \<open>calm_app\<close>, \<open>bystander_app\<close>).

  \<^bold>\<open>The theories.\<close>
  \<^item> \<open>EB_Prelude\<close>: machine integers, formatted output, lemmas on lists and words.
  \<^item> \<open>Device_Interface\<close>, \<open>Device_Calls\<close>: \<open>embedbench_device.h\<close>; guarded calls, loops with fuel, the bench.
  \<^item> \<open>Payload_Labels\<close>: \<open>hexOf\<close>, \<open>crc8\<close>, \<open>payloadLabel\<close>, \<open>bytesLabel\<close>, \<open>shapeOf\<close> of \<open>embedbench_host.cpp\<close>.
  \<^item> \<open>Event_Record\<close>, \<open>Trace_Recorder\<close>, \<open>Trace_Log\<close>: the two tiers of folding, \<open>vrecord\<close> with
    truncation and the fan-out to listeners, and what the log of a run accounts for.
  \<^item> \<open>Line_Map\<close>, \<open>Host_State\<close>, \<open>Bounded_Queue\<close>, \<open>Deferral\<close>: \<open>DevicePort\<close> maps, \<open>struct State\<close>,
    the bracket around device code and the queue of held effects.
  \<^item> \<open>Frame_Routing\<close>, \<open>Device_Port\<close>, \<open>Host_Clock\<close>, \<open>Bus_Hooks\<close>, \<open>Run_Window\<close>: formats and frames, the
    sinks behind a port, ticks, wakes and \<open>onWait\<close>, the hooks of the buses, windows and trace text.
  \<^item> \<open>Host_Contract\<close>: the steps an environment can take; a locale (\<open>host_law\<close>) in which a law of the
    records and of device code is shown to be kept by every step, interpreted for the bounds of
    the environment and for the books of the trace.
  \<^item> \<open>Storage_Contract\<close>, \<open>Flash_Model\<close>, \<open>SdCard_Model\<close>, \<open>Storage_Properties\<close>: the delayed store and the
    two parts that implement it; \<open>Sd_Images\<close>, \<open>Preset_Volumes\<close>: the preset images and the reader of
    \<open>tests/units_sdcard/fat12_reader.h\<close> on them.
  \<^item> \<open>Regtable_Model\<close>, \<open>Qmp6988_Model\<close>: \<open>regtable_model\<close> as an abstract register map, and the pressure
    sensor built on it.
  \<^item> \<open>Chunk_Model\<close>, \<open>Tape_Model\<close>, \<open>Sht30_Model\<close>, \<open>Modbus_Model\<close>, \<open>Imu_Model\<close>, \<open>Rtc_Model\<close>: the device of
    that name in \<open>devices/src\<close>.
  \<^item> \<open>Line_Units\<close> (angle, button, light, pir, relay, sonic), \<open>Serial_Units\<close> (gps, modem), \<open>I2c_Units\<close>
    (temp, regmap, env sensor, encoder, faulty, codec), \<open>Radio_Units\<close> (ir, lora, uwb).
  \<^item> \<open>Environment_Devices\<close>: a device bound to the tick callback of the modelled environment and
    served while the sketch waits, in one-shot waits and in slices; devices that act once at a time
    of their own (the alarm clock, the radio) drive their pin at that time and not before.
  \<^item> \<open>Wire_Devices\<close>: sequences of transfers through the bus hooks as calls of the device alone, for
    every I2C device of the catalog; a register-map device written and read back over the bus.
  \<^item> \<open>Conformance_Probe\<close>, \<open>Probe_Environment\<close>: \<open>conformance_probe\<close> and what a port has to do to pass it;
    the probe bound to the tick callback and the channel of the environment, served by \<open>onWait\<close> and
    written to by \<open>chanWrite\<close>, passes in every session.
  \<^item> \<open>Line_Replay\<close>, \<open>Capture_Recorders\<close>, \<open>Capture_Replay\<close>: the replay tool, the four recorders of
    \<open>capture/src\<close> (their lines without the CR LF of \<open>println\<close>), and that what they print is what the
    tool reads, with the line end stripped or not.

  \<^bold>\<open>What the lemmas show.\<close> For the host: no device is entered twice, every event of a run, in its
  window or after it, is recorded, folded, counted as dropped or counted as outside, folding is lossless in its first tier and frees the most
  in its second, a wait ends at its time with every tick and wake served at its moment, wakes
  are granted exactly when there is room, frames and formats are accepted exactly when they are
  sound, effects are delivered in order. For the devices: reads give back what was written,
  refusals change nothing, loops of \<open>advanceTo\<close> end and are as good as any number of turns, late
  service loses only what the code says it loses. Contracts several parts share are locales
  (\<open>bounded_queue\<close>, \<open>delayed_store\<close>, \<open>byte_stream\<close>, \<open>conforming_port\<close>, \<open>due_queue\<close>,
  \<open>one_shot_device\<close>, \<open>host_law\<close>, those of
  \<open>Device_Port\<close> and \<open>Frame_Routing\<close>), each interpreted on the model. Where the code does not do
  what its comments or documents say, a lemma states what it does.

  \<^bold>\<open>Fuel.\<close> \<open>chunk_loop\<close> has \<open>kMaxMessage\<close> turns, since each sends a byte of a message of at most that
  many; the loop of the tape has the steps left; those of the IMU and the QMP6988 the number of
  samples and conversions due, that of the remote 256, above its 8-bit count; the GPS receiver
  has one turn, for its next sentence is due after the present. Lemmas named \<open>_enough\<close> (and
  \<open>gps_one_turn\<close>, \<open>ir_loop_stops\<close>) say that more turns change nothing, short of the end of the 64-bit clock.

  \<^bold>\<open>Not modelled.\<close> The Arduino core the environment runs on and the bus classes of a board, which
  are not part of the repository, are parameters. The Python tools write source files and compare
  text. The test programs and the second environment in \<open>tests/common_env\<close> use the library rather
  than implement it. Of the replay tool the texts of its error messages are left out, of the
  recorders \<open>setOutput\<close> and the counters, of the host the functions that only return a constant or
  a field (\<open>embedbench_internals.h\<close>).
\<close>

end
